(* ===== verification/Prelude.thy ===== *)
theory Prelude
  imports Main "HOL-Library.AList" "HOL-Library.Word"
begin

text \<open>
  Shared vocabulary of the development.

  \<^item> Machine counters. The crates keep byte counts, identifiers and epochs in
    \<open>u64\<close>/\<open>u32\<close>. They are natural numbers here, with every operation of the code
    written out: \<open>sat_add64\<close> is \<open>saturating_add\<close>, truncated subtraction is
    \<open>saturating_sub\<close>, and \<open>wadd64\<close>/\<open>wsub64\<close> are the plain \<open>+\<close>/\<open>-\<close> of the release profile,
    which wrap.  Code that works on bits uses \<open>w word\<close> instead.
  \<^item> Fallible operations on \<open>&mut self\<close>. A Rust method that returns a \<open>Result\<close> and
    mutates its receiver is a state function returning the result \<open>and\<close> the state it
    leaves behind, so that what an early return leaves half done is visible.
  \<^item> \<open>BTreeMap\<close> and \<open>HashMap\<close>. A \<open>BTreeMap\<close> is an association list sorted by key, so
    iteration order is the order of the list; a \<open>HashMap\<close> is an association list whose
    order stands for the unspecified iteration order.  Both satisfy the interface
    \<open>map_adt\<close>.
\<close>

subsection \<open>Collections of rules\<close>

named_theorems step_simps "unfolding rules for the state operations"
named_theorems keeps_intros "introduction rules for invariant preservation"

subsection \<open>Machine counters\<close>

definition u32_max :: nat where "u32_max = 2 ^ 32 - 1"
definition u64_max :: nat where "u64_max = 2 ^ 64 - 1"

definition sat_add64 :: "nat \<Rightarrow> nat \<Rightarrow> nat" where
  "sat_add64 a b = min (a + b) u64_max"

definition sat_add32 :: "nat \<Rightarrow> nat \<Rightarrow> nat" where
  "sat_add32 a b = min (a + b) u32_max"

definition wadd64 :: "nat \<Rightarrow> nat \<Rightarrow> nat" where
  "wadd64 a b = (a + b) mod 2 ^ 64"

definition wadd32 :: "nat \<Rightarrow> nat \<Rightarrow> nat" where
  "wadd32 a b = (a + b) mod 2 ^ 32"

definition wsub64 :: "nat \<Rightarrow> nat \<Rightarrow> nat" where
  "wsub64 a b = (a + (2 ^ 64 - b)) mod 2 ^ 64"

definition wsub32 :: "nat \<Rightarrow> nat \<Rightarrow> nat" where
  "wsub32 a b = (a + (2 ^ 32 - b)) mod 2 ^ 32"

definition wmul64 :: "nat \<Rightarrow> nat \<Rightarrow> nat" where
  "wmul64 a b = (a * b) mod 2 ^ 64"

lemma sat_add64_le: "sat_add64 a b \<le> u64_max"
  by (simp add: sat_add64_def)

lemma sat_add64_exact: "a + b \<le> u64_max \<Longrightarrow> sat_add64 a b = a + b"
  by (simp add: sat_add64_def)

lemma sat_add64_le_bound: "c < u64_max \<Longrightarrow> sat_add64 a b \<le> c \<Longrightarrow> sat_add64 a b = a + b"
  by (simp add: sat_add64_def min_def split: if_splits)

lemma wadd64_exact: "a + b < 2 ^ 64 \<Longrightarrow> wadd64 a b = a + b"
  by (simp add: wadd64_def)

lemma wadd32_exact: "a + b < 2 ^ 32 \<Longrightarrow> wadd32 a b = a + b"
  by (simp add: wadd32_def)

lemma wsub64_exact: "b \<le> a \<Longrightarrow> a < 2 ^ 64 \<Longrightarrow> wsub64 a b = a - b"
proof -
  assume ab: "b \<le> a" "a < 2 ^ 64"
  then have "a + (2 ^ 64 - b) = (a - b) + 2 ^ 64" by simp
  then have "wsub64 a b = (a - b) mod 2 ^ 64" by (simp only: wsub64_def mod_add_self2)
  with ab show ?thesis by simp
qed

lemma wsub32_exact: "b \<le> a \<Longrightarrow> a < 2 ^ 32 \<Longrightarrow> wsub32 a b = a - b"
proof -
  assume ab: "b \<le> a" "a < 2 ^ 32"
  then have "a + (2 ^ 32 - b) = (a - b) + 2 ^ 32" by simp
  then have "wsub32 a b = (a - b) mod 2 ^ 32" by (simp only: wsub32_def mod_add_self2)
  with ab show ?thesis by simp
qed

lemma wmul64_exact: "a * b < 2 ^ 64 \<Longrightarrow> wmul64 a b = a * b"
  by (simp add: wmul64_def)

lemma wadd64_less [simp]: "wadd64 a b < 2 ^ 64"
  by (simp add: wadd64_def)

text \<open>\<open>u64::div_ceil\<close> and \<open>usize::div_ceil\<close> (the code never calls them with a zero divisor).\<close>

definition div_ceil :: "nat \<Rightarrow> nat \<Rightarrow> nat" where
  "div_ceil a b = (if a mod b = 0 then a div b else a div b + 1)"

lemma div_ceil_mult_bounds:
  assumes "0 < b"
  shows "a \<le> div_ceil a b * b \<and> div_ceil a b * b < a + b"
proof -
  obtain q r where qr: "a div b = q" "a mod b = r" "a = q * b + r" "r < b"
    using assms div_mult_mod_eq [of a b, symmetric] mod_less_divisor [OF assms, of a] by blast
  show ?thesis unfolding div_ceil_def qr(1,2) using qr(3,4) by simp
qed

lemmas div_ceil_mult_ge = div_ceil_mult_bounds [THEN conjunct1]
lemmas div_ceil_mult_less = div_ceil_mult_bounds [THEN conjunct2]

lemma div_ceil_pos: "0 < a \<Longrightarrow> 0 < b \<Longrightarrow> 0 < div_ceil a b"
  by (auto simp: div_ceil_def)

text \<open>\<open>Iterator::min_by_key\<close>: the first of the minimal elements.\<close>

fun min_by_key :: "('a \<Rightarrow> 'b::linorder) \<Rightarrow> 'a list \<Rightarrow> 'a option" where
  "min_by_key f [] = None"
| "min_by_key f (x # xs) = (case min_by_key f xs of
     None \<Rightarrow> Some x | Some y \<Rightarrow> if f x \<le> f y then Some x else Some y)"

lemma min_by_key_None [simp]: "min_by_key f xs = None \<longleftrightarrow> xs = []"
  by (cases xs) (auto split: option.splits)

lemma min_by_key_min:
  "min_by_key f xs = Some x \<Longrightarrow> x \<in> set xs \<and> (\<forall>y\<in>set xs. f x \<le> f y)"
  by (induction xs arbitrary: x) (auto split: option.splits if_splits)

subsection \<open>Decimal rendering, as \<open>format!("{}", n)\<close>\<close>

fun dec_digits :: "nat \<Rightarrow> string" where
  "dec_digits n = (if n < 10 then [char_of (48 + n)]
     else dec_digits (n div 10) @ [char_of (48 + n mod 10)])"

declare dec_digits.simps [simp del]

lemma dec_digits_nonempty [simp]: "dec_digits n \<noteq> []"
  by (subst dec_digits.simps) simp

subsection \<open>Strings\<close>

text \<open>\<open>str::to_ascii_lowercase\<close>, \<open>str::contains\<close> and \<open>[..].join(sep)\<close>.\<close>

definition ascii_lower :: "string \<Rightarrow> string" where
  "ascii_lower = map (\<lambda>c. let n = of_char c :: nat in if 65 \<le> n \<and> n \<le> 90 then char_of (n + 32) else c)"

fun str_contains :: "string \<Rightarrow> string \<Rightarrow> bool" where
  "str_contains needle [] = (needle = [])"
| "str_contains needle (c # cs) = (take (length needle) (c # cs) = needle \<or> str_contains needle cs)"

definition hex_digit :: "nat \<Rightarrow> char" where
  "hex_digit n = ''0123456789abcdef'' ! n"

fun str_join :: "string \<Rightarrow> string list \<Rightarrow> string" where
  "str_join sep [] = []"
| "str_join sep [x] = x"
| "str_join sep (x # xs) = x @ sep @ str_join sep xs"

subsection \<open>Results that keep the state\<close>

type_synonym ('s, 'e, 'a) op = "'s \<Rightarrow> ('e + 'a) \<times> 's"

definition okR :: "'a \<Rightarrow> ('s, 'e, 'a) op" where
  "okR x s = (Inr x, s)"

definition errR :: "'e \<Rightarrow> ('s, 'e, 'a) op" where
  "errR e s = (Inl e, s)"

text \<open>The \<open>?\<close> operator: stop at the first error, keeping the state reached so far.\<close>

definition bindR :: "('s, 'e, 'a) op \<Rightarrow> ('a \<Rightarrow> ('s, 'e, 'b) op) \<Rightarrow> ('s, 'e, 'b) op" where
  "bindR m f s = (case m s of (Inl e, s') \<Rightarrow> (Inl e, s') | (Inr x, s') \<Rightarrow> f x s')"

definition thenR :: "('s, 'e, 'a) op \<Rightarrow> ('s, 'e, 'b) op \<Rightarrow> ('s, 'e, 'b) op" where
  "thenR m k = bindR m (\<lambda>_. k)"

definition guardR :: "('s \<Rightarrow> bool) \<Rightarrow> 'e \<Rightarrow> ('s, 'e, unit) op" where
  "guardR b e s = (if b s then (Inr (), s) else (Inl e, s))"

definition readR :: "('s \<Rightarrow> 'e + 'a) \<Rightarrow> ('s, 'e, 'a) op" where
  "readR f s = (f s, s)"

definition getsR :: "('s \<Rightarrow> 'a) \<Rightarrow> ('s, 'e, 'a) op" where
  "getsR f s = (Inr (f s), s)"

definition modR :: "('s \<Rightarrow> 's) \<Rightarrow> ('s, 'e, unit) op" where
  "modR f s = (Inr (), f s)"

text \<open>Run an operation on a component of the state.\<close>

definition zoomR :: "('s \<Rightarrow> 't) \<Rightarrow> ('t \<Rightarrow> 's \<Rightarrow> 's) \<Rightarrow> ('t, 'e, 'a) op \<Rightarrow> ('s, 'e, 'a) op" where
  "zoomR g p m s = (case m (g s) of (r, t) \<Rightarrow> (r, p t s))"

text \<open>A \<open>match\<close> on the result of an operation, continuing in the state it left.\<close>

definition matchR ::
  "('s, 'e, 'a) op \<Rightarrow> ('a \<Rightarrow> ('s, 'e, 'b) op) \<Rightarrow> ('e \<Rightarrow> ('s, 'e, 'b) op) \<Rightarrow> ('s, 'e, 'b) op" where
  "matchR m f h s = (case m s of (Inl e, s') \<Rightarrow> h e s' | (Inr x, s') \<Rightarrow> f x s')"

lemmas op_defs = matchR_def okR_def errR_def bindR_def thenR_def guardR_def readR_def getsR_def
  modR_def zoomR_def

definition is_ok :: "('e + 'a) \<times> 's \<Rightarrow> bool" where
  "is_ok r = (case fst r of Inl _ \<Rightarrow> False | Inr _ \<Rightarrow> True)"

lemma is_ok_simps [simp]: "is_ok (Inr x, s)" "\<not> is_ok (Inl e, s)"
  by (simp_all add: is_ok_def)

lemma bindR_InrE:
  assumes "bindR m f s = (Inr y, s'')"
  obtains x s' where "m s = (Inr x, s')" "f x s' = (Inr y, s'')"
  using assms by (auto simp: bindR_def split: prod.splits sum.splits)

lemma thenR_InrE:
  assumes "thenR m k s = (Inr y, s'')"
  obtains x s' where "m s = (Inr x, s')" "k s' = (Inr y, s'')"
  using assms unfolding thenR_def by (elim bindR_InrE)

lemma bindR_assoc: "bindR (bindR m f) g = bindR m (\<lambda>x. bindR (f x) g)"
  by (rule ext) (simp add: bindR_def split: prod.splits sum.splits)

subsection \<open>Preservation of an invariant by an operation\<close>

text \<open>
  \<open>keeps I m\<close>: from a state satisfying \<open>I\<close>, the state \<open>m\<close> leaves behind satisfies \<open>I\<close>
  again, whether \<open>m\<close> returned a value or an error.
\<close>

definition keeps :: "('s \<Rightarrow> bool) \<Rightarrow> ('s, 'e, 'a) op \<Rightarrow> bool" where
  "keeps I m \<longleftrightarrow> (\<forall>s. I s \<longrightarrow> I (snd (m s)))"

lemma keepsI: "(\<And>s. I s \<Longrightarrow> I (snd (m s))) \<Longrightarrow> keeps I m"
  by (simp add: keeps_def)

lemma keepsD: "keeps I m \<Longrightarrow> I s \<Longrightarrow> I (snd (m s))"
  by (simp add: keeps_def)

lemma keeps_okR [keeps_intros]: "keeps I (okR x)"
  by (simp add: keeps_def okR_def)

lemma keeps_errR [keeps_intros]: "keeps I (errR e)"
  by (simp add: keeps_def errR_def)

lemma keeps_bindR [keeps_intros]:
  "keeps I m \<Longrightarrow> (\<And>x. keeps I (f x)) \<Longrightarrow> keeps I (bindR m f)"
  by (auto simp: keeps_def bindR_def split: prod.splits sum.splits; metis snd_conv)

lemma keeps_thenR [keeps_intros]: "keeps I m \<Longrightarrow> keeps I k \<Longrightarrow> keeps I (thenR m k)"
  unfolding thenR_def by (rule keeps_bindR)

lemma keeps_guardR [keeps_intros]: "keeps I (guardR b e)"
  by (simp add: keeps_def guardR_def)

lemma keeps_readR [keeps_intros]: "keeps I (readR f)"
  by (simp add: keeps_def readR_def)

lemma keeps_getsR [keeps_intros]: "keeps I (getsR f)"
  by (simp add: keeps_def getsR_def)

lemma keeps_modR [keeps_intros]: "(\<And>s. I s \<Longrightarrow> I (f s)) \<Longrightarrow> keeps I (modR f)"
  by (simp add: keeps_def modR_def)

lemma keeps_zoomR [keeps_intros]:
  "keeps J m \<Longrightarrow> (\<And>s. I s \<Longrightarrow> J (g s)) \<Longrightarrow> (\<And>s t. I s \<Longrightarrow> J t \<Longrightarrow> I (p t s)) \<Longrightarrow> keeps I (zoomR g p m)"
  by (auto simp: keeps_def zoomR_def split: prod.splits) (metis snd_conv)

subsection \<open>Symbolic execution of operations\<close>

text \<open>
  \<open>wp m Q E s\<close>: running \<open>m\<close> from \<open>s\<close> ends in a value and state satisfying \<open>Q\<close>, or in an
  error and a state satisfying \<open>E\<close>.  The equations below push it through an operation.
\<close>

definition wp :: "('s, 'e, 'a) op \<Rightarrow> ('a \<Rightarrow> 's \<Rightarrow> bool) \<Rightarrow> ('e \<Rightarrow> 's \<Rightarrow> bool) \<Rightarrow> 's \<Rightarrow> bool" where
  "wp m Q E s = (case m s of (Inl e, s') \<Rightarrow> E e s' | (Inr x, s') \<Rightarrow> Q x s')"

lemma wp_okR [step_simps]: "wp (okR x) Q E s = Q x s"
  by (simp add: wp_def okR_def)

lemma wp_errR [step_simps]: "wp (errR e) Q E s = E e s"
  by (simp add: wp_def errR_def)

lemma wp_bindR [step_simps]: "wp (bindR m f) Q E s = wp m (\<lambda>x. wp (f x) Q E) E s"
  by (simp add: wp_def bindR_def split: prod.splits sum.splits)

lemma wp_thenR [step_simps]: "wp (thenR m k) Q E s = wp m (\<lambda>_. wp k Q E) E s"
  by (simp add: thenR_def wp_bindR)

lemma wp_matchR [step_simps]:
  "wp (matchR m f h) Q E s = wp m (\<lambda>x. wp (f x) Q E) (\<lambda>e. wp (h e) Q E) s"
  by (simp add: wp_def matchR_def split: prod.splits sum.splits)

lemma wp_if [step_simps]: "wp (if b then m else k) Q E s = (if b then wp m Q E s else wp k Q E s)"
  by simp

lemma wp_guardR [step_simps]: "wp (guardR b e) Q E s = (if b s then Q () s else E e s)"
  by (simp add: wp_def guardR_def)

lemma wp_readR [step_simps]:
  "wp (readR f) Q E s = (case f s of Inl e \<Rightarrow> E e s | Inr x \<Rightarrow> Q x s)"
  by (simp add: wp_def readR_def split: sum.splits)

lemma wp_getsR [step_simps]: "wp (getsR f) Q E s = Q (f s) s"
  by (simp add: wp_def getsR_def)

lemma wp_modR [step_simps]: "wp (modR f) Q E s = Q () (f s)"
  by (simp add: wp_def modR_def)

lemma wp_zoomR [step_simps]:
  "wp (zoomR g p m) Q E s = wp m (\<lambda>x t. Q x (p t s)) (\<lambda>e t. E e (p t s)) (g s)"
  by (simp add: wp_def zoomR_def split: prod.splits sum.splits)

text \<open>Evaluate the state an operation starts from before looking at what follows it.\<close>

lemma wp_weak_cong: "s = s' \<Longrightarrow> wp m Q E s = wp m Q E s'"
  by simp

lemma wp_mono:
  "wp m Q E s \<Longrightarrow> (\<And>x s'. Q x s' \<Longrightarrow> Q' x s') \<Longrightarrow> (\<And>e s'. E e s' \<Longrightarrow> E' e s') \<Longrightarrow> wp m Q' E' s"
  by (auto simp: wp_def split: prod.splits sum.splits)

lemma wp_any: "(\<And>x s'. Q x s') \<Longrightarrow> (\<And>e s'. E e s') \<Longrightarrow> wp m Q E s"
  by (simp add: wp_def split: prod.splits sum.splits)

lemma wp_conj:
  "wp m Q E s \<Longrightarrow> wp m Q' E' s \<Longrightarrow> wp m (\<lambda>x s. Q x s \<and> Q' x s) (\<lambda>e s. E e s \<and> E' e s) s"
  by (auto simp: wp_def split: prod.splits sum.splits)

lemma keeps_wp: "keeps I m \<longleftrightarrow> (\<forall>s. I s \<longrightarrow> wp m (\<lambda>_. I) (\<lambda>_. I) s)"
proof -
  have "wp m (\<lambda>_. I) (\<lambda>_. I) s = I (snd (m s))" for s
    by (simp add: wp_def split: prod.splits sum.splits)
  then show ?thesis by (simp add: keeps_def)
qed

lemma wp_okD: "wp m Q E s \<Longrightarrow> m s = (Inr x, s') \<Longrightarrow> Q x s'"
  by (simp add: wp_def)

lemma wp_errD: "wp m Q E s \<Longrightarrow> m s = (Inl e, s') \<Longrightarrow> E e s'"
  by (simp add: wp_def)

text \<open>Errors that leave the state untouched.\<close>

definition atomic_op :: "('s, 'e, 'a) op \<Rightarrow> bool" where
  "atomic_op m \<longleftrightarrow> (\<forall>s e s'. m s = (Inl e, s') \<longrightarrow> s' = s)"

subsection \<open>Interface of finite maps\<close>

locale map_adt =
  fixes emp :: "'m"
    and get :: "'m \<Rightarrow> 'k \<Rightarrow> 'v option"
    and put :: "'k \<Rightarrow> 'v \<Rightarrow> 'm \<Rightarrow> 'm"
    and del :: "'k \<Rightarrow> 'm \<Rightarrow> 'm"
    and ordered :: "'m \<Rightarrow> bool"
  assumes get_emp: "get emp k = None"
    and get_put: "get (put k v m) = (get m)(k \<mapsto> v)"
    and get_del: "get (del k m) = (get m)(k := None)"
    and ordered_emp: "ordered emp"
    and ordered_put: "ordered m \<Longrightarrow> ordered (put k v m)"
    and ordered_del: "ordered m \<Longrightarrow> ordered (del k m)"
begin

lemma get_put_same: "get (put k v m) k = Some v"
  by (simp add: get_put)

lemma get_put_other: "k' \<noteq> k \<Longrightarrow> get (put k v m) k' = get m k'"
  by (simp add: get_put)

lemma get_del_same: "get (del k m) k = None"
  by (simp add: get_del)

lemma del_put: "get m k = None \<Longrightarrow> get (del k (put k v m)) = get m"
  by (simp add: get_put get_del fun_upd_idem_iff)

lemma put_put: "get (put k v (put k w m)) = get (put k v m)"
  by (simp add: get_put)

end

subsection \<open>\<open>HashMap\<close>: an association list in iteration order\<close>

abbreviation hget :: "('k \<times> 'v) list \<Rightarrow> 'k \<Rightarrow> 'v option" where "hget \<equiv> map_of"
abbreviation hput :: "'k \<Rightarrow> 'v \<Rightarrow> ('k \<times> 'v) list \<Rightarrow> ('k \<times> 'v) list" where "hput \<equiv> AList.update"
abbreviation hdel :: "'k \<Rightarrow> ('k \<times> 'v) list \<Rightarrow> ('k \<times> 'v) list" where "hdel \<equiv> AList.delete"
abbreviation hdistinct :: "('k \<times> 'v) list \<Rightarrow> bool" where "hdistinct m \<equiv> distinct (map fst m)"

lemma hget_hput [simp]: "hget (hput k v m) = (hget m)(k \<mapsto> v)"
  by (rule update_conv')

lemma hget_hdel [simp]: "hget (hdel k m) = (hget m)(k := None)"
  by (rule delete_conv')

interpretation hm: map_adt "[] :: ('k \<times> 'v) list" hget hput hdel hdistinct
  by unfold_locales (simp_all add: distinct_update distinct_delete)

lemma hdistinct_hput [simp, intro]: "hdistinct m \<Longrightarrow> hdistinct (hput k v m)"
  by (rule hm.ordered_put)

lemma hdistinct_hdel [simp, intro]: "hdistinct m \<Longrightarrow> hdistinct (hdel k m)"
  by (rule hm.ordered_del)

lemma set_hput_subset: "set (hput k v m) \<subseteq> insert (k, v) (set m)"
  by (induction m) auto

lemma set_hdel_subset: "set (hdel k m) \<subseteq> set m"
  by (auto simp: AList.delete_eq)

lemma hget_in_set: "hget m k = Some v \<Longrightarrow> (k, v) \<in> set m"
  by (rule map_of_SomeD)

lemma in_set_hget: "hdistinct m \<Longrightarrow> (k, v) \<in> set m \<Longrightarrow> hget m k = Some v"
  by simp

lemma length_hdel_less: "hget m k = Some v \<Longrightarrow> length (hdel k m) < length m"
proof -
  assume "hget m k = Some v"
  then have "(k, v) \<in> set m" by (rule map_of_SomeD)
  then show ?thesis unfolding AList.delete_eq by (rule length_filter_less) simp
qed

text \<open>Sums over the entries of a map, by key and value.\<close>

lemma sum_entries_hdel:
  assumes "hdistinct m" "hget m k = Some v"
  shows "sum_list (map (f :: _ \<Rightarrow> nat) m) = f (k, v) + sum_list (map f (hdel k m))"
  using assms
proof (induction m)
  case (Cons a m)
  obtain k' v' where a: "a = (k', v')" by force
  show ?case
  proof (cases "k' = k")
    case True
    with Cons.prems a have "hget m k = None" by (simp add: map_of_eq_None_iff)
    then have "hdel k m = m" by (simp add: delete_idem map_of_eq_None_iff)
    with True Cons.prems a show ?thesis by simp
  next
    case False
    with Cons a show ?thesis by (simp add: ac_simps)
  qed
qed simp

lemma sum_list_hdel:
  assumes "hdistinct m" "hget m k = Some v"
  shows "sum_list (map ((f :: _ \<Rightarrow> nat) \<circ> snd) m) = f v + sum_list (map (f \<circ> snd) (hdel k m))"
  using assms
proof (induction m)
  case (Cons a m)
  obtain k' v' where a: "a = (k', v')" by force
  show ?case
  proof (cases "k' = k")
    case True
    with Cons.prems a have "hget m k = None" by (simp add: map_of_eq_None_iff)
    then have "hdel k m = m" by (simp add: delete_idem map_of_eq_None_iff)
    with True Cons.prems a show ?thesis by simp
  next
    case False
    with Cons a show ?thesis by (simp add: ac_simps)
  qed
qed simp

lemma sum_list_hput_new:
  "hget m k = None \<Longrightarrow> sum_list (map ((f :: _ \<Rightarrow> nat) \<circ> snd) (hput k v m)) = sum_list (map (f \<circ> snd) m) + f v"
  by (induction m) (auto split: if_splits)

lemma sum_list_hput_old:
  "hdistinct m \<Longrightarrow> hget m k = Some w \<Longrightarrow>
     sum_list (map ((f :: _ \<Rightarrow> nat) \<circ> snd) (hput k v m)) + f w = sum_list (map (f \<circ> snd) m) + f v"
proof (induction m)
  case (Cons a m)
  obtain k' v' where a: "a = (k', v')" by force
  show ?case
  proof (cases "k' = k")
    case True
    with Cons.prems a show ?thesis by simp
  next
    case False
    with Cons.prems a have "sum_list (map (f \<circ> snd) (hput k v m)) + f w = sum_list (map (f \<circ> snd) m) + f v"
      by (intro Cons.IH) auto
    with False a show ?thesis by (simp add: comp_def)
  qed
qed simp

subsection \<open>\<open>BTreeMap\<close>: an association list sorted by key\<close>

fun bput :: "'k::linorder \<Rightarrow> 'v \<Rightarrow> ('k \<times> 'v) list \<Rightarrow> ('k \<times> 'v) list" where
  "bput k v [] = [(k, v)]"
| "bput k v ((k', v') # m) =
     (if k < k' then (k, v) # (k', v') # m
      else if k = k' then (k, v) # m
      else (k', v') # bput k v m)"

definition bdel :: "'k \<Rightarrow> ('k \<times> 'v) list \<Rightarrow> ('k \<times> 'v) list" where
  "bdel k m = filter (\<lambda>(k', _). k' \<noteq> k) m"

definition bsorted :: "('k::linorder \<times> 'v) list \<Rightarrow> bool" where
  "bsorted m \<longleftrightarrow> sorted_wrt (<) (map fst m)"

abbreviation bget :: "('k \<times> 'v) list \<Rightarrow> 'k \<Rightarrow> 'v option" where "bget \<equiv> map_of"

lemma set_bput: "fst ` set (bput k v m) = insert k (fst ` set m)"
  by (induction k v m rule: bput.induct) auto

lemma bget_bput [simp]: "bget (bput k v m) = (bget m)(k \<mapsto> v)"
  by (induction k v m rule: bput.induct) (auto simp: fun_eq_iff)

lemma bget_bdel [simp]: "bget (bdel k m) = (bget m)(k := None)"
  by (induction m) (auto simp: bdel_def fun_eq_iff)

lemma bsorted_bput: "bsorted m \<Longrightarrow> bsorted (bput k v m)"
proof (induction k v m rule: bput.induct)
  case (2 k v k' v' m)
  have "\<forall>x\<in>fst ` set (bput k v m). k' < x" if "k' < k" "bsorted ((k', v') # m)"
    using that by (auto simp: set_bput bsorted_def)
  with 2 show ?case by (auto simp: bsorted_def)
qed (simp add: bsorted_def)

lemma bsorted_bdel: "bsorted m \<Longrightarrow> bsorted (bdel k m)"
proof -
  assume "bsorted m"
  moreover have "map fst (bdel k m) = filter (\<lambda>k'. k' \<noteq> k) (map fst m)"
    by (induction m) (auto simp: bdel_def)
  ultimately show ?thesis by (simp add: bsorted_def sorted_wrt_filter)
qed

interpretation bt: map_adt "[] :: ('k::linorder \<times> 'v) list" bget bput bdel bsorted
  by unfold_locales (simp_all add: bsorted_bput bsorted_bdel, simp add: bsorted_def)

lemma bsorted_hdistinct: "bsorted m \<Longrightarrow> hdistinct m"
  unfolding bsorted_def by (induction m) auto

lemma bsorted_in_set: "bsorted m \<Longrightarrow> (k, v) \<in> set m \<longleftrightarrow> bget m k = Some v"
  using bsorted_hdistinct by (metis map_of_SomeD map_of_is_SomeI)

lemma bsorted_Nil [simp]: "bsorted []"
  by (simp add: bsorted_def)

lemma bsorted_Cons: "bsorted ((k, v) # m) \<longleftrightarrow> (\<forall>k'\<in>fst ` set m. k < k') \<and> bsorted m"
  by (auto simp: bsorted_def)

subsection \<open>Searching lists\<close>

text \<open>\<open>Iterator::position\<close> and \<open>Iterator::find\<close>.\<close>

fun position :: "('a \<Rightarrow> bool) \<Rightarrow> 'a list \<Rightarrow> nat option" where
  "position P [] = None"
| "position P (x # xs) = (if P x then Some 0 else map_option Suc (position P xs))"

lemma position_Some:
  "position P xs = Some i \<Longrightarrow> i < length xs \<and> P (xs ! i) \<and> (\<forall>j<i. \<not> P (xs ! j))"
proof (induction xs arbitrary: i)
  case (Cons x xs)
  show ?case
  proof (cases "P x")
    case True
    with Cons.prems show ?thesis by simp
  next
    case False
    with Cons.prems obtain i' where i: "position P xs = Some i'" "i = Suc i'" by auto
    with Cons.IH have "i' < length xs \<and> P (xs ! i') \<and> (\<forall>j<i'. \<not> P (xs ! j))" by simp
    with i False show ?thesis by (auto simp: less_Suc_eq_0_disj)
  qed
qed simp

lemma position_None: "position P xs = None \<longleftrightarrow> (\<forall>x\<in>set xs. \<not> P x)"
  by (induction xs) auto

lemma find_Some_in: "find P xs = Some x \<Longrightarrow> x \<in> set xs \<and> P x"
  by (induction xs) (auto split: if_splits)

lemma bdel_hdel: "bdel k m = hdel k m"
  by (induction m) (auto simp: bdel_def)

lemma sum_entries_bdel:
  "bsorted m \<Longrightarrow> bget m k = Some v \<Longrightarrow> sum_list (map (f :: _ \<Rightarrow> nat) m) = f (k, v) + sum_list (map f (bdel k m))"
  unfolding bdel_hdel by (rule sum_entries_hdel [OF bsorted_hdistinct])

lemma sum_entries_bput:
  "bget m k = None \<Longrightarrow> sum_list (map (f :: _ \<Rightarrow> nat) (bput k v m)) = f (k, v) + sum_list (map f m)"
  by (induction k v m rule: bput.induct) (auto split: if_splits)

end
