(* ===== verification/Residency_Types.thy ===== *)
theory Residency_Types
  imports Prelude "HOL-Library.Product_Lexorder" "HOL-Library.List_Lexorder" "HOL-Library.Char_ord" "HOL-Library.Sublist"
begin

text \<open>
  \<open>har-residency/src/types.rs\<close>: page identities, leases, transfer tickets, the page state
  machine and the ownership record of one page, with the operations of each.  Clock
  readings (\<open>now_ns()\<close>) are arguments.  The lemmas establish the well-formedness of a
  record that every record operation keeps, and what the transition table allows.
\<close>

subsection \<open>Identities\<close>

datatype page_kind = Weights | Kv

datatype page_id = PageId (page_model_root: string) (page_kind: page_kind) (page_ordinal: nat)

datatype representation_id =
  RepresentationId (rep_page: page_id) (rep_format: string) (rep_bytes: nat)

datatype expert_projection = Gate | Up | Down | OtherProjection string

fun projection_str :: "expert_projection \<Rightarrow> string" where
  "projection_str Gate = ''gate''"
| "projection_str Up = ''up''"
| "projection_str Down = ''down''"
| "projection_str (OtherProjection v) = v"

datatype page_location =
  NvmeCold | RamPageable | RamPinned | VramPage nat | VramSlot nat | Scratch nat

fun is_vram :: "page_location \<Rightarrow> bool" where
  "is_vram (VramPage _) = True"
| "is_vram (VramSlot _) = True"
| "is_vram _ = False"

fun is_ram :: "page_location \<Rightarrow> bool" where
  "is_ram RamPageable = True"
| "is_ram RamPinned = True"
| "is_ram _ = False"

fun location_name :: "page_location \<Rightarrow> string" where
  "location_name NvmeCold = ''NVME_COLD''"
| "location_name RamPageable = ''RAM_PAGEABLE''"
| "location_name RamPinned = ''RAM_PINNED''"
| "location_name (VramPage _) = ''VRAM_PAGE''"
| "location_name (VramSlot _) = ''VRAM_SLOT''"
| "location_name (Scratch _) = ''SCRATCH''"

text \<open>The derived orders, by constructor position and then by the fields.\<close>

fun kind_rank :: "page_kind \<Rightarrow> nat" where
  "kind_rank Weights = 0"
| "kind_rank Kv = 1"

fun location_rank :: "page_location \<Rightarrow> nat \<times> nat" where
  "location_rank NvmeCold = (0, 0)"
| "location_rank RamPageable = (1, 0)"
| "location_rank RamPinned = (2, 0)"
| "location_rank (VramPage i) = (3, i)"
| "location_rank (VramSlot i) = (4, i)"
| "location_rank (Scratch i) = (5, i)"

lemma location_rank_inject: "location_rank a = location_rank b \<longleftrightarrow> a = b"
  by (cases a; cases b) auto

instantiation page_location :: linorder
begin

definition less_eq_page_location :: "page_location \<Rightarrow> page_location \<Rightarrow> bool" where
  "less_eq_page_location a b \<longleftrightarrow> location_rank a \<le> location_rank b"

definition less_page_location :: "page_location \<Rightarrow> page_location \<Rightarrow> bool" where
  "less_page_location a b \<longleftrightarrow> location_rank a < location_rank b"

instance
proof (standard, goal_cases)
  case (4 x y)
  then have "location_rank x = location_rank y"
    unfolding less_eq_page_location_def by (rule order.antisym)
  then show ?case by (simp only: location_rank_inject)
qed (auto simp: less_eq_page_location_def less_page_location_def)

end

fun page_rank :: "page_id \<Rightarrow> string \<times> nat \<times> nat" where
  "page_rank (PageId r k n) = (r, kind_rank k, n)"

lemma page_rank_inject: "page_rank a = page_rank b \<longleftrightarrow> a = b"
proof (cases a; cases b)
  fix r k n r' k' n'
  assume "a = PageId r k n" "b = PageId r' k' n'"
  then show ?thesis by (cases k; cases k') auto
qed

instantiation page_id :: linorder
begin

definition less_eq_page_id :: "page_id \<Rightarrow> page_id \<Rightarrow> bool" where
  "less_eq_page_id a b \<longleftrightarrow> page_rank a \<le> page_rank b"

definition less_page_id :: "page_id \<Rightarrow> page_id \<Rightarrow> bool" where
  "less_page_id a b \<longleftrightarrow> page_rank a < page_rank b"

instance
proof (standard, goal_cases)
  case (4 x y)
  then have "page_rank x = page_rank y"
    unfolding less_eq_page_id_def by (rule order.antisym)
  then show ?case by (simp only: page_rank_inject)
qed (auto simp: less_eq_page_id_def less_page_id_def)

end

subsection \<open>Page states\<close>

datatype residency_state =
  Indexed | NvmeReadQueued | NvmeReading | RamReady | VramReservationQueued | VramReserved
| UploadQueued | VramUploading | Uploaded | ComputeReady | InUse | EvictionQueued | Evicting
| Evicted | Cancelled | Failed

text \<open>The derived \<open>Debug\<close> rendering, which the transition history records.\<close>

fun state_debug :: "residency_state \<Rightarrow> string" where
  "state_debug Indexed = ''Indexed''"
| "state_debug NvmeReadQueued = ''NvmeReadQueued''"
| "state_debug NvmeReading = ''NvmeReading''"
| "state_debug RamReady = ''RamReady''"
| "state_debug VramReservationQueued = ''VramReservationQueued''"
| "state_debug VramReserved = ''VramReserved''"
| "state_debug UploadQueued = ''UploadQueued''"
| "state_debug VramUploading = ''VramUploading''"
| "state_debug Uploaded = ''Uploaded''"
| "state_debug ComputeReady = ''ComputeReady''"
| "state_debug InUse = ''InUse''"
| "state_debug EvictionQueued = ''EvictionQueued''"
| "state_debug Evicting = ''Evicting''"
| "state_debug Evicted = ''Evicted''"
| "state_debug Cancelled = ''Cancelled''"
| "state_debug Failed = ''Failed''"

fun legal_transition :: "residency_state \<Rightarrow> residency_state \<Rightarrow> bool" where
  "legal_transition Indexed to' = (to' \<in> {NvmeReadQueued, RamReady, Evicted})"
| "legal_transition NvmeReadQueued to' = (to' \<in> {NvmeReading, Cancelled, Failed})"
| "legal_transition NvmeReading to' = (to' \<in> {RamReady, Cancelled, Failed})"
| "legal_transition RamReady to' =
     (to' \<in> {VramReservationQueued, UploadQueued, EvictionQueued, Indexed})"
| "legal_transition VramReservationQueued to' = (to' \<in> {VramReserved, RamReady, Cancelled, Failed})"
| "legal_transition VramReserved to' = (to' \<in> {UploadQueued, EvictionQueued, Failed})"
| "legal_transition UploadQueued to' = (to' \<in> {VramUploading, Cancelled, Failed})"
| "legal_transition VramUploading to' = (to' \<in> {Uploaded, Cancelled, Failed})"
| "legal_transition Uploaded to' = (to' \<in> {ComputeReady, EvictionQueued, Failed})"
| "legal_transition ComputeReady to' = (to' \<in> {InUse, EvictionQueued, RamReady, Indexed})"
| "legal_transition InUse to' = (to' \<in> {ComputeReady, EvictionQueued, Failed})"
| "legal_transition EvictionQueued to' = (to' \<in> {Evicting, Cancelled, Failed})"
| "legal_transition Evicting to' = (to' \<in> {RamReady, Indexed, Evicted, Failed})"
| "legal_transition Evicted to' = (to' \<in> {NvmeReadQueued, Indexed})"
| "legal_transition Cancelled to' = (to' \<in> {Indexed, Evicted})"
| "legal_transition Failed to' = False"

subsection \<open>Errors\<close>

datatype residency_error =
  Invalid string
| IllegalTransition residency_state residency_state
| StaleGeneration page_id nat nat
| NotResident page_location
| ResourceExhausted string
| QueueFull string
| TicketState string
| Io string
| CancelledError
| Unsupported string

subsection \<open>Storage slices\<close>

record storage_slice =
  sl_page_id :: page_id
  sl_model_id :: string
  sl_source_path :: string
  sl_shard :: string
  sl_tensor :: string
  sl_offset :: nat
  sl_payload_bytes :: nat
  sl_alignment :: nat
  sl_quant_type :: string
  sl_layer :: "nat option"
  sl_expert :: "nat option"
  sl_projection :: expert_projection
  sl_checksum :: "string option"
  sl_parent_offset :: "nat option"
  sl_parent_payload_bytes :: "nat option"

definition is_ascii_hexdigit :: "char \<Rightarrow> bool" where
  "is_ascii_hexdigit c \<longleftrightarrow> (let n = of_char c :: nat in
     48 \<le> n \<and> n \<le> 57 \<or> 65 \<le> n \<and> n \<le> 70 \<or> 97 \<le> n \<and> n \<le> 102)"

definition slice_validate :: "storage_slice \<Rightarrow> residency_error + unit" where
  "slice_validate sl =
     (if sl_model_id sl = [] \<or> sl_source_path sl = [] \<or> sl_tensor sl = []
      then Inl (Invalid ''storage identity is incomplete'')
      else if sl_payload_bytes sl = 0 \<or> sl_alignment sl = 0
      then Inl (Invalid ''storage payload and alignment must be non-zero'')
      else case sl_checksum sl of
        Some c \<Rightarrow> if length c \<noteq> 64 \<or> \<not> list_all is_ascii_hexdigit c
                 then Inl (Invalid ''checksum is not a SHA-256 hex digest'') else Inr ()
      | None \<Rightarrow> Inr ())"

definition slice_representation :: "storage_slice \<Rightarrow> representation_id" where
  "slice_representation sl =
     RepresentationId (sl_page_id sl) (sl_quant_type sl) (sl_payload_bytes sl)"

subsection \<open>Leases\<close>

record page_lease =
  lease_id :: nat
  lease_page_id :: page_id
  lease_generation :: nat
  lease_epoch :: nat
  lease_location :: page_location
  lease_purpose :: string

subsection \<open>Transfer tickets\<close>

datatype transfer_kind = NvmeRead | RamToVram | VramEviction | RamEviction

datatype transfer_status = TQueued | TRunning | TCompleted | TCancelled | TFailed

record transfer_ticket =
  tk_ticket_id :: nat
  tk_page_id :: page_id
  tk_generation :: nat
  tk_source :: page_location
  tk_destination :: page_location
  tk_kind :: transfer_kind
  tk_requested_bytes :: nat
  tk_unique_bytes :: nat
  tk_useful_bytes :: nat
  tk_wasted_bytes :: nat
  tk_mandatory :: bool
  tk_speculative :: bool
  tk_status :: transfer_status
  tk_created_ns :: nat
  tk_queued_ns :: nat
  tk_started_ns :: "nat option"
  tk_first_byte_ns :: "nat option"
  tk_completed_ns :: "nat option"
  tk_error :: "string option"

definition ticket_new ::
  "nat \<Rightarrow> nat \<Rightarrow> page_id \<Rightarrow> nat \<Rightarrow> page_location \<Rightarrow> page_location \<Rightarrow> transfer_kind \<Rightarrow> nat \<Rightarrow> bool \<Rightarrow> bool
     \<Rightarrow> transfer_ticket" where
  "ticket_new timestamp i p g src dst kind bytes mandatory speculative =
     \<lparr> tk_ticket_id = i, tk_page_id = p, tk_generation = g, tk_source = src,
       tk_destination = dst, tk_kind = kind, tk_requested_bytes = bytes,
       tk_unique_bytes = bytes, tk_useful_bytes = 0, tk_wasted_bytes = 0,
       tk_mandatory = mandatory, tk_speculative = speculative, tk_status = TQueued,
       tk_created_ns = timestamp, tk_queued_ns = timestamp, tk_started_ns = None,
       tk_first_byte_ns = None, tk_completed_ns = None, tk_error = None \<rparr>"

definition ticket_start :: "nat \<Rightarrow> (transfer_ticket, residency_error, unit) op" where
  "ticket_start now t =
     (if tk_status t \<noteq> TQueued then (Inl (TicketState ''ticket is not queued''), t)
      else (Inr (), t\<lparr> tk_status := TRunning, tk_started_ns := Some now \<rparr>))"

text \<open>\<open>Option::get_or_insert\<close>.\<close>

definition get_or_insert :: "'a option \<Rightarrow> 'a \<Rightarrow> 'a option" where
  "get_or_insert v d = (case v of Some x \<Rightarrow> Some x | None \<Rightarrow> Some d)"

definition ticket_first_byte :: "nat \<Rightarrow> (transfer_ticket, residency_error, unit) op" where
  "ticket_first_byte now t =
     (if tk_status t \<noteq> TRunning
      then (Inl (TicketState ''first byte requires a running ticket''), t)
      else (Inr (), t\<lparr> tk_first_byte_ns := get_or_insert (tk_first_byte_ns t) now \<rparr>))"

definition ticket_complete :: "nat \<Rightarrow> nat \<Rightarrow> (transfer_ticket, residency_error, unit) op" where
  "ticket_complete now1 now2 t =
     (if tk_status t \<notin> {TQueued, TRunning}
      then (Inl (TicketState ''ticket is not completable''), t)
      else (Inr (), t\<lparr> tk_status := TCompleted,
              tk_first_byte_ns := get_or_insert (tk_first_byte_ns t) now1,
              tk_completed_ns := Some now2 \<rparr>))"

definition ticket_cancel :: "nat \<Rightarrow> string \<Rightarrow> (transfer_ticket, residency_error, unit) op" where
  "ticket_cancel now reason t =
     (if tk_status t = TCompleted
      then (Inl (TicketState ''completed ticket cannot be cancelled''), t)
      else (Inr (), t\<lparr> tk_status := TCancelled, tk_completed_ns := Some now,
              tk_error := Some reason \<rparr>))"

definition ticket_fail :: "nat \<Rightarrow> string \<Rightarrow> (transfer_ticket, residency_error, unit) op" where
  "ticket_fail now reason t =
     (if tk_status t = TCompleted
      then (Inl (TicketState ''completed ticket cannot fail''), t)
      else (Inr (), t\<lparr> tk_status := TFailed, tk_completed_ns := Some now,
              tk_error := Some reason \<rparr>))"

definition ticket_latency_ns :: "transfer_ticket \<Rightarrow> nat option" where
  "ticket_latency_ns t = map_option (\<lambda>fin. fin - tk_queued_ns t) (tk_completed_ns t)"

lemmas ticket_defs = ticket_start_def ticket_first_byte_def ticket_complete_def
  ticket_cancel_def ticket_fail_def

subsection \<open>Residency records\<close>

record replica =
  rp_location :: page_location
  rp_representation :: representation_id
  rp_generation :: nat
  rp_explicit_replication :: bool
  rp_replica_id :: string
  rp_checksum :: "string option"

record residency_record =
  rr_page_id :: page_id
  rr_representation :: representation_id
  rr_generation :: nat
  rr_state :: residency_state
  rr_authoritative :: page_location
  rr_replicas :: "(page_location \<times> replica) list"
  rr_leases :: "(nat \<times> page_lease) list"
  rr_history :: "string list"

definition record_new :: "page_id \<Rightarrow> representation_id \<Rightarrow> nat \<Rightarrow> residency_record" where
  "record_new p rep g =
     \<lparr> rr_page_id = p, rr_representation = rep, rr_generation = g, rr_state = Indexed,
       rr_authoritative = NvmeCold, rr_replicas = [], rr_leases = [], rr_history = [] \<rparr>"

definition record_locations :: "residency_record \<Rightarrow> page_location set" where
  "record_locations r = insert (rr_authoritative r) (set (map fst (rr_replicas r)))"

definition has_replica :: "residency_record \<Rightarrow> page_location \<Rightarrow> bool" where
  "has_replica r l \<longleftrightarrow> bget (rr_replicas r) l \<noteq> None \<or> rr_authoritative r = l"

definition record_transition ::
  "residency_state \<Rightarrow> string \<Rightarrow> (residency_record, residency_error, unit) op" where
  "record_transition nxt reason r =
     (if \<not> legal_transition (rr_state r) nxt
      then (Inl (IllegalTransition (rr_state r) nxt), r)
      else (Inr (), r\<lparr> rr_history := rr_history r @
                [state_debug (rr_state r) @ ''->'' @ state_debug nxt @ '':'' @ reason],
              rr_state := nxt \<rparr>))"

definition add_replica ::
  "page_location \<Rightarrow> nat \<Rightarrow> string \<Rightarrow> string option \<Rightarrow> (residency_record, residency_error, unit) op" where
  "add_replica l g rid checksum r =
     (if l = rr_authoritative r
      then (Inl (Invalid ''authoritative location is not a replica''), r)
      else if g \<noteq> rr_generation r
      then (Inl (StaleGeneration (rr_page_id r) (rr_generation r) g), r)
      else if rid = [] then (Inl (Invalid ''replica id is empty''), r)
      else (Inr (), r\<lparr> rr_replicas := bput l
              \<lparr> rp_location = l, rp_representation = rr_representation r, rp_generation = g,
                rp_explicit_replication = True, rp_replica_id = rid, rp_checksum = checksum \<rparr>
              (rr_replicas r) \<rparr>))"

definition remove_replica :: "page_location \<Rightarrow> (residency_record, residency_error, unit) op" where
  "remove_replica l r =
     (if l = rr_authoritative r
      then (Inl (Invalid ''cannot remove authoritative location''), r)
      else (Inr (), r\<lparr> rr_replicas := bdel l (rr_replicas r) \<rparr>))"

definition record_lease ::
  "nat \<Rightarrow> nat \<Rightarrow> page_location \<Rightarrow> string \<Rightarrow> (residency_record, residency_error, page_lease) op" where
  "record_lease i epoch l purpose r =
     (if \<not> has_replica r l then (Inl (NotResident l), r)
      else let lease = \<lparr> lease_id = i, lease_page_id = rr_page_id r,
                 lease_generation = rr_generation r, lease_epoch = epoch, lease_location = l,
                 lease_purpose = purpose \<rparr>
           in (Inr lease, r\<lparr> rr_leases := bput i lease (rr_leases r) \<rparr>))"

definition lease_validate_against :: "page_lease \<Rightarrow> residency_record \<Rightarrow> residency_error + unit" where
  "lease_validate_against lease r =
     (if lease_page_id lease \<noteq> rr_page_id r \<or> lease_generation lease \<noteq> rr_generation r
      then Inl (StaleGeneration (lease_page_id lease) (rr_generation r) (lease_generation lease))
      else if lease_location lease \<notin> record_locations r
      then Inl (NotResident (lease_location lease))
      else Inr ())"

definition release_lease :: "page_lease \<Rightarrow> (residency_record, residency_error, unit) op" where
  "release_lease lease r =
     (case lease_validate_against lease r of
        Inl e \<Rightarrow> (Inl e, r)
      | Inr _ \<Rightarrow> (Inr (), r\<lparr> rr_leases := bdel (lease_id lease) (rr_leases r) \<rparr>))"

text \<open>The loop over \<open>replicas\<close> in \<open>ResidencyRecord::validate\<close>, in key order.\<close>

fun validate_replicas ::
  "residency_record \<Rightarrow> (page_location \<times> replica) list \<Rightarrow> residency_error + unit" where
  "validate_replicas r [] = Inr ()"
| "validate_replicas r ((l, rp) # rest) =
     (if \<not> rp_explicit_replication rp \<or> l \<noteq> rp_location rp
      then Inl (Invalid ''replica lacks explicit location metadata'')
      else if rp_generation rp \<noteq> rr_generation r \<or> rp_representation rp \<noteq> rr_representation r
      then Inl (StaleGeneration (rr_page_id r) (rr_generation r) (rp_generation rp))
      else validate_replicas r rest)"

definition record_validate :: "residency_record \<Rightarrow> residency_error + unit" where
  "record_validate r =
     (if rr_authoritative r \<noteq> NvmeCold \<and> \<not> has_replica r NvmeCold
      then Inl (Invalid ''non-NVMe authority lacks explicit NVMe replica'')
      else case validate_replicas r (rr_replicas r) of
        Inl e \<Rightarrow> Inl e
      | Inr _ \<Rightarrow>
         (if rr_state r = RamReady \<and> \<not> list_ex (is_ram \<circ> fst) (rr_replicas r)
          then Inl (Invalid ''RAM_READY without RAM replica'')
          else if rr_state r \<in> {Uploaded, ComputeReady, InUse}
               \<and> \<not> list_ex (is_vram \<circ> fst) (rr_replicas r)
          then Inl (Invalid ''VRAM-ready state without VRAM replica'')
          else if rr_state r = InUse \<and> rr_leases r = []
          then Inl (Invalid ''IN_USE without a lease'')
          else Inr ()))"

subsection \<open>Resource snapshots\<close>

record resource_snapshot =
  rs_epoch :: nat
  ram_pageable_capacity :: nat
  ram_pageable_used :: nat
  ram_pinned_capacity :: nat
  ram_pinned_used :: nat
  vram_page_capacity :: nat
  vram_page_used :: nat
  vram_slot_capacity :: nat
  vram_slot_used :: nat
  scratch_capacity :: nat
  scratch_used :: nat
  nvme_queue_depth :: nat
  nvme_queue_capacity :: nat
  transfer_queue_depth :: nat
  transfer_queue_capacity :: nat
  compute_queue_depth :: nat
  compute_queue_capacity :: nat
  requested_bytes :: nat
  unique_bytes :: nat
  useful_bytes :: nat
  wasted_bytes :: nat
  hidden_time_ns :: nat
  exposed_time_ns :: nat
  vram_hits :: nat
  ram_hits :: nat
  nvme_misses :: nat

definition snapshot_default :: resource_snapshot where
  "snapshot_default =
     \<lparr> rs_epoch = 0, ram_pageable_capacity = 0, ram_pageable_used = 0, ram_pinned_capacity = 0,
       ram_pinned_used = 0, vram_page_capacity = 0, vram_page_used = 0, vram_slot_capacity = 0,
       vram_slot_used = 0, scratch_capacity = 0, scratch_used = 0, nvme_queue_depth = 0,
       nvme_queue_capacity = 0, transfer_queue_depth = 0, transfer_queue_capacity = 0,
       compute_queue_depth = 0, compute_queue_capacity = 0, requested_bytes = 0,
       unique_bytes = 0, useful_bytes = 0, wasted_bytes = 0, hidden_time_ns = 0,
       exposed_time_ns = 0, vram_hits = 0, ram_hits = 0, nvme_misses = 0 \<rparr>"

definition ram_pinned_slack :: "resource_snapshot \<Rightarrow> nat" where
  "ram_pinned_slack s = ram_pinned_capacity s - ram_pinned_used s"

definition vram_slot_slack :: "resource_snapshot \<Rightarrow> nat" where
  "vram_slot_slack s = vram_slot_capacity s - vram_slot_used s"

definition nvme_queue_slack :: "resource_snapshot \<Rightarrow> nat" where
  "nvme_queue_slack s = nvme_queue_capacity s - nvme_queue_depth s"

definition transfer_queue_slack :: "resource_snapshot \<Rightarrow> nat" where
  "transfer_queue_slack s = transfer_queue_capacity s - transfer_queue_depth s"

definition compute_queue_slack :: "resource_snapshot \<Rightarrow> nat" where
  "compute_queue_slack s = compute_queue_capacity s - compute_queue_depth s"

datatype eviction_reason =
  EvCapacity | EvDeadline | EvStaleGeneration | EvExplicitRelease | EvPressure
| EvSpeculativeWaste | EvInUse

subsection \<open>No stage is skipped\<close>

text \<open>The stages a page must have gone through to be in a state.\<close>

fun stages_before :: "residency_state \<Rightarrow> residency_state list" where
  "stages_before RamReady = [RamReady]"
| "stages_before VramReservationQueued = [RamReady]"
| "stages_before VramReserved = [RamReady]"
| "stages_before UploadQueued = [RamReady, UploadQueued]"
| "stages_before VramUploading = [RamReady, UploadQueued, VramUploading]"
| "stages_before Uploaded = [RamReady, UploadQueued, VramUploading, Uploaded]"
| "stages_before ComputeReady = [RamReady, UploadQueued, VramUploading, Uploaded]"
| "stages_before InUse = [RamReady, UploadQueued, VramUploading, Uploaded]"
| "stages_before _ = []"

lemma stages_before_step:
  "legal_transition s s' \<Longrightarrow>
     stages_before s' = stages_before s \<or> stages_before s' = stages_before s @ [s']
       \<or> stages_before s' = [] \<or> stages_before s' = [s']"
  by (cases s; cases s') simp_all

fun run_transitions ::
  "(residency_state \<times> string) list \<Rightarrow> (residency_record, residency_error, unit) op" where
  "run_transitions [] = okR ()"
| "run_transitions ((s, why) # xs) = thenR (record_transition s why) (run_transitions xs)"

lemma record_transition_Inr:
  "record_transition s why r = (Inr (), r') \<Longrightarrow>
     legal_transition (rr_state r) s \<and> rr_state r' = s \<and> length (rr_history r') = Suc (length (rr_history r))"
  by (auto simp: record_transition_def split: if_splits)

lemma run_transitions_stages:
  assumes "run_transitions xs r = (Inr (), r')" "subseq (stages_before (rr_state r)) ys"
  shows "subseq (stages_before (rr_state r')) (ys @ map fst xs)
    \<and> length (rr_history r') = length (rr_history r) + length xs"
  using assms
proof (induction xs arbitrary: r ys)
  case Nil
  then show ?case by (simp add: okR_def)
next
  case (Cons x xs)
  obtain s why where x: "x = (s, why)" by force
  from Cons.prems(1) x obtain r1 where r1: "record_transition s why r = (Inr (), r1)"
      "run_transitions xs r1 = (Inr (), r')"
    by (auto elim!: thenR_InrE)
  from record_transition_Inr [OF r1(1)] have leg: "legal_transition (rr_state r) s"
    and st: "rr_state r1 = s" and len: "length (rr_history r1) = Suc (length (rr_history r))"
    by auto
  have "subseq (stages_before s) (ys @ [s])"
    using stages_before_step [OF leg] Cons.prems(2)
    by (auto intro: list_emb_append_mono subseq_order.trans subseq_rev_drop_many
        list_emb_append2)
  with Cons.IH [OF r1(2), of "ys @ [s]"] st len x show ?case by simp
qed

text \<open>
  C2. No stage of the page life cycle is skipped: when any sequence of successful
  transitions takes a freshly registered page to a state in which the GPU may use it, the
  sequence contains, in this order, the RAM commit, the queued upload, the running upload and
  its completion; and every transition is recorded in the history.
\<close>

theorem page_states_not_skipped:
  assumes "run_transitions xs (record_new p rep g) = (Inr (), r)"
    and "rr_state r \<in> {Uploaded, ComputeReady, InUse}"
  shows "subseq [RamReady, UploadQueued, VramUploading, Uploaded] (map fst xs)
    \<and> length (rr_history r) = length xs"
proof -
  have "subseq (stages_before (rr_state (record_new p rep g))) []"
    by (simp add: record_new_def)
  from run_transitions_stages [OF assms(1) this] assms(2) show ?thesis
    by (auto simp: record_new_def)
qed

definition demo_transitions :: "(residency_state \<times> string) list" where
  "demo_transitions = map (\<lambda>s. (s, ''x''))
     [NvmeReadQueued, NvmeReading, RamReady, VramReservationQueued, VramReserved,
      UploadQueued, VramUploading, Uploaded, ComputeReady, InUse]"

theorem page_states_not_skipped_witness:
  "let p = PageId ''m'' Weights 0; r = snd (run_transitions demo_transitions
       (record_new p (RepresentationId p ''Q8_0'' 64) 0))
   in rr_state r = InUse \<and> subseq [RamReady, UploadQueued, VramUploading, Uploaded]
        (map fst demo_transitions) \<and> length (rr_history r) = 10"
proof -
  let ?p = "PageId ''m'' Weights 0"
  let ?run = "run_transitions demo_transitions (record_new ?p (RepresentationId ?p ''Q8_0'' 64) 0)"
  have res: "?run = (Inr (), snd ?run)" and st: "rr_state (snd ?run) = InUse"
    by (simp_all add: demo_transitions_def record_new_def record_transition_def op_defs)
  then show ?thesis
    using page_states_not_skipped [OF res] by (simp add: demo_transitions_def)
qed

subsection \<open>Well-formed records\<close>

definition record_ok :: "residency_record \<Rightarrow> bool" where
  "record_ok r \<longleftrightarrow> rr_authoritative r = NvmeCold \<and> bsorted (rr_replicas r)
     \<and> (\<forall>(l, rp)\<in>set (rr_replicas r). l \<noteq> NvmeCold \<and> rp_explicit_replication rp
          \<and> rp_location rp = l \<and> rp_generation rp = rr_generation r
          \<and> rp_representation rp = rr_representation r)"

definition has_ram :: "residency_record \<Rightarrow> bool" where
  "has_ram r \<longleftrightarrow> list_ex (is_ram \<circ> fst) (rr_replicas r)"

definition has_vram :: "residency_record \<Rightarrow> bool" where
  "has_vram r \<longleftrightarrow> list_ex (is_vram \<circ> fst) (rr_replicas r)"

definition ram_states :: "residency_state set" where
  "ram_states = {RamReady, VramReservationQueued, VramReserved, UploadQueued, VramUploading,
     Uploaded, ComputeReady, InUse}"

definition vram_states :: "residency_state set" where
  "vram_states = {Uploaded, ComputeReady, InUse}"

definition record_inv :: "residency_record \<Rightarrow> bool" where
  "record_inv r \<longleftrightarrow> record_ok r
     \<and> (rr_state r \<in> ram_states \<longrightarrow> has_ram r)
     \<and> (rr_state r \<in> vram_states \<longrightarrow> has_vram r)
     \<and> (rr_state r = InUse \<longrightarrow> rr_leases r \<noteq> [])"

lemma validate_replicas_ok:
  "(\<forall>(l, rp)\<in>set m. rp_explicit_replication rp \<and> rp_location rp = l
      \<and> rp_generation rp = rr_generation r \<and> rp_representation rp = rr_representation r)
   \<Longrightarrow> validate_replicas r m = Inr ()"
  by (induction m) auto

lemma record_inv_validate: "record_inv r \<Longrightarrow> record_validate r = Inr ()"
proof -
  assume inv: "record_inv r"
  then have "validate_replicas r (rr_replicas r) = Inr ()"
    by (intro validate_replicas_ok) (auto simp: record_inv_def record_ok_def)
  with inv show ?thesis
    by (auto simp: record_validate_def record_inv_def record_ok_def has_ram_def has_vram_def
        ram_states_def vram_states_def)
qed

lemma record_new_inv [simp]: "record_inv (record_new p rep g)"
  by (simp add: record_inv_def record_new_def record_ok_def ram_states_def vram_states_def)

lemma set_bput_cases: "(l, v) \<in> set (bput k w m) \<Longrightarrow> (l, v) = (k, w) \<or> (l, v) \<in> set m"
  by (induction k w m rule: bput.induct) (auto split: if_splits)

lemma set_bdel: "x \<in> set (bdel k m) \<longleftrightarrow> x \<in> set m \<and> fst x \<noteq> k"
  by (auto simp: bdel_def)

lemma list_ex_bput: "list_ex (P \<circ> fst) (bput k v m) \<longleftrightarrow> P k \<or> list_ex (P \<circ> fst) m"
proof -
  have eq: "list_ex (P \<circ> fst) m' \<longleftrightarrow> (\<exists>x\<in>fst ` set m'. P x)" for m' :: "('a \<times> 'b) list"
    by (auto simp: list_ex_iff)
  show ?thesis unfolding eq set_bput by simp
qed

lemma list_ex_bdel:
  "list_ex (P \<circ> fst) (bdel k m) \<longleftrightarrow> (\<exists>x\<in>set m. P (fst x) \<and> fst x \<noteq> k)"
  by (auto simp: list_ex_iff set_bdel)

lemma record_ok_add:
  assumes "record_ok r" "l \<noteq> NvmeCold"
  shows "record_ok (r\<lparr> rr_replicas := bput l
      \<lparr> rp_location = l, rp_representation = rr_representation r,
        rp_generation = rr_generation r, rp_explicit_replication = True,
        rp_replica_id = rid, rp_checksum = c \<rparr> (rr_replicas r) \<rparr>)"
  using assms by (auto simp: record_ok_def bsorted_bput dest!: set_bput_cases)

lemma record_ok_remove:
  "record_ok r \<Longrightarrow> record_ok (r\<lparr> rr_replicas := bdel l (rr_replicas r) \<rparr>)"
  by (auto simp: record_ok_def bsorted_bdel set_bdel)

lemma record_ok_fields [simp]:
  "record_ok (r\<lparr> rr_state := s \<rparr>) = record_ok r"
  "record_ok (r\<lparr> rr_history := h \<rparr>) = record_ok r"
  "record_ok (r\<lparr> rr_leases := ls \<rparr>) = record_ok r"
  by (simp_all add: record_ok_def)

text \<open>What each record operation does, for symbolic execution.\<close>

lemma wp_record_transition [step_simps]:
  "wp (record_transition nxt why) Q E r =
     (if legal_transition (rr_state r) nxt
      then Q () (r\<lparr> rr_history := rr_history r @
                [state_debug (rr_state r) @ ''->'' @ state_debug nxt @ '':'' @ why],
              rr_state := nxt \<rparr>)
      else E (IllegalTransition (rr_state r) nxt) r)"
  by (simp add: wp_def record_transition_def)

lemma wp_add_replica [step_simps]:
  "wp (add_replica l g rid c) Q E r =
     (if l = rr_authoritative r then E (Invalid ''authoritative location is not a replica'') r
      else if g \<noteq> rr_generation r then E (StaleGeneration (rr_page_id r) (rr_generation r) g) r
      else if rid = [] then E (Invalid ''replica id is empty'') r
      else Q () (r\<lparr> rr_replicas := bput l
              \<lparr> rp_location = l, rp_representation = rr_representation r, rp_generation = g,
                rp_explicit_replication = True, rp_replica_id = rid, rp_checksum = c \<rparr>
              (rr_replicas r) \<rparr>))"
  by (simp add: wp_def add_replica_def)

lemma wp_remove_replica [step_simps]:
  "wp (remove_replica l) Q E r =
     (if l = rr_authoritative r then E (Invalid ''cannot remove authoritative location'') r
      else Q () (r\<lparr> rr_replicas := bdel l (rr_replicas r) \<rparr>))"
  by (simp add: wp_def remove_replica_def)

end
