(* ===== verification/Vram_Slots.thy ===== *)
theory Vram_Slots
  imports Residency_Types
begin

text \<open>
  \<open>har-residency/src/manager.rs\<close>, first part: the persistent VRAM slots
  (\<open>VramSlot\<close>, \<open>VramSlotTable\<close>).  The slot table is refined by the claims it makes: which
  slot belongs to which page, generation and projection.
\<close>

datatype slot_state =
  SFree | SReserved | SUploading | SUploaded | SComputeReady | SInUse | SEvicting

record vram_slot =
  vs_slot_id :: nat
  vs_capacity_bytes :: nat
  vs_state :: slot_state
  vs_page_id :: "page_id option"
  vs_generation :: "nat option"
  vs_projection :: "expert_projection option"
  vs_reserved_bytes :: nat
  vs_pinned_users :: nat
  vs_upload_ticket :: "nat option"
  vs_checksum :: "string option"
  vs_last_use_epoch :: nat
  vs_speculative :: bool

definition slot_new :: "nat \<Rightarrow> nat \<Rightarrow> vram_slot" where
  "slot_new i cap =
     \<lparr> vs_slot_id = i, vs_capacity_bytes = cap, vs_state = SFree, vs_page_id = None,
       vs_generation = None, vs_projection = None, vs_reserved_bytes = 0, vs_pinned_users = 0,
       vs_upload_ticket = None, vs_checksum = None, vs_last_use_epoch = 0,
       vs_speculative = False \<rparr>"

definition slot_ready :: "vram_slot \<Rightarrow> bool" where
  "slot_ready sl \<longleftrightarrow> vs_state sl \<in> {SComputeReady, SInUse}"

definition slot_evictable :: "vram_slot \<Rightarrow> bool" where
  "slot_evictable sl \<longleftrightarrow> vs_state sl \<in> {SComputeReady, SUploaded} \<and> vs_pinned_users sl = 0"

record vram_slot_table =
  st_slots :: "vram_slot list"
  st_next_epoch :: nat

definition slot_table_new :: "nat \<Rightarrow> nat \<Rightarrow> residency_error + vram_slot_table" where
  "slot_table_new slot_count slot_bytes =
     (if slot_count = 0 \<or> slot_bytes = 0
      then Inl (Invalid ''VRAM slot count and size must be non-zero'')
      else Inr \<lparr> st_slots = map (\<lambda>i. slot_new i slot_bytes) [0..<slot_count],
                 st_next_epoch = 0 \<rparr>)"

definition slot_table_capacity_bytes :: "vram_slot_table \<Rightarrow> nat" where
  "slot_table_capacity_bytes t = foldl (\<lambda>n sl. wadd64 n (vs_capacity_bytes sl)) 0 (st_slots t)"

definition slot_get :: "vram_slot_table \<Rightarrow> nat \<Rightarrow> residency_error + vram_slot" where
  "slot_get t i =
     (if i < length (st_slots t) then Inr (st_slots t ! i)
      else Inl (Invalid (''unknown VRAM slot '' @ dec_digits i)))"

text \<open>\<open>self.get_mut(slot_id)?\<close> followed by an update of the slot.\<close>

definition on_slot ::
  "nat \<Rightarrow> (vram_slot, residency_error, 'a) op \<Rightarrow> (vram_slot_table, residency_error, 'a) op" where
  "on_slot i f t =
     (case slot_get t i of
        Inl e \<Rightarrow> (Inl e, t)
      | Inr sl \<Rightarrow> (case f sl of (res, sl') \<Rightarrow> (res, t\<lparr> st_slots := (st_slots t)[i := sl'] \<rparr>)))"

definition slot_find_ready :: "vram_slot_table \<Rightarrow> page_id \<Rightarrow> nat \<Rightarrow> vram_slot option" where
  "slot_find_ready t p g =
     find (\<lambda>sl. slot_ready sl \<and> vs_page_id sl = Some p \<and> vs_generation sl = Some g) (st_slots t)"

definition slot_reserve ::
  "page_id \<Rightarrow> nat \<Rightarrow> expert_projection \<Rightarrow> nat \<Rightarrow> bool \<Rightarrow> (vram_slot_table, residency_error, nat) op" where
  "slot_reserve p g proj bytes speculative t =
     (if bytes = 0 then (Inl (Invalid ''cannot reserve zero-byte slot''), t)
      else case find (\<lambda>sl. vs_page_id sl = Some p \<and> vs_generation sl = Some g
                    \<and> vs_projection sl = Some proj \<and> vs_state sl \<noteq> SFree) (st_slots t) of
        Some sl \<Rightarrow> (Inr (vs_slot_id sl), t)
      | None \<Rightarrow>
       (case position (\<lambda>sl. vs_state sl = SFree) (st_slots t) of
          None \<Rightarrow> (Inl (ResourceExhausted ''no free or evictable VRAM slot''), t)
        | Some i \<Rightarrow>
           (let sl = st_slots t ! i in
            if bytes > vs_capacity_bytes sl
            then (Inl (ResourceExhausted (''page '' @ dec_digits bytes @ '' bytes exceeds slot ''
                    @ dec_digits (vs_capacity_bytes sl) @ '' bytes'')), t)
            else (Inr (vs_slot_id sl),
                  t\<lparr> st_slots := (st_slots t)[i :=
                       (slot_new (vs_slot_id sl) (vs_capacity_bytes sl))
                       \<lparr> vs_state := SReserved, vs_page_id := Some p, vs_generation := Some g,
                         vs_projection := Some proj, vs_reserved_bytes := bytes,
                         vs_speculative := speculative,
                         vs_last_use_epoch := st_next_epoch t \<rparr>] \<rparr>))))"

definition slot_queue_upload :: "nat \<Rightarrow> nat \<Rightarrow> (vram_slot_table, residency_error, unit) op" where
  "slot_queue_upload i ticket =
     on_slot i (\<lambda>sl.
       if vs_state sl \<noteq> SReserved then (Inl (Invalid ''upload requires a reserved slot''), sl)
       else (Inr (), sl\<lparr> vs_state := SUploading, vs_upload_ticket := Some ticket \<rparr>))"

definition slot_complete_upload ::
  "nat \<Rightarrow> nat \<Rightarrow> string option \<Rightarrow> (vram_slot_table, residency_error, unit) op" where
  "slot_complete_upload i ticket checksum =
     on_slot i (\<lambda>sl.
       if vs_state sl \<noteq> SUploading \<or> vs_upload_ticket sl \<noteq> Some ticket
       then (Inl (StaleGeneration
               (case vs_page_id sl of Some p \<Rightarrow> p | None \<Rightarrow> PageId ''unknown'' Weights 0)
               (case vs_generation sl of Some g \<Rightarrow> g | None \<Rightarrow> 0) 0), sl)
       else (Inr (), sl\<lparr> vs_state := SUploaded, vs_checksum := checksum \<rparr>))"

definition validate_slot_identity :: "vram_slot \<Rightarrow> page_id \<Rightarrow> nat \<Rightarrow> residency_error + unit" where
  "validate_slot_identity sl p g =
     (if vs_page_id sl \<noteq> Some p \<or> vs_generation sl \<noteq> Some g
      then Inl (StaleGeneration p (case vs_generation sl of Some g' \<Rightarrow> g' | None \<Rightarrow> 0) g)
      else Inr ())"

definition slot_mark_compute_ready ::
  "nat \<Rightarrow> page_id \<Rightarrow> nat \<Rightarrow> (vram_slot_table, residency_error, unit) op" where
  "slot_mark_compute_ready i p g =
     on_slot i (thenR (readR (\<lambda>sl. validate_slot_identity sl p g))
       (\<lambda>sl. if vs_state sl \<noteq> SUploaded
             then (Inl (Invalid ''compute readiness requires uploaded slot''), sl)
             else (Inr (), sl\<lparr> vs_state := SComputeReady \<rparr>)))"

text \<open>\<open>slot_id as u64) << 32) ^ epoch\<close>, with both operands below \<open>2 ^ 64\<close>.\<close>

definition slot_lease_id :: "nat \<Rightarrow> nat \<Rightarrow> nat" where
  "slot_lease_id i epoch = unat (xor (push_bit 32 (of_nat i :: 64 word)) (of_nat epoch))"

definition slot_acquire ::
  "nat \<Rightarrow> page_id \<Rightarrow> nat \<Rightarrow> nat \<Rightarrow> (vram_slot_table, residency_error, page_lease) op" where
  "slot_acquire i p g epoch =
     on_slot i (thenR (readR (\<lambda>sl. validate_slot_identity sl p g))
       (\<lambda>sl. if vs_state sl \<noteq> SComputeReady
             then (Inl (Invalid ''slot is not compute ready''), sl)
             else (Inr \<lparr> lease_id = slot_lease_id i epoch, lease_page_id = p,
                         lease_generation = g, lease_epoch = epoch,
                         lease_location = VramSlot i, lease_purpose = ''gpu-compute'' \<rparr>,
                   sl\<lparr> vs_state := SInUse, vs_pinned_users := sat_add32 (vs_pinned_users sl) 1,
                       vs_last_use_epoch := epoch \<rparr>)))"

definition slot_release :: "page_lease \<Rightarrow> (vram_slot_table, residency_error, unit) op" where
  "slot_release lease =
     (case lease_location lease of
        VramSlot i \<Rightarrow>
          on_slot i (thenR (readR (\<lambda>sl. validate_slot_identity sl (lease_page_id lease)
                                          (lease_generation lease)))
            (\<lambda>sl. if vs_state sl \<noteq> SInUse \<or> vs_pinned_users sl = 0
                  then (Inl (Invalid ''slot release without an active pin''), sl)
                  else (Inr (), let n = vs_pinned_users sl - 1 in
                         if n = 0 then sl\<lparr> vs_pinned_users := n, vs_state := SComputeReady \<rparr>
                         else sl\<lparr> vs_pinned_users := n \<rparr>)))
      | _ \<Rightarrow> errR (Invalid ''VRAM slot lease has wrong location''))"

definition slot_evict :: "nat \<Rightarrow> page_id \<Rightarrow> nat \<Rightarrow> (vram_slot_table, residency_error, unit) op" where
  "slot_evict i p g =
     on_slot i (thenR (readR (\<lambda>sl. validate_slot_identity sl p g))
       (\<lambda>sl. if \<not> slot_evictable sl
             then (Inl (ResourceExhausted ''slot is pinned or not evictable''), sl)
             else (Inr (), slot_new i (vs_capacity_bytes sl))))"

subsection \<open>Symbolic execution on one slot\<close>

lemma wp_on_slot [step_simps]:
  "wp (on_slot i f) Q E t =
     (case slot_get t i of
        Inl e \<Rightarrow> E e t
      | Inr sl \<Rightarrow> wp f (\<lambda>x sl'. Q x (t\<lparr> st_slots := (st_slots t)[i := sl'] \<rparr>))
                      (\<lambda>e sl'. E e (t\<lparr> st_slots := (st_slots t)[i := sl'] \<rparr>)) sl)"
  by (simp add: wp_def on_slot_def split: sum.splits prod.splits)

lemma slot_get_Inr [simp]:
  "slot_get t i = Inr sl \<longleftrightarrow> i < length (st_slots t) \<and> sl = st_slots t ! i"
  by (auto simp: slot_get_def)

subsection \<open>Well-formed slots and exclusive claims\<close>

definition slot_ok :: "nat \<Rightarrow> vram_slot \<Rightarrow> bool" where
  "slot_ok i sl \<longleftrightarrow> vs_slot_id sl = i
     \<and> (if vs_state sl = SFree
        then vs_page_id sl = None \<and> vs_generation sl = None \<and> vs_projection sl = None
             \<and> vs_reserved_bytes sl = 0 \<and> vs_upload_ticket sl = None
        else vs_page_id sl \<noteq> None \<and> vs_generation sl \<noteq> None \<and> vs_projection sl \<noteq> None
             \<and> 0 < vs_reserved_bytes sl \<and> vs_reserved_bytes sl \<le> vs_capacity_bytes sl)
     \<and> vs_pinned_users sl = (if vs_state sl = SInUse then 1 else 0)
     \<and> (vs_state sl = SUploading \<longrightarrow> vs_upload_ticket sl \<noteq> None)"

type_synonym claim = "page_id option \<times> nat option \<times> expert_projection option"

definition slot_claim :: "vram_slot \<Rightarrow> claim option" where
  "slot_claim sl = (if vs_state sl = SFree then None
     else Some (vs_page_id sl, vs_generation sl, vs_projection sl))"

definition claims :: "vram_slot_table \<Rightarrow> nat \<Rightarrow> claim option" where
  "claims t i = (if i < length (st_slots t) then slot_claim (st_slots t ! i) else None)"

definition exclusive :: "(nat \<Rightarrow> 'c option) \<Rightarrow> bool" where
  "exclusive m \<longleftrightarrow> (\<forall>i j c. m i = Some c \<longrightarrow> m j = Some c \<longrightarrow> i = j)"

definition slot_table_ok :: "vram_slot_table \<Rightarrow> bool" where
  "slot_table_ok t \<longleftrightarrow> (\<forall>i<length (st_slots t). slot_ok i (st_slots t ! i)) \<and> exclusive (claims t)"

text \<open>The abstract slot table: grant a free slot an unclaimed page, or revoke a claim.\<close>

inductive claim_step :: "(nat \<rightharpoonup> claim) \<Rightarrow> (nat \<rightharpoonup> claim) \<Rightarrow> bool" where
  stutter: "claim_step m m"
| grant: "m i = None \<Longrightarrow> c \<notin> ran m \<Longrightarrow> claim_step m (m(i \<mapsto> c))"
| revoke: "m i \<noteq> None \<Longrightarrow> claim_step m (m(i := None))"

lemma claim_step_exclusive: "claim_step m m' \<Longrightarrow> exclusive m \<Longrightarrow> exclusive m'"
  by (induction rule: claim_step.induct) (auto simp: exclusive_def ran_def split: if_splits)

datatype slot_cmd =
  CReserve page_id nat expert_projection nat bool
| CQueueUpload nat nat
| CCompleteUpload nat nat "string option"
| CMarkReady nat page_id nat
| CAcquire nat page_id nat nat
| CRelease page_lease
| CEvict nat page_id nat

fun slot_exec :: "slot_cmd \<Rightarrow> vram_slot_table \<Rightarrow> vram_slot_table" where
  "slot_exec (CReserve p g proj bytes spec) t = snd (slot_reserve p g proj bytes spec t)"
| "slot_exec (CQueueUpload i tk) t = snd (slot_queue_upload i tk t)"
| "slot_exec (CCompleteUpload i tk c) t = snd (slot_complete_upload i tk c t)"
| "slot_exec (CMarkReady i p g) t = snd (slot_mark_compute_ready i p g t)"
| "slot_exec (CAcquire i p g e) t = snd (slot_acquire i p g e t)"
| "slot_exec (CRelease l) t = snd (slot_release l t)"
| "slot_exec (CEvict i p g) t = snd (slot_evict i p g t)"

text \<open>
  A slot update that keeps the slot well formed and its claim keeps the table well formed
  and every claim.
\<close>

definition slot_stable :: "nat \<Rightarrow> (vram_slot, residency_error, 'a) op \<Rightarrow> bool" where
  "slot_stable i f \<longleftrightarrow> (\<forall>sl. slot_ok i sl \<longrightarrow>
     slot_ok i (snd (f sl)) \<and> slot_claim (snd (f sl)) = slot_claim sl)"

lemma claims_update:
  "i < length (st_slots t) \<Longrightarrow>
     claims (t\<lparr> st_slots := (st_slots t)[i := sl] \<rparr>) = (claims t)(i := slot_claim sl)"
  by (auto simp: claims_def fun_eq_iff nth_list_update)

lemma slot_table_ok_update:
  assumes "slot_table_ok t" "i < length (st_slots t)" "slot_ok i sl"
    and "exclusive ((claims t)(i := slot_claim sl))"
  shows "slot_table_ok (t\<lparr> st_slots := (st_slots t)[i := sl] \<rparr>)"
  using assms unfolding slot_table_ok_def claims_update [OF assms(2)]
  by (auto simp: nth_list_update)

lemma on_slot_stable:
  assumes "slot_stable i f" "slot_table_ok t"
  shows "slot_table_ok (snd (on_slot i f t)) \<and> claims (snd (on_slot i f t)) = claims t"
proof (cases "i < length (st_slots t)")
  case True
  let ?sl = "st_slots t ! i"
  from assms True have ok: "slot_ok i (snd (f ?sl))" "slot_claim (snd (f ?sl)) = slot_claim ?sl"
    by (auto simp: slot_stable_def slot_table_ok_def)
  have eq: "(claims t)(i := slot_claim (snd (f ?sl))) = claims t"
    using True ok(2) by (auto simp: claims_def fun_eq_iff)
  have "snd (on_slot i f t) = t\<lparr> st_slots := (st_slots t)[i := snd (f ?sl)] \<rparr>"
    using True by (simp add: on_slot_def slot_get_def split: prod.splits)
  with True ok assms(2) eq show ?thesis
    by (simp add: claims_update slot_table_ok_def nth_list_update)
next
  case False
  with assms(2) show ?thesis by (simp add: on_slot_def slot_get_def)
qed

lemmas slot_upd_defs = slot_stable_def slot_ok_def slot_claim_def thenR_def bindR_def readR_def
  sat_add32_def u32_max_def Let_def

lemma slot_queue_upload_stable:
  "slot_table_ok t \<Longrightarrow> slot_table_ok (snd (slot_queue_upload i tk t))
     \<and> claims (snd (slot_queue_upload i tk t)) = claims t"
  unfolding slot_queue_upload_def
  by (rule on_slot_stable) (auto simp: slot_upd_defs)

lemma slot_complete_upload_stable:
  "slot_table_ok t \<Longrightarrow> slot_table_ok (snd (slot_complete_upload i tk c t))
     \<and> claims (snd (slot_complete_upload i tk c t)) = claims t"
  unfolding slot_complete_upload_def
  by (rule on_slot_stable) (auto simp: slot_upd_defs)

lemma slot_mark_compute_ready_stable:
  "slot_table_ok t \<Longrightarrow> slot_table_ok (snd (slot_mark_compute_ready i p g t))
     \<and> claims (snd (slot_mark_compute_ready i p g t)) = claims t"
  unfolding slot_mark_compute_ready_def
  by (rule on_slot_stable) (auto simp: slot_upd_defs split: sum.splits if_splits)

lemma slot_acquire_stable:
  "slot_table_ok t \<Longrightarrow> slot_table_ok (snd (slot_acquire i p g e t))
     \<and> claims (snd (slot_acquire i p g e t)) = claims t"
  unfolding slot_acquire_def
  by (rule on_slot_stable) (auto simp: slot_upd_defs split: sum.splits if_splits)

lemma slot_release_stable:
  "slot_table_ok t \<Longrightarrow> slot_table_ok (snd (slot_release l t))
     \<and> claims (snd (slot_release l t)) = claims t"
proof (cases "lease_location l")
  case (VramSlot i)
  assume "slot_table_ok t"
  then show ?thesis unfolding slot_release_def VramSlot page_location.case
    by (rule on_slot_stable [rotated]) (auto simp: slot_upd_defs split: sum.splits if_splits)
qed (simp_all add: slot_release_def errR_def)

lemma slot_evict_cases:
  assumes ok: "slot_table_ok t"
  shows "slot_evict i p g t = (Inr (), t\<lparr> st_slots := (st_slots t)[i := slot_new i (vs_capacity_bytes (st_slots t ! i))] \<rparr>)
      \<and> i < length (st_slots t) \<and> slot_evictable (st_slots t ! i)
      \<and> vs_page_id (st_slots t ! i) = Some p \<and> vs_generation (st_slots t ! i) = Some g
    \<or> (\<exists>e. slot_evict i p g t = (Inl e, t))"
  by (auto simp: slot_evict_def on_slot_def slot_get_def thenR_def bindR_def readR_def
      validate_slot_identity_def)

lemma slot_new_ok [simp]: "slot_ok i (slot_new i cap)" "slot_claim (slot_new i cap) = None"
  by (simp_all add: slot_ok_def slot_new_def slot_claim_def)

lemma slot_evict_step:
  assumes ok: "slot_table_ok t"
  shows "slot_table_ok (snd (slot_evict i p g t))
     \<and> claim_step (claims t) (claims (snd (slot_evict i p g t)))"
  using slot_evict_cases [OF ok, of i p g]
proof
  let ?t = "t\<lparr> st_slots := (st_slots t)[i := slot_new i (vs_capacity_bytes (st_slots t ! i))] \<rparr>"
  assume ev: "slot_evict i p g t = (Inr (), ?t)
      \<and> i < length (st_slots t) \<and> slot_evictable (st_slots t ! i)
      \<and> vs_page_id (st_slots t ! i) = Some p \<and> vs_generation (st_slots t ! i) = Some g"
  then have i: "i < length (st_slots t)" and "claims t i \<noteq> None"
    by (auto simp: claims_def slot_claim_def slot_evictable_def)
  then have step: "claim_step (claims t) ((claims t)(i := None))" by (intro claim_step.revoke)
  with ok have "exclusive ((claims t)(i := None))"
    by (auto simp: slot_table_ok_def intro: claim_step_exclusive)
  with ok i have "slot_table_ok ?t" by (intro slot_table_ok_update) auto
  with ev step i show ?thesis by (simp add: claims_update)
next
  assume "\<exists>e. slot_evict i p g t = (Inl e, t)"
  with ok show ?thesis by (auto intro: claim_step.stutter)
qed

text \<open>Reservation: the three ways it ends.\<close>

lemma slot_reserve_cases:
  assumes ok: "slot_table_ok t"
  obtains (existing) i where "slot_reserve p g proj bytes spec t = (Inr i, t)"
      "claims t i = Some (Some p, Some g, Some proj)" "i < length (st_slots t)"
  | (granted) i t' where "slot_reserve p g proj bytes spec t = (Inr i, t')"
      "i < length (st_slots t)" "claims t i = None" "slot_table_ok t'"
      "claims t' = (claims t)(i \<mapsto> (Some p, Some g, Some proj))"
      "(Some p, Some g, Some proj) \<notin> ran (claims t)" "length (st_slots t') = length (st_slots t)"
      "vs_state (st_slots t' ! i) = SReserved" "0 < bytes" "bytes \<le> vs_capacity_bytes (st_slots t ! i)"
  | (refused) e where "slot_reserve p g proj bytes spec t = (Inl e, t)"
proof -
  let ?P = "\<lambda>sl. vs_page_id sl = Some p \<and> vs_generation sl = Some g
               \<and> vs_projection sl = Some proj \<and> vs_state sl \<noteq> SFree"
  show thesis
  proof (cases "bytes = 0")
    case True
    then show thesis by (intro refused) (simp add: slot_reserve_def)
  next
    case nz: False
    show thesis
    proof (cases "find ?P (st_slots t)")
      case (Some sl)
      then obtain i where i: "i < length (st_slots t)" "sl = st_slots t ! i" "?P sl"
        by (auto dest!: find_Some_in simp: in_set_conv_nth)
      with ok have "vs_slot_id sl = i" by (simp add: slot_table_ok_def slot_ok_def)
      with i Some nz show thesis
        by (intro existing [of i]) (auto simp: slot_reserve_def claims_def slot_claim_def)
    next
      case none: None
      show thesis
      proof (cases "position (\<lambda>sl. vs_state sl = SFree) (st_slots t)")
        case None
        with none nz show thesis by (intro refused) (simp add: slot_reserve_def)
      next
        case (Some i)
        let ?sl = "st_slots t ! i"
        let ?new = "(slot_new (vs_slot_id ?sl) (vs_capacity_bytes ?sl))
              \<lparr> vs_state := SReserved, vs_page_id := Some p, vs_generation := Some g,
                vs_projection := Some proj, vs_reserved_bytes := bytes, vs_speculative := spec,
                vs_last_use_epoch := st_next_epoch t \<rparr>"
        from Some have i: "i < length (st_slots t)" "vs_state ?sl = SFree"
          by (auto dest: position_Some)
        show thesis
        proof (cases "bytes \<le> vs_capacity_bytes ?sl")
          case True
          with ok i nz have new: "slot_ok i ?new"
              "slot_claim ?new = Some (Some p, Some g, Some proj)" "vs_slot_id ?sl = i"
            by (auto simp: slot_table_ok_def slot_ok_def slot_new_def slot_claim_def)
          have unc: "(Some p, Some g, Some proj) \<notin> ran (claims t)"
            using none by (auto simp: ran_def claims_def slot_claim_def find_None_iff split: if_splits)
          have free: "claims t i = None" using i by (simp add: claims_def slot_claim_def)
          from free unc have "claim_step (claims t) ((claims t)(i \<mapsto> (Some p, Some g, Some proj)))"
            by (rule claim_step.grant)
          with ok have ex: "exclusive ((claims t)(i := slot_claim ?new))"
            unfolding new(2) by (auto simp: slot_table_ok_def intro: claim_step_exclusive)
          let ?t' = "t\<lparr> st_slots := (st_slots t)[i := ?new] \<rparr>"
          show thesis
          proof (rule granted [of i ?t'])
            show "slot_reserve p g proj bytes spec t = (Inr i, ?t')"
              using none Some nz True new(3) by (simp add: slot_reserve_def Let_def)
            show "slot_table_ok ?t'" using ok i(1) new(1) ex by (rule slot_table_ok_update)
            show "claims ?t' = (claims t)(i \<mapsto> (Some p, Some g, Some proj))"
              unfolding claims_update [OF i(1)] new(2) ..
          qed (use i free unc nz True in auto)
        next
          case False
          with none Some nz show thesis by (intro refused) (simp add: slot_reserve_def Let_def)
        qed
      qed
    qed
  qed
qed

lemma slot_reserve_step:
  assumes ok: "slot_table_ok t"
  shows "slot_table_ok (snd (slot_reserve p g proj bytes spec t))
     \<and> claim_step (claims t) (claims (snd (slot_reserve p g proj bytes spec t)))"
  by (rule slot_reserve_cases [OF ok, of p g proj bytes spec])
    (auto simp: ok intro: claim_step.intros)

text \<open>
  C4. Refinement of the VRAM slot table: every operation, whatever its arguments and whether
  it succeeds or fails, keeps the table well formed (slot identities, pin counts, reserved
  sizes) with exclusive claims, and changes the claims only by one step of the abstract
  table, which grants a free slot an unclaimed page or revokes one claim.
\<close>

theorem slot_table_refines_claims:
  assumes "slot_table_ok t"
  shows "slot_table_ok (slot_exec c t) \<and> claim_step (claims t) (claims (slot_exec c t))"
  using assms slot_queue_upload_stable slot_complete_upload_stable
    slot_mark_compute_ready_stable slot_acquire_stable slot_release_stable
    slot_evict_step slot_reserve_step
  by (cases c) (simp_all add: claim_step.stutter)

lemma slot_table_new_ok: "slot_table_new n b = Inr t \<Longrightarrow> slot_table_ok t \<and> claims t = (\<lambda>_. None)"
  by (auto simp: slot_table_new_def slot_table_ok_def claims_def exclusive_def fun_eq_iff
      split: if_splits)

theorem slot_table_refines_claims_witness:
  "\<exists>t. slot_table_new 2 64 = Inr t
     \<and> slot_table_ok (slot_exec (CReserve (PageId ''m'' Weights 7) 0 Gate 64 False) t)
     \<and> claim_step (\<lambda>_. None) (claims (slot_exec (CReserve (PageId ''m'' Weights 7) 0 Gate 64 False) t))
     \<and> claims (slot_exec (CReserve (PageId ''m'' Weights 7) 0 Gate 64 False) t) 0
         = Some (Some (PageId ''m'' Weights 7), Some 0, Some Gate)"
proof -
  obtain t where t: "slot_table_new 2 64 = Inr t" by (simp add: slot_table_new_def)
  then have ok: "slot_table_ok t" and none: "claims t = (\<lambda>_. None)"
    using slot_table_new_ok by blast+
  have "claims (slot_exec (CReserve (PageId ''m'' Weights 7) 0 Gate 64 False) t) 0
         = Some (Some (PageId ''m'' Weights 7), Some 0, Some Gate)"
    using t by (auto simp: slot_table_new_def numeral_2_eq_2 slot_reserve_def slot_new_def
        claims_def slot_claim_def)
  with t slot_table_refines_claims [OF ok, of "CReserve (PageId ''m'' Weights 7) 0 Gate 64 False"]
  show ?thesis unfolding none by blast
qed

end
