(* ===== verification/Residency_Manager.thy ===== *)
theory Residency_Manager
  imports Vram_Slots
begin

text \<open>
  \<open>har-residency/src/manager.rs\<close>, second part: \<open>ResidencyManager\<close>, the ledger that owns the
  page records, the transfer tickets, the VRAM slots and the resource counters.  Each method
  is one definition; a method that fails after it has changed something leaves that change in
  the state it returns, as the Rust code does.  Clock readings are the leading arguments.
\<close>

record manager =
  mg_records :: "(page_id \<times> residency_record) list"
  mg_tickets :: "(nat \<times> transfer_ticket) list"
  mg_slots :: vram_slot_table
  mg_snapshot :: resource_snapshot
  mg_next_ticket :: nat
  mg_next_lease :: nat
  mg_next_epoch :: nat
  mg_ram_pageable_budget :: nat
  mg_ram_pinned_budget :: nat

type_synonym 'a mg_op = "(manager, residency_error, 'a) op"

definition manager_new ::
  "nat \<Rightarrow> nat \<Rightarrow> nat \<Rightarrow> nat \<Rightarrow> nat \<Rightarrow> nat \<Rightarrow> nat \<Rightarrow> residency_error + manager" where
  "manager_new pageable pinned slot_count slot_bytes nvme_cap transfer_cap compute_cap =
     (case slot_table_new slot_count slot_bytes of
        Inl e \<Rightarrow> Inl e
      | Inr slots \<Rightarrow> Inr
          \<lparr> mg_records = [], mg_tickets = [], mg_slots = slots,
            mg_snapshot = snapshot_default
              \<lparr> ram_pageable_capacity := pageable, ram_pinned_capacity := pinned,
                vram_slot_capacity := slot_table_capacity_bytes slots,
                nvme_queue_capacity := nvme_cap, transfer_queue_capacity := transfer_cap,
                compute_queue_capacity := compute_cap \<rparr>,
            mg_next_ticket = 1, mg_next_lease = 1, mg_next_epoch = 1,
            mg_ram_pageable_budget = pageable, mg_ram_pinned_budget = pinned \<rparr>)"

subsection \<open>Access to the parts\<close>

definition get_record :: "manager \<Rightarrow> page_id \<Rightarrow> residency_error + residency_record" where
  "get_record mg p = (case hget (mg_records mg) p of
     Some r \<Rightarrow> Inr r | None \<Rightarrow> Inl (Invalid ''unknown page''))"

definition get_ticket :: "manager \<Rightarrow> nat \<Rightarrow> residency_error + transfer_ticket" where
  "get_ticket mg i = (case hget (mg_tickets mg) i of
     Some t \<Rightarrow> Inr t | None \<Rightarrow> Inl (Invalid ''unknown transfer ticket''))"

text \<open>\<open>self.record_mut(page_id)?.f(...)?\<close>\<close>

definition on_record :: "page_id \<Rightarrow> (residency_record, residency_error, 'a) op \<Rightarrow> 'a mg_op" where
  "on_record p f mg = (case get_record mg p of
     Inl e \<Rightarrow> (Inl e, mg)
   | Inr r \<Rightarrow> (case f r of (res, r') \<Rightarrow> (res, mg\<lparr> mg_records := hput p r' (mg_records mg) \<rparr>)))"

text \<open>
  \<open>self.tickets.get_mut(&id)\<close> followed by a ticket operation.  Where the code unwraps, the
  same key has been looked up before in the same method, so the error branch is not taken.
\<close>

definition on_ticket :: "nat \<Rightarrow> (transfer_ticket, residency_error, 'a) op \<Rightarrow> 'a mg_op" where
  "on_ticket i f mg = (case get_ticket mg i of
     Inl e \<Rightarrow> (Inl e, mg)
   | Inr t \<Rightarrow> (case f t of (res, t') \<Rightarrow> (res, mg\<lparr> mg_tickets := hput i t' (mg_tickets mg) \<rparr>)))"

definition on_slots :: "(vram_slot_table, residency_error, 'a) op \<Rightarrow> 'a mg_op" where
  "on_slots = zoomR mg_slots (\<lambda>t mg. mg\<lparr> mg_slots := t \<rparr>)"

definition on_snapshot :: "(resource_snapshot \<Rightarrow> resource_snapshot) \<Rightarrow> unit mg_op" where
  "on_snapshot f = modR (\<lambda>mg. mg\<lparr> mg_snapshot := f (mg_snapshot mg) \<rparr>)"

definition record_bytes :: "residency_record \<Rightarrow> nat" where
  "record_bytes r = rep_bytes (rr_representation r)"

subsection \<open>Registration and tickets\<close>

definition register :: "storage_slice \<Rightarrow> nat \<Rightarrow> unit mg_op" where
  "register sl g mg =
     (case slice_validate sl of
        Inl e \<Rightarrow> (Inl e, mg)
      | Inr _ \<Rightarrow>
         (if hget (mg_records mg) (sl_page_id sl) \<noteq> None
          then (Inl (Invalid ''page already registered''), mg)
          else (Inr (), mg\<lparr> mg_records := hput (sl_page_id sl)
                  (record_new (sl_page_id sl) (slice_representation sl) g) (mg_records mg) \<rparr>)))"

definition new_ticket ::
  "nat \<Rightarrow> page_id \<Rightarrow> transfer_kind \<Rightarrow> page_location \<Rightarrow> page_location \<Rightarrow> nat \<Rightarrow> bool \<Rightarrow> bool \<Rightarrow> nat mg_op" where
  "new_ticket now p kind src dst bytes mandatory speculative =
     bindR (readR (\<lambda>mg. get_record mg p)) (\<lambda>r.
     bindR (getsR mg_next_ticket) (\<lambda>i.
     thenR (modR (\<lambda>mg. mg\<lparr> mg_next_ticket := wadd64 (mg_next_ticket mg) 1 \<rparr>))
    (thenR (modR (\<lambda>mg. mg\<lparr> mg_tickets := hput i
              (ticket_new now i p (rr_generation r) src dst kind bytes mandatory speculative)
              (mg_tickets mg) \<rparr>))
           (okR i))))"

subsection \<open>Host memory\<close>

definition publish_ram_pageable :: "page_id \<Rightarrow> string option \<Rightarrow> unit mg_op" where
  "publish_ram_pageable p checksum =
     bindR (readR (\<lambda>mg. get_record mg p)) (\<lambda>r.
     thenR (guardR (\<lambda>mg. sat_add64 (ram_pageable_used (mg_snapshot mg)) (record_bytes r)
                           \<le> mg_ram_pageable_budget mg)
              (ResourceExhausted ''pageable RAM budget would be exceeded''))
    (thenR (if \<not> has_replica r RamPageable then
              thenR (on_record p (add_replica RamPageable (rr_generation r)
                       (''ram-pageable:'' @ dec_digits (page_ordinal p)) checksum))
                    (on_snapshot (\<lambda>s. s\<lparr> ram_pageable_used :=
                       sat_add64 (ram_pageable_used s) (record_bytes r) \<rparr>))
            else okR ())
           (if rr_state r = Indexed then
              on_record p (record_transition RamReady ''pageable RAM replica published'')
            else okR ())))"

definition promote_pageable_to_pinned :: "page_id \<Rightarrow> string option \<Rightarrow> unit mg_op" where
  "promote_pageable_to_pinned p checksum =
     bindR (readR (\<lambda>mg. get_record mg p)) (\<lambda>r.
     thenR (guardR (\<lambda>_. has_replica r RamPageable) (NotResident RamPageable))
    (thenR (guardR (\<lambda>mg. sat_add64 (ram_pinned_used (mg_snapshot mg)) (record_bytes r)
                           \<le> mg_ram_pinned_budget mg)
              (ResourceExhausted ''pinned RAM budget would be exceeded''))
    (thenR (on_record p (remove_replica RamPageable))
    (thenR (on_record p (add_replica RamPinned (rr_generation r)
              (''ram-pinned:promote:'' @ dec_digits (page_ordinal p)) checksum))
           (on_snapshot (\<lambda>s. s\<lparr> ram_pageable_used := ram_pageable_used s - record_bytes r,
              ram_pinned_used := sat_add64 (ram_pinned_used s) (record_bytes r) \<rparr>))))))"

subsection \<open>NVMe reads\<close>

definition queue_nvme_read :: "nat \<Rightarrow> page_id \<Rightarrow> bool \<Rightarrow> bool \<Rightarrow> nat mg_op" where
  "queue_nvme_read now p mandatory speculative =
     thenR (guardR (\<lambda>mg. nvme_queue_depth (mg_snapshot mg) < nvme_queue_capacity (mg_snapshot mg))
              (QueueFull ''NVMe queue has no measured slack''))
    (bindR (readR (\<lambda>mg. get_record mg p)) (\<lambda>r.
     bindR (new_ticket now p NvmeRead NvmeCold RamPinned (record_bytes r) mandatory speculative) (\<lambda>i.
     thenR (on_record p (record_transition NvmeReadQueued ''NVMe read queued''))
    (thenR (on_snapshot (\<lambda>s. s\<lparr> nvme_queue_depth := wadd32 (nvme_queue_depth s) 1,
              requested_bytes := wadd64 (requested_bytes s) (record_bytes r),
              unique_bytes := wadd64 (unique_bytes s) (record_bytes r),
              nvme_misses := wadd64 (nvme_misses s) 1 \<rparr>))
           (okR i)))))"

definition start_nvme_read :: "nat \<Rightarrow> nat \<Rightarrow> unit mg_op" where
  "start_nvme_read now i =
     bindR (readR (\<lambda>mg. get_ticket mg i)) (\<lambda>t.
     bindR (readR (\<lambda>mg. get_record mg (tk_page_id t))) (\<lambda>r.
     thenR (guardR (\<lambda>_. tk_generation t = rr_generation r)
              (StaleGeneration (tk_page_id t) (rr_generation r) (tk_generation t)))
    (thenR (on_ticket i (ticket_start now))
           (on_record (tk_page_id t) (record_transition NvmeReading ''NVMe read started'')))))"

text \<open>\<open>if record.generation != generation { return Err(StaleGeneration ..) }\<close>\<close>

definition check_generation :: "page_id \<Rightarrow> nat \<Rightarrow> (residency_record, residency_error, unit) op" where
  "check_generation p g = readR (\<lambda>r. if rr_generation r \<noteq> g
     then Inl (StaleGeneration p (rr_generation r) g) else Inr ())"

definition complete_nvme_read :: "nat \<Rightarrow> nat \<Rightarrow> nat \<Rightarrow> string option \<Rightarrow> unit mg_op" where
  "complete_nvme_read now1 now2 i checksum =
     bindR (readR (\<lambda>mg. get_ticket mg i)) (\<lambda>t.
     bindR (getsR (\<lambda>mg. sat_add64 (ram_pinned_used (mg_snapshot mg)) (tk_requested_bytes t)
                          > mg_ram_pinned_budget mg)) (\<lambda>full.
     if full then
       thenR (on_ticket i (ticket_fail now1 ''pinned RAM budget would be exceeded''))
      (thenR (on_snapshot (\<lambda>s. s\<lparr> nvme_queue_depth := nvme_queue_depth s - 1 \<rparr>))
             (errR (ResourceExhausted ''pinned RAM budget would be exceeded'')))
     else
       thenR (on_ticket i (ticket_first_byte now1))
      (thenR (on_ticket i (ticket_complete now1 now2))
      (thenR (on_record (tk_page_id t)
         (thenR (check_generation (tk_page_id t) (tk_generation t))
         (thenR (add_replica RamPinned (tk_generation t) (''ram-pinned:'' @ dec_digits i) checksum)
                (record_transition RamReady ''NVMe payload committed to pinned RAM''))))
             (on_snapshot (\<lambda>s. s\<lparr> nvme_queue_depth := nvme_queue_depth s - 1,
                ram_pinned_used := sat_add64 (ram_pinned_used s) (tk_requested_bytes t) \<rparr>))))))"

subsection \<open>VRAM uploads\<close>

definition reserve_vram :: "page_id \<Rightarrow> expert_projection \<Rightarrow> bool \<Rightarrow> bool \<Rightarrow> nat mg_op" where
  "reserve_vram p proj mandatory speculative =
     bindR (readR (\<lambda>mg. get_record mg p)) (\<lambda>r.
     thenR (guardR (\<lambda>_. rr_state r = RamReady) (IllegalTransition (rr_state r) VramReservationQueued))
    (thenR (guardR (\<lambda>_. has_replica r RamPinned) (NotResident RamPinned))
    (thenR (guardR (\<lambda>mg. ram_pinned_used (mg_snapshot mg) \<le> mg_ram_pinned_budget mg)
              (ResourceExhausted ''pinned RAM budget is already exceeded''))
    (thenR (on_record p (record_transition VramReservationQueued ''VRAM reservation queued''))
           (matchR (on_slots (slot_reserve p (rr_generation r) proj (record_bytes r) speculative))
              (\<lambda>i. thenR (on_record p (record_transition VramReserved ''persistent VRAM slot reserved''))
                  (thenR (on_snapshot (\<lambda>s. s\<lparr> vram_slot_used := sat_add64 (vram_slot_used s) 0 \<rparr>))
                         (okR i)))
              (\<lambda>e. thenR (on_record p (record_transition RamReady
                            ''VRAM reservation refused; RAM retained''))
                         (errR e)))))))"

definition queue_upload :: "nat \<Rightarrow> page_id \<Rightarrow> nat \<Rightarrow> bool \<Rightarrow> bool \<Rightarrow> nat mg_op" where
  "queue_upload now p slot mandatory speculative =
     thenR (guardR (\<lambda>mg. transfer_queue_depth (mg_snapshot mg) < transfer_queue_capacity (mg_snapshot mg))
              (QueueFull ''transfer queue has no measured slack''))
    (bindR (readR (\<lambda>mg. get_record mg p)) (\<lambda>r.
     bindR (new_ticket now p RamToVram RamPinned (VramSlot slot) (record_bytes r) mandatory speculative) (\<lambda>i.
     thenR (on_slots (slot_queue_upload slot i))
    (thenR (on_record p (record_transition UploadQueued ''RAM to VRAM upload queued''))
    (thenR (on_snapshot (\<lambda>s. s\<lparr> transfer_queue_depth := wadd32 (transfer_queue_depth s) 1 \<rparr>))
           (okR i))))))"

definition start_upload :: "nat \<Rightarrow> nat \<Rightarrow> unit mg_op" where
  "start_upload now i =
     bindR (readR (\<lambda>mg. get_ticket mg i)) (\<lambda>t.
     thenR (on_ticket i (ticket_start now))
           (on_record (tk_page_id t) (record_transition VramUploading ''RAM to VRAM upload started'')))"

definition complete_upload :: "nat \<Rightarrow> nat \<Rightarrow> nat \<Rightarrow> nat \<Rightarrow> string option \<Rightarrow> unit mg_op" where
  "complete_upload now1 now2 i slot checksum =
     bindR (readR (\<lambda>mg. get_ticket mg i)) (\<lambda>t.
     bindR (readR (\<lambda>mg. get_record mg (tk_page_id t))) (\<lambda>r.
     thenR (guardR (\<lambda>_. rr_generation r = tk_generation t)
              (StaleGeneration (tk_page_id t) (rr_generation r) (tk_generation t)))
    (thenR (on_slots (slot_complete_upload slot i checksum))
    (thenR (on_ticket i (ticket_first_byte now1))
    (thenR (on_ticket i (ticket_complete now1 now2))
    (thenR (on_record (tk_page_id t)
         (thenR (check_generation (tk_page_id t) (tk_generation t))
         (thenR (add_replica (VramSlot slot) (tk_generation t) (''vram-slot:'' @ dec_digits slot) checksum)
                (record_transition Uploaded ''VRAM upload completed''))))
           (on_snapshot (\<lambda>s. s\<lparr> transfer_queue_depth := transfer_queue_depth s - 1,
              ram_pinned_used := ram_pinned_used s - tk_requested_bytes t,
              vram_slot_used := sat_add64 (vram_slot_used s) (tk_requested_bytes t) \<rparr>))))))))"

definition mark_compute_ready :: "page_id \<Rightarrow> nat \<Rightarrow> unit mg_op" where
  "mark_compute_ready p slot =
     bindR (readR (\<lambda>mg. get_record mg p)) (\<lambda>r.
     thenR (on_slots (slot_mark_compute_ready slot p (rr_generation r)))
           (on_record p (record_transition ComputeReady ''GPU readiness event published'')))"

subsection \<open>Compute leases\<close>

definition acquire_compute :: "page_id \<Rightarrow> nat \<Rightarrow> page_lease mg_op" where
  "acquire_compute p slot =
     thenR (guardR (\<lambda>mg. compute_queue_depth (mg_snapshot mg) < compute_queue_capacity (mg_snapshot mg))
              (QueueFull ''compute queue has no measured slack''))
    (bindR (readR (\<lambda>mg. get_record mg p)) (\<lambda>r.
     bindR (getsR mg_next_epoch) (\<lambda>epoch.
     thenR (modR (\<lambda>mg. mg\<lparr> mg_next_epoch := wadd64 (mg_next_epoch mg) 1 \<rparr>))
    (bindR (on_slots (slot_acquire slot p (rr_generation r) epoch)) (\<lambda>lease0.
     bindR (getsR mg_next_lease) (\<lambda>n.
     let lease = lease0\<lparr> lease_id := n \<rparr> in
     thenR (modR (\<lambda>mg. mg\<lparr> mg_next_lease := wadd64 (mg_next_lease mg) 1 \<rparr>))
    (thenR (on_record p (modR (\<lambda>r. r\<lparr> rr_leases := bput n lease (rr_leases r) \<rparr>)))
    (thenR (on_record p (record_transition InUse ''GPU compute lease acquired''))
    (thenR (on_snapshot (\<lambda>s. s\<lparr> compute_queue_depth := wadd32 (compute_queue_depth s) 1 \<rparr>))
           (okR lease))))))))))"

definition release_compute :: "page_lease \<Rightarrow> unit mg_op" where
  "release_compute lease =
     bindR (readR (\<lambda>mg. get_record mg (lease_page_id lease))) (\<lambda>r.
     thenR (readR (\<lambda>_. lease_validate_against lease r))
    (thenR (on_slots (slot_release lease))
    (thenR (on_record (lease_page_id lease)
         (thenR (modR (\<lambda>r. r\<lparr> rr_leases := bdel (lease_id lease) (rr_leases r) \<rparr>))
                (record_transition ComputeReady ''GPU compute lease released'')))
           (on_snapshot (\<lambda>s. s\<lparr> compute_queue_depth := compute_queue_depth s - 1 \<rparr>)))))"

subsection \<open>Eviction\<close>

definition evict_vram :: "page_id \<Rightarrow> nat \<Rightarrow> eviction_reason mg_op" where
  "evict_vram p slot =
     bindR (readR (\<lambda>mg. get_record mg p)) (\<lambda>r.
     thenR (guardR (\<lambda>_. has_replica r (VramSlot slot)) (NotResident (VramSlot slot)))
    (thenR (guardR (\<lambda>_. rr_state r \<in> {ComputeReady, Uploaded})
              (Invalid ''VRAM eviction while page is in use or not ready''))
    (thenR (on_record p (record_transition EvictionQueued ''VRAM eviction queued''))
    (thenR (on_record p (record_transition Evicting ''VRAM eviction started''))
    (thenR (on_slots (slot_evict slot p (rr_generation r)))
    (thenR (on_record p (remove_replica (VramSlot slot)))
    (thenR (on_record p (record_transition RamReady ''VRAM evicted; pinned RAM retained''))
    (thenR (on_snapshot (\<lambda>s. s\<lparr> vram_slot_used := vram_slot_used s - record_bytes r \<rparr>))
           (okR EvExplicitRelease)))))))))"

definition evict_pageable_ram :: "page_id \<Rightarrow> eviction_reason mg_op" where
  "evict_pageable_ram p =
     bindR (readR (\<lambda>mg. get_record mg p)) (\<lambda>r.
     thenR (guardR (\<lambda>_. has_replica r RamPageable) (NotResident RamPageable))
    (thenR (guardR (\<lambda>_. rr_state r \<in> {RamReady, ComputeReady})
              (Invalid ''pageable RAM eviction while page is in use''))
    (thenR (on_record p (record_transition EvictionQueued ''pageable RAM eviction queued''))
    (thenR (on_record p (record_transition Evicting ''pageable RAM eviction started''))
    (thenR (on_record p (remove_replica RamPageable))
    (bindR (readR (\<lambda>mg. get_record mg p)) (\<lambda>r'.
     thenR (if list_ex (is_vram \<circ> fst) (rr_replicas r') then
              on_record p (record_transition ComputeReady ''pageable RAM evicted; VRAM retained'')
            else
              on_record p (record_transition Indexed ''pageable RAM replica evicted''))
    (thenR (on_snapshot (\<lambda>s. s\<lparr> ram_pageable_used := ram_pageable_used s - record_bytes r \<rparr>))
           (okR EvExplicitRelease)))))))))"

definition evict_ram :: "page_id \<Rightarrow> eviction_reason mg_op" where
  "evict_ram p =
     bindR (readR (\<lambda>mg. get_record mg p)) (\<lambda>r.
     thenR (guardR (\<lambda>_. has_replica r RamPinned) (NotResident RamPinned))
    (thenR (guardR (\<lambda>_. rr_state r \<in> {RamReady, ComputeReady})
              (Invalid ''RAM eviction while page is in use''))
    (thenR (on_record p (record_transition EvictionQueued ''RAM eviction queued''))
    (thenR (on_record p (record_transition Evicting ''RAM eviction started''))
    (thenR (on_record p (remove_replica RamPinned))
    (bindR (readR (\<lambda>mg. get_record mg p)) (\<lambda>r'.
     thenR (if list_ex (is_vram \<circ> fst) (rr_replicas r') then
              on_record p (record_transition ComputeReady ''RAM replica evicted; VRAM retained'')
            else
              on_record p (record_transition Indexed ''RAM replica evicted''))
    (thenR (on_snapshot (\<lambda>s. s\<lparr> ram_pinned_used := ram_pinned_used s - record_bytes r \<rparr>))
           (okR EvExplicitRelease)))))))))"

definition cancel_ticket :: "nat \<Rightarrow> nat \<Rightarrow> string \<Rightarrow> unit mg_op" where
  "cancel_ticket now i reason =
     bindR (readR (\<lambda>mg. get_ticket mg i)) (\<lambda>t.
     thenR (on_ticket i (ticket_cancel now reason))
           (case tk_kind t of
              NvmeRead \<Rightarrow> on_snapshot (\<lambda>s. s\<lparr> nvme_queue_depth := nvme_queue_depth s - 1 \<rparr>)
            | RamToVram \<Rightarrow> on_snapshot (\<lambda>s. s\<lparr> transfer_queue_depth := transfer_queue_depth s - 1 \<rparr>)
            | _ \<Rightarrow> okR ()))"

subsection \<open>Generations\<close>

fun evict_stale_slots :: "page_id \<Rightarrow> nat \<Rightarrow> nat list \<Rightarrow> unit mg_op" where
  "evict_stale_slots p old [] = okR ()"
| "evict_stale_slots p old (i # rest) =
     bindR (readR (\<lambda>mg. slot_get (mg_slots mg) i)) (\<lambda>sl.
     if slot_evictable sl
     then thenR (on_slots (slot_evict i p old)) (evict_stale_slots p old rest)
     else errR (ResourceExhausted ''cannot advance a page with a busy slot''))"

definition stale_slots :: "page_id \<Rightarrow> nat \<Rightarrow> manager \<Rightarrow> nat list" where
  "stale_slots p old mg = map vs_slot_id
     (filter (\<lambda>sl. vs_page_id sl = Some p \<and> vs_generation sl = Some old) (st_slots (mg_slots mg)))"

definition advance_generation :: "page_id \<Rightarrow> nat \<Rightarrow> unit mg_op" where
  "advance_generation p g =
     bindR (readR (\<lambda>mg. get_record mg p)) (\<lambda>r.
     thenR (guardR (\<lambda>_. rr_leases r = [] \<and> rr_state r \<noteq> InUse)
              (ResourceExhausted ''cannot advance a page while it is leased''))
    (thenR (guardR (\<lambda>_. rr_generation r < g) (Invalid ''generation must increase monotonically''))
    (bindR (getsR (stale_slots p (rr_generation r))) (\<lambda>stale.
     thenR (evict_stale_slots p (rr_generation r) stale)
    (thenR (if has_replica r RamPageable
            then on_snapshot (\<lambda>s. s\<lparr> ram_pageable_used := ram_pageable_used s - record_bytes r \<rparr>)
            else okR ())
    (thenR (if has_replica r RamPinned
            then on_snapshot (\<lambda>s. s\<lparr> ram_pinned_used := ram_pinned_used s - record_bytes r \<rparr>)
            else okR ())
           (on_record p (modR (\<lambda>r. r\<lparr> rr_replicas := [], rr_generation := g, rr_state := Indexed,
              rr_history := rr_history r @
                [''generation advanced to Generation('' @ dec_digits g @ '')''] \<rparr>)))))))))"

subsection \<open>Validation\<close>

fun validate_records :: "(page_id \<times> residency_record) list \<Rightarrow> residency_error + unit" where
  "validate_records [] = Inr ()"
| "validate_records ((p, r) # rest) =
     (case record_validate r of Inl e \<Rightarrow> Inl e | Inr _ \<Rightarrow> validate_records rest)"

fun validate_slots :: "manager \<Rightarrow> vram_slot list \<Rightarrow> residency_error + unit" where
  "validate_slots mg [] = Inr ()"
| "validate_slots mg (sl # rest) =
     (if vs_state sl = SFree then validate_slots mg rest
      else case vs_page_id sl of
        None \<Rightarrow> Inl (Invalid ''occupied slot has no page identity'')
      | Some p \<Rightarrow>
         (case get_record mg p of
            Inl e \<Rightarrow> Inl e
          | Inr r \<Rightarrow>
             (if vs_generation sl \<noteq> Some (rr_generation r)
              then Inl (StaleGeneration p (rr_generation r)
                     (case vs_generation sl of Some g \<Rightarrow> g | None \<Rightarrow> 0))
              else if slot_ready sl \<and> \<not> has_replica r (VramSlot (vs_slot_id sl))
              then Inl (Invalid ''ready slot lacks explicit record replica'')
              else validate_slots mg rest)))"

definition manager_validate :: "manager \<Rightarrow> residency_error + unit" where
  "manager_validate mg = (case validate_records (mg_records mg) of
     Inl e \<Rightarrow> Inl e | Inr _ \<Rightarrow> validate_slots mg (st_slots (mg_slots mg)))"

subsection \<open>Commands and reachable states\<close>

datatype mg_cmd =
  MRegister storage_slice nat
| MPublish page_id "string option"
| MPromote page_id "string option"
| MQueueRead nat page_id bool bool
| MStartRead nat nat
| MCompleteRead nat nat nat "string option"
| MReserve page_id expert_projection bool bool
| MQueueUpload nat page_id nat bool bool
| MStartUpload nat nat
| MCompleteUpload nat nat nat nat "string option"
| MMarkReady page_id nat
| MAcquire page_id nat
| MRelease page_lease
| MEvictVram page_id nat
| MEvictPageable page_id
| MEvictRam page_id
| MCancel nat nat string
| MAdvance page_id nat

fun mg_exec :: "mg_cmd \<Rightarrow> manager \<Rightarrow> manager" where
  "mg_exec (MRegister sl g) mg = snd (register sl g mg)"
| "mg_exec (MPublish p c) mg = snd (publish_ram_pageable p c mg)"
| "mg_exec (MPromote p c) mg = snd (promote_pageable_to_pinned p c mg)"
| "mg_exec (MQueueRead n p m s) mg = snd (queue_nvme_read n p m s mg)"
| "mg_exec (MStartRead n i) mg = snd (start_nvme_read n i mg)"
| "mg_exec (MCompleteRead n n' i c) mg = snd (complete_nvme_read n n' i c mg)"
| "mg_exec (MReserve p proj m s) mg = snd (reserve_vram p proj m s mg)"
| "mg_exec (MQueueUpload n p sl m s) mg = snd (queue_upload n p sl m s mg)"
| "mg_exec (MStartUpload n i) mg = snd (start_upload n i mg)"
| "mg_exec (MCompleteUpload n n' i sl c) mg = snd (complete_upload n n' i sl c mg)"
| "mg_exec (MMarkReady p sl) mg = snd (mark_compute_ready p sl mg)"
| "mg_exec (MAcquire p sl) mg = snd (acquire_compute p sl mg)"
| "mg_exec (MRelease l) mg = snd (release_compute l mg)"
| "mg_exec (MEvictVram p sl) mg = snd (evict_vram p sl mg)"
| "mg_exec (MEvictPageable p) mg = snd (evict_pageable_ram p mg)"
| "mg_exec (MEvictRam p) mg = snd (evict_ram p mg)"
| "mg_exec (MCancel n i why) mg = snd (cancel_ticket n i why mg)"
| "mg_exec (MAdvance p g) mg = snd (advance_generation p g mg)"

text \<open>The states of a manager after any calls with any arguments, failed calls included.\<close>

inductive mg_reachable :: "manager \<Rightarrow> bool" where
  fresh: "manager_new a b c d e f g = Inr mg \<Longrightarrow> mg_reachable mg"
| call: "mg_reachable mg \<Longrightarrow> mg_reachable (mg_exec cmd mg)"

end
