(* ===== verification/Residency_Safety.thy ===== *)
theory Residency_Safety
  imports Residency_Manager
begin

text \<open>
  Correctness of the residency manager.  The invariants hold in every state reachable by
  calls with arbitrary arguments, including calls that fail half way.
\<close>

subsection \<open>Symbolic execution of manager operations\<close>

lemma wp_on_record [step_simps]:
  "wp (on_record p f) Q E mg =
     (case hget (mg_records mg) p of
        None \<Rightarrow> E (Invalid ''unknown page'') mg
      | Some r \<Rightarrow> wp f (\<lambda>x r'. Q x (mg\<lparr> mg_records := hput p r' (mg_records mg) \<rparr>))
                     (\<lambda>e r'. E e (mg\<lparr> mg_records := hput p r' (mg_records mg) \<rparr>)) r)"
  by (simp add: wp_def on_record_def get_record_def split: option.splits prod.splits sum.splits)

lemma wp_on_ticket [step_simps]:
  "wp (on_ticket i f) Q E mg =
     (case hget (mg_tickets mg) i of
        None \<Rightarrow> E (Invalid ''unknown transfer ticket'') mg
      | Some t \<Rightarrow> wp f (\<lambda>x t'. Q x (mg\<lparr> mg_tickets := hput i t' (mg_tickets mg) \<rparr>))
                     (\<lambda>e t'. E e (mg\<lparr> mg_tickets := hput i t' (mg_tickets mg) \<rparr>)) t)"
  by (simp add: wp_def on_ticket_def get_ticket_def split: option.splits prod.splits sum.splits)

lemma wp_on_slots [step_simps]:
  "wp (on_slots m) Q E mg =
     wp m (\<lambda>x t. Q x (mg\<lparr> mg_slots := t \<rparr>)) (\<lambda>e t. E e (mg\<lparr> mg_slots := t \<rparr>)) (mg_slots mg)"
  by (simp add: on_slots_def wp_zoomR)

lemma wp_on_snapshot [step_simps]:
  "wp (on_snapshot f) Q E mg = Q () (mg\<lparr> mg_snapshot := f (mg_snapshot mg) \<rparr>)"
  by (simp add: on_snapshot_def wp_modR)

lemma case_get_record [step_simps]:
  "(case get_record mg p of Inl e \<Rightarrow> a e | Inr r \<Rightarrow> b r) =
     (case hget (mg_records mg) p of None \<Rightarrow> a (Invalid ''unknown page'') | Some r \<Rightarrow> b r)"
  by (simp add: get_record_def split: option.splits)

lemma case_get_ticket [step_simps]:
  "(case get_ticket mg i of Inl e \<Rightarrow> a e | Inr t \<Rightarrow> b t) =
     (case hget (mg_tickets mg) i of
        None \<Rightarrow> a (Invalid ''unknown transfer ticket'') | Some t \<Rightarrow> b t)"
  by (simp add: get_ticket_def split: option.splits)

lemma wp_check_generation [step_simps]:
  "wp (check_generation p g) Q E r =
     (if rr_generation r \<noteq> g then E (StaleGeneration p (rr_generation r) g) r else Q () r)"
  by (simp add: check_generation_def wp_readR)

lemma wp_new_ticket [step_simps]:
  "wp (new_ticket now p kind src dst bytes m s) Q E mg =
     (case hget (mg_records mg) p of
        None \<Rightarrow> E (Invalid ''unknown page'') mg
      | Some r \<Rightarrow> Q (mg_next_ticket mg)
          (mg\<lparr> mg_next_ticket := wadd64 (mg_next_ticket mg) 1,
              mg_tickets := hput (mg_next_ticket mg)
                (ticket_new now (mg_next_ticket mg) p (rr_generation r) src dst kind bytes m s)
                (mg_tickets mg) \<rparr>))"
  by (auto simp: new_ticket_def step_simps split: option.splits)

subsection \<open>Every record stays valid\<close>

definition records_ok :: "(page_id \<rightharpoonup> residency_record) \<Rightarrow> bool" where
  "records_ok m \<longleftrightarrow> (\<forall>p r. m p = Some r \<longrightarrow> rr_page_id r = p \<and> record_inv r)"

lemma records_ok_upd [simp]:
  "records_ok m \<Longrightarrow> records_ok (m(p \<mapsto> r)) \<longleftrightarrow> rr_page_id r = p \<and> record_inv r"
  by (auto simp: records_ok_def)

lemma records_okD: "records_ok m \<Longrightarrow> m p = Some r \<Longrightarrow> rr_page_id r = p \<and> record_inv r"
  by (auto simp: records_ok_def)

lemma record_ok_auth: "record_ok r \<Longrightarrow> rr_authoritative r = NvmeCold"
  by (simp add: record_ok_def)

lemma record_ok_has_replica:
  "record_ok r \<Longrightarrow> l \<noteq> NvmeCold \<Longrightarrow> has_replica r l \<longleftrightarrow> bget (rr_replicas r) l \<noteq> None"
  by (auto simp: has_replica_def record_ok_def)

abbreviation inv_records :: "manager \<Rightarrow> bool" where
  "inv_records mg \<equiv> records_ok (hget (mg_records mg))"

lemma has_ram_upd [simp]:
  "has_ram (r\<lparr> rr_state := s \<rparr>) = has_ram r" "has_ram (r\<lparr> rr_history := h \<rparr>) = has_ram r"
  "has_ram (r\<lparr> rr_leases := ls \<rparr>) = has_ram r"
  "has_ram (r\<lparr> rr_replicas := bput l rp (rr_replicas r) \<rparr>) = (is_ram l \<or> has_ram r)"
  by (simp_all add: has_ram_def list_ex_bput)

lemma has_vram_upd [simp]:
  "has_vram (r\<lparr> rr_state := s \<rparr>) = has_vram r" "has_vram (r\<lparr> rr_history := h \<rparr>) = has_vram r"
  "has_vram (r\<lparr> rr_leases := ls \<rparr>) = has_vram r"
  "has_vram (r\<lparr> rr_replicas := bput l rp (rr_replicas r) \<rparr>) = (is_vram l \<or> has_vram r)"
  by (simp_all add: has_vram_def list_ex_bput)

lemma rr_page_id_new [simp]: "rr_page_id (record_new p rep g) = p"
  by (simp add: record_new_def)

lemmas inv_simps = step_simps record_inv_def record_ok_auth record_ok_add record_ok_remove
  ram_states_def vram_states_def

lemma has_replica_ram:
  assumes "record_ok r" "has_replica r l" "is_ram l"
  shows "has_ram r"
proof -
  have "l \<noteq> NvmeCold" using assms(3) by auto
  with assms(1,2) obtain rp where "(l, rp) \<in> set (rr_replicas r)"
    by (auto simp: has_replica_def record_ok_def dest!: map_of_SomeD)
  with assms(3) show ?thesis by (force simp: has_ram_def list_ex_iff)
qed

lemmas has_replica_ramD = has_replica_ram [where l = RamPageable] has_replica_ram [where l = RamPinned]

lemma keeps_wpI: "(\<And>s. I s \<Longrightarrow> wp m (\<lambda>_. I) (\<lambda>_. I) s) \<Longrightarrow> keeps I m"
  by (simp add: keeps_wp)

lemma ticket_op_any:
  "(\<And>x t'. Q x t') \<Longrightarrow> (\<And>e t'. E e t') \<Longrightarrow> wp (f :: (transfer_ticket, residency_error, 'a) op) Q E t"
  by (rule wp_any)

lemma slots_op_any:
  "(\<And>x t'. Q x t') \<Longrightarrow> (\<And>e t'. E e t') \<Longrightarrow> wp (f :: (vram_slot_table, residency_error, 'a) op) Q E t"
  by (rule wp_any)

lemmas frame_intros = ticket_op_any slots_op_any

text \<open>A legal transition never needs a replica the record does not have, except into the three
  states that a commit reaches.\<close>

lemma legal_ram: "record_inv r \<Longrightarrow> legal_transition (rr_state r) s \<Longrightarrow> s \<in> ram_states - {RamReady} \<Longrightarrow> has_ram r"
  by (cases "rr_state r") (auto simp: record_inv_def ram_states_def)

lemma legal_vram: "record_inv r \<Longrightarrow> legal_transition (rr_state r) s \<Longrightarrow> s \<in> {ComputeReady, InUse} \<Longrightarrow> has_vram r"
  by (cases "rr_state r") (auto simp: record_inv_def vram_states_def)

lemmas legal_replicas =
  legal_ram [where s = VramReservationQueued, simplified ram_states_def]
  legal_ram [where s = VramReserved, simplified ram_states_def]
  legal_ram [where s = UploadQueued, simplified ram_states_def]
  legal_ram [where s = VramUploading, simplified ram_states_def]
  legal_ram [where s = Uploaded, simplified ram_states_def]
  legal_ram [where s = ComputeReady, simplified ram_states_def]
  legal_ram [where s = InUse, simplified ram_states_def]
  legal_vram [where s = ComputeReady] legal_vram [where s = InUse]

lemma record_inv_ok: "record_inv r \<Longrightarrow> record_ok r" by (simp add: record_inv_def)

lemma record_ok_add' [simp]:
  "record_ok r \<Longrightarrow> l \<noteq> NvmeCold \<Longrightarrow> g = rr_generation r \<Longrightarrow>
   record_ok (r\<lparr> rr_replicas := bput l
      \<lparr> rp_location = l, rp_representation = rr_representation r,
        rp_generation = g, rp_explicit_replication = True,
        rp_replica_id = rid, rp_checksum = c \<rparr> (rr_replicas r) \<rparr>)"
  by (simp add: record_ok_add)

lemma record_ok_bdel [simp]:
  "record_ok r \<Longrightarrow> record_ok (r\<lparr> rr_history := h, rr_state := s, rr_replicas := bdel l (rr_replicas r) \<rparr>)"
  "record_ok r \<Longrightarrow> record_ok (r\<lparr> rr_replicas := bdel l (rr_replicas r) \<rparr>)"
  by (auto simp: record_ok_def bsorted_bdel set_bdel)

lemma has_ram_bdel [simp]:
  "\<not> is_ram l \<Longrightarrow> has_ram (r\<lparr> rr_replicas := bdel l (rr_replicas r) \<rparr>) = has_ram r"
  unfolding has_ram_def by (simp add: list_ex_bdel) (auto simp: list_ex_iff)

lemma bput_nonempty [simp]: "bput k v m \<noteq> []"
  by (induction k v m rule: bput.induct) auto

lemma lookup_okD: "m p = Some r \<Longrightarrow> records_ok m \<Longrightarrow> rr_page_id r = p \<and> record_inv r \<and> record_ok r"
  by (auto simp: records_ok_def record_inv_def)

lemma register_keeps_records: "keeps inv_records (register sl g)"
  by (rule keeps_wpI)
    (auto simp: register_def wp_def rr_page_id_new split: sum.splits)

lemma publish_keeps_records: "keeps inv_records (publish_ram_pageable p c)"
  by (rule keeps_wpI, unfold publish_ram_pageable_def)
    (auto simp: inv_simps Let_def dest!: lookup_okD intro!: frame_intros intro: legal_replicas has_replica_ramD
      split: option.splits sum.splits transfer_kind.splits)

lemma queue_nvme_read_keeps_records: "keeps inv_records (queue_nvme_read n p m s)"
  by (rule keeps_wpI, unfold queue_nvme_read_def)
    (auto simp: inv_simps Let_def dest!: lookup_okD intro!: frame_intros intro: legal_replicas has_replica_ramD
      split: option.splits sum.splits transfer_kind.splits)

lemma start_nvme_read_keeps_records: "keeps inv_records (start_nvme_read n i)"
  by (rule keeps_wpI, unfold start_nvme_read_def)
    (auto simp: inv_simps Let_def dest!: lookup_okD intro!: frame_intros intro: legal_replicas has_replica_ramD
      split: option.splits sum.splits transfer_kind.splits)

lemma complete_nvme_read_keeps_records: "keeps inv_records (complete_nvme_read n n' i c)"
  by (rule keeps_wpI, unfold complete_nvme_read_def)
    (auto simp: inv_simps Let_def dest!: lookup_okD intro!: frame_intros intro: legal_replicas has_replica_ramD
      split: option.splits sum.splits transfer_kind.splits)

lemma reserve_vram_keeps_records: "keeps inv_records (reserve_vram p proj m s)"
  by (rule keeps_wpI, unfold reserve_vram_def)
    (auto simp: inv_simps Let_def dest!: lookup_okD intro!: frame_intros intro: legal_replicas has_replica_ramD
      split: option.splits sum.splits transfer_kind.splits)

lemma queue_upload_keeps_records: "keeps inv_records (queue_upload n p sl m s)"
  by (rule keeps_wpI, unfold queue_upload_def)
    (auto simp: inv_simps Let_def dest!: lookup_okD intro!: frame_intros intro: legal_replicas has_replica_ramD
      split: option.splits sum.splits transfer_kind.splits)

lemma start_upload_keeps_records: "keeps inv_records (start_upload n i)"
  by (rule keeps_wpI, unfold start_upload_def)
    (auto simp: inv_simps Let_def dest!: lookup_okD intro!: frame_intros intro: legal_replicas has_replica_ramD
      split: option.splits sum.splits transfer_kind.splits)

lemma complete_upload_keeps_records: "keeps inv_records (complete_upload n n' i sl c)"
  by (rule keeps_wpI, unfold complete_upload_def)
    (auto simp: inv_simps Let_def dest!: lookup_okD intro!: frame_intros intro: legal_replicas has_replica_ramD
      split: option.splits sum.splits transfer_kind.splits)

lemma mark_compute_ready_keeps_records: "keeps inv_records (mark_compute_ready p sl)"
  by (rule keeps_wpI, unfold mark_compute_ready_def)
    (auto simp: inv_simps Let_def dest!: lookup_okD intro!: frame_intros intro: legal_replicas has_replica_ramD
      split: option.splits sum.splits transfer_kind.splits)

lemma record_inv_leases: "record_inv r \<Longrightarrow> ls \<noteq> [] \<Longrightarrow> record_inv (r\<lparr> rr_leases := ls \<rparr>)"
  by (simp add: record_inv_def)

lemma record_inv_in_use:
  assumes "record_inv r" "legal_transition (rr_state r) InUse" "ls \<noteq> []"
  shows "record_inv (r\<lparr> rr_leases := ls, rr_history := h, rr_state := InUse \<rparr>)"
proof -
  have "has_ram r" "has_vram r" "record_ok r"
    using assms legal_ram [of r InUse] legal_vram [of r InUse]
    by (auto simp: ram_states_def intro: record_inv_ok)
  with assms(3) show ?thesis by (simp add: record_inv_def)
qed

lemma acquire_compute_keeps_records: "keeps inv_records (acquire_compute p sl)"
proof (rule keeps_wpI, goal_cases)
  case (1 s)
  show ?case
  proof (cases "hget (mg_records s) p")
    case (Some r)
    with 1 have r: "record_inv r" "rr_page_id r = p" by (auto dest: records_okD)
    show ?thesis unfolding acquire_compute_def
      using 1 Some r by (simp add: step_simps Let_def record_inv_in_use record_inv_leases slots_op_any)
  qed (use 1 in \<open>simp add: step_simps acquire_compute_def\<close>)
qed

lemma release_compute_keeps_records: "keeps inv_records (release_compute l)"
  by (rule keeps_wpI, unfold release_compute_def)
    (auto simp: inv_simps Let_def dest!: lookup_okD intro!: frame_intros intro: legal_replicas has_replica_ramD
      split: option.splits sum.splits transfer_kind.splits)

lemma evict_vram_keeps_records: "keeps inv_records (evict_vram p sl)"
  by (rule keeps_wpI, unfold evict_vram_def)
    (auto simp: inv_simps Let_def dest!: lookup_okD intro!: frame_intros intro: legal_replicas has_replica_ramD
      split: option.splits sum.splits transfer_kind.splits)

lemma evict_pageable_ram_keeps_records: "keeps inv_records (evict_pageable_ram p)"
  by (rule keeps_wpI, unfold evict_pageable_ram_def)
    (auto simp: inv_simps Let_def dest!: lookup_okD intro!: frame_intros intro: legal_replicas has_replica_ramD
      split: option.splits sum.splits transfer_kind.splits)

lemma evict_ram_keeps_records: "keeps inv_records (evict_ram p)"
  by (rule keeps_wpI, unfold evict_ram_def)
    (auto simp: inv_simps Let_def dest!: lookup_okD intro!: frame_intros intro: legal_replicas has_replica_ramD
      split: option.splits sum.splits transfer_kind.splits)

lemma cancel_ticket_keeps_records: "keeps inv_records (cancel_ticket n i why)"
  by (rule keeps_wpI, unfold cancel_ticket_def)
    (auto simp: inv_simps Let_def dest!: lookup_okD intro!: frame_intros intro: legal_replicas has_replica_ramD
      split: option.splits sum.splits transfer_kind.splits)

lemma record_inv_promote:
  assumes inv: "record_inv r"
    and rp: "rp_explicit_replication rp" "rp_location rp = RamPinned"
      "rp_generation rp = rr_generation r" "rp_representation rp = rr_representation r"
  shows "record_inv (r\<lparr> rr_replicas := bput RamPinned rp (bdel RamPageable (rr_replicas r)) \<rparr>)"
    (is "record_inv (r\<lparr> rr_replicas := ?m \<rparr>)")
proof -
  have "record_ok (r\<lparr> rr_replicas := ?m \<rparr>)"
    using inv rp by (auto simp: record_inv_def record_ok_def bsorted_bput bsorted_bdel set_bdel dest!: set_bput_cases)
  moreover have "has_ram (r\<lparr> rr_replicas := ?m \<rparr>)" by (simp add: has_ram_def list_ex_bput)
  moreover have "has_vram r \<Longrightarrow> has_vram (r\<lparr> rr_replicas := ?m \<rparr>)"
    by (auto simp: has_vram_def list_ex_bput list_ex_bdel) (force simp: list_ex_iff)
  ultimately show ?thesis using inv by (auto simp: record_inv_def)
qed

lemma promote_keeps_records: "keeps inv_records (promote_pageable_to_pinned p c)"
proof (rule keeps_wpI, goal_cases)
  case (1 s)
  show ?case
  proof (cases "hget (mg_records s) p")
    case (Some r)
    with 1 have r: "record_inv r" "rr_page_id r = p" "rr_authoritative r = NvmeCold"
      by (auto dest: records_okD record_inv_ok record_ok_auth)
    then show ?thesis unfolding promote_pageable_to_pinned_def
      using 1 Some by (simp add: step_simps record_inv_promote)
  qed (use 1 in \<open>simp add: step_simps promote_pageable_to_pinned_def\<close>)
qed

lemma evict_stale_slots_frame:
  "wp (evict_stale_slots p old is) (\<lambda>_ mg'. \<exists>t. mg' = mg\<lparr> mg_slots := t \<rparr>)
     (\<lambda>_ mg'. \<exists>t. mg' = mg\<lparr> mg_slots := t \<rparr>) mg"
proof (induction "is" arbitrary: mg)
  case Nil
  show ?case by (simp add: step_simps) (rule exI [of _ "mg_slots mg"], simp)
next
  case (Cons i rest)
  have err: "\<exists>t. mg = mg\<lparr> mg_slots := t \<rparr>" by (rule exI [of _ "mg_slots mg"]) simp
  have rest: "wp (evict_stale_slots p old rest) (\<lambda>_ mg'. \<exists>t. mg' = mg\<lparr> mg_slots := t \<rparr>)
      (\<lambda>_ mg'. \<exists>t. mg' = mg\<lparr> mg_slots := t \<rparr>) (mg\<lparr> mg_slots := t' \<rparr>)" for t'
    by (rule wp_mono [OF Cons.IH]) auto
  show ?case
    by (auto simp: step_simps err rest split: sum.splits intro!: slots_op_any)
qed

lemma evict_stale_slots_any:
  "(\<And>t. Q () (s\<lparr> mg_slots := t \<rparr>)) \<Longrightarrow> (\<And>e t. E e (s\<lparr> mg_slots := t \<rparr>)) \<Longrightarrow>
     wp (evict_stale_slots p old l) Q E s"
  by (rule wp_mono [OF evict_stale_slots_frame]) auto

lemma record_inv_reset [simp]:
  "record_inv r \<Longrightarrow> record_inv (r\<lparr> rr_replicas := [], rr_generation := g, rr_state := Indexed, rr_history := h \<rparr>)"
  by (simp add: record_inv_def record_ok_def ram_states_def vram_states_def)

lemma advance_generation_keeps_records: "keeps inv_records (advance_generation p g)"
proof (rule keeps_wpI, goal_cases)
  case (1 s)
  show ?case
  proof (cases "hget (mg_records s) p")
    case (Some r)
    with 1 have r: "record_inv r" "rr_page_id r = p" by (auto dest: records_okD)
    show ?thesis unfolding advance_generation_def
      using 1 Some r by (auto simp: step_simps intro!: evict_stale_slots_any)
  qed (use 1 in \<open>simp add: step_simps advance_generation_def\<close>)
qed

lemmas ops_keep_records = register_keeps_records publish_keeps_records promote_keeps_records
  queue_nvme_read_keeps_records start_nvme_read_keeps_records complete_nvme_read_keeps_records
  reserve_vram_keeps_records queue_upload_keeps_records start_upload_keeps_records
  complete_upload_keeps_records mark_compute_ready_keeps_records acquire_compute_keeps_records
  release_compute_keeps_records evict_vram_keeps_records evict_pageable_ram_keeps_records
  evict_ram_keeps_records cancel_ticket_keeps_records advance_generation_keeps_records

lemma mg_exec_keeps:
  assumes "\<And>sl g. keeps I (register sl g)" "\<And>p c. keeps I (publish_ram_pageable p c)"
    "\<And>p c. keeps I (promote_pageable_to_pinned p c)" "\<And>n p m s. keeps I (queue_nvme_read n p m s)"
    "\<And>n i. keeps I (start_nvme_read n i)" "\<And>n n' i c. keeps I (complete_nvme_read n n' i c)"
    "\<And>p j m s. keeps I (reserve_vram p j m s)" "\<And>n p sl m s. keeps I (queue_upload n p sl m s)"
    "\<And>n i. keeps I (start_upload n i)" "\<And>n n' i sl c. keeps I (complete_upload n n' i sl c)"
    "\<And>p sl. keeps I (mark_compute_ready p sl)" "\<And>p sl. keeps I (acquire_compute p sl)"
    "\<And>l. keeps I (release_compute l)" "\<And>p sl. keeps I (evict_vram p sl)"
    "\<And>p. keeps I (evict_pageable_ram p)" "\<And>p. keeps I (evict_ram p)"
    "\<And>n i why. keeps I (cancel_ticket n i why)" "\<And>p g. keeps I (advance_generation p g)"
  shows "I mg \<Longrightarrow> I (mg_exec cmd mg)"
  using assms by (cases cmd) (simp_all add: keepsD)

lemma mg_reachable_invariant:
  assumes reach: "mg_reachable mg"
    and init: "\<And>a b c d e f g mg. manager_new a b c d e f g = Inr mg \<Longrightarrow> I mg"
    and step: "\<And>cmd mg. I mg \<Longrightarrow> I (mg_exec cmd mg)"
  shows "I mg"
  using reach by (induction rule: mg_reachable.induct) (auto intro: init step)

lemma manager_new_cases:
  assumes "manager_new a b c d e f g = Inr mg"
  obtains t where "slot_table_new c d = Inr t" "mg_records mg = []" "mg_tickets mg = []"
    "mg_slots mg = t" "mg_ram_pageable_budget mg = a" "mg_ram_pinned_budget mg = b"
    "mg_snapshot mg = snapshot_default
              \<lparr> ram_pageable_capacity := a, ram_pinned_capacity := b,
                vram_slot_capacity := slot_table_capacity_bytes t,
                nvme_queue_capacity := e, transfer_queue_capacity := f,
                compute_queue_capacity := g \<rparr>"
  using assms by (auto simp: manager_new_def split: sum.splits)

lemma mg_reachable_records: "mg_reachable mg \<Longrightarrow> inv_records mg"
proof (erule mg_reachable_invariant)
  show "inv_records mg" if "manager_new a b c d e f g = Inr mg" for a b c d e f g mg
    using that by (auto elim!: manager_new_cases simp: records_ok_def)
  show "inv_records (mg_exec cmd mg)" if "inv_records mg" for cmd mg
    using that by (rule mg_exec_keeps [where I = inv_records, rotated -1]) (rule ops_keep_records)+
qed

end
