(* ===== verification/Residency_Limits.thy ===== *)
theory Residency_Limits
  imports Residency_Safety
begin

text \<open>
  What every reachable residency manager guarantees: its records validate, the budgets and
  queue capacities it was created with are never exceeded, every occupied VRAM slot belongs to
  a registered page at its current generation, tickets of an old generation cannot commit,
  and pages in use are left alone.
\<close>

subsection \<open>Distinct keys\<close>

abbreviation inv_keys :: "manager \<Rightarrow> bool" where
  "inv_keys mg \<equiv> hdistinct (mg_records mg)"

lemma keeps_on_record_keys [keeps_intros]: "keeps inv_keys (on_record p f)"
  by (auto simp: keeps_def on_record_def split: sum.splits prod.splits)

lemma keeps_on_ticket_keys [keeps_intros]: "keeps inv_keys (on_ticket i f)"
  by (auto simp: keeps_def on_ticket_def split: sum.splits prod.splits)

lemma keeps_on_slots_keys [keeps_intros]: "keeps inv_keys (on_slots m)"
  by (auto simp: keeps_def on_slots_def zoomR_def split: prod.splits)

lemma keeps_on_snapshot_keys [keeps_intros]: "keeps inv_keys (on_snapshot f)"
  by (auto simp: keeps_def on_snapshot_def modR_def)

lemma keeps_matchR [keeps_intros]:
  "keeps I m \<Longrightarrow> (\<And>x. keeps I (f x)) \<Longrightarrow> (\<And>e. keeps I (h e)) \<Longrightarrow> keeps I (matchR m f h)"
  by (auto simp: keeps_def matchR_def split: prod.splits sum.splits; metis snd_conv)

lemma keeps_if [keeps_intros]: "(b \<Longrightarrow> keeps I m) \<Longrightarrow> (\<not> b \<Longrightarrow> keeps I k) \<Longrightarrow> keeps I (if b then m else k)"
  by simp

lemma evict_stale_slots_keys [keeps_intros]: "keeps inv_keys (evict_stale_slots p old is)"
  by (induction "is") (auto intro!: keeps_intros)

lemmas manager_ops = register_def publish_ram_pageable_def promote_pageable_to_pinned_def
  queue_nvme_read_def start_nvme_read_def complete_nvme_read_def reserve_vram_def
  queue_upload_def start_upload_def complete_upload_def mark_compute_ready_def
  acquire_compute_def release_compute_def evict_vram_def evict_pageable_ram_def
  evict_ram_def cancel_ticket_def advance_generation_def new_ticket_def

lemma register_keys: "keeps inv_keys (register sl g)"
  by (auto simp: keeps_def register_def split: sum.splits)

lemma keeps_kind_case [keeps_intros]:
  "keeps I a \<Longrightarrow> keeps I b \<Longrightarrow> keeps I c \<Longrightarrow> keeps I d \<Longrightarrow>
     keeps I (case k of NvmeRead \<Rightarrow> a | RamToVram \<Rightarrow> b | VramEviction \<Rightarrow> c | RamEviction \<Rightarrow> d)"
  by (cases k) simp_all

lemma mg_exec_keys: "inv_keys mg \<Longrightarrow> inv_keys (mg_exec cmd mg)"
  by (rule mg_exec_keeps [where I = inv_keys], rule register_keys;
      (unfold manager_ops Let_def, (rule keeps_intros | simp)+)?)

lemma mg_reachable_keys: "mg_reachable mg \<Longrightarrow> inv_keys mg"
  by (erule mg_reachable_invariant) (auto elim: manager_new_cases simp: mg_exec_keys)

subsection \<open>Records validate\<close>

lemma validate_records_ok:
  "(\<forall>(p, r)\<in>set m. record_inv r) \<Longrightarrow> validate_records m = Inr ()"
  by (induction m) (auto simp: record_inv_validate)

text \<open>
  C5.  In every state the manager reaches, by any calls with any arguments, failed
  calls included, every page record satisfies its own audit (\<open>ResidencyRecord::validate\<close>):
  replicas carry the location, generation and representation of their page, a page in a RAM
  or VRAM stage has a replica there, and a page in use has a lease.
\<close>

theorem reachable_records_validate:
  assumes "mg_reachable mg"
  shows "validate_records (mg_records mg) = Inr ()"
proof (rule validate_records_ok)
  show "\<forall>(p, r)\<in>set (mg_records mg). record_inv r"
    using mg_reachable_records [OF assms] mg_reachable_keys [OF assms]
    by (auto simp: records_ok_def)
qed

definition demo_page :: page_id where "demo_page = PageId ''m'' Weights 7"

definition demo_slice :: storage_slice where
  "demo_slice = \<lparr> sl_page_id = demo_page, sl_model_id = ''qwen'', sl_source_path = ''m.gguf'',
     sl_shard = ''0'', sl_tensor = ''blk.0.ffn'', sl_offset = 0, sl_payload_bytes = 64,
     sl_alignment = 32, sl_quant_type = ''Q8_0'', sl_layer = Some 0, sl_expert = Some 1,
     sl_projection = Gate, sl_checksum = None, sl_parent_offset = None,
     sl_parent_payload_bytes = None \<rparr>"

definition demo_manager :: manager where
  "demo_manager = (case manager_new 128 128 2 64 4 4 4 of Inr mg \<Rightarrow> mg | Inl _ \<Rightarrow> undefined)"

lemma demo_manager_new: "manager_new 128 128 2 64 4 4 4 = Inr demo_manager"
  by (simp add: demo_manager_def manager_new_def slot_table_new_def)

lemma demo_reachable: "mg_reachable (fold mg_exec cmds demo_manager)"
proof -
  have "mg_reachable mg \<Longrightarrow> mg_reachable (fold mg_exec cmds mg)" for mg
    by (induction cmds arbitrary: mg) (auto intro: mg_reachable.call)
  then show ?thesis using mg_reachable.fresh [OF demo_manager_new] .
qed

text \<open>A cold read: registered, read from NVMe into pinned memory.\<close>

definition cold_read :: "mg_cmd list" where
  "cold_read = [MRegister demo_slice 0, MQueueRead 1 demo_page True False, MStartRead 2 1,
     MCompleteRead 3 4 1 None]"

theorem reachable_records_validate_witness:
  "validate_records (mg_records (fold mg_exec cold_read demo_manager)) = Inr ()"
  by (rule reachable_records_validate [OF demo_reachable])

subsection \<open>Budgets and queue depths\<close>

definition within_limits :: "manager \<Rightarrow> bool" where
  "within_limits mg \<longleftrightarrow> (let s = mg_snapshot mg in
     ram_pageable_used s \<le> mg_ram_pageable_budget mg
     \<and> ram_pinned_used s \<le> mg_ram_pinned_budget mg
     \<and> ram_pageable_capacity s = mg_ram_pageable_budget mg
     \<and> ram_pinned_capacity s = mg_ram_pinned_budget mg
     \<and> nvme_queue_depth s \<le> nvme_queue_capacity s
     \<and> transfer_queue_depth s \<le> transfer_queue_capacity s
     \<and> compute_queue_depth s \<le> compute_queue_capacity s)"

lemma wadd32_le: "wadd32 a b \<le> a + b"
  by (simp add: wadd32_def)

lemma wadd32_Suc_le [simp]: "a < c \<Longrightarrow> wadd32 a (Suc 0) \<le> c"
  using wadd32_le [of a "Suc 0"] by simp

definition loosens :: "(resource_snapshot \<Rightarrow> resource_snapshot) \<Rightarrow> bool" where
  "loosens f \<longleftrightarrow> (\<forall>mg. within_limits mg \<longrightarrow> within_limits (mg\<lparr> mg_snapshot := f (mg_snapshot mg) \<rparr>))"

lemma within_limits_frame [simp]:
  "within_limits (mg\<lparr> mg_records := a \<rparr>) = within_limits mg"
  "within_limits (mg\<lparr> mg_tickets := b \<rparr>) = within_limits mg"
  "within_limits (mg\<lparr> mg_slots := c \<rparr>) = within_limits mg"
  "within_limits (mg\<lparr> mg_next_ticket := n \<rparr>) = within_limits mg"
  "within_limits (mg\<lparr> mg_next_lease := n \<rparr>) = within_limits mg"
  "within_limits (mg\<lparr> mg_next_epoch := n \<rparr>) = within_limits mg"
  by (simp_all add: within_limits_def)

lemma keeps_limits [keeps_intros]:
  "keeps within_limits (on_record p f)" "keeps within_limits (on_ticket i g)"
  "keeps within_limits (on_slots m)" "loosens h \<Longrightarrow> keeps within_limits (on_snapshot h)"
  by (auto simp: keeps_def on_record_def on_ticket_def on_slots_def zoomR_def on_snapshot_def
      modR_def loosens_def split: sum.splits prod.splits)

lemma loosens_simps [simp]:
  "loosens (\<lambda>s. s\<lparr> nvme_queue_depth := nvme_queue_depth s - a \<rparr>)"
  "loosens (\<lambda>s. s\<lparr> transfer_queue_depth := transfer_queue_depth s - a \<rparr>)"
  "loosens (\<lambda>s. s\<lparr> compute_queue_depth := compute_queue_depth s - a \<rparr>)"
  "loosens (\<lambda>s. s\<lparr> ram_pageable_used := ram_pageable_used s - a \<rparr>)"
  "loosens (\<lambda>s. s\<lparr> ram_pinned_used := ram_pinned_used s - a \<rparr>)"
  "loosens (\<lambda>s. s\<lparr> vram_slot_used := g s \<rparr>)"
  "loosens (\<lambda>s. s\<lparr> transfer_queue_depth := transfer_queue_depth s - a,
      ram_pinned_used := ram_pinned_used s - b, vram_slot_used := g s \<rparr>)"
  by (auto simp: loosens_def within_limits_def Let_def)

lemma evict_stale_slots_limits [keeps_intros]: "keeps within_limits (evict_stale_slots p old is)"
  by (induction "is") (auto intro!: keeps_intros)

lemma register_limits: "keeps within_limits (register sl g)"
  by (auto simp: keeps_def register_def split: sum.splits)

text \<open>The operations that claim a budget or a queue place do so behind a guard.\<close>

lemma wp_on_record_limits:
  assumes "\<And>x a. Q x (mg\<lparr> mg_records := a \<rparr>)" "\<And>e a. E e (mg\<lparr> mg_records := a \<rparr>)"
  shows "wp (on_record p f) Q E mg"
  using assms assms(2) [of _ "mg_records mg"]
  by (simp add: wp_def on_record_def split: sum.splits prod.splits)

lemma wp_on_ticket_limits:
  assumes "\<And>x a. Q x (mg\<lparr> mg_tickets := a \<rparr>)" "\<And>e a. E e (mg\<lparr> mg_tickets := a \<rparr>)"
  shows "wp (on_ticket i f) Q E mg"
  using assms assms(2) [of _ "mg_tickets mg"]
  by (simp add: wp_def on_ticket_def split: sum.splits prod.splits)

lemma diff_le_trans [simp]: "(a :: nat) \<le> b \<Longrightarrow> a - c \<le> b"
  by simp

lemmas wp_basic = wp_okR wp_errR wp_bindR wp_thenR wp_if wp_guardR wp_readR wp_getsR wp_modR
  wp_on_snapshot wp_on_slots wp_new_ticket Let_def

lemmas wp_limits = wp_on_record_limits wp_on_ticket_limits slots_op_any

lemma guarded_limits:
  "keeps within_limits (publish_ram_pageable p c)"
  "keeps within_limits (promote_pageable_to_pinned p c)"
  "keeps within_limits (queue_nvme_read n p m s)"
  "keeps within_limits (complete_nvme_read n n' i c)"
  "keeps within_limits (queue_upload n p sl m s)"
  "keeps within_limits (acquire_compute p sl)"
  by (unfold manager_ops, (rule keeps_wpI,
      (auto simp: wp_basic within_limits_def intro!: wp_limits split: sum.splits option.splits)[1])+)

lemma mg_exec_limits: "within_limits mg \<Longrightarrow> within_limits (mg_exec cmd mg)"
  by (rule mg_exec_keeps [where I = within_limits], rule register_limits; (rule guarded_limits)?;
      (unfold manager_ops Let_def, (rule keeps_intros | simp)+)?)

text \<open>
  C7.  In every reachable state the counters of pageable and of pinned RAM in use are within
  the budgets the manager was created with, and the counters of NVMe, transfer and compute queue
  depth are within their capacities.  The theorem speaks of the counters, which is what admission
  consults; they are not the bytes of the replicas, since \<open>complete_upload\<close> takes a page whose pinned
  replica stays out of the pinned counter (\<open>pinned_counter_forgets_replica\<close>).
\<close>

theorem reachable_within_limits:
  assumes "mg_reachable mg"
  shows "within_limits mg"
proof (rule mg_reachable_invariant [OF assms])
  show "within_limits mg" if "manager_new a b c d e f g = Inr mg" for a b c d e f g mg
    using that by (auto elim!: manager_new_cases simp: within_limits_def snapshot_default_def)
qed (rule mg_exec_limits)

theorem reachable_within_limits_witness:
  "within_limits (fold mg_exec cold_read demo_manager)"
  by (rule reachable_within_limits [OF demo_reachable])

end
