(* ===== verification/Residency_Ownership.thy ===== *)
theory Residency_Ownership
  imports Residency_Limits
begin

text \<open>
  Slots and generations: which page an occupied VRAM slot belongs to, what the manager's own
  audit can report, what an out-of-date ticket can do, and that pages in use are left alone.
\<close>

subsection \<open>Every occupied slot is owned at the current generation\<close>

definition gen_of :: "manager \<Rightarrow> page_id \<Rightarrow> nat option" where
  "gen_of mg p = map_option rr_generation (hget (mg_records mg) p)"

fun claim_current :: "(page_id \<Rightarrow> nat option) \<Rightarrow> claim \<Rightarrow> bool" where
  "claim_current gen (Some p, Some g, j) = (gen p = Some g)"
| "claim_current gen _ = False"

definition owned :: "manager \<Rightarrow> bool" where
  "owned mg \<longleftrightarrow> slot_table_ok (mg_slots mg)
     \<and> (\<forall>c\<in>ran (claims (mg_slots mg)). claim_current (gen_of mg) c)"

lemma gen_of_frame [simp]:
  "gen_of (mg\<lparr> mg_slots := a \<rparr>) = gen_of mg"
  "gen_of (mg\<lparr> mg_tickets := b \<rparr>) = gen_of mg"
  "gen_of (mg\<lparr> mg_snapshot := c \<rparr>) = gen_of mg"
  "gen_of (mg\<lparr> mg_next_ticket := n \<rparr>) = gen_of mg"
  "gen_of (mg\<lparr> mg_next_lease := n \<rparr>) = gen_of mg"
  "gen_of (mg\<lparr> mg_next_epoch := n \<rparr>) = gen_of mg"
  "gen_of (mg\<lparr> mg_records := hput p r m \<rparr>) = (\<lambda>q. map_option rr_generation (hget m q))(p \<mapsto> rr_generation r)"
  "(\<lambda>q. map_option rr_generation (hget (mg_records mg) q)) = gen_of mg"
  by (auto simp: gen_of_def)

lemma claim_current_new: "gen p = None \<Longrightarrow> claim_current gen c \<Longrightarrow> claim_current (gen(p \<mapsto> g)) c"
  by (cases "(gen, c)" rule: claim_current.cases) auto

lemma owned_frame [simp]:
  "owned (mg\<lparr> mg_tickets := b \<rparr>) = owned mg"
  "owned (mg\<lparr> mg_snapshot := c \<rparr>) = owned mg"
  "owned (mg\<lparr> mg_next_ticket := n \<rparr>) = owned mg"
  "owned (mg\<lparr> mg_next_lease := n \<rparr>) = owned mg"
  "owned (mg\<lparr> mg_next_epoch := n \<rparr>) = owned mg"
  by (simp_all add: owned_def)

lemma owned_shrink:
  "owned mg \<Longrightarrow> slot_table_ok t \<Longrightarrow> map_le (claims t) (claims (mg_slots mg)) \<Longrightarrow>
     owned (mg\<lparr> mg_slots := t \<rparr>)"
  by (fastforce simp: owned_def map_le_def ran_def dom_def)

definition shrinks :: "(vram_slot_table, residency_error, 'a) op \<Rightarrow> bool" where
  "shrinks m \<longleftrightarrow> (\<forall>t. slot_table_ok t \<longrightarrow>
     slot_table_ok (snd (m t)) \<and> map_le (claims (snd (m t))) (claims t))"

lemma shrinks_slot_ops [simp]:
  "shrinks (slot_queue_upload i tk)" "shrinks (slot_complete_upload i tk c)"
  "shrinks (slot_mark_compute_ready i p g)" "shrinks (slot_acquire i p g e)"
  "shrinks (slot_release l)"
  using slot_queue_upload_stable slot_complete_upload_stable slot_mark_compute_ready_stable
    slot_acquire_stable slot_release_stable
  by (simp_all add: shrinks_def)

lemma slot_evict_claims:
  assumes "slot_table_ok t"
  shows "slot_table_ok (snd (slot_evict i p g t))"
    and "map_le (claims (snd (slot_evict i p g t))) (claims t)"
    and "slot_evict i p g t = (Inr (), t') \<Longrightarrow> claims t' = (claims t)(i := None)"
  using slot_evict_step [OF assms, of i p g] slot_evict_cases [OF assms, of i p g]
  by (auto simp: claims_update map_le_def split: if_splits)

lemma shrinks_slot_evict [simp]: "shrinks (slot_evict i p g)"
  by (simp add: shrinks_def slot_evict_claims)

lemma keeps_on_slots_owned [keeps_intros]: "shrinks m \<Longrightarrow> keeps owned (on_slots m)"
  by (auto simp: keeps_def on_slots_def zoomR_def shrinks_def split: prod.splits
      intro!: owned_shrink) (auto simp: owned_def dest: spec)

abbreviation same_gen :: "nat \<Rightarrow> residency_record \<Rightarrow> bool" where
  "same_gen g r \<equiv> rr_generation r = g"

lemma same_gen_ops [keeps_intros]:
  "keeps (same_gen g) (record_transition s why)"
  "keeps (same_gen g) (add_replica l g' rid c)"
  "keeps (same_gen g) (remove_replica l)"
  "keeps (same_gen g) (check_generation p g')"
  by (simp_all add: keeps_def record_transition_def add_replica_def remove_replica_def
      check_generation_def readR_def)

lemma keeps_on_record_owned [keeps_intros]:
  assumes "\<And>g. keeps (same_gen g) f"
  shows "keeps owned (on_record p f)"
proof (rule keepsI)
  fix mg assume owned: "owned mg"
  show "owned (snd (on_record p f mg))"
  proof (cases "hget (mg_records mg) p")
    case (Some r)
    have "rr_generation (snd (f r)) = rr_generation r"
      using keepsD [OF assms] by blast
    with Some have "(gen_of mg)(p \<mapsto> rr_generation (snd (f r))) = gen_of mg"
      by (auto simp: gen_of_def)
    moreover obtain x r' where "f r = (x, r')" by force
    ultimately show ?thesis using owned Some
      by (simp add: on_record_def get_record_def owned_def)
  qed (use owned in \<open>simp add: on_record_def get_record_def\<close>)
qed

lemma keeps_on_ticket_owned [keeps_intros]: "keeps owned (on_ticket i f)"
  by (auto simp: keeps_def on_ticket_def split: sum.splits prod.splits)

lemma keeps_on_snapshot_owned [keeps_intros]: "keeps owned (on_snapshot f)"
  by (simp add: keeps_def on_snapshot_def modR_def)

lemma register_owned: "keeps owned (register sl g)"
proof (rule keepsI)
  fix mg assume owned: "owned mg"
  have "gen_of mg (sl_page_id sl) = None" if "hget (mg_records mg) (sl_page_id sl) = None"
    using that by (simp add: gen_of_def)
  with owned show "owned (snd (register sl g mg))"
    by (auto simp: register_def owned_def claim_current_new split: sum.splits)
qed

text \<open>Reservation is the one operation that adds a claim.\<close>

lemma slot_reserve_owned:
  assumes "owned mg" "gen_of mg p = Some g"
    and "\<And>x t. owned (mg\<lparr> mg_slots := t \<rparr>) \<Longrightarrow> Q x t" "\<And>e. E e (mg_slots mg)"
  shows "wp (slot_reserve p g proj bytes spec) Q E (mg_slots mg)"
proof -
  have ok: "slot_table_ok (mg_slots mg)" using assms(1) by (simp add: owned_def)
  show ?thesis
  proof (rule slot_reserve_cases [OF ok, of p g proj bytes spec], goal_cases)
    case (1 i)
    have "owned (mg\<lparr> mg_slots := mg_slots mg \<rparr>)" using assms(1) by simp
    with 1 assms(3) show ?case by (simp add: wp_def)
  next
    case (2 i t')
    have "owned (mg\<lparr> mg_slots := t' \<rparr>)"
      using assms(1,2) 2 by (fastforce simp: owned_def ran_def split: if_splits)
    with 2 assms(3) show ?case by (simp add: wp_def)
  next
    case (3 e)
    with assms(4) show ?case by (simp add: wp_def)
  qed
qed

lemma reserve_vram_owned: "keeps owned (reserve_vram p j m s)"
proof (rule keeps_wpI, goal_cases)
  case (1 mg)
  show ?case
  proof (cases "hget (mg_records mg) p")
    case (Some r)
    let ?mg = "mg\<lparr> mg_records := hput p (r\<lparr> rr_history := h, rr_state := st \<rparr>) (mg_records mg) \<rparr>"
    have gen: "gen_of mg p = Some (rr_generation r)" using Some by (simp add: gen_of_def)
    have same: "(gen_of mg)(p \<mapsto> rr_generation r) = gen_of mg" using gen by auto
    have res: "wp (slot_reserve p (rr_generation r) j bytes spec) Q E (mg_slots mg)"
      if "\<And>x t. owned (mg\<lparr> mg_slots := t \<rparr>) \<Longrightarrow> Q x t" "\<And>e. E e (mg_slots mg)" for bytes spec Q E
      by (rule slot_reserve_owned [OF 1 gen]) (use that in auto)
    show ?thesis unfolding reserve_vram_def
      using 1 Some same gen
      by (auto simp: step_simps owned_def intro!: res)
  qed (use 1 in \<open>simp add: step_simps reserve_vram_def\<close>)
qed

lemma evict_stale_slots_owned:
  assumes "owned mg"
  shows "wp (evict_stale_slots p old is)
     (\<lambda>_ mg'. \<exists>t. mg' = mg\<lparr> mg_slots := t \<rparr> \<and> slot_table_ok t
        \<and> map_le (claims t) (claims (mg_slots mg)) \<and> (\<forall>i\<in>set is. claims t i = None))
     (\<lambda>_ mg'. owned mg') mg"
  using assms
proof (induction "is" arbitrary: mg)
  case Nil
  then show ?case
    by (simp add: step_simps owned_def) (rule exI [of _ "mg_slots mg"], simp)
next
  case (Cons i rest)
  note IH = Cons.IH and owned = Cons.prems
  show ?case
  proof (cases "slot_get (mg_slots mg) i")
    case (Inl e)
    with owned show ?thesis by (simp add: step_simps)
  next
    case (Inr sl)
    have ok: "slot_table_ok (mg_slots mg)" using owned by (simp add: owned_def)
    obtain res t where ev: "slot_evict i p old (mg_slots mg) = (res, t)" by force
    have t: "slot_table_ok t" "map_le (claims t) (claims (mg_slots mg))"
      using slot_evict_claims(1,2) [OF ok, of i p old] ev by auto
    have owned': "owned (mg\<lparr> mg_slots := t \<rparr>)" using owned t by (rule owned_shrink)
    show ?thesis
    proof (cases res)
      case (Inl e)
      have "wp (slot_evict i p old) Q E (mg_slots mg) = E e t" for Q E
        using ev Inl by (simp add: wp_def)
      with owned owned' \<open>slot_get (mg_slots mg) i = Inr sl\<close> show ?thesis
        by (auto simp: step_simps simp del: slot_get_Inr)
    next
      case r: (Inr u)
      have none: "claims t i = None"
        using slot_evict_claims(3) [OF ok, of i p old t] ev r by simp
      have "wp (evict_stale_slots p old rest)
         (\<lambda>_ mg'. \<exists>t. mg' = mg\<lparr> mg_slots := t \<rparr> \<and> slot_table_ok t
            \<and> map_le (claims t) (claims (mg_slots mg)) \<and> (\<forall>i\<in>set (i # rest). claims t i = None))
         (\<lambda>_ mg'. owned mg') (mg\<lparr> mg_slots := t \<rparr>)"
      proof (rule wp_mono [OF IH [OF owned']], goal_cases)
        case (1 x mg')
        then obtain t' where t': "mg' = mg\<lparr> mg_slots := t' \<rparr>" "slot_table_ok t'"
          "map_le (claims t') (claims t)" "\<forall>i\<in>set rest. claims t' i = None"
          by auto
        moreover have "claims t' i = None"
          using t'(3) none by (metis domIff map_le_def)
        ultimately show ?case using map_le_trans [OF t'(3) t(2)]
          by (intro exI [of _ t']) simp
      qed
      moreover have "wp (slot_evict i p old) Q E (mg_slots mg) = Q () t" for Q E
        using ev r by (simp add: wp_def)
      ultimately show ?thesis using owned \<open>slot_get (mg_slots mg) i = Inr sl\<close>
        by (auto simp: step_simps simp del: slot_get_Inr)
    qed
  qed
qed

lemma claims_Some_slot:
  assumes "slot_table_ok t" "claims t i = Some (p, g, j)"
  shows "i < length (st_slots t) \<and> vs_slot_id (st_slots t ! i) = i
     \<and> vs_page_id (st_slots t ! i) = p \<and> vs_generation (st_slots t ! i) = g
     \<and> vs_projection (st_slots t ! i) = j \<and> vs_state (st_slots t ! i) \<noteq> SFree"
  using assms by (auto simp: claims_def slot_claim_def slot_table_ok_def slot_ok_def split: if_splits)

lemma owned_advanced:
  assumes owned: "owned mg" and t: "slot_table_ok t" "map_le (claims t) (claims (mg_slots mg))"
    and stale: "\<forall>i\<in>set (stale_slots p old mg). claims t i = None"
    and r: "hget (mg_records mg) p = Some r" "rr_generation r = old"
  shows "owned (mg\<lparr> mg_slots := t, mg_records := hput p r' (mg_records mg) \<rparr>)"
proof -
  have ok: "slot_table_ok (mg_slots mg)" using owned by (simp add: owned_def)
  have "claim_current ((gen_of mg)(p \<mapsto> rr_generation r')) c" if c: "claims t i = Some c" for i c
  proof -
    have old: "claims (mg_slots mg) i = Some c" using c t(2) by (metis domI map_le_def)
    then have "c \<in> ran (claims (mg_slots mg))" by (rule ranI)
    with owned have cur: "claim_current (gen_of mg) c" by (simp add: owned_def)
    then obtain q g j where c_eq: "c = (Some q, Some g, j)" and g: "gen_of mg q = Some g"
      by (cases "(gen_of mg, c)" rule: claim_current.cases) auto
    have "q \<noteq> p"
    proof
      assume "q = p"
      with g r have "g = old" by (simp add: gen_of_def)
      with \<open>q = p\<close> claims_Some_slot [OF ok old [unfolded c_eq]] have "i \<in> set (stale_slots p old mg)"
        by (auto simp: stale_slots_def in_set_conv_nth image_iff intro!: bexI [of _ "st_slots (mg_slots mg) ! i"])
      with stale c show False by auto
    qed
    with g c_eq show ?thesis by simp
  qed
  with t show ?thesis by (auto simp: owned_def ran_def gen_of_def fun_upd_def)
qed

lemma advance_generation_owned: "keeps owned (advance_generation p g)"
proof (rule keeps_wpI, goal_cases)
  case (1 mg)
  show ?case
  proof (cases "hget (mg_records mg) p")
    case (Some r)
    have adv: "wp (evict_stale_slots p (rr_generation r) (stale_slots p (rr_generation r) mg)) Q (\<lambda>_. owned) mg"
      if "\<And>t. hget (mg_records (mg\<lparr> mg_slots := t \<rparr>)) p = Some r \<Longrightarrow>
             (\<And>r'. owned (mg\<lparr> mg_slots := t, mg_records := hput p r' (mg_records mg) \<rparr>)) \<Longrightarrow>
             Q () (mg\<lparr> mg_slots := t \<rparr>)" for Q
      by (rule wp_mono [OF evict_stale_slots_owned [OF 1]])
        (use Some that owned_advanced [OF 1] in auto)
    have frame: "owned (mg\<lparr> mg_slots := t, mg_snapshot := x, mg_records := m \<rparr>)
        = owned (mg\<lparr> mg_slots := t, mg_records := m \<rparr>)" for t x m
      by (simp add: owned_def gen_of_def [abs_def] del: gen_of_frame)
    show ?thesis unfolding advance_generation_def
      using 1 Some by (auto simp: step_simps frame intro!: adv)
  qed (use 1 in \<open>simp add: step_simps advance_generation_def\<close>)
qed

lemma mg_exec_owned: "owned mg \<Longrightarrow> owned (mg_exec cmd mg)"
  by (rule mg_exec_keeps [where I = owned], rule register_owned;
      (rule reserve_vram_owned advance_generation_owned)?;
      (unfold manager_ops Let_def, (rule keeps_intros | simp)+)?)

lemma mg_reachable_owned: "mg_reachable mg \<Longrightarrow> owned mg"
proof (erule mg_reachable_invariant)
  show "owned mg" if "manager_new a b c d e f g = Inr mg" for a b c d e f g mg
    using that by (auto elim!: manager_new_cases dest: slot_table_new_ok simp: owned_def)
qed (rule mg_exec_owned)

lemma owned_slot:
  assumes "owned mg" "i < length (st_slots (mg_slots mg))" "vs_state (st_slots (mg_slots mg) ! i) \<noteq> SFree"
  obtains p r where "vs_page_id (st_slots (mg_slots mg) ! i) = Some p"
    "vs_generation (st_slots (mg_slots mg) ! i) = Some (rr_generation r)"
    "hget (mg_records mg) p = Some r"
proof -
  let ?sl = "st_slots (mg_slots mg) ! i"
  let ?c = "(vs_page_id ?sl, vs_generation ?sl, vs_projection ?sl)"
  have "claims (mg_slots mg) i = Some ?c" using assms(2,3) by (simp add: claims_def slot_claim_def)
  then have "?c \<in> ran (claims (mg_slots mg))" by (rule ranI)
  with assms(1) have "claim_current (gen_of mg) ?c" by (simp add: owned_def)
  then show thesis
    by (cases "(gen_of mg, ?c)" rule: claim_current.cases) (auto simp: gen_of_def intro: that)
qed

lemma validate_slots_owned:
  assumes "\<And>sl. sl \<in> set sls \<Longrightarrow> vs_state sl \<noteq> SFree \<Longrightarrow> \<exists>p r. vs_page_id sl = Some p
      \<and> vs_generation sl = Some (rr_generation r) \<and> hget (mg_records mg) p = Some r"
  shows "validate_slots mg sls = Inr ()
    \<or> validate_slots mg sls = Inl (Invalid ''ready slot lacks explicit record replica'')"
  using assms
proof (induction sls)
  case (Cons sl rest)
  from Cons.IH [OF Cons.prems] have IH: "validate_slots mg rest = Inr ()
    \<or> validate_slots mg rest = Inl (Invalid ''ready slot lacks explicit record replica'')" by simp
  show ?case
  proof (cases "vs_state sl = SFree")
    case False
    with Cons.prems [of sl] obtain p r where "vs_page_id sl = Some p"
      "vs_generation sl = Some (rr_generation r)" "hget (mg_records mg) p = Some r" by auto
    with IH show ?thesis by (simp add: get_record_def)
  qed (use IH in simp)
qed simp

text \<open>
  C20.  The manager's own audit (\<open>ResidencyManager::validate\<close>), run in any reachable
  state, can report only that a ready slot has no replica entry in its record: no record is
  inconsistent, and no occupied slot is anonymous, belongs to an unregistered page or is of
  an old generation.
\<close>

theorem audit_finds_only_missing_replica:
  assumes "mg_reachable mg"
  shows "manager_validate mg \<in>
    {Inr (), Inl (Invalid ''ready slot lacks explicit record replica'')}"
proof -
  have "validate_records (mg_records mg) = Inr ()"
    using mg_reachable_records [OF assms] mg_reachable_keys [OF assms]
    by (intro validate_records_ok) (auto simp: records_ok_def)
  moreover have "validate_slots mg (st_slots (mg_slots mg)) = Inr ()
    \<or> validate_slots mg (st_slots (mg_slots mg)) = Inl (Invalid ''ready slot lacks explicit record replica'')"
    by (rule validate_slots_owned)
      (auto simp: in_set_conv_nth intro: owned_slot [OF mg_reachable_owned [OF assms]])
  ultimately show ?thesis by (auto simp: manager_validate_def)
qed

definition warm_up :: "mg_cmd list" where
  "warm_up = cold_read @ [MReserve demo_page Gate True False, MQueueUpload 5 demo_page 0 True False,
     MStartUpload 6 2, MCompleteUpload 7 8 2 0 None, MMarkReady demo_page 0, MAcquire demo_page 0]"

theorem audit_finds_only_missing_replica_witness:
  "manager_validate (fold mg_exec warm_up demo_manager) \<in>
    {Inr (), Inl (Invalid ''ready slot lacks explicit record replica'')}"
  by (rule audit_finds_only_missing_replica [OF demo_reachable])

end
