(* ===== verification/Residency_Protocol.thy ===== *)
theory Residency_Protocol
  imports Residency_Ownership
begin

text \<open>
  The residency protocol end to end: out-of-date tickets and pages in use, the lease round
  trip, the cold path from disk to a compute lease, and the eviction paths that the page
  state machine does not allow.
\<close>

subsection \<open>Out-of-date tickets\<close>

lemma hput_same: "hget m k = Some v \<Longrightarrow> hput k v m = m"
  by (induction m) (auto split: if_splits)

lemma case_ticket_run:
  "on_ticket i f mg = (case hget (mg_tickets mg) i of
     None \<Rightarrow> (Inl (Invalid ''unknown transfer ticket''), mg)
   | Some t \<Rightarrow> (case f t of (res, t') \<Rightarrow> (res, mg\<lparr> mg_tickets := hput i t' (mg_tickets mg) \<rparr>)))"
  by (simp add: on_ticket_def get_ticket_def split: option.splits)

text \<open>
  C8.  A ticket issued for another generation of its page cannot commit anything: starting
  the read and completing the upload are refused with \<open>StaleGeneration\<close> and change nothing,
  and completing the read fails and leaves every page record, slot and memory counter as it was.
\<close>

theorem stale_tickets_cannot_commit:
  assumes "hget (mg_tickets mg) i = Some t" "hget (mg_records mg) (tk_page_id t) = Some r"
    and "tk_generation t \<noteq> rr_generation r"
  shows "start_nvme_read n i mg = (Inl (StaleGeneration (tk_page_id t) (rr_generation r) (tk_generation t)), mg)
    \<and> complete_upload n n' i slot c mg = (Inl (StaleGeneration (tk_page_id t) (rr_generation r) (tk_generation t)), mg)
    \<and> (\<exists>e mg'. complete_nvme_read n n' i c mg = (Inl e, mg')
         \<and> mg_records mg' = mg_records mg \<and> mg_slots mg' = mg_slots mg
         \<and> ram_pinned_used (mg_snapshot mg') = ram_pinned_used (mg_snapshot mg))"
proof (intro conjI)
  show "start_nvme_read n i mg = (Inl (StaleGeneration (tk_page_id t) (rr_generation r) (tk_generation t)), mg)"
    using assms by (simp add: start_nvme_read_def op_defs get_ticket_def get_record_def)
  show "complete_upload n n' i slot c mg = (Inl (StaleGeneration (tk_page_id t) (rr_generation r) (tk_generation t)), mg)"
    using assms by (simp add: complete_upload_def op_defs get_ticket_def get_record_def)
  have "wp (complete_nvme_read n n' i c) (\<lambda>_ _. False)
    (\<lambda>e mg'. mg_records mg' = mg_records mg \<and> mg_slots mg' = mg_slots mg
         \<and> ram_pinned_used (mg_snapshot mg') = ram_pinned_used (mg_snapshot mg)) mg"
    unfolding complete_nvme_read_def
    using assms by (auto simp: step_simps hput_same intro!: wp_any)
  then show "\<exists>e mg'. complete_nvme_read n n' i c mg = (Inl e, mg')
         \<and> mg_records mg' = mg_records mg \<and> mg_slots mg' = mg_slots mg
         \<and> ram_pinned_used (mg_snapshot mg') = ram_pinned_used (mg_snapshot mg)"
    by (auto simp: wp_def split: prod.splits sum.splits)
qed

text \<open>A read is queued, then the generation moves on.\<close>

definition stale_state :: manager where
  "stale_state = fold mg_exec [MRegister demo_slice 0, MQueueRead 1 demo_page True False,
     MAdvance demo_page 3] demo_manager"

lemmas mg_eval = demo_manager_def manager_new_def slot_table_new_def demo_slice_def demo_page_def
  manager_ops op_defs on_record_def on_ticket_def on_slots_def on_slot_def on_snapshot_def
  get_record_def get_ticket_def slot_get_def slice_validate_def slice_representation_def
  record_new_def ticket_new_def record_transition_def add_replica_def remove_replica_def
  ticket_defs get_or_insert_def check_generation_def stale_slots_def slot_new_def
  slot_reserve_def slot_queue_upload_def slot_complete_upload_def slot_mark_compute_ready_def
  slot_acquire_def slot_release_def slot_evict_def validate_slot_identity_def slot_evictable_def
  has_replica_def snapshot_default_def record_bytes_def sat_add64_def u64_max_def sat_add32_def
  u32_max_def wadd64_def wadd32_def Let_def numeral_2_eq_2 is_ok_def

lemma stale_state_eval:
  "map_option (\<lambda>t. (tk_page_id t, tk_generation t)) (hget (mg_tickets stale_state) 1) = Some (demo_page, 0)"
  "map_option rr_generation (hget (mg_records stale_state) demo_page) = Some 3"
  by (simp_all add: stale_state_def mg_eval)

theorem stale_tickets_cannot_commit_witness:
  "\<exists>t r. hget (mg_tickets stale_state) 1 = Some t \<and> hget (mg_records stale_state) demo_page = Some r
    \<and> start_nvme_read 9 1 stale_state = (Inl (StaleGeneration demo_page 3 0), stale_state)"
proof -
  from stale_state_eval obtain t r where t: "hget (mg_tickets stale_state) 1 = Some t"
    "tk_page_id t = demo_page" "tk_generation t = 0"
    and r: "hget (mg_records stale_state) demo_page = Some r" "rr_generation r = 3" by auto
  then have "hget (mg_records stale_state) (tk_page_id t) = Some r" "tk_generation t \<noteq> rr_generation r"
    by simp_all
  from stale_tickets_cannot_commit [OF t(1) this, of 9] t r show ?thesis by auto
qed

subsection \<open>Pages in use\<close>

text \<open>
  C23.  While a page is in use by the GPU no eviction and no change of generation can touch it:
  each of these calls is refused and leaves the whole manager as it was.
\<close>

theorem in_use_pages_are_pinned:
  assumes "hget (mg_records mg) p = Some r" "rr_state r = InUse"
  shows "(\<exists>e. evict_vram p slot mg = (Inl e, mg)) \<and> (\<exists>e. evict_ram p mg = (Inl e, mg))
    \<and> (\<exists>e. evict_pageable_ram p mg = (Inl e, mg)) \<and> (\<exists>e. advance_generation p g mg = (Inl e, mg))"
  using assms
  by (auto simp: evict_vram_def evict_ram_def evict_pageable_ram_def advance_generation_def
      op_defs get_record_def)

subsection \<open>Symbolic execution of ticket and slot operations\<close>

lemma wp_tickets [step_simps]:
  "wp (ticket_start now) Q E t =
     (if tk_status t \<noteq> TQueued then E (TicketState ''ticket is not queued'') t
      else Q () (t\<lparr> tk_status := TRunning, tk_started_ns := Some now \<rparr>))"
  "wp (ticket_first_byte now) Q E t =
     (if tk_status t \<noteq> TRunning then E (TicketState ''first byte requires a running ticket'') t
      else Q () (t\<lparr> tk_first_byte_ns := get_or_insert (tk_first_byte_ns t) now \<rparr>))"
  "wp (ticket_complete now now') Q E t =
     (if tk_status t \<notin> {TQueued, TRunning} then E (TicketState ''ticket is not completable'') t
      else Q () (t\<lparr> tk_status := TCompleted,
              tk_first_byte_ns := get_or_insert (tk_first_byte_ns t) now,
              tk_completed_ns := Some now' \<rparr>))"
  by (simp_all add: wp_def ticket_defs)

lemma wp_slots [step_simps]:
  "wp (slot_queue_upload i tk) Q E t =
     (if \<not> i < length (st_slots t) then E (Invalid (''unknown VRAM slot '' @ dec_digits i)) t
      else if vs_state (st_slots t ! i) \<noteq> SReserved then E (Invalid ''upload requires a reserved slot'') t
      else Q () (t\<lparr> st_slots := (st_slots t)[i := (st_slots t ! i)
              \<lparr> vs_state := SUploading, vs_upload_ticket := Some tk \<rparr>] \<rparr>))"
  "wp (slot_mark_compute_ready i p g) Q E t =
     (if \<not> i < length (st_slots t) then E (Invalid (''unknown VRAM slot '' @ dec_digits i)) t
      else case validate_slot_identity (st_slots t ! i) p g of
        Inl e \<Rightarrow> E e t
      | Inr _ \<Rightarrow> if vs_state (st_slots t ! i) \<noteq> SUploaded
          then E (Invalid ''compute readiness requires uploaded slot'') t
          else Q () (t\<lparr> st_slots := (st_slots t)[i := (st_slots t ! i)\<lparr> vs_state := SComputeReady \<rparr>] \<rparr>))"
  unfolding slot_queue_upload_def slot_mark_compute_ready_def wp_on_slot wp_thenR wp_readR slot_get_def
  by (simp_all add: wp_def split: sum.splits)

lemma wp_slot_complete_upload [step_simps]:
  "wp (slot_complete_upload i tk c) Q E t =
     (if \<not> i < length (st_slots t) then E (Invalid (''unknown VRAM slot '' @ dec_digits i)) t
      else let sl = st_slots t ! i in
        if vs_state sl \<noteq> SUploading \<or> vs_upload_ticket sl \<noteq> Some tk
        then E (StaleGeneration
               (case vs_page_id sl of Some p \<Rightarrow> p | None \<Rightarrow> PageId ''unknown'' Weights 0)
               (case vs_generation sl of Some g \<Rightarrow> g | None \<Rightarrow> 0) 0) t
        else Q () (t\<lparr> st_slots := (st_slots t)[i := sl\<lparr> vs_state := SUploaded, vs_checksum := c \<rparr>] \<rparr>))"
  unfolding slot_complete_upload_def wp_on_slot slot_get_def
  by (simp add: wp_def Let_def)

lemma wp_slot_acquire [step_simps]:
  "wp (slot_acquire i p g epoch) Q E t =
     (if \<not> i < length (st_slots t) then E (Invalid (''unknown VRAM slot '' @ dec_digits i)) t
      else case validate_slot_identity (st_slots t ! i) p g of
        Inl e \<Rightarrow> E e t
      | Inr _ \<Rightarrow> if vs_state (st_slots t ! i) \<noteq> SComputeReady
          then E (Invalid ''slot is not compute ready'') t
          else Q \<lparr> lease_id = slot_lease_id i epoch, lease_page_id = p, lease_generation = g,
                   lease_epoch = epoch, lease_location = VramSlot i, lease_purpose = ''gpu-compute'' \<rparr>
             (t\<lparr> st_slots := (st_slots t)[i := (st_slots t ! i)\<lparr> vs_state := SInUse,
                  vs_pinned_users := sat_add32 (vs_pinned_users (st_slots t ! i)) 1,
                  vs_last_use_epoch := epoch \<rparr>] \<rparr>))"
  unfolding slot_acquire_def wp_on_slot wp_thenR wp_readR slot_get_def
  by (simp add: wp_def split: sum.splits)

lemma wp_slot_release [step_simps]:
  "lease_location l = VramSlot i \<Longrightarrow> wp (slot_release l) Q E t =
     (if \<not> i < length (st_slots t) then E (Invalid (''unknown VRAM slot '' @ dec_digits i)) t
      else case validate_slot_identity (st_slots t ! i) (lease_page_id l) (lease_generation l) of
        Inl e \<Rightarrow> E e t
      | Inr _ \<Rightarrow> (let sl = st_slots t ! i in
          if vs_state sl \<noteq> SInUse \<or> vs_pinned_users sl = 0
          then E (Invalid ''slot release without an active pin'') t
          else Q () (t\<lparr> st_slots := (st_slots t)[i :=
                 (let n = vs_pinned_users sl - 1 in
                  if n = 0 then sl\<lparr> vs_pinned_users := n, vs_state := SComputeReady \<rparr>
                  else sl\<lparr> vs_pinned_users := n \<rparr>)] \<rparr>)))"
  unfolding slot_release_def
  by (simp add: wp_on_slot wp_thenR wp_readR slot_get_def)
    (auto simp: wp_def Let_def split: sum.splits)

text \<open>Reserving on a table without claims takes the first slot.\<close>

definition unclaimed :: "vram_slot \<Rightarrow> bool" where
  "unclaimed sl \<longleftrightarrow> vs_state sl = SFree"

lemma wp_slot_reserve_fresh:
  assumes "list_all unclaimed (st_slots t)" "st_slots t = sl # rest"
    and "0 < bytes" "bytes \<le> vs_capacity_bytes sl"
  shows "wp (slot_reserve p g proj bytes spec) Q E t =
    Q (vs_slot_id sl) (t\<lparr> st_slots := (slot_new (vs_slot_id sl) (vs_capacity_bytes sl))
                       \<lparr> vs_state := SReserved, vs_page_id := Some p, vs_generation := Some g,
                         vs_projection := Some proj, vs_reserved_bytes := bytes,
                         vs_speculative := spec, vs_last_use_epoch := st_next_epoch t \<rparr> # rest \<rparr>)"
proof -
  have "find (\<lambda>sl. vs_page_id sl = Some p \<and> vs_generation sl = Some g
       \<and> vs_projection sl = Some proj \<and> vs_state sl \<noteq> SFree) (st_slots t) = None"
    using assms(1) by (auto simp: find_None_iff list_all_iff unclaimed_def)
  moreover have "position (\<lambda>sl. vs_state sl = SFree) (st_slots t) = Some 0"
    using assms(1,2) by (simp add: unclaimed_def)
  ultimately show ?thesis using assms by (simp add: wp_def slot_reserve_def Let_def)
qed

subsection \<open>The cold path\<close>

text \<open>The calls that bring a page from disk to a compute lease.\<close>

definition serve_ready :: "storage_slice \<Rightarrow> nat \<Rightarrow> nat \<Rightarrow> nat mg_op" where
  "serve_ready sl g now = (let p = sl_page_id sl in
     thenR (register sl g)
    (bindR (queue_nvme_read now p True False) (\<lambda>i.
     thenR (start_nvme_read now i)
    (thenR (complete_nvme_read now now i None)
    (bindR (reserve_vram p (sl_projection sl) True False) (\<lambda>slot.
     bindR (queue_upload now p slot True False) (\<lambda>u.
     thenR (start_upload now u)
    (thenR (complete_upload now now u slot None)
    (thenR (mark_compute_ready p slot)
           (okR slot))))))))))"

definition serve_cold :: "storage_slice \<Rightarrow> nat \<Rightarrow> nat \<Rightarrow> page_lease mg_op" where
  "serve_cold sl g now = bindR (serve_ready sl g now) (acquire_compute (sl_page_id sl))"

lemma wp_register [step_simps]:
  "wp (register sl g) Q E mg = (case slice_validate sl of
        Inl e \<Rightarrow> E e mg
      | Inr _ \<Rightarrow> if hget (mg_records mg) (sl_page_id sl) \<noteq> None
          then E (Invalid ''page already registered'') mg
          else Q () (mg\<lparr> mg_records := hput (sl_page_id sl)
                  (record_new (sl_page_id sl) (slice_representation sl) g) (mg_records mg) \<rparr>))"
  by (auto simp: wp_def register_def split: sum.splits)

lemma sat_add64_zero [simp]: "n \<le> u64_max \<Longrightarrow> sat_add64 0 n = n" "n \<le> u64_max \<Longrightarrow> sat_add64 n 0 = n"
  by (simp_all add: sat_add64_def)

definition ready_state :: "storage_slice \<Rightarrow> nat \<Rightarrow> nat \<Rightarrow> manager \<Rightarrow> bool" where
  "ready_state sl g h mg \<longleftrightarrow>
     (\<exists>r. hget (mg_records mg) (sl_page_id sl) = Some r \<and> rr_state r = ComputeReady
        \<and> rr_generation r = g \<and> rr_leases r = []
        \<and> has_replica r RamPinned \<and> has_replica r (VramSlot 0)
        \<and> record_bytes r = sl_payload_bytes sl)
     \<and> ram_pinned_used (mg_snapshot mg) = 0
     \<and> compute_queue_depth (mg_snapshot mg) = 0 \<and> compute_queue_capacity (mg_snapshot mg) = h
     \<and> 0 < length (st_slots (mg_slots mg))
     \<and> vs_state (st_slots (mg_slots mg) ! 0) = SComputeReady
     \<and> claims (mg_slots mg) 0 = Some (Some (sl_page_id sl), Some g, Some (sl_projection sl))"

lemma serve_ready_runs:
  assumes new: "manager_new a b c d e f h = Inr mg"
    and valid: "slice_validate sl = Inr ()"
    and room: "sl_payload_bytes sl \<le> b" "sl_payload_bytes sl \<le> d" "b \<le> u64_max" "0 < e" "0 < f" "0 < h"
  shows "wp (serve_ready sl g now)
    (\<lambda>slot mg'. slot = 0 \<and> ready_state sl g h mg') (\<lambda>_ _. False) mg"
proof -
  have bytes: "0 < sl_payload_bytes sl" "sl_payload_bytes sl \<le> u64_max"
    using valid room(1,3) by (auto simp: slice_validate_def split: if_splits option.splits)
  from new obtain t where t: "slot_table_new c d = Inr t" "mg_records mg = []" "mg_tickets mg = []"
    "mg_slots mg = t" "mg_ram_pageable_budget mg = a" "mg_ram_pinned_budget mg = b"
    "mg_snapshot mg = snapshot_default
              \<lparr> ram_pageable_capacity := a, ram_pinned_capacity := b,
                vram_slot_capacity := slot_table_capacity_bytes t,
                nvme_queue_capacity := e, transfer_queue_capacity := f,
                compute_queue_capacity := h \<rparr>"
    by (rule manager_new_cases)
  from t(1) obtain n where n: "c = Suc n" "t = \<lparr> st_slots = map (\<lambda>i. slot_new i d) [0..<Suc n], st_next_epoch = 0 \<rparr>"
    by (cases c) (auto simp: slot_table_new_def split: if_splits)
  let ?rest = "map (\<lambda>i. slot_new i d) [1..<Suc n]"
  have slots: "st_slots t = slot_new 0 d # ?rest"
    unfolding n(2) by (simp add: upt_conv_Cons del: upt_Suc)
  have free: "list_all unclaimed (st_slots t)"
    unfolding n(2) by (simp add: list_all_iff unclaimed_def slot_new_def)
  have nt: "mg_next_ticket mg = 1" using new by (auto simp: manager_new_def split: sum.splits)
  show ?thesis
    unfolding serve_ready_def Let_def queue_nvme_read_def start_nvme_read_def complete_nvme_read_def
      reserve_vram_def queue_upload_def start_upload_def complete_upload_def
      mark_compute_ready_def ready_state_def
    using valid bytes room t(2-7) nt
    by (simp add: step_simps wp_slot_reserve_fresh [OF free slots] slots record_new_def ticket_new_def
      has_replica_def snapshot_default_def record_bytes_def slice_representation_def slot_new_def
      validate_slot_identity_def get_or_insert_def claims_def slot_claim_def cong: wp_weak_cong)
qed

lemma has_replica_frame [simp]:
  "has_replica (r\<lparr> rr_leases := a, rr_history := b, rr_state := c \<rparr>) l = has_replica r l"
  by (simp add: has_replica_def)

lemma ready_state_acquire:
  assumes "ready_state sl g h mg" "0 < h"
  shows "wp (acquire_compute (sl_page_id sl) 0)
    (\<lambda>lease mg'. lease_page_id lease = sl_page_id sl \<and> lease_location lease = VramSlot 0
       \<and> (\<exists>r. hget (mg_records mg') (sl_page_id sl) = Some r \<and> rr_state r = InUse
              \<and> has_replica r RamPinned \<and> has_replica r (VramSlot 0))
       \<and> claims (mg_slots mg') 0 = Some (Some (sl_page_id sl), Some g, Some (sl_projection sl)))
    (\<lambda>_ _. False) mg"
proof -
  from assms obtain r where r: "hget (mg_records mg) (sl_page_id sl) = Some r" "rr_state r = ComputeReady"
      "rr_generation r = g" "has_replica r RamPinned" "has_replica r (VramSlot 0)"
    and s: "compute_queue_depth (mg_snapshot mg) = 0" "compute_queue_capacity (mg_snapshot mg) = h"
      "0 < length (st_slots (mg_slots mg))" "vs_state (st_slots (mg_slots mg) ! 0) = SComputeReady"
    and c: "slot_claim (st_slots (mg_slots mg) ! 0) = Some (Some (sl_page_id sl), Some g, Some (sl_projection sl))"
    by (auto simp: ready_state_def claims_def split: if_splits)
  from c s have "vs_page_id (st_slots (mg_slots mg) ! 0) = Some (sl_page_id sl)"
      "vs_generation (st_slots (mg_slots mg) ! 0) = Some g"
      "vs_projection (st_slots (mg_slots mg) ! 0) = Some (sl_projection sl)"
    by (auto simp: slot_claim_def)
  then show ?thesis unfolding acquire_compute_def Let_def
    using r s assms(2)
    by (simp add: step_simps validate_slot_identity_def claims_def slot_claim_def cong: wp_weak_cong)
qed

lemma serve_cold_runs:
  assumes new: "manager_new a b c d e f h = Inr mg"
    and valid: "slice_validate sl = Inr ()"
    and room: "sl_payload_bytes sl \<le> b" "sl_payload_bytes sl \<le> d" "b \<le> u64_max" "0 < e" "0 < f" "0 < h"
  shows "wp (serve_cold sl g now)
    (\<lambda>lease mg'. lease_page_id lease = sl_page_id sl \<and> lease_location lease = VramSlot 0
       \<and> (\<exists>r. hget (mg_records mg') (sl_page_id sl) = Some r \<and> rr_state r = InUse
              \<and> has_replica r RamPinned \<and> has_replica r (VramSlot 0))
       \<and> claims (mg_slots mg') 0 = Some (Some (sl_page_id sl), Some g, Some (sl_projection sl)))
    (\<lambda>_ _. False) mg"
  unfolding serve_cold_def wp_bindR
  by (rule wp_mono [OF serve_ready_runs [OF assms, of g now]]) (auto intro: ready_state_acquire [OF _ room(6)])

text \<open>
  C24.  Progress: on a fresh manager whose pinned budget and slots hold the page and whose
  queues have room, the calls that bring a valid page from disk to the GPU all succeed.  They
  end with the page in use, resident both in pinned RAM and in slot 0, and slot 0 claimed for
  the page at its generation.
\<close>

theorem cold_path_reaches_compute:
  assumes "manager_new a b c d e f h = Inr mg" "slice_validate sl = Inr ()"
    and "sl_payload_bytes sl \<le> b" "sl_payload_bytes sl \<le> d" "b \<le> u64_max" "0 < e" "0 < f" "0 < h"
  shows "\<exists>lease mg' r. serve_cold sl g now mg = (Inr lease, mg')
    \<and> lease_page_id lease = sl_page_id sl \<and> lease_location lease = VramSlot 0
    \<and> hget (mg_records mg') (sl_page_id sl) = Some r \<and> rr_state r = InUse
    \<and> has_replica r RamPinned \<and> has_replica r (VramSlot 0)
    \<and> claims (mg_slots mg') 0 = Some (Some (sl_page_id sl), Some g, Some (sl_projection sl))"
  using serve_cold_runs [OF assms, of g now]
  by (auto simp: wp_def split: prod.splits sum.splits)

theorem cold_path_reaches_compute_witness:
  "\<exists>lease mg'. serve_cold demo_slice 0 5 demo_manager = (Inr lease, mg')
    \<and> lease_location lease = VramSlot 0 \<and> claims (mg_slots mg') 0 = Some (Some demo_page, Some 0, Some Gate)"
  using cold_path_reaches_compute [OF demo_manager_new, of demo_slice 0 5]
  by (auto simp: demo_slice_def slice_validate_def u64_max_def)

subsection \<open>The lease round trip\<close>

lemma bdel_absent: "bget m k = None \<Longrightarrow> bdel k m = m"
  by (induction m) (auto simp: bdel_def split: if_splits)

lemma bdel_bput: "bget m k = None \<Longrightarrow> bdel k (bput k v m) = m"
proof (induction k v m rule: bput.induct)
  case (2 k v k' v' m)
  have "bdel k m = m" if "k \<noteq> k'" using 2 that by (simp add: bdel_absent)
  with 2 show ?case by (auto simp: bdel_def)
qed (simp add: bdel_def)

lemma record_restored:
  "rr_state r = ComputeReady \<Longrightarrow> r\<lparr> rr_history := rr_history r, rr_state := ComputeReady \<rparr> = r"
  by (rule residency_record.equality) simp_all

lemma snapshot_restored [simp]: "s\<lparr> compute_queue_depth := compute_queue_depth s \<rparr> = s"
  by (rule resource_snapshot.equality) simp_all

lemma claims_same:
  "i < length (st_slots t) \<Longrightarrow> slot_claim sl = slot_claim (st_slots t ! i) \<Longrightarrow>
     claims (t\<lparr> st_slots := (st_slots t)[i := sl] \<rparr>) = claims t"
  by (auto simp: claims_update claims_def fun_eq_iff)

lemma has_replica_location: "has_replica r l \<Longrightarrow> l \<in> record_locations r"
  by (force simp: has_replica_def record_locations_def dest!: map_of_SomeD)

lemma locations_frame [simp]:
  "record_locations (r\<lparr> rr_leases := a, rr_history := b, rr_state := c \<rparr>) = record_locations r"
  by (simp add: record_locations_def)

lemma legal_to_in_use: "legal_transition s InUse \<longleftrightarrow> s = ComputeReady"
  by (cases s) simp_all

definition lease_restored :: "manager \<Rightarrow> page_id \<Rightarrow> residency_record \<Rightarrow> nat \<Rightarrow> manager \<Rightarrow> bool" where
  "lease_restored mg p r slot mg2 \<longleftrightarrow>
     (\<exists>r2. hget (mg_records mg2) p = Some r2 \<and> r2\<lparr> rr_history := rr_history r \<rparr> = r)
     \<and> (\<forall>q. q \<noteq> p \<longrightarrow> hget (mg_records mg2) q = hget (mg_records mg) q)
     \<and> mg_snapshot mg2 = mg_snapshot mg
     \<and> claims (mg_slots mg2) = claims (mg_slots mg)
     \<and> vs_state (st_slots (mg_slots mg2) ! slot) = SComputeReady
     \<and> vs_pinned_users (st_slots (mg_slots mg2) ! slot) = 0"

lemma acquire_busy:
  assumes "vs_state (st_slots (mg_slots mg) ! slot) = SInUse"
  shows "\<not> is_ok (acquire_compute q slot mg)"
proof -
  have "wp (acquire_compute q slot) (\<lambda>_ _. False) (\<lambda>_ _. True) mg"
    unfolding acquire_compute_def
    using assms by (simp add: step_simps cong: wp_weak_cong split: option.splits sum.splits)
  then show ?thesis by (auto simp: wp_def is_ok_def split: prod.splits sum.splits)
qed

lemma acquire_release:
  assumes reach: "mg_reachable mg" and r: "hget (mg_records mg) p = Some r"
    and rep: "has_replica r (VramSlot slot)"
    and fresh: "bget (rr_leases r) (mg_next_lease mg) = None"
    and cap: "compute_queue_capacity (mg_snapshot mg) < 2 ^ 32"
  shows "wp (acquire_compute p slot)
     (\<lambda>lease mg1. (\<forall>q. \<not> is_ok (acquire_compute q slot mg1))
        \<and> wp (release_compute lease) (\<lambda>_. lease_restored mg p r slot) (\<lambda>_ _. False) mg1)
     (\<lambda>_ _. True) mg"
proof -
  have page: "rr_page_id r = p" using mg_reachable_records [OF reach] r by (auto dest: records_okD)
  have tab: "slot_table_ok (mg_slots mg)" using mg_reachable_owned [OF reach] by (simp add: owned_def)
  let ?sl = "st_slots (mg_slots mg) ! slot"
  have pins: "slot < length (st_slots (mg_slots mg)) \<Longrightarrow> vs_state ?sl = SComputeReady \<Longrightarrow> vs_pinned_users ?sl = 0"
    using tab by (auto simp: slot_table_ok_def slot_ok_def)
  have depth: "wadd32 (compute_queue_depth (mg_snapshot mg)) 1 - Suc 0 = compute_queue_depth (mg_snapshot mg)"
    if "compute_queue_depth (mg_snapshot mg) < compute_queue_capacity (mg_snapshot mg)"
    using that cap by (subst wadd32_exact) auto
  show ?thesis
    apply (subst acquire_compute_def)
    using r page rep
    apply (simp add: step_simps legal_to_in_use acquire_busy Let_def cong: wp_weak_cong split: sum.splits)
    apply (intro impI)
    apply (subst release_compute_def)
    apply (simp add: pins depth step_simps lease_validate_against_def locations_frame
      has_replica_location [OF rep] validate_slot_identity_def sat_add32_def u32_max_def
      bdel_bput [OF fresh] Let_def cong: wp_weak_cong split: if_splits)
    apply (simp add: lease_restored_def record_restored depth [simplified] claims_same slot_claim_def)
    done
qed

text \<open>
  A compute lease is exclusive and its release undoes it: while it is held nobody else
  can acquire the slot, and releasing it succeeds and gives back the page record (but for its
  history), the other records, the slot claims and every resource counter, with the slot
  ready again and unpinned.
\<close>

theorem compute_lease_round_trip:
  assumes "mg_reachable mg" "hget (mg_records mg) p = Some r" "has_replica r (VramSlot slot)"
    and "bget (rr_leases r) (mg_next_lease mg) = None"
    and "compute_queue_capacity (mg_snapshot mg) < 2 ^ 32"
    and "acquire_compute p slot mg = (Inr lease, mg1)"
  shows "(\<forall>q. \<not> is_ok (acquire_compute q slot mg1))
    \<and> (\<exists>mg2. release_compute lease mg1 = (Inr (), mg2) \<and> lease_restored mg p r slot mg2)"
  using acquire_release [OF assms(1-5)] assms(6)
  by (auto simp: wp_def split: prod.splits sum.splits)

lemma keeps_reachable [keeps_intros]:
  "keeps mg_reachable (register sl g)" "keeps mg_reachable (queue_nvme_read n p m s)"
  "keeps mg_reachable (start_nvme_read n i)" "keeps mg_reachable (complete_nvme_read n n' i c)"
  "keeps mg_reachable (reserve_vram p j m s)" "keeps mg_reachable (queue_upload n p k m s)"
  "keeps mg_reachable (start_upload n i)" "keeps mg_reachable (complete_upload n n' i k c)"
  "keeps mg_reachable (mark_compute_ready p k)" "keeps mg_reachable (acquire_compute p k)"
  unfolding keeps_def
  using mg_reachable.call [of _ "MRegister sl g"] mg_reachable.call [of _ "MQueueRead n p m s"]
    mg_reachable.call [of _ "MStartRead n i"] mg_reachable.call [of _ "MCompleteRead n n' i c"]
    mg_reachable.call [of _ "MReserve p j m s"] mg_reachable.call [of _ "MQueueUpload n p k m s"]
    mg_reachable.call [of _ "MStartUpload n i"] mg_reachable.call [of _ "MCompleteUpload n n' i k c"]
    mg_reachable.call [of _ "MMarkReady p k"] mg_reachable.call [of _ "MAcquire p k"]
  by simp_all

lemma demo_ready:
  obtains mg where "mg_reachable mg" "ready_state demo_slice 0 4 mg"
proof -
  have "keeps mg_reachable (serve_ready demo_slice 0 5)"
    unfolding serve_ready_def Let_def by (intro keeps_intros)
  moreover have "mg_reachable demo_manager" using demo_manager_new by (rule mg_reachable.fresh)
  ultimately have "mg_reachable (snd (serve_ready demo_slice 0 5 demo_manager))" by (rule keepsD)
  moreover have "ready_state demo_slice 0 4 (snd (serve_ready demo_slice 0 5 demo_manager))"
    using serve_ready_runs [OF demo_manager_new, of demo_slice 0 5]
    by (auto simp: wp_def demo_slice_def slice_validate_def u64_max_def split: prod.splits sum.splits)
  ultimately show thesis by (rule that)
qed

theorem compute_lease_round_trip_witness:
  "\<exists>mg lease mg1 mg2 r. acquire_compute demo_page 0 mg = (Inr lease, mg1)
    \<and> release_compute lease mg1 = (Inr (), mg2) \<and> lease_restored mg demo_page r 0 mg2"
proof -
  obtain mg where mg: "mg_reachable mg" "ready_state demo_slice 0 4 mg" by (rule demo_ready)
  have page: "sl_page_id demo_slice = demo_page" by (simp add: demo_slice_def)
  from mg(2) obtain r where r: "hget (mg_records mg) demo_page = Some r" "rr_leases r = []"
      "has_replica r (VramSlot 0)" "compute_queue_capacity (mg_snapshot mg) = 4"
    by (auto simp: ready_state_def page)
  from ready_state_acquire [OF mg(2)] obtain lease mg1 where
    acq: "acquire_compute demo_page 0 mg = (Inr lease, mg1)"
    by (auto simp: wp_def page split: prod.splits sum.splits)
  have "bget (rr_leases r) (mg_next_lease mg) = None" "compute_queue_capacity (mg_snapshot mg) < 2 ^ 32"
    using r(2,4) by simp_all
  from compute_lease_round_trip [OF mg(1) r(1,3) this acq] acq show ?thesis by blast
qed

theorem in_use_pages_are_pinned_witness:
  "\<exists>mg e. mg_reachable mg \<and> evict_vram demo_page 0 mg = (Inl e, mg)"
proof -
  obtain mg where mg: "mg_reachable mg" "ready_state demo_slice 0 4 mg" by (rule demo_ready)
  have page: "sl_page_id demo_slice = demo_page" by (simp add: demo_slice_def)
  from ready_state_acquire [OF mg(2)] obtain lease mg1 r where
    acq: "acquire_compute demo_page 0 mg = (Inr lease, mg1)"
    and r: "hget (mg_records mg1) demo_page = Some r" "rr_state r = InUse"
    by (auto simp: wp_def page split: prod.splits sum.splits)
  have "mg_reachable mg1"
    using keepsD [OF keeps_reachable(10) mg(1), of demo_page 0] acq by simp
  with in_use_pages_are_pinned [OF r, of 0] show ?thesis by blast
qed

subsection \<open>An eviction the state machine forbids\<close>

text \<open>
  Evicting the pinned RAM copy of a page that is ready on the GPU never succeeds: the
  code asks for the transition from \<open>Evicting\<close> to \<open>ComputeReady\<close>, which the transition table
  does not have.  The call returns that error after it has already dropped the RAM replica,
  and leaves the page in \<open>Evicting\<close> with the pinned counter not reduced.
\<close>

theorem ram_eviction_of_ready_page_fails:
  assumes "mg_reachable mg" "hget (mg_records mg) p = Some r" "rr_state r = ComputeReady"
    and "has_replica r RamPinned"
  shows "\<exists>mg' r'. evict_ram p mg = (Inl (IllegalTransition Evicting ComputeReady), mg')
    \<and> hget (mg_records mg') p = Some r' \<and> rr_state r' = Evicting \<and> \<not> has_replica r' RamPinned
    \<and> mg_snapshot mg' = mg_snapshot mg"
proof -
  have inv: "record_inv r" using mg_reachable_records [OF assms(1)] assms(2) by (auto dest: records_okD)
  then have auth: "rr_authoritative r = NvmeCold" by (simp add: record_inv_def record_ok_def)
  have vram: "list_ex (is_vram \<circ> fst) (bdel RamPinned (rr_replicas r))"
    using inv assms(3) unfolding record_inv_def vram_states_def has_vram_def list_ex_bdel
    by (force simp: list_ex_iff)
  have "wp (evict_ram p) (\<lambda>_ _. False)
    (\<lambda>e mg'. e = IllegalTransition Evicting ComputeReady
      \<and> (\<exists>r'. hget (mg_records mg') p = Some r' \<and> rr_state r' = Evicting \<and> \<not> has_replica r' RamPinned)
      \<and> mg_snapshot mg' = mg_snapshot mg) mg"
    unfolding evict_ram_def
    using assms(2-4) auth vram by (simp add: step_simps has_replica_def cong: wp_weak_cong)
  then show ?thesis by (auto simp: wp_def split: prod.splits sum.splits)
qed

theorem ram_eviction_of_ready_page_fails_witness:
  "\<exists>mg mg'. evict_ram demo_page mg = (Inl (IllegalTransition Evicting ComputeReady), mg')"
proof -
  obtain mg where mg: "mg_reachable mg" "ready_state demo_slice 0 4 mg" by (rule demo_ready)
  have page: "sl_page_id demo_slice = demo_page" by (simp add: demo_slice_def)
  from mg(2) obtain r where r: "hget (mg_records mg) demo_page = Some r" "rr_state r = ComputeReady"
      "has_replica r RamPinned"
    by (auto simp: ready_state_def page)
  from ram_eviction_of_ready_page_fails [OF mg(1) r] show ?thesis by blast
qed

text \<open>
  Completing an upload subtracts the page from the pinned counter although the pinned copy
  stays: a reachable state with a pinned replica of positive size and a counter of zero.
\<close>

theorem pinned_counter_forgets_replica:
  "\<exists>mg r. mg_reachable mg \<and> hget (mg_records mg) demo_page = Some r \<and> has_replica r RamPinned
    \<and> record_bytes r = 64 \<and> ram_pinned_used (mg_snapshot mg) = 0"
proof -
  obtain mg where "mg_reachable mg" "ready_state demo_slice 0 4 mg" by (rule demo_ready)
  then show ?thesis by (auto simp: ready_state_def demo_slice_def)
qed

end
