(* ===== verification/Expert_Lru.thy ===== *)
theory Expert_Lru
  imports Residency_Types
begin

text \<open>
  \<open>har-residency/src/expert_lru.rs\<close>: the timestamp LRU cache of expert pages.  The iteration
  order of the \<open>HashMap\<close> is not specified; it enters the choice of a victim when two pages
  tie, so it is a parameter: a rank of the keys that may depend on the whole table.  Every
  permutation of the entries is the order of some rank.
\<close>

record lru_entry =
  le_bytes :: nat
  le_last_used_ns :: nat
  le_pins :: nat

record lru_stats =
  ls_hits :: nat
  ls_misses :: nat
  ls_insertions :: nat
  ls_evictions :: nat
  ls_rejected_oversize :: nat

type_synonym lru_map = "(page_id \<times> lru_entry) list"
type_synonym hash_rank = "lru_map \<Rightarrow> page_id \<Rightarrow> nat"

record lru_cache =
  lc_capacity :: nat
  lc_entries :: lru_map
  lc_resident :: nat
  lc_stats :: lru_stats

type_synonym 'a lru_op = "(lru_cache, residency_error, 'a) op"

definition lru_new :: "nat \<Rightarrow> residency_error + lru_cache" where
  "lru_new capacity =
     (if capacity = 0 then Inl (Invalid ''expert cache capacity must be > 0'')
      else Inr \<lparr> lc_capacity = capacity, lc_entries = [], lc_resident = 0,
                 lc_stats = \<lparr> ls_hits = 0, ls_misses = 0, ls_insertions = 0, ls_evictions = 0,
                              ls_rejected_oversize = 0 \<rparr> \<rparr>)"

definition lru_len :: "lru_cache \<Rightarrow> nat" where
  "lru_len c = length (lc_entries c)"

definition lru_is_empty :: "lru_cache \<Rightarrow> bool" where
  "lru_is_empty c \<longleftrightarrow> lc_entries c = []"

definition lru_contains :: "page_id \<Rightarrow> lru_cache \<Rightarrow> bool" where
  "lru_contains p c \<longleftrightarrow> hget (lc_entries c) p \<noteq> None"

definition lru_touch :: "page_id \<Rightarrow> nat \<Rightarrow> lru_cache \<Rightarrow> bool \<times> lru_cache" where
  "lru_touch p now c =
     (case hget (lc_entries c) p of
        Some e \<Rightarrow> (True, c\<lparr> lc_entries := hput p (e\<lparr> le_last_used_ns := now \<rparr>) (lc_entries c),
                    lc_stats := (lc_stats c)\<lparr> ls_hits := wadd64 (ls_hits (lc_stats c)) 1 \<rparr> \<rparr>)
      | None \<Rightarrow> (False, c\<lparr> lc_stats := (lc_stats c)\<lparr> ls_misses := wadd64 (ls_misses (lc_stats c)) 1 \<rparr> \<rparr>))"

definition hash_iter :: "hash_rank \<Rightarrow> lru_map \<Rightarrow> lru_map" where
  "hash_iter rk m = sort_key (rk m \<circ> fst) m"

fun lru_key :: "lru_entry \<Rightarrow> nat \<times> nat" where
  "lru_key e = (le_last_used_ns e, le_bytes e)"

definition lru_victim :: "hash_rank \<Rightarrow> lru_cache \<Rightarrow> page_id option" where
  "lru_victim rk c = map_option fst
     (min_by_key (lru_key \<circ> snd) (filter (\<lambda>(_, e). le_pins e = 0) (hash_iter rk (lc_entries c))))"

definition lru_remove :: "page_id \<Rightarrow> lru_cache \<Rightarrow> lru_cache" where
  "lru_remove v c =
     (case hget (lc_entries c) v of
        None \<Rightarrow> c
      | Some e \<Rightarrow> c\<lparr> lc_entries := hdel v (lc_entries c),
             lc_resident := wsub64 (lc_resident c) (le_bytes e),
             lc_stats := (lc_stats c)\<lparr> ls_evictions := wadd64 (ls_evictions (lc_stats c)) 1 \<rparr> \<rparr>)"

lemma set_hash_iter [simp]: "set (hash_iter rk m) = set m"
  by (simp add: hash_iter_def)

lemma lru_victim_Some:
  assumes "lru_victim rk c = Some v"
  obtains e where "(v, e) \<in> set (lc_entries c)" "le_pins e = 0"
    "\<And>k e'. (k, e') \<in> set (lc_entries c) \<Longrightarrow> le_pins e' = 0 \<Longrightarrow> lru_key e \<le> lru_key e'"
proof -
  from assms obtain e where e: "min_by_key (lru_key \<circ> snd)
      (filter (\<lambda>(_, e). le_pins e = 0) (hash_iter rk (lc_entries c))) = Some (v, e)"
    by (auto simp: lru_victim_def)
  from min_by_key_min [OF e] show thesis by (intro that [of e]) auto
qed

lemma lru_victim_None:
  "lru_victim rk c = None \<Longrightarrow> (k, e) \<in> set (lc_entries c) \<Longrightarrow> 0 < le_pins e"
  by (auto simp: lru_victim_def filter_empty_conv)

lemma lru_victim_None_iff:
  "lru_victim rk c = None \<longleftrightarrow> (\<forall>(k, e)\<in>set (lc_entries c). 0 < le_pins e)"
  by (auto simp: lru_victim_def filter_empty_conv)

lemma lru_remove_shorter:
  assumes "lru_victim rk c = Some v"
  shows "length (lc_entries (lru_remove v c)) < length (lc_entries c)"
proof -
  from assms obtain e where "(v, e) \<in> set (lc_entries c)" by (rule lru_victim_Some)
  then obtain e' where "hget (lc_entries c) v = Some e'" by (metis weak_map_of_SomeI)
  then show ?thesis by (simp add: lru_remove_def length_hdel_less)
qed

function lru_make_room :: "hash_rank \<Rightarrow> nat \<Rightarrow> unit lru_op" where
  "lru_make_room rk incoming c =
     (if lc_capacity c < wadd64 (lc_resident c) incoming
      then case lru_victim rk c of
        None \<Rightarrow> (Inl (Invalid ''cache full of pinned pages; cannot evict''), c)
      | Some v \<Rightarrow> lru_make_room rk incoming (lru_remove v c)
      else (Inr (), c))"
  by pat_completeness auto

termination
  by (relation "measure (\<lambda>(rk, n, c). length (lc_entries c))") (auto simp: lru_remove_shorter)

function lru_evict_until_fit :: "hash_rank \<Rightarrow> lru_cache \<Rightarrow> lru_cache" where
  "lru_evict_until_fit rk c =
     (if lc_capacity c < lc_resident c
      then case lru_victim rk c of
        None \<Rightarrow> c
      | Some v \<Rightarrow> lru_evict_until_fit rk (lru_remove v c)
      else c)"
  by pat_completeness auto

termination
  by (relation "measure (\<lambda>(rk, c). length (lc_entries c))") (auto simp: lru_remove_shorter)

declare lru_make_room.simps [simp del] lru_evict_until_fit.simps [simp del]

definition lru_insert :: "hash_rank \<Rightarrow> page_id \<Rightarrow> nat \<Rightarrow> nat \<Rightarrow> unit lru_op" where
  "lru_insert rk p bytes now c =
     (if bytes > lc_capacity c
      then (Inl (Invalid (''page '' @ dec_digits (page_ordinal p) @ '' bytes '' @ dec_digits bytes
              @ '' exceed cache capacity '' @ dec_digits (lc_capacity c))),
            c\<lparr> lc_stats := (lc_stats c)
                \<lparr> ls_rejected_oversize := wadd64 (ls_rejected_oversize (lc_stats c)) 1 \<rparr> \<rparr>)
      else case hget (lc_entries c) p of
        Some old \<Rightarrow>
          (Inr (), lru_evict_until_fit rk (c
             \<lparr> lc_entries := hput p \<lparr> le_bytes = bytes, le_last_used_ns = now, le_pins = le_pins old \<rparr>
                 (lc_entries c),
               lc_resident := wadd64 (wsub64 (lc_resident c) (le_bytes old)) bytes,
               lc_stats := (lc_stats c)\<lparr> ls_insertions := wadd64 (ls_insertions (lc_stats c)) 1 \<rparr> \<rparr>))
      | None \<Rightarrow>
          thenR (lru_make_room rk bytes)
            (modR (\<lambda>c. c\<lparr> lc_entries := hput p \<lparr> le_bytes = bytes, le_last_used_ns = now, le_pins = 0 \<rparr>
                        (lc_entries c),
                     lc_resident := wadd64 (lc_resident c) bytes,
                     lc_stats := (lc_stats c)
                       \<lparr> ls_insertions := wadd64 (ls_insertions (lc_stats c)) 1 \<rparr> \<rparr>)) c)"

definition lru_pin :: "page_id \<Rightarrow> nat \<Rightarrow> unit lru_op" where
  "lru_pin p now c =
     (case hget (lc_entries c) p of
        None \<Rightarrow> (Inl (Invalid ''cannot pin a page that is not resident''), c)
      | Some e \<Rightarrow> (Inr (), c\<lparr> lc_entries := hput p (e\<lparr> le_last_used_ns := now,
                    le_pins := sat_add32 (le_pins e) 1 \<rparr>) (lc_entries c) \<rparr>))"

definition lru_unpin :: "page_id \<Rightarrow> unit lru_op" where
  "lru_unpin p c =
     (case hget (lc_entries c) p of
        None \<Rightarrow> (Inl (Invalid ''cannot unpin a page that is not resident''), c)
      | Some e \<Rightarrow> if le_pins e = 0 then (Inl (Invalid ''unpin below zero''), c)
          else (Inr (), c\<lparr> lc_entries := hput p (e\<lparr> le_pins := le_pins e - 1 \<rparr>) (lc_entries c) \<rparr>))"

subsection \<open>Accounting\<close>

definition total_bytes :: "lru_map \<Rightarrow> nat" where
  "total_bytes m = sum_list (map (le_bytes \<circ> snd) m)"

definition pinned_bytes :: "lru_map \<Rightarrow> nat" where
  "pinned_bytes m = total_bytes (filter (\<lambda>(_, e). 0 < le_pins e) m)"

definition lru_ok :: "lru_cache \<Rightarrow> bool" where
  "lru_ok c \<longleftrightarrow> hdistinct (lc_entries c) \<and> lc_resident c = total_bytes (lc_entries c) mod 2 ^ 64
     \<and> (\<forall>(p, e)\<in>set (lc_entries c). le_bytes e < 2 ^ 64)"

lemma wadd64_mod: "wadd64 (a mod 2 ^ 64) b = (a + b) mod 2 ^ 64"
  by (simp add: wadd64_def mod_add_left_eq)

lemma wsub64_mod: "b \<le> a \<Longrightarrow> b < 2 ^ 64 \<Longrightarrow> wsub64 (a mod 2 ^ 64) b = (a - b) mod 2 ^ 64"
proof -
  assume b: "b \<le> a" "b < 2 ^ 64"
  have "wsub64 (a mod 2 ^ 64) b = (a + (2 ^ 64 - b)) mod 2 ^ 64"
    by (simp add: wsub64_def mod_add_left_eq)
  also have "a + (2 ^ 64 - b) = (a - b) + 2 ^ 64" using b by simp
  finally show ?thesis by simp
qed

lemmas u64_mod = wadd64_mod [simplified] wsub64_mod [simplified]

lemma total_bytes_hdel:
  "hdistinct m \<Longrightarrow> hget m v = Some e \<Longrightarrow> total_bytes m = le_bytes e + total_bytes (hdel v m)"
  unfolding total_bytes_def by (rule sum_list_hdel)

lemma lru_ok_remove: "lru_ok c \<Longrightarrow> lru_ok (lru_remove v c)"
proof (cases "hget (lc_entries c) v")
  case (Some e)
  assume ok: "lru_ok c"
  then have eb: "le_bytes e < 2 ^ 64" using Some by (auto simp: lru_ok_def dest!: map_of_SomeD)
  have "total_bytes (lc_entries c) = le_bytes e + total_bytes (hdel v (lc_entries c))"
    using ok Some by (intro total_bytes_hdel) (auto simp: lru_ok_def)
  then have "wsub64 (lc_resident c) (le_bytes e) = total_bytes (hdel v (lc_entries c)) mod 2 ^ 64"
    using ok eb wsub64_mod [of "le_bytes e" "total_bytes (lc_entries c)"] by (simp add: lru_ok_def)
  with ok Some set_hdel_subset [of v "lc_entries c"] show ?thesis
    by (auto simp: lru_ok_def lru_remove_def)
qed (simp add: lru_remove_def)

lemma lru_ok_put:
  assumes "lru_ok c" "le_bytes e < 2 ^ 64"
    and "r = (case hget (lc_entries c) p of None \<Rightarrow> wadd64 (lc_resident c) (le_bytes e)
                | Some old \<Rightarrow> wadd64 (wsub64 (lc_resident c) (le_bytes old)) (le_bytes e))"
  shows "lru_ok (c\<lparr> lc_entries := hput p e (lc_entries c), lc_resident := r, lc_stats := s \<rparr>)"
proof -
  let ?m = "lc_entries c"
  have dist: "hdistinct ?m" and res: "lc_resident c = total_bytes ?m mod 2 ^ 64"
    using assms(1) by (auto simp: lru_ok_def)
  have "r = total_bytes (hput p e ?m) mod 2 ^ 64"
  proof (cases "hget ?m p")
    case None
    with assms(3) res show ?thesis
      by (simp add: u64_mod total_bytes_def sum_list_hput_new)
  next
    case (Some old)
    then have ob: "le_bytes old < 2 ^ 64"
      using assms(1) by (auto simp: lru_ok_def dest!: map_of_SomeD)
    from dist Some have tot: "total_bytes ?m = le_bytes old + total_bytes (hdel p ?m)"
      by (rule total_bytes_hdel)
    have "total_bytes (hput p e ?m) + le_bytes old = total_bytes ?m + le_bytes e"
      unfolding total_bytes_def using dist Some by (rule sum_list_hput_old)
    with tot have "total_bytes (hput p e ?m) = (total_bytes ?m - le_bytes old) + le_bytes e" by simp
    with assms(3) Some res ob tot show ?thesis by (simp add: u64_mod)
  qed
  with assms(1,2) set_hput_subset [of p e ?m] show ?thesis by (auto simp: lru_ok_def)
qed

subsection \<open>What eviction does\<close>

definition evicts :: "lru_map \<Rightarrow> lru_map \<Rightarrow> bool" where
  "evicts m m' \<longleftrightarrow> (\<forall>k e. hget m' k = Some e \<longrightarrow> hget m k = Some e)
     \<and> (\<forall>k e. hget m k = Some e \<longrightarrow> 0 < le_pins e \<longrightarrow> hget m' k = Some e)
     \<and> (\<forall>v ev k ek. hget m v = Some ev \<longrightarrow> hget m' v = None \<longrightarrow> hget m' k = Some ek \<longrightarrow> le_pins ek = 0
          \<longrightarrow> lru_key ev \<le> lru_key ek)"

lemma evicts_refl: "evicts m m"
  by (simp add: evicts_def)

lemma evicts_cong: "hget m' = hget m'' \<Longrightarrow> evicts m m' = evicts m m''"
  by (simp add: evicts_def)

lemma evictsD:
  assumes "evicts m m'"
  shows "hget m' k = Some e \<Longrightarrow> hget m k = Some e"
    and "hget m k = Some e \<Longrightarrow> 0 < le_pins e \<Longrightarrow> hget m' k = Some e"
    and "hget m v = Some ev \<Longrightarrow> hget m' v = None \<Longrightarrow> hget m' k = Some ek \<Longrightarrow> le_pins ek = 0 \<Longrightarrow> lru_key ev \<le> lru_key ek"
  using assms unfolding evicts_def by blast+

lemma evicts_trans:
  assumes ab: "evicts a b" and bc: "evicts b c"
  shows "evicts a c"
  unfolding evicts_def
proof (intro conjI allI impI)
  show "hget a k = Some e" if "hget c k = Some e" for k e
    using evictsD(1) [OF ab evictsD(1) [OF bc that]] .
  show "hget c k = Some e" if "hget a k = Some e" "0 < le_pins e" for k e
    using evictsD(2) [OF bc evictsD(2) [OF ab that] that(2)] .
  show "lru_key ev \<le> lru_key ek"
    if "hget a v = Some ev" "hget c v = None" "hget c k = Some ek" "le_pins ek = 0" for v ev k ek
  proof (cases "hget b v")
    case None
    from evictsD(3) [OF ab that(1) None evictsD(1) [OF bc that(3)] that(4)] show ?thesis .
  next
    case (Some e')
    then have "e' = ev" using evictsD(1) [OF ab Some] that(1) by simp
    with Some have "hget b v = Some ev" by simp
    from evictsD(3) [OF bc this that(2-4)] show ?thesis .
  qed
qed

lemma evicts_remove:
  assumes "hdistinct (lc_entries c)" "lru_victim rk c = Some v"
  shows "evicts (lc_entries c) (lc_entries (lru_remove v c))
    \<and> (\<exists>e. hget (lc_entries c) v = Some e \<and> le_pins e = 0)"
proof -
  from assms(2) obtain e where e: "(v, e) \<in> set (lc_entries c)" "le_pins e = 0"
    and min: "\<And>k e'. (k, e') \<in> set (lc_entries c) \<Longrightarrow> le_pins e' = 0 \<Longrightarrow> lru_key e \<le> lru_key e'"
    by (rule lru_victim_Some) blast
  then have v: "hget (lc_entries c) v = Some e" using assms(1) by simp
  have min': "lru_key e \<le> lru_key e'" if "hget (lc_entries c) k = Some e'" "le_pins e' = 0" for k e'
    using min [OF map_of_SomeD [OF that(1)] that(2)] .
  from v e(2) min' show ?thesis
    by (auto simp: evicts_def lru_remove_def simp del: lru_key.simps split: if_splits)
qed

lemma filter_absorb: "(\<forall>x\<in>set m. P x \<longrightarrow> Q x) \<Longrightarrow> filter P (filter Q m) = filter P m"
  by (induction m) auto

lemma pinned_remove:
  assumes "hdistinct (lc_entries c)" "hget (lc_entries c) v = Some e" "le_pins e = 0"
  shows "pinned_bytes (lc_entries (lru_remove v c)) = pinned_bytes (lc_entries c)"
proof -
  have "filter (\<lambda>(_, e). 0 < le_pins e) (hdel v (lc_entries c)) = filter (\<lambda>(_, e). 0 < le_pins e) (lc_entries c)"
    unfolding AList.delete_eq
  proof (rule filter_absorb)
    have "e' = e" if "(v, e') \<in> set (lc_entries c)" for e'
      using in_set_hget [OF assms(1) that] assms(2) by simp
    with assms(3) show "\<forall>x\<in>set (lc_entries c). (case x of (_, e) \<Rightarrow> 0 < le_pins e) \<longrightarrow> (case x of (k, _) \<Rightarrow> v \<noteq> k)"
      by auto
  qed
  with assms(2) show ?thesis by (simp add: pinned_bytes_def lru_remove_def)
qed

lemma pinned_le_total: "pinned_bytes m \<le> total_bytes m"
  unfolding pinned_bytes_def total_bytes_def by (induction m) (auto simp: trans_le_add2)

lemma pinned_all: "(\<forall>(k, e)\<in>set m. 0 < le_pins e) \<Longrightarrow> pinned_bytes m = total_bytes m"
  by (simp add: pinned_bytes_def filter_id_conv)

lemma total_remove_le: "hdistinct (lc_entries c) \<Longrightarrow> total_bytes (lc_entries (lru_remove v c)) \<le> total_bytes (lc_entries c)"
  by (auto simp: lru_remove_def total_bytes_hdel split: option.splits)

lemma lru_remove_capacity [simp]: "lc_capacity (lru_remove v c) = lc_capacity c"
  by (simp add: lru_remove_def split: option.splits)

text \<open>Making room: what is evicted, and exactly when it fails.\<close>

lemma lru_make_room_spec:
  assumes "lru_ok c" "total_bytes (lc_entries c) + n < 2 ^ 64"
  shows "wp (lru_make_room rk n)
    (\<lambda>_ c'. total_bytes (lc_entries c') + n \<le> lc_capacity c \<and> lru_ok c' \<and> lc_capacity c' = lc_capacity c
       \<and> evicts (lc_entries c) (lc_entries c') \<and> pinned_bytes (lc_entries c) + n \<le> lc_capacity c)
    (\<lambda>_ c'. lc_capacity c < pinned_bytes (lc_entries c) + n \<and> lru_ok c' \<and> lc_capacity c' = lc_capacity c
       \<and> evicts (lc_entries c) (lc_entries c')) c"
  using assms
proof (induction rk n c rule: lru_make_room.induct)
  case (1 rk n c)
  have res: "lc_resident c = total_bytes (lc_entries c)" "wadd64 (lc_resident c) n = total_bytes (lc_entries c) + n"
    using "1.prems" by (auto simp: lru_ok_def wadd64_exact)
  have dist: "hdistinct (lc_entries c)" using "1.prems" by (simp add: lru_ok_def)
  show ?case
  proof (cases "lc_capacity c < wadd64 (lc_resident c) n")
    case False
    then have "lru_make_room rk n c = (Inr (), c)" by (subst lru_make_room.simps) simp
    with False res "1.prems" evicts_refl pinned_le_total [of "lc_entries c"] show ?thesis
      by (simp add: wp_def)
  next
    case full: True
    show ?thesis
    proof (cases "lru_victim rk c")
      case None
      then have "pinned_bytes (lc_entries c) = total_bytes (lc_entries c)"
        by (intro pinned_all) (auto dest: lru_victim_None)
      moreover have "fst (lru_make_room rk n c) = Inl (Invalid ''cache full of pinned pages; cannot evict'')"
        "snd (lru_make_room rk n c) = c"
        using full None by (subst lru_make_room.simps; simp)+
      ultimately show ?thesis using full res "1.prems" evicts_refl
        by (cases "lru_make_room rk n c") (simp add: wp_def)
    next
      case (Some v)
      let ?c = "lru_remove v c"
      from evicts_remove [OF dist Some] obtain e where ev: "evicts (lc_entries c) (lc_entries ?c)"
        and e: "hget (lc_entries c) v = Some e" "le_pins e = 0" by blast
      have pin: "pinned_bytes (lc_entries ?c) = pinned_bytes (lc_entries c)"
        using dist e by (rule pinned_remove)
      have step: "lru_make_room rk n c = lru_make_room rk n ?c"
        using full Some by (subst lru_make_room.simps) simp
      have "total_bytes (lc_entries ?c) + n < 2 ^ 64"
        using total_remove_le [OF dist, of v] "1.prems"(2) by linarith
      from "1.IH" [OF full Some lru_ok_remove [OF "1.prems"(1)] this]
      show ?thesis unfolding wp_def step
        by (auto simp: pin intro: evicts_trans [OF ev] split: prod.splits sum.splits)
    qed
  qed
qed

lemma lru_evict_until_fit_spec:
  assumes "lru_ok c"
  shows "lru_ok (lru_evict_until_fit rk c) \<and> lc_capacity (lru_evict_until_fit rk c) = lc_capacity c
    \<and> evicts (lc_entries c) (lc_entries (lru_evict_until_fit rk c))"
  using assms
proof (induction rk c rule: lru_evict_until_fit.induct)
  case (1 rk c)
  have dist: "hdistinct (lc_entries c)" using "1.prems" by (simp add: lru_ok_def)
  show ?case
  proof (cases "lc_capacity c < lc_resident c \<and> lru_victim rk c \<noteq> None")
    case True
    then obtain v where full: "lc_capacity c < lc_resident c" and v: "lru_victim rk c = Some v" by auto
    then have step: "lru_evict_until_fit rk c = lru_evict_until_fit rk (lru_remove v c)"
      by (subst lru_evict_until_fit.simps) simp
    from evicts_remove [OF dist v] have "evicts (lc_entries c) (lc_entries (lru_remove v c))" by simp
    with "1.IH" [OF full v lru_ok_remove [OF "1.prems"]] show ?thesis
      unfolding step by (auto intro: evicts_trans)
  next
    case False
    then have "lru_evict_until_fit rk c = c"
      by (subst lru_evict_until_fit.simps) (auto split: option.splits)
    with "1.prems" evicts_refl show ?thesis by simp
  qed
qed

subsection \<open>The cache under any sequence of calls\<close>

datatype lru_cmd =
  LTouch page_id nat
| LInsert page_id nat nat
| LPin page_id nat
| LUnpin page_id

fun lru_exec :: "hash_rank \<Rightarrow> lru_cmd \<Rightarrow> lru_cache \<Rightarrow> lru_cache" where
  "lru_exec rk (LTouch p now) c = snd (lru_touch p now c)"
| "lru_exec rk (LInsert p b now) c = snd (lru_insert rk p b now c)"
| "lru_exec rk (LPin p now) c = snd (lru_pin p now c)"
| "lru_exec rk (LUnpin p) c = snd (lru_unpin p c)"

lemma lru_ok_stats [simp]: "lru_ok (c\<lparr> lc_stats := s \<rparr>) = lru_ok c"
  by (simp add: lru_ok_def)

lemma lru_ok_replace:
  assumes ok: "lru_ok c" and e: "hget (lc_entries c) p = Some old" "le_bytes e = le_bytes old"
  shows "lru_ok (c\<lparr> lc_entries := hput p e (lc_entries c) \<rparr>)"
proof -
  have dist: "hdistinct (lc_entries c)" using ok by (simp add: lru_ok_def)
  have "total_bytes (hput p e (lc_entries c)) = total_bytes (lc_entries c)"
    using sum_list_hput_old [OF dist e(1), of le_bytes e] e(2) by (simp add: total_bytes_def)
  moreover have "le_bytes e < 2 ^ 64" using ok e by (auto simp: lru_ok_def dest!: map_of_SomeD)
  ultimately show ?thesis using ok set_hput_subset [of p e "lc_entries c"] by (auto simp: lru_ok_def)
qed

lemma lru_make_room_ok: "lru_ok c \<Longrightarrow> lru_ok (snd (lru_make_room rk n c)) \<and> lc_capacity (snd (lru_make_room rk n c)) = lc_capacity c"
proof (induction rk n c rule: lru_make_room.induct)
  case (1 rk n c)
  show ?case
  proof (cases "lc_capacity c < wadd64 (lc_resident c) n \<and> lru_victim rk c \<noteq> None")
    case True
    then obtain v where v: "lc_capacity c < wadd64 (lc_resident c) n" "lru_victim rk c = Some v" by auto
    then have "lru_make_room rk n c = lru_make_room rk n (lru_remove v c)"
      by (subst lru_make_room.simps) simp
    with "1.IH" [OF v lru_ok_remove [OF "1.prems"]] show ?thesis by simp
  next
    case False
    then have "snd (lru_make_room rk n c) = c"
      by (subst lru_make_room.simps) (auto split: option.splits)
    with "1.prems" show ?thesis by simp
  qed
qed

lemma lru_make_room_keys:
  "hget (lc_entries c) k = None \<Longrightarrow> hget (lc_entries (snd (lru_make_room rk n c))) k = None"
proof (induction rk n c rule: lru_make_room.induct)
  case (1 rk n c)
  show ?case
  proof (cases "lc_capacity c < wadd64 (lc_resident c) n \<and> lru_victim rk c \<noteq> None")
    case True
    then obtain v where v: "lc_capacity c < wadd64 (lc_resident c) n" "lru_victim rk c = Some v" by auto
    then have step: "lru_make_room rk n c = lru_make_room rk n (lru_remove v c)"
      by (subst lru_make_room.simps) simp
    have "hget (lc_entries (lru_remove v c)) k = None"
      using "1.prems" by (simp add: lru_remove_def split: option.splits)
    with "1.IH" [OF v] show ?thesis unfolding step .
  next
    case False
    then have "snd (lru_make_room rk n c) = c"
      by (subst lru_make_room.simps) (auto split: option.splits)
    with "1.prems" show ?thesis by simp
  qed
qed

text \<open>
  The cache's books always balance: after any call, with any hash order and whether it
  succeeds or fails, every page has at most one entry and \<open>resident_bytes\<close> is the sum of the
  sizes of the resident pages (as a \<open>u64\<close>); the capacity never changes.
\<close>

theorem lru_accounting:
  assumes "lru_ok c" "\<forall>p b now. cmd = LInsert p b now \<longrightarrow> b < 2 ^ 64"
  shows "lru_ok (lru_exec rk cmd c) \<and> lc_capacity (lru_exec rk cmd c) = lc_capacity c"
proof (cases cmd)
  case (LTouch p now)
  with assms(1) show ?thesis
    by (auto simp: lru_touch_def intro: lru_ok_replace split: option.splits)
next
  case (LPin p now)
  with assms(1) show ?thesis by (auto simp: lru_pin_def intro: lru_ok_replace split: option.splits)
next
  case (LUnpin p)
  with assms(1) show ?thesis by (auto simp: lru_unpin_def intro: lru_ok_replace split: option.splits)
next
  case (LInsert p b now)
  then have b: "b < 2 ^ 64" using assms(2) by simp
  show ?thesis
  proof (cases "b > lc_capacity c")
    case True
    with LInsert assms(1) show ?thesis by (simp add: lru_insert_def)
  next
    case fits: False
    show ?thesis
    proof (cases "hget (lc_entries c) p")
      case (Some old)
      let ?e = "\<lparr> le_bytes = b, le_last_used_ns = now, le_pins = le_pins old \<rparr>"
      have "lru_ok (c\<lparr> lc_entries := hput p ?e (lc_entries c),
               lc_resident := wadd64 (wsub64 (lc_resident c) (le_bytes old)) b, lc_stats := s \<rparr>)" for s
        using assms(1) b Some by (intro lru_ok_put) auto
      from lru_evict_until_fit_spec [OF this] LInsert fits Some show ?thesis
        by (simp add: lru_insert_def)
    next
      case None
      obtain res c' where room: "lru_make_room rk b c = (res, c')" by force
      with lru_make_room_ok [OF assms(1), of rk b] have c': "lru_ok c'" "lc_capacity c' = lc_capacity c"
        by auto
      have none: "hget (lc_entries c') p = None"
        using lru_make_room_keys [of c p rk b] room None by auto
      let ?e = "\<lparr> le_bytes = b, le_last_used_ns = now, le_pins = 0 \<rparr>"
      have "lru_ok (c'\<lparr> lc_entries := hput p ?e (lc_entries c'),
               lc_resident := wadd64 (lc_resident c') b, lc_stats := s \<rparr>)" for s
        using c' b none by (intro lru_ok_put) auto
      with LInsert fits None room c' show ?thesis
        by (cases res) (simp_all add: lru_insert_def op_defs)
    qed
  qed
qed

definition demo_cache :: lru_cache where
  "demo_cache = \<lparr> lc_capacity = 512, lc_entries = [], lc_resident = 0,
     lc_stats = \<lparr> ls_hits = 0, ls_misses = 0, ls_insertions = 0, ls_evictions = 0,
                  ls_rejected_oversize = 0 \<rparr> \<rparr>"

lemma demo_cache_ok: "lru_new 512 = Inr demo_cache" "lru_ok demo_cache"
  by (simp_all add: lru_new_def demo_cache_def lru_ok_def total_bytes_def)

theorem lru_accounting_witness:
  "lru_ok (lru_exec (\<lambda>_ _. 0) (LInsert (PageId ''m'' Weights 1) 256 10) demo_cache)"
  using lru_accounting [OF demo_cache_ok(2), of "LInsert (PageId ''m'' Weights 1) 256 10" "\<lambda>_ _. 0"] by simp

text \<open>
  Inserting a new page.  It fails exactly when the page is larger than the cache or the
  pinned pages leave no room for it.  When it succeeds the resident bytes are within the
  capacity, the new page is resident and unpinned, every other resident page is unchanged from
  before, no pinned page was evicted, and every evicted page was unpinned and at most as
  recently used as every unpinned page that stayed.
\<close>

theorem lru_insert_spec:
  assumes ok: "lru_ok c" and fits: "total_bytes (lc_entries c) \<le> lc_capacity c" "lc_capacity c < 2 ^ 63"
    and new: "hget (lc_entries c) p = None"
  shows "wp (lru_insert rk p b now)
     (\<lambda>_ c'. b \<le> lc_capacity c \<and> pinned_bytes (lc_entries c) + b \<le> lc_capacity c
        \<and> lc_resident c' = total_bytes (lc_entries c') \<and> lc_resident c' \<le> lc_capacity c'
        \<and> hget (lc_entries c') p = Some \<lparr> le_bytes = b, le_last_used_ns = now, le_pins = 0 \<rparr>
        \<and> evicts (lc_entries c) (hdel p (lc_entries c')))
     (\<lambda>_ c'. lc_capacity c < b \<or> lc_capacity c < pinned_bytes (lc_entries c) + b) c"
proof (cases "lc_capacity c < b")
  case True
  then show ?thesis by (simp add: lru_insert_def wp_def)
next
  case False
  have "total_bytes (lc_entries c) + b < 2 ^ 64" using fits False by simp
  note room = lru_make_room_spec [OF ok this, of rk]
  have key: "hget (lc_entries (snd (lru_make_room rk b c))) p = None"
    using new by (rule lru_make_room_keys)
  have "wp (lru_make_room rk b)
    (\<lambda>_ c'. total_bytes (lc_entries c') + b \<le> lc_capacity c \<and> lru_ok c' \<and> lc_capacity c' = lc_capacity c
       \<and> evicts (lc_entries c) (lc_entries c') \<and> pinned_bytes (lc_entries c) + b \<le> lc_capacity c
       \<and> hget (lc_entries c') p = None)
    (\<lambda>_ c'. lc_capacity c < pinned_bytes (lc_entries c) + b) c"
    using room key by (auto simp: wp_def split: prod.splits sum.splits)
  note room' = this
  have ins: "wp (lru_insert rk p b now) Q E c = wp (thenR (lru_make_room rk b)
            (modR (\<lambda>c. c\<lparr> lc_entries := hput p \<lparr> le_bytes = b, le_last_used_ns = now, le_pins = 0 \<rparr>
                        (lc_entries c),
                     lc_resident := wadd64 (lc_resident c) b,
                     lc_stats := (lc_stats c)
                       \<lparr> ls_insertions := wadd64 (ls_insertions (lc_stats c)) 1 \<rparr> \<rparr>))) Q E c" for Q E
    using False new by (simp add: lru_insert_def wp_def)
  show ?thesis
    unfolding ins wp_thenR wp_modR
  proof (rule wp_mono [OF room'], goal_cases)
    case (1 x c')
    then have res: "lc_resident c' = total_bytes (lc_entries c')"
      using fits(2) by (auto simp: lru_ok_def)
    have tot: "total_bytes (hput p \<lparr> le_bytes = b, le_last_used_ns = now, le_pins = 0 \<rparr> (lc_entries c'))
        = total_bytes (lc_entries c') + b"
      using 1 by (simp add: total_bytes_def sum_list_hput_new)
    have "wadd64 (lc_resident c') b = total_bytes (lc_entries c') + b"
      using 1 fits(2) res by (simp add: wadd64_exact)
    moreover have "evicts (lc_entries c) (hdel p (hput p e (lc_entries c')))" for e
      using 1 by (subst evicts_cong [where m'' = "lc_entries c'"]) (simp_all add: fun_upd_idem)
    ultimately show ?case using 1 False tot by simp
  next
    case (2 e c')
    then show ?case by simp
  qed
qed

theorem lru_insert_spec_witness:
  "wp (lru_insert (\<lambda>_ _. 0) (PageId ''m'' Weights 1) 256 10) (\<lambda>_ c'. lc_resident c' = total_bytes (lc_entries c')) (\<lambda>_ _. True) demo_cache
   \<and> is_ok (lru_insert (\<lambda>_ _. 0) (PageId ''m'' Weights 1) 256 10 demo_cache)"
proof -
  let ?p = "PageId ''m'' Weights 1"
  have "wp (lru_insert (\<lambda>_ _. 0) ?p 256 10)
     (\<lambda>_ c'. 256 \<le> lc_capacity demo_cache \<and> pinned_bytes (lc_entries demo_cache) + 256 \<le> lc_capacity demo_cache
        \<and> lc_resident c' = total_bytes (lc_entries c') \<and> lc_resident c' \<le> lc_capacity c'
        \<and> hget (lc_entries c') ?p = Some \<lparr> le_bytes = 256, le_last_used_ns = 10, le_pins = 0 \<rparr>
        \<and> evicts (lc_entries demo_cache) (hdel ?p (lc_entries c')))
     (\<lambda>_ c'. lc_capacity demo_cache < 256 \<or> lc_capacity demo_cache < pinned_bytes (lc_entries demo_cache) + 256) demo_cache"
    by (rule lru_insert_spec [OF demo_cache_ok(2)]) (simp_all add: demo_cache_def total_bytes_def)
  then show ?thesis
    by (auto simp: wp_def is_ok_def demo_cache_def pinned_bytes_def total_bytes_def split: prod.splits sum.splits)
qed

text \<open>
  Replays are deterministic when no two unpinned pages tie in last use and size: the
  victim does not depend on the iteration order of the hash table.
\<close>

theorem lru_victim_order_independent:
  assumes "hdistinct (lc_entries c)"
    and "\<forall>k e k' e'. hget (lc_entries c) k = Some e \<longrightarrow> hget (lc_entries c) k' = Some e' \<longrightarrow>
      le_pins e = 0 \<longrightarrow> le_pins e' = 0 \<longrightarrow> lru_key e = lru_key e' \<longrightarrow> k = k'"
  shows "lru_victim rk c = lru_victim rk' c"
proof (cases "lru_victim rk c")
  case None
  then have "lru_victim rk' c = None" by (simp add: lru_victim_None_iff)
  with None show ?thesis by simp
next
  case (Some v)
  then have "lru_victim rk' c \<noteq> None"
    using lru_victim_None_iff [of rk c] lru_victim_None_iff [of rk' c] by simp
  then obtain v' where v': "lru_victim rk' c = Some v'" by auto
  from Some obtain e where e: "(v, e) \<in> set (lc_entries c)" "le_pins e = 0"
    "\<And>k e'. (k, e') \<in> set (lc_entries c) \<Longrightarrow> le_pins e' = 0 \<Longrightarrow> lru_key e \<le> lru_key e'"
    by (rule lru_victim_Some) blast
  from v' obtain e' where e': "(v', e') \<in> set (lc_entries c)" "le_pins e' = 0"
    "\<And>k e. (k, e) \<in> set (lc_entries c) \<Longrightarrow> le_pins e = 0 \<Longrightarrow> lru_key e' \<le> lru_key e"
    by (rule lru_victim_Some) blast
  from e(3) [OF e'(1,2)] e'(3) [OF e(1,2)] have "lru_key e = lru_key e'" by (rule order.antisym)
  moreover have "hget (lc_entries c) v = Some e" "hget (lc_entries c) v' = Some e'"
    using in_set_hget [OF assms(1)] e(1) e'(1) by auto
  ultimately have "v = v'" using assms(2) e(2) e'(2) by blast
  with Some v' show ?thesis by simp
qed

definition tie_cache :: lru_cache where
  "tie_cache = demo_cache\<lparr> lc_resident := 512, lc_entries :=
     [(PageId ''m'' Weights 1, \<lparr> le_bytes = 256, le_last_used_ns = 3, le_pins = 0 \<rparr>),
      (PageId ''m'' Weights 2, \<lparr> le_bytes = 256, le_last_used_ns = 4, le_pins = 0 \<rparr>)] \<rparr>"

theorem lru_victim_order_independent_witness:
  "lru_victim (\<lambda>_ p. page_ordinal p) tie_cache = lru_victim (\<lambda>_ p. 9 - page_ordinal p) tie_cache"
  by (rule lru_victim_order_independent) (auto simp: tie_cache_def split: if_splits)

text \<open>With a tie the victim does depend on that order.\<close>

lemma lru_tie_depends_on_order:
  defines "c \<equiv> tie_cache\<lparr> lc_entries := map (\<lambda>(k, e). (k, e\<lparr> le_last_used_ns := 3 \<rparr>)) (lc_entries tie_cache) \<rparr>"
  shows "lru_victim (\<lambda>_ p. page_ordinal p) c = Some (PageId ''m'' Weights 1)"
    and "lru_victim (\<lambda>_ p. 9 - page_ordinal p) c = Some (PageId ''m'' Weights 2)"
  by (simp_all add: c_def tie_cache_def lru_victim_def hash_iter_def)

lemma lru_evict_until_fit_stop:
  "lru_ok c \<Longrightarrow> (lc_resident (lru_evict_until_fit rk c) \<le> lc_capacity c \<or> lru_victim rk (lru_evict_until_fit rk c) = None)
    \<and> pinned_bytes (lc_entries (lru_evict_until_fit rk c)) = pinned_bytes (lc_entries c)
    \<and> total_bytes (lc_entries (lru_evict_until_fit rk c)) \<le> total_bytes (lc_entries c)"
proof (induction rk c rule: lru_evict_until_fit.induct)
  case (1 rk c)
  have dist: "hdistinct (lc_entries c)" using "1.prems" by (simp add: lru_ok_def)
  show ?case
  proof (cases "lc_capacity c < lc_resident c \<and> lru_victim rk c \<noteq> None")
    case True
    then obtain v where full: "lc_capacity c < lc_resident c" and v: "lru_victim rk c = Some v" by auto
    then have step: "lru_evict_until_fit rk c = lru_evict_until_fit rk (lru_remove v c)"
      by (subst lru_evict_until_fit.simps) simp
    from evicts_remove [OF dist v] obtain e where e: "hget (lc_entries c) v = Some e" "le_pins e = 0" by blast
    show ?thesis unfolding step
      using "1.IH" [OF full v lru_ok_remove [OF "1.prems"]] pinned_remove [OF dist e]
        total_remove_le [OF dist, of v] by simp
  next
    case False
    then have "lru_evict_until_fit rk c = c"
      by (subst lru_evict_until_fit.simps) (auto split: option.splits)
    with False show ?thesis by auto
  qed
qed

lemma pinned_hput:
  "hdistinct m \<Longrightarrow> hget m p = Some old \<Longrightarrow> le_pins old = 0 \<Longrightarrow> le_pins e = 0 \<Longrightarrow>
     pinned_bytes (hput p e m) = pinned_bytes m"
proof (induction m)
  case (Cons a m)
  obtain k v where a: "a = (k, v)" by force
  show ?case
  proof (cases "k = p")
    case True
    with Cons.prems a show ?thesis by (simp add: pinned_bytes_def)
  next
    case False
    with Cons.prems a have "pinned_bytes (hput p e m) = pinned_bytes m" by (intro Cons.IH) auto
    with False a show ?thesis by (simp add: pinned_bytes_def total_bytes_def)
  qed
qed simp

lemma pinned_plus_unpinned:
  assumes "hdistinct m" "hget m p = Some e" "le_pins e = 0"
  shows "pinned_bytes m + le_bytes e \<le> total_bytes m"
proof -
  let ?c = "demo_cache\<lparr> lc_entries := m \<rparr>"
  have "pinned_bytes (lc_entries (lru_remove p ?c)) = pinned_bytes m"
    using assms by (subst pinned_remove [where e = e]) auto
  then have "pinned_bytes (hdel p m) = pinned_bytes m" using assms(2) by (simp add: lru_remove_def)
  with total_bytes_hdel [OF assms(1,2)] pinned_le_total [of "hdel p m"] show ?thesis by simp
qed

text \<open>
  Refreshing a resident page with a new size reports success even when the page is
  gone afterwards: if the pinned pages leave no room for the new size, the loop that evicts
  until everything fits evicts the refreshed page itself, and \<open>insert\<close> returns \<open>Ok\<close>.
\<close>

theorem refresh_can_drop_the_page:
  assumes ok: "lru_ok c" and old: "hget (lc_entries c) p = Some old" "le_pins old = 0"
    and b: "b \<le> lc_capacity c" "lc_capacity c < pinned_bytes (lc_entries c) + b"
    and small: "total_bytes (lc_entries c) + b < 2 ^ 64"
  shows "\<exists>c'. lru_insert rk p b now c = (Inr (), c') \<and> \<not> lru_contains p c'"
proof -
  let ?e = "\<lparr> le_bytes = b, le_last_used_ns = now, le_pins = le_pins old \<rparr>"
  let ?c = "c\<lparr> lc_entries := hput p ?e (lc_entries c),
      lc_resident := wadd64 (wsub64 (lc_resident c) (le_bytes old)) b,
      lc_stats := (lc_stats c)\<lparr> ls_insertions := wadd64 (ls_insertions (lc_stats c)) 1 \<rparr> \<rparr>"
  let ?c' = "lru_evict_until_fit rk ?c"
  have run: "lru_insert rk p b now c = (Inr (), ?c')" using b old by (simp add: lru_insert_def)
  have dist: "hdistinct (lc_entries c)" using ok by (simp add: lru_ok_def)
  have okc: "lru_ok ?c" using ok small old by (intro lru_ok_put) auto
  have tot: "total_bytes (lc_entries ?c) + le_bytes old = total_bytes (lc_entries c) + b"
    using sum_list_hput_old [OF dist old(1), of le_bytes ?e] by (simp add: total_bytes_def)
  have pin: "pinned_bytes (lc_entries ?c) = pinned_bytes (lc_entries c)"
    using pinned_hput [OF dist old, of ?e] old(2) by simp
  have "hget (lc_entries ?c') p = None"
  proof (rule ccontr)
    assume "hget (lc_entries ?c') p \<noteq> None"
    then obtain e' where e': "hget (lc_entries ?c') p = Some e'" by auto
    have ev: "evicts (lc_entries ?c) (lc_entries ?c')" and ok': "lru_ok ?c'"
      using lru_evict_until_fit_spec [OF okc] by auto
    from evictsD(1) [OF ev e'] have e'_eq: "e' = ?e" by simp
    have unpinned: "le_pins e' = 0" using e'_eq old(2) by simp
    then have "lru_victim rk ?c' \<noteq> None"
      using lru_victim_None [OF _ map_of_SomeD [OF e'], of rk] by auto
    with lru_evict_until_fit_stop [OF okc, of rk] have res: "lc_resident ?c' \<le> lc_capacity c"
      and pin': "pinned_bytes (lc_entries ?c') = pinned_bytes (lc_entries c)"
      and tot': "total_bytes (lc_entries ?c') \<le> total_bytes (lc_entries ?c)" using pin by auto
    have "total_bytes (lc_entries ?c') < 2 ^ 64" using tot tot' small by linarith
    with ok' have "lc_resident ?c' = total_bytes (lc_entries ?c')" by (simp add: lru_ok_def)
    moreover have "pinned_bytes (lc_entries ?c') + le_bytes e' \<le> total_bytes (lc_entries ?c')"
      using ok' e' unpinned by (intro pinned_plus_unpinned) (auto simp: lru_ok_def)
    ultimately show False using res pin' b(2) e'_eq by simp
  qed
  with run show ?thesis by (auto simp: lru_contains_def)
qed

definition pinned_cache :: lru_cache where
  "pinned_cache = demo_cache\<lparr> lc_resident := 500, lc_entries :=
     [(PageId ''m'' Weights 1, \<lparr> le_bytes = 100, le_last_used_ns = 3, le_pins = 0 \<rparr>),
      (PageId ''m'' Weights 2, \<lparr> le_bytes = 400, le_last_used_ns = 4, le_pins = 1 \<rparr>)] \<rparr>"

theorem refresh_can_drop_the_page_witness:
  "\<exists>c'. lru_insert (\<lambda>_ _. 0) (PageId ''m'' Weights 1) 300 9 pinned_cache = (Inr (), c')
     \<and> \<not> lru_contains (PageId ''m'' Weights 1) c'"
  by (rule refresh_can_drop_the_page [where old = "\<lparr> le_bytes = 100, le_last_used_ns = 3, le_pins = 0 \<rparr>"])
    (simp_all add: pinned_cache_def demo_cache_def lru_ok_def total_bytes_def pinned_bytes_def)

end
