(* ===== verification/Byte_Fields.thy ===== *)
theory Byte_Fields
  imports Prelude
begin

text \<open>
  Little-endian byte encodings of machine integers (\<open>to_le_bytes\<close>, \<open>from_le_bytes\<close>), shared by
  the binary formats and the identity digests.
\<close>

unbundle bit_operations_syntax

type_synonym byte = "8 word"

definition le16 :: "16 word \<Rightarrow> byte list" where
  "le16 w = [ucast w, ucast (drop_bit 8 w)]"

definition le32 :: "32 word \<Rightarrow> byte list" where
  "le32 w = [ucast w, ucast (drop_bit 8 w), ucast (drop_bit 16 w), ucast (drop_bit 24 w)]"

definition le64 :: "64 word \<Rightarrow> byte list" where
  "le64 w = map (\<lambda>i. ucast (drop_bit (8 * i) w)) [0..<8]"

fun from_le :: "byte list \<Rightarrow> 'a::len word" where
  "from_le [] = 0"
| "from_le (b # bs) = ucast b OR push_bit 8 (from_le bs)"

lemma length_le [simp]: "length (le16 w) = 2" "length (le32 v) = 4" "length (le64 u) = 8"
  by (simp_all add: le16_def le32_def le64_def)

lemma from_le_bit:
  "bit (from_le bs :: 'a::len word) n \<longleftrightarrow> n < LENGTH('a) \<and> n < 8 * length bs \<and> bit (bs ! (n div 8)) (n mod 8)"
proof (induction bs arbitrary: n)
  case (Cons b bs)
  have byte: "bit (ucast b :: 'a word) n \<longleftrightarrow> n < LENGTH('a) \<and> n < 8 \<and> bit b n" for n
    using bit_imp_le_length [of b n] by (auto simp: bit_ucast_iff)
  show ?case
  proof (cases "n < 8")
    case True
    then show ?thesis by (simp add: bit_or_iff bit_push_bit_iff byte)
  next
    case False
    define m where "m = n - 8"
    have m: "n = 8 + m" "n div 8 = Suc (m div 8)" "n mod 8 = m mod 8"
      using False by (simp_all add: m_def le_div_geq le_mod_geq)
    have "bit (from_le (b # bs) :: 'a word) n \<longleftrightarrow> n < LENGTH('a) \<and> bit (from_le bs :: 'a word) m"
      using False by (auto simp: bit_or_iff bit_push_bit_iff byte m_def)
    also have "bit (from_le bs :: 'a word) m \<longleftrightarrow> m < LENGTH('a) \<and> m < 8 * length bs \<and> bit (bs ! (m div 8)) (m mod 8)"
      by (rule Cons.IH)
    finally show ?thesis using m by auto
  qed
qed simp

lemma from_le_bytes:
  fixes w :: "'a::len word"
  assumes "LENGTH('a) = 8 * length bs" "\<And>i. i < length bs \<Longrightarrow> bs ! i = ucast (drop_bit (8 * i) w)"
  shows "(from_le bs :: 'a word) = w"
proof (rule bit_eqI)
  fix n assume "possible_bit TYPE('a word) n"
  then have n: "n < LENGTH('a)" "n div 8 < length bs" using assms(1) by auto
  have "bit (ucast (drop_bit (8 * (n div 8)) w) :: byte) (n mod 8) \<longleftrightarrow> bit w (8 * (n div 8) + n mod 8)"
    by (simp add: bit_ucast_iff bit_drop_bit_eq)
  with n assms show "bit (from_le bs :: 'a word) n = bit w n" by (simp add: from_le_bit)
qed

lemma from_le_le [simp]:
  "from_le (le16 w) = w" "from_le (le32 v) = v" "from_le (le64 u) = u"
proof -
  show "from_le (le16 w) = w"
    by (rule from_le_bytes) (auto simp: le16_def less_Suc_eq numeral_2_eq_2)
  show "from_le (le32 v) = v"
    by (rule from_le_bytes) (auto simp: le32_def less_Suc_eq numeral_eq_Suc)
  show "from_le (le64 u) = u"
    by (rule from_le_bytes) (simp_all add: le64_def)
qed

text \<open>The bytes of an ASCII string (\<open>as_bytes\<close>).\<close>

definition str_bytes :: "string \<Rightarrow> byte list" where
  "str_bytes s = map of_char s"

lemma le32_inj: "le32 v = le32 w \<Longrightarrow> v = w"
  by (metis from_le_le(2))

lemma le64_inj: "le64 v = le64 w \<Longrightarrow> v = w"
  by (metis from_le_le(3))

end
