(* ===== verification/Page_Store.thy ===== *)
theory Page_Store
  imports Residency_Types Byte_Fields
begin

text \<open>
  \<open>har-residency/src/page_store.rs\<close>: the page store boundary.  The trait \<open>PageStore\<close> is the
  locale \<open>page_store\<close>: what a reader of pages may rely on.  \<open>InMemoryPageStore\<close> is the
  implementation the repository has; its lock is never poisoned, since no code that holds it
  can panic.
\<close>

type_synonym mem_store = "(page_id \<times> storage_slice \<times> byte list) list"

definition store_insert :: "storage_slice \<Rightarrow> byte list \<Rightarrow> (mem_store, residency_error, unit) op" where
  "store_insert sl bytes s =
     (if length bytes \<noteq> sl_payload_bytes sl
      then (Inl (Invalid ''page fixture size does not match StorageSlice''), s)
      else (Inr (), bput (sl_page_id sl) (sl, bytes) s))"

definition store_lookup :: "mem_store \<Rightarrow> page_id \<Rightarrow> residency_error + storage_slice" where
  "store_lookup s p = (case bget s p of
     Some (sl, _) \<Rightarrow> Inr sl | None \<Rightarrow> Inl (Invalid ''page not found''))"

definition store_read :: "mem_store \<Rightarrow> storage_slice \<Rightarrow> residency_error + byte list" where
  "store_read s sl = (case bget s (sl_page_id sl) of
     Some (sl', bytes) \<Rightarrow>
       if sl_offset sl' = sl_offset sl \<and> sl_payload_bytes sl' = sl_payload_bytes sl
       then Inr bytes else Inl (Invalid ''page slice does not match store identity'')
   | None \<Rightarrow> Inl (Invalid ''page slice does not match store identity''))"

locale page_store =
  fixes valid :: "'s \<Rightarrow> bool"
    and insert_page :: "storage_slice \<Rightarrow> byte list \<Rightarrow> ('s, residency_error, unit) op"
    and lookup :: "'s \<Rightarrow> page_id \<Rightarrow> residency_error + storage_slice"
    and read :: "'s \<Rightarrow> storage_slice \<Rightarrow> residency_error + byte list"
  assumes insert_valid: "valid s \<Longrightarrow> insert_page sl bytes s = (r, s') \<Longrightarrow> valid s'"
    and insert_ok: "length bytes = sl_payload_bytes sl \<Longrightarrow> fst (insert_page sl bytes s) = Inr ()"
    and lookup_inserted: "insert_page sl bytes s = (Inr (), s') \<Longrightarrow> lookup s' (sl_page_id sl) = Inr sl"
    and read_inserted: "insert_page sl bytes s = (Inr (), s') \<Longrightarrow> read s' sl = Inr bytes"
    and read_other: "insert_page sl bytes s = (Inr (), s') \<Longrightarrow> sl_page_id sl' \<noteq> sl_page_id sl \<Longrightarrow>
        read s' sl' = read s sl'"
    and read_length: "valid s \<Longrightarrow> read s sl = Inr bytes \<Longrightarrow> length bytes = sl_payload_bytes sl"
begin

fun insert_all :: "(storage_slice \<times> byte list) list \<Rightarrow> ('s, residency_error, unit) op" where
  "insert_all [] = okR ()"
| "insert_all ((sl, bytes) # rest) = thenR (insert_page sl bytes) (insert_all rest)"

lemma insert_all_valid: "valid s \<Longrightarrow> valid (snd (insert_all pages s))"
proof (induction pages arbitrary: s)
  case (Cons a rest)
  obtain sl bytes where a: "a = (sl, bytes)" by force
  obtain r s1 where r: "insert_page sl bytes s = (r, s1)" by force
  with insert_valid [OF Cons.prems] have "valid s1" .
  with Cons.IH r a show ?case by (cases r) (auto simp: op_defs)
qed (simp add: okR_def)

text \<open>A store loaded with pages of different identities serves each of them back.\<close>

lemma insert_all_read:
  "distinct (map (sl_page_id \<circ> fst) pages) \<Longrightarrow> insert_all pages s = (Inr (), s') \<Longrightarrow>
     (\<forall>(sl, bytes)\<in>set pages. read s' sl = Inr bytes)
     \<and> (\<forall>sl. sl_page_id sl \<notin> set (map (sl_page_id \<circ> fst) pages) \<longrightarrow> read s' sl = read s sl)"
proof (induction pages arbitrary: s)
  case (Cons a rest)
  obtain sl bytes where a: "a = (sl, bytes)" by force
  from Cons.prems(2) a obtain s1 where s1: "insert_page sl bytes s = (Inr (), s1)"
      "insert_all rest s1 = (Inr (), s')"
    by (auto elim!: thenR_InrE)
  from Cons.IH [OF _ s1(2)] Cons.prems(1) a
  have IH: "\<forall>(sl, bytes)\<in>set rest. read s' sl = Inr bytes"
    "\<forall>sl. sl_page_id sl \<notin> set (map (sl_page_id \<circ> fst) rest) \<longrightarrow> read s' sl = read s1 sl" by auto
  moreover have "read s' sl = Inr bytes"
    using IH(2) Cons.prems(1) a read_inserted [OF s1(1)] by simp
  ultimately show ?case using a read_other [OF s1(1)] by auto
qed (simp add: okR_def)

end

definition store_ok :: "mem_store \<Rightarrow> bool" where
  "store_ok s \<longleftrightarrow> bsorted s
     \<and> (\<forall>(p, sl, bytes)\<in>set s. sl_page_id sl = p \<and> length bytes = sl_payload_bytes sl)"

interpretation mem: page_store store_ok store_insert store_lookup store_read
proof unfold_locales
  fix s sl bytes r s'
  assume "store_ok s" "store_insert sl bytes s = (r, s')"
  then show "store_ok s'"
    by (auto simp: store_insert_def store_ok_def bsorted_bput dest!: set_bput_cases split: if_splits)
next
  fix s sl bytes
  assume "store_ok s" "store_read s sl = Inr bytes"
  then show "length bytes = sl_payload_bytes sl"
    by (auto simp: store_read_def store_ok_def dest!: map_of_SomeD split: option.splits if_splits)
qed (auto simp: store_insert_def store_lookup_def store_read_def split: if_splits)

text \<open>
  After any successful load of pages with different identities, reading each slice
  returns exactly the bytes stored for it, and any successful read at all returns as many
  bytes as the slice announces.
\<close>

theorem page_store_serves_what_was_inserted:
  assumes "distinct (map (sl_page_id \<circ> fst) pages)" "mem.insert_all pages [] = (Inr (), s)"
  shows "(\<forall>(sl, bytes)\<in>set pages. store_read s sl = Inr bytes)
    \<and> (\<forall>sl bytes. store_read s sl = Inr bytes \<longrightarrow> length bytes = sl_payload_bytes sl)"
proof -
  have "store_ok []" by (simp add: store_ok_def)
  from mem.insert_all_valid [OF this, of pages] assms(2) have "store_ok s" by simp
  with mem.insert_all_read [OF assms] mem.read_length show ?thesis by blast
qed

definition demo_page_slice :: "nat \<Rightarrow> storage_slice" where
  "demo_page_slice n = \<lparr> sl_page_id = PageId ''m'' Weights n, sl_model_id = ''qwen'',
     sl_source_path = ''m.gguf'', sl_shard = ''0'', sl_tensor = ''t'', sl_offset = n * 32,
     sl_payload_bytes = 2, sl_alignment = 32, sl_quant_type = ''Q8_0'', sl_layer = None,
     sl_expert = None, sl_projection = Up, sl_checksum = None, sl_parent_offset = None,
     sl_parent_payload_bytes = None \<rparr>"

theorem page_store_serves_what_was_inserted_witness:
  "\<exists>s. mem.insert_all [(demo_page_slice 1, [7, 8]), (demo_page_slice 2, [9, 1])] [] = (Inr (), s)
     \<and> store_read s (demo_page_slice 2) = Inr [9, 1]"
proof -
  let ?pages = "[(demo_page_slice 1, [7, 8]), (demo_page_slice 2, [9, 1 :: byte])]"
  have "is_ok (mem.insert_all ?pages [])"
    by (simp add: op_defs store_insert_def demo_page_slice_def)
  then obtain s where s: "mem.insert_all ?pages [] = (Inr (), s)"
    by (cases "mem.insert_all ?pages []") (auto simp: is_ok_def split: sum.splits)
  have "distinct (map (sl_page_id \<circ> fst) ?pages)" by (simp add: demo_page_slice_def)
  from page_store_serves_what_was_inserted [OF this s] s show ?thesis by simp
qed

end
