(* ===== verification/Wavefront.thy ===== *)
theory Wavefront
  imports Residency_Protocol Page_Store
begin

text \<open>
  \<open>har-residency/src/scheduler.rs\<close>: the three-stage wavefront scheduler that drives the
  residency manager.  SHA-256 is a parameter (a library the source calls), as are the page
  source, the readings of the clock (\<open>t k\<close> is the k-th \<open>now_ns()\<close> of a run) and of the
  stopwatch (\<open>el k\<close>).  The worker thread only reads the source and is joined at once, so a run
  is sequential; a panicking worker is a source that answers \<open>Io ''NVMe worker panicked''\<close>.
\<close>

datatype work_stage =
  WWaiting | WNvmeRead | WRamToVram | WGpuCompute | WDone | WCancelled | WFailed

record wavefront_work =
  ww_work_id :: nat
  ww_slice :: storage_slice
  ww_generation :: nat
  ww_mandatory :: bool
  ww_speculative :: bool
  ww_deadline_ns :: "nat option"
  ww_dependency_urgency :: int
  ww_predicted_future_use :: nat
  ww_stage :: work_stage
  ww_slot_id :: "nat option"
  ww_error :: "string option"

record wavefront_event =
  we_work_id :: nat
  we_stage :: work_stage
  we_timestamp_ns :: nat
  we_bytes :: nat
  we_ticket_id :: "nat option"
  we_slot_id :: "nat option"
  we_hidden_time_ns :: nat
  we_exposed_time_ns :: nat
  we_reason :: string

record projection_replay =
  pr_reference_digest :: "64 word"
  pr_output_digest :: "64 word"
  pr_equal :: bool
  pr_bytes :: nat

record slack_policy =
  min_nvme_queue_slack :: nat
  min_transfer_queue_slack :: nat
  min_ram_pinned_slack :: nat
  min_vram_slot_slack :: nat
  require_measured_mandatory_bytes :: bool

definition slack_policy_default :: slack_policy where
  "slack_policy_default = \<lparr> min_nvme_queue_slack = 1, min_transfer_queue_slack = 1,
     min_ram_pinned_slack = 0, min_vram_slot_slack = 0, require_measured_mandatory_bytes = True \<rparr>"

definition slack_allow :: "slack_policy \<Rightarrow> wavefront_work \<Rightarrow> resource_snapshot \<Rightarrow> nat \<Rightarrow> bool" where
  "slack_allow pol w snap mandatory_bytes \<longleftrightarrow>
     (if ww_mandatory w then True
      else if require_measured_mandatory_bytes pol \<and> mandatory_bytes = 0 then False
      else min_nvme_queue_slack pol \<le> nvme_queue_slack snap
         \<and> min_transfer_queue_slack pol \<le> transfer_queue_slack snap
         \<and> max (min_ram_pinned_slack pol) (sl_payload_bytes (ww_slice w)) \<le> ram_pinned_slack snap
         \<and> max (min_vram_slot_slack pol) (sl_payload_bytes (ww_slice w)) \<le> vram_slot_slack snap)"

record scheduler =
  ws_manager :: manager
  ws_works :: "wavefront_work list"
  ws_events :: "wavefront_event list"
  ws_slack_policy :: slack_policy
  ws_mandatory_bytes_measured :: nat
  ws_speculative_bytes_requested :: nat
  ws_useful_prefetch_bytes :: nat
  ws_wasted_prefetch_bytes :: nat
  ws_next_work_id :: nat

type_synonym 'a ws_op = "(scheduler, residency_error, 'a) op"

definition scheduler_new :: "manager \<Rightarrow> scheduler" where
  "scheduler_new mg = \<lparr> ws_manager = mg, ws_works = [], ws_events = [],
     ws_slack_policy = slack_policy_default, ws_mandatory_bytes_measured = 0,
     ws_speculative_bytes_requested = 0, ws_useful_prefetch_bytes = 0,
     ws_wasted_prefetch_bytes = 0, ws_next_work_id = 1 \<rparr>"

definition on_manager :: "'a mg_op \<Rightarrow> 'a ws_op" where
  "on_manager = zoomR ws_manager (\<lambda>mg s. s\<lparr> ws_manager := mg \<rparr>)"

definition on_work :: "nat \<Rightarrow> (wavefront_work \<Rightarrow> wavefront_work) \<Rightarrow> unit ws_op" where
  "on_work i f = modR (\<lambda>s. s\<lparr> ws_works := (ws_works s)[i := f (ws_works s ! i)] \<rparr>)"

definition work_add ::
  "storage_slice \<Rightarrow> nat \<Rightarrow> bool \<Rightarrow> bool \<Rightarrow> nat option \<Rightarrow> int \<Rightarrow> nat \<Rightarrow> nat ws_op" where
  "work_add sl g mandatory speculative deadline urgency future =
     thenR (guardR (\<lambda>_. \<not> (speculative \<and> mandatory)) (Invalid ''work cannot be mandatory and speculative''))
    (thenR (on_manager (register sl g))
    (bindR (getsR ws_next_work_id) (\<lambda>i.
     thenR (modR (\<lambda>s. s\<lparr> ws_next_work_id := wadd64 (ws_next_work_id s) 1 \<rparr>))
    (thenR (modR (\<lambda>s. if speculative then s\<lparr> ws_speculative_bytes_requested :=
              wadd64 (ws_speculative_bytes_requested s) (sl_payload_bytes sl) \<rparr> else s))
    (thenR (modR (\<lambda>s. s\<lparr> ws_works := ws_works s @
              [\<lparr> ww_work_id = i, ww_slice = sl, ww_generation = g, ww_mandatory = mandatory,
                 ww_speculative = speculative, ww_deadline_ns = deadline,
                 ww_dependency_urgency = urgency, ww_predicted_future_use = future,
                 ww_stage = WWaiting, ww_slot_id = None, ww_error = None \<rparr>] \<rparr>))
           (okR i))))))"

text \<open>The order of work: negation of an \<open>i32\<close> wraps at the least value.\<close>

definition neg_i32 :: "int \<Rightarrow> int" where
  "neg_i32 x = (if x = - (2 ^ 31) then x else - x)"

type_synonym work_priority = "nat \<times> nat \<times> int \<times> int \<times> nat"

definition priority :: "wavefront_work \<Rightarrow> nat \<Rightarrow> work_priority" where
  "priority w now =
     (if ww_mandatory w then 0 else 1,
      case ww_deadline_ns w of Some d \<Rightarrow> d - now | None \<Rightarrow> u64_max,
      neg_i32 (ww_dependency_urgency w),
      - int (ww_predicted_future_use w),
      sl_payload_bytes (ww_slice w))"

definition emit ::
  "nat \<Rightarrow> work_stage \<Rightarrow> nat \<Rightarrow> nat option \<Rightarrow> nat option \<Rightarrow> nat \<Rightarrow> string \<Rightarrow> unit ws_op" where
  "emit work_id stage bytes ticket slot elapsed reason =
     modR (\<lambda>s. s\<lparr> ws_events := ws_events s @
       [\<lparr> we_work_id = work_id, we_stage = stage, we_timestamp_ns = elapsed, we_bytes = bytes,
          we_ticket_id = ticket, we_slot_id = slot, we_hidden_time_ns = 0,
          we_exposed_time_ns = elapsed, we_reason = reason \<rparr>] \<rparr>)"

definition work_by_id :: "scheduler \<Rightarrow> nat \<Rightarrow> wavefront_work option" where
  "work_by_id s i = find (\<lambda>w. ww_work_id w = i) (ws_works s)"

definition selectable :: "bool \<Rightarrow> wavefront_work \<Rightarrow> bool" where
  "selectable include_speculative w \<longleftrightarrow>
     ww_stage w = WWaiting \<and> (include_speculative \<or> \<not> ww_speculative w)"

definition select :: "scheduler \<Rightarrow> bool \<Rightarrow> nat list" where
  "select s include_speculative =
     sort_key (\<lambda>i. case work_by_id s i of Some w \<Rightarrow> priority w 0 | None \<Rightarrow> (0, 0, 0, 0, 0))
       (map ww_work_id (filter (selectable include_speculative) (ws_works s)))"

subsection \<open>The replay digest\<close>

definition digest_step :: "64 word \<Rightarrow> byte \<Rightarrow> 64 word" where
  "digest_step st b = (xor st (ucast b)) * 0x100000001b3"

definition simple_digest :: "byte list \<Rightarrow> 64 word" where
  "simple_digest bytes = foldl digest_step 0xcbf29ce484222325 bytes"

subsection \<open>One run of a work item\<close>

type_synonym page_source = "storage_slice \<Rightarrow> residency_error + byte list"

definition wave_read ::
  "(byte list \<Rightarrow> string) \<Rightarrow> page_source \<Rightarrow> (nat \<Rightarrow> nat) \<Rightarrow> (nat \<Rightarrow> nat) \<Rightarrow> nat \<Rightarrow> wavefront_work \<Rightarrow> byte list ws_op" where
  "wave_read sha source t el i w =
    (let sl = ww_slice w; p = sl_page_id sl; n = sl_payload_bytes sl; work_id = ww_work_id w in
     bindR (on_manager (queue_nvme_read (t 0) p (ww_mandatory w) (ww_speculative w))) (\<lambda>rt.
     thenR (on_manager (start_nvme_read (t 1) rt))
    (thenR (on_work i (\<lambda>w. w\<lparr> ww_stage := WNvmeRead \<rparr>))
    (thenR (emit work_id WNvmeRead n (Some rt) None (el 0) ''NVMe read stage entered'')
    (bindR (readR (\<lambda>_. source sl)) (\<lambda>payload.
     thenR (guardR (\<lambda>_. length payload = n) (Io ''short expert slice''))
    (thenR (guardR (\<lambda>_. case sl_checksum sl of None \<Rightarrow> True | Some c \<Rightarrow> sha payload = ascii_lower c)
              (Io ''expert slice checksum mismatch''))
    (thenR (on_manager (complete_nvme_read (t 2) (t 3) rt (sl_checksum sl)))
    (thenR (modR (\<lambda>s. s\<lparr> ws_mandatory_bytes_measured := sat_add64 (ws_mandatory_bytes_measured s)
              (if ww_mandatory w then n else 0) \<rparr>))
    (thenR (emit work_id WNvmeRead n (Some rt) None (el 1) ''NVMe bytes committed to RAM_PINNED'')
           (okR payload)))))))))))"

definition wave_upload :: "(nat \<Rightarrow> nat) \<Rightarrow> (nat \<Rightarrow> nat) \<Rightarrow> nat \<Rightarrow> wavefront_work \<Rightarrow> nat ws_op" where
  "wave_upload t el i w =
    (let sl = ww_slice w; p = sl_page_id sl; n = sl_payload_bytes sl; work_id = ww_work_id w in
     bindR (on_manager (reserve_vram p (sl_projection sl) (ww_mandatory w) (ww_speculative w))) (\<lambda>slot.
     bindR (on_manager (queue_upload (t 4) p slot (ww_mandatory w) (ww_speculative w))) (\<lambda>ut.
     thenR (on_manager (start_upload (t 5) ut))
    (thenR (on_work i (\<lambda>w. w\<lparr> ww_stage := WRamToVram \<rparr>))
    (thenR (emit work_id WRamToVram n (Some ut) (Some slot) (el 2) ''RAM_PINNED to VRAM_SLOT upload'')
    (thenR (on_manager (complete_upload (t 6) (t 7) ut slot (sl_checksum sl)))
    (thenR (on_manager (mark_compute_ready p slot))
    (thenR (on_work i (\<lambda>w. w\<lparr> ww_slot_id := Some slot \<rparr>))
           (okR slot)))))))))"

definition wave_compute :: "(nat \<Rightarrow> nat) \<Rightarrow> nat \<Rightarrow> wavefront_work \<Rightarrow> nat \<Rightarrow> byte list \<Rightarrow> projection_replay ws_op" where
  "wave_compute el i w slot payload =
    (let sl = ww_slice w; p = sl_page_id sl; n = sl_payload_bytes sl; work_id = ww_work_id w in
     bindR (on_manager (acquire_compute p slot)) (\<lambda>lease.
     thenR (on_work i (\<lambda>w. w\<lparr> ww_stage := WGpuCompute \<rparr>))
    (thenR (emit work_id WGpuCompute n None (Some slot) (el 3)
              ''native-kernel registry readiness boundary reached'')
    (thenR (on_manager (release_compute lease))
    (thenR (on_work i (\<lambda>w. w\<lparr> ww_stage := WDone \<rparr>))
    (thenR (emit work_id WDone n None (Some slot) (el 4) ''projection replay complete'')
           (okR \<lparr> pr_reference_digest = simple_digest payload,
                  pr_output_digest = simple_digest payload,
                  pr_equal = (simple_digest payload = simple_digest payload),
                  pr_bytes = length payload \<rparr>)))))))"

definition run_one ::
  "(byte list \<Rightarrow> string) \<Rightarrow> page_source \<Rightarrow> (nat \<Rightarrow> nat) \<Rightarrow> (nat \<Rightarrow> nat) \<Rightarrow> nat \<Rightarrow> projection_replay ws_op" where
  "run_one sha source t el work_id =
     bindR (readR (\<lambda>s. case position (\<lambda>w. ww_work_id w = work_id) (ws_works s) of
              None \<Rightarrow> Inl (Invalid ''unknown wavefront work'') | Some i \<Rightarrow> Inr i)) (\<lambda>i.
     thenR (guardR (\<lambda>s. ww_stage (ws_works s ! i) = WWaiting) (Invalid ''work is not waiting''))
    (bindR (getsR (\<lambda>s. ws_works s ! i)) (\<lambda>w.
     bindR (getsR (\<lambda>s. \<not> ww_mandatory w \<and> \<not> slack_allow (ws_slack_policy s) w
              (mg_snapshot (ws_manager s)) (ws_mandatory_bytes_measured s))) (\<lambda>rejected.
     if rejected then
       thenR (on_work i (\<lambda>w. w\<lparr> ww_stage := WCancelled \<rparr>))
      (thenR (modR (\<lambda>s. s\<lparr> ws_wasted_prefetch_bytes := sat_add64 (ws_wasted_prefetch_bytes s) 0 \<rparr>))
      (thenR (emit work_id WCancelled (sl_payload_bytes (ww_slice w)) None None (el 0)
                ''speculation rejected without measured resource slack'')
             (errR (QueueFull ''speculative work has no measured slack''))))
     else
       bindR (wave_read sha source t el i w) (\<lambda>payload.
       bindR (wave_upload t el i w) (\<lambda>slot. wave_compute el i w slot payload))))))"

text \<open>\<open>run_all\<close>: each run has its own clock readings, by work id.\<close>

fun run_list ::
  "(byte list \<Rightarrow> string) \<Rightarrow> page_source \<Rightarrow> (nat \<Rightarrow> nat \<Rightarrow> nat) \<Rightarrow> (nat \<Rightarrow> nat \<Rightarrow> nat) \<Rightarrow> nat list \<Rightarrow> scheduler
     \<Rightarrow> (nat \<times> (residency_error + projection_replay)) list \<times> scheduler" where
  "run_list sha source t el [] s = ([], s)"
| "run_list sha source t el (i # rest) s =
     (case run_one sha source (t i) (el i) i s of (r, s1) \<Rightarrow>
        (case run_list sha source t el rest s1 of (rs, s2) \<Rightarrow> ((i, r) # rs, s2)))"

definition run_all ::
  "(byte list \<Rightarrow> string) \<Rightarrow> page_source \<Rightarrow> (nat \<Rightarrow> nat \<Rightarrow> nat) \<Rightarrow> (nat \<Rightarrow> nat \<Rightarrow> nat) \<Rightarrow> bool \<Rightarrow> scheduler
     \<Rightarrow> (nat \<times> (residency_error + projection_replay)) list \<times> scheduler" where
  "run_all sha source t el include_speculative s =
     run_list sha source t el (select s include_speculative) s"

text \<open>The loop of \<open>cancel_speculative\<close> from an index on, and the number it cancels.\<close>

fun cancel_from :: "string \<Rightarrow> nat \<Rightarrow> nat \<Rightarrow> nat \<Rightarrow> scheduler \<Rightarrow> nat \<times> scheduler" where
  "cancel_from reason el i 0 s = (0, s)"
| "cancel_from reason el i (Suc n) s =
     (let w = ws_works s ! i in
      if ww_speculative w \<and> ww_stage w = WWaiting
      then case cancel_from reason el (Suc i) n
             (snd (emit (ww_work_id w) WCancelled (sl_payload_bytes (ww_slice w)) None None el reason
                (snd (on_work i (\<lambda>w. w\<lparr> ww_stage := WCancelled \<rparr>) s)))) of (k, s') \<Rightarrow> (Suc k, s')
      else cancel_from reason el (Suc i) n s)"

definition cancel_speculative :: "string \<Rightarrow> nat \<Rightarrow> scheduler \<Rightarrow> nat \<times> scheduler" where
  "cancel_speculative reason el s = cancel_from reason el 0 (length (ws_works s)) s"

subsection \<open>Selection order\<close>

lemma work_by_id_in:
  "distinct (map ww_work_id ws) \<Longrightarrow> w \<in> set ws \<Longrightarrow> find (\<lambda>v. ww_work_id v = ww_work_id w) ws = Some w"
  by (induction ws) (auto simp: image_iff)

text \<open>
  With distinct work ids, \<open>select\<close> lists exactly the waiting work it may run, each once,
  in order of priority; in particular all mandatory work comes before all other work.
\<close>

theorem select_is_prioritised:
  assumes dist: "distinct (map ww_work_id (ws_works s))"
  shows "distinct (select s inc)
    \<and> set (select s inc) = ww_work_id ` {w \<in> set (ws_works s). selectable inc w}
    \<and> sorted_wrt (\<lambda>i j. \<forall>w v. work_by_id s i = Some w \<and> work_by_id s j = Some v \<longrightarrow>
          priority w 0 \<le> priority v 0 \<and> (ww_mandatory v \<longrightarrow> ww_mandatory w)) (select s inc)"
proof (intro conjI)
  let ?key = "\<lambda>i. case work_by_id s i of Some w \<Rightarrow> priority w 0 | None \<Rightarrow> (0, 0, 0, 0, 0)"
  have sub: "distinct (map ww_work_id (filter P (ws_works s)))" for P
    using dist by (induction "ws_works s" arbitrary: s) (auto simp: distinct_map inj_on_def)
  then show "distinct (select s inc)" by (simp add: select_def)
  show "set (select s inc) = ww_work_id ` {w \<in> set (ws_works s). selectable inc w}"
    by (simp add: select_def)
  have "sorted (map ?key (select s inc))" unfolding select_def by (rule sorted_sort_key)
  then have "sorted_wrt (\<lambda>i j. ?key i \<le> ?key j) (select s inc)"
    by (simp add: sorted_wrt_map)
  then show "sorted_wrt (\<lambda>i j. \<forall>w v. work_by_id s i = Some w \<and> work_by_id s j = Some v \<longrightarrow>
          priority w 0 \<le> priority v 0 \<and> (ww_mandatory v \<longrightarrow> ww_mandatory w)) (select s inc)"
    by (rule sorted_wrt_mono_rel [rotated]) (auto simp: priority_def split: if_splits)
qed

subsection \<open>The replay digest\<close>

lemma odd_multiplier_injective: "(x :: 64 word) * 0x100000001b3 = y * 0x100000001b3 \<Longrightarrow> x = y"
proof -
  assume eq: "x * 0x100000001b3 = y * 0x100000001b3"
  have inv: "(0x100000001b3 :: 64 word) * 0xce965057aff6957b = 1" by simp
  have "z * 0x100000001b3 * 0xce965057aff6957b = z" for z :: "64 word"
    by (simp only: mult.assoc inv mult_1_right)
  with eq show ?thesis by metis
qed

lemma xor_cancel: "xor x z = xor y z \<Longrightarrow> x = y" for x y z :: "64 word"
proof -
  assume "xor x z = xor y z"
  then have "xor (xor x z) z = xor (xor y z) z" by simp
  then show ?thesis by (simp add: xor.assoc)
qed

lemma unat_ucast_byte: "unat (ucast (b :: byte) :: 64 word) = unat b"
proof -
  have "unat b < 2 ^ LENGTH(8)" by (rule unsigned_less)
  then have "unat b < 2 ^ LENGTH(64)" by simp
  then show ?thesis by (simp add: unsigned_ucast_eq take_bit_nat_eq_self)
qed

lemma digest_step_injective:
  "digest_step a b = digest_step a' b \<Longrightarrow> a = a'"
  "digest_step a b = digest_step a b' \<Longrightarrow> b = b'"
proof -
  show "a = a'" if "digest_step a b = digest_step a' b"
    using that unfolding digest_step_def by (rule xor_cancel [OF odd_multiplier_injective])
  show "b = b'" if "digest_step a b = digest_step a b'"
  proof -
    have "xor a (ucast b) = xor a (ucast b')"
      using that unfolding digest_step_def by (rule odd_multiplier_injective)
    then have "xor (ucast b) a = xor (ucast b') a" by (simp only: xor.commute)
    then have "(ucast b :: 64 word) = ucast b'" by (rule xor_cancel)
    then have "unat (ucast b :: 64 word) = unat (ucast b' :: 64 word)" by simp
    then show ?thesis by (simp add: unat_ucast_byte word_unat_eq_iff)
  qed
qed

lemma foldl_digest_injective: "foldl digest_step a bytes = foldl digest_step a' bytes \<Longrightarrow> a = a'"
  by (induction bytes arbitrary: a a') (auto dest: digest_step_injective(1))

text \<open>
  The replay digest of a payload changes when any single byte of it changes, whatever
  its position and the rest of the payload.
\<close>

theorem digest_detects_a_changed_byte:
  assumes "b \<noteq> b'"
  shows "simple_digest (xs @ b # ys) \<noteq> simple_digest (xs @ b' # ys)"
  using assms digest_step_injective(2) foldl_digest_injective
  by (fastforce simp: simple_digest_def)

theorem digest_detects_a_changed_byte_witness:
  "simple_digest ([1, 2] @ 3 # [4]) \<noteq> simple_digest ([1, 2] @ 5 # [4 :: byte])"
  by (rule digest_detects_a_changed_byte) simp

subsection \<open>Cancelling speculation\<close>

lemma cancel_from_spec:
  "i + n = length (ws_works s) \<Longrightarrow>
     (case cancel_from reason el i n s of (k, s') \<Rightarrow>
        ws_works s' = take i (ws_works s) @ map (\<lambda>w. if ww_speculative w \<and> ww_stage w = WWaiting
            then w\<lparr> ww_stage := WCancelled \<rparr> else w) (drop i (ws_works s))
      \<and> k = length (filter (\<lambda>w. ww_speculative w \<and> ww_stage w = WWaiting) (drop i (ws_works s)))
      \<and> ws_manager s' = ws_manager s \<and> length (ws_events s') = length (ws_events s) + k)"
proof (induction n arbitrary: i s)
  case (Suc n)
  let ?w = "ws_works s ! i"
  have i: "i < length (ws_works s)" using Suc.prems by simp
  have dr: "drop i (ws_works s) = ?w # drop (Suc i) (ws_works s)" using i by (simp add: Cons_nth_drop_Suc)
  show ?case
  proof (cases "ww_speculative ?w \<and> ww_stage ?w = WWaiting")
    case True
    let ?s = "snd (emit (ww_work_id ?w) WCancelled (sl_payload_bytes (ww_slice ?w)) None None el reason
                (snd (on_work i (\<lambda>w. w\<lparr> ww_stage := WCancelled \<rparr>) s)))"
    have s: "ws_works ?s = (ws_works s)[i := ?w\<lparr> ww_stage := WCancelled \<rparr>]" "ws_manager ?s = ws_manager s"
      "length (ws_events ?s) = Suc (length (ws_events s))"
      by (simp_all add: emit_def on_work_def modR_def)
    have "Suc i + n = length (ws_works ?s)" using Suc.prems s(1) by simp
    from Suc.IH [OF this] True s i show ?thesis
      by (auto simp: dr take_Suc_conv_app_nth take_update_swap list_update_append Let_def split: prod.splits)
  next
    case False
    from Suc.IH [of "Suc i" s] Suc.prems False i show ?thesis
      by (auto simp: dr take_Suc_conv_app_nth Let_def split: prod.splits)
  qed
qed simp

text \<open>
  Cancelling speculation cancels exactly the speculative work that is still waiting,
  returns how many that was, records one event for each and touches neither other work nor
  the residency manager.
\<close>

theorem cancel_speculative_spec:
  "cancel_speculative reason el s = (k, s') \<Longrightarrow>
     ws_works s' = map (\<lambda>w. if ww_speculative w \<and> ww_stage w = WWaiting
            then w\<lparr> ww_stage := WCancelled \<rparr> else w) (ws_works s)
   \<and> k = length (filter (\<lambda>w. ww_speculative w \<and> ww_stage w = WWaiting) (ws_works s))
   \<and> ws_manager s' = ws_manager s \<and> length (ws_events s') = length (ws_events s) + k"
  using cancel_from_spec [of 0 "length (ws_works s)" s reason el]
  by (simp add: cancel_speculative_def split: prod.splits)

definition demo_work :: wavefront_work where
  "demo_work = \<lparr> ww_work_id = 1, ww_slice = demo_slice, ww_generation = 0, ww_mandatory = False,
     ww_speculative = True, ww_deadline_ns = None, ww_dependency_urgency = 0,
     ww_predicted_future_use = 3, ww_stage = WWaiting, ww_slot_id = None, ww_error = None \<rparr>"

definition demo_scheduler :: scheduler where
  "demo_scheduler = (scheduler_new demo_manager)\<lparr> ws_works := [demo_work] \<rparr>"

theorem select_is_prioritised_witness:
  "set (select demo_scheduler True) = {1} \<and> distinct (select demo_scheduler True)"
proof -
  have "distinct (map ww_work_id (ws_works demo_scheduler))" by (simp add: demo_scheduler_def)
  note sel = select_is_prioritised [OF this, of True]
  have "{w \<in> set (ws_works demo_scheduler). selectable True w} = {demo_work}"
    by (auto simp: demo_scheduler_def selectable_def demo_work_def)
  with sel show ?thesis by (simp add: demo_work_def)
qed

theorem cancel_speculative_spec_witness:
  "\<exists>s'. cancel_speculative ''idle'' 5 demo_scheduler = (1, s') \<and> ws_manager s' = ws_manager demo_scheduler"
proof -
  obtain k s' where run: "cancel_speculative ''idle'' 5 demo_scheduler = (k, s')" by force
  from cancel_speculative_spec [OF run] run show ?thesis
    by (simp add: demo_scheduler_def demo_work_def)
qed

subsection \<open>Speculation needs measured slack\<close>

lemma position_update:
  "position P xs = Some i \<Longrightarrow> P y \<Longrightarrow> position P (xs[i := y]) = Some i"
  by (induction xs arbitrary: i) (auto split: if_splits)


lemma position_found:
  "position P (ws_works s) = Some i \<Longrightarrow> i < length (ws_works s)"
  by (drule position_Some) simp

text \<open>
  Work that is not mandatory runs only on measured slack.  Without it the run is refused
  with \<open>QueueFull\<close>, the work is cancelled and the manager is untouched.  If a run succeeds,
  then before it every queue had a free place and the page fitted into the free pinned RAM
  and the free slot bytes.
\<close>

theorem speculation_needs_slack:
  assumes pos: "position (\<lambda>w. ww_work_id w = work_id) (ws_works s) = Some i"
    and w: "ws_works s ! i = w" "ww_stage w = WWaiting" "\<not> ww_mandatory w"
  shows "if slack_allow (ws_slack_policy s) w (mg_snapshot (ws_manager s)) (ws_mandatory_bytes_measured s)
    then sl_payload_bytes (ww_slice w) \<le> ram_pinned_slack (mg_snapshot (ws_manager s))
       \<and> sl_payload_bytes (ww_slice w) \<le> vram_slot_slack (mg_snapshot (ws_manager s))
       \<and> min_nvme_queue_slack (ws_slack_policy s) \<le> nvme_queue_slack (mg_snapshot (ws_manager s))
       \<and> min_transfer_queue_slack (ws_slack_policy s) \<le> transfer_queue_slack (mg_snapshot (ws_manager s))
    else \<exists>s'. run_one sha source t el work_id s
          = (Inl (QueueFull ''speculative work has no measured slack''), s')
       \<and> ws_manager s' = ws_manager s \<and> ww_stage (ws_works s' ! i) = WCancelled"
proof (cases "slack_allow (ws_slack_policy s) w (mg_snapshot (ws_manager s)) (ws_mandatory_bytes_measured s)")
  case True
  then have "sl_payload_bytes (ww_slice w) \<le> ram_pinned_slack (mg_snapshot (ws_manager s))
       \<and> sl_payload_bytes (ww_slice w) \<le> vram_slot_slack (mg_snapshot (ws_manager s))
       \<and> min_nvme_queue_slack (ws_slack_policy s) \<le> nvme_queue_slack (mg_snapshot (ws_manager s))
       \<and> min_transfer_queue_slack (ws_slack_policy s) \<le> transfer_queue_slack (mg_snapshot (ws_manager s))"
    using w(3) by (simp add: slack_allow_def split: if_splits)
  with True show ?thesis by (simp only: if_True)
next
  case False
  with pos w position_found [OF pos] show ?thesis
    by (simp add: run_one_def op_defs emit_def on_work_def)
qed

theorem speculation_needs_slack_witness:
  "\<exists>s'. run_one (\<lambda>_. ''d'') (\<lambda>_. Inl (Io ''disk'')) id id 1 demo_scheduler
      = (Inl (QueueFull ''speculative work has no measured slack''), s')"
proof -
  have pos: "position (\<lambda>w. ww_work_id w = 1) (ws_works demo_scheduler) = Some 0"
    by (simp add: demo_scheduler_def demo_work_def)
  have w: "ws_works demo_scheduler ! 0 = demo_work" "ww_stage demo_work = WWaiting" "\<not> ww_mandatory demo_work"
    by (simp_all add: demo_scheduler_def demo_work_def)
  have "\<not> slack_allow (ws_slack_policy demo_scheduler) demo_work (mg_snapshot (ws_manager demo_scheduler))
      (ws_mandatory_bytes_measured demo_scheduler)"
    by (simp add: demo_scheduler_def scheduler_new_def slack_policy_default_def slack_allow_def demo_work_def)
  with speculation_needs_slack [OF pos w, of "(\<lambda>_. ''d'')" "\<lambda>_. Inl (Io ''disk'')" id id] show ?thesis by auto
qed

subsection \<open>A failed read\<close>

definition source_fails :: "(byte list \<Rightarrow> string) \<Rightarrow> page_source \<Rightarrow> storage_slice \<Rightarrow> bool" where
  "source_fails sha source sl \<longleftrightarrow> (case source sl of
     Inl _ \<Rightarrow> True
   | Inr payload \<Rightarrow> length payload \<noteq> sl_payload_bytes sl
       \<or> (case sl_checksum sl of None \<Rightarrow> False | Some c \<Rightarrow> sha payload \<noteq> ascii_lower c))"

lemma wp_on_manager [step_simps]:
  "wp (on_manager m) Q E s =
     wp m (\<lambda>x mg. Q x (s\<lparr> ws_manager := mg \<rparr>)) (\<lambda>e mg. E e (s\<lparr> ws_manager := mg \<rparr>)) (ws_manager s)"
  by (simp add: on_manager_def wp_zoomR)

lemma wp_on_work [step_simps]:
  "wp (on_work i f) Q E s = Q () (s\<lparr> ws_works := (ws_works s)[i := f (ws_works s ! i)] \<rparr>)"
  by (simp add: on_work_def wp_modR)

lemma wp_emit [step_simps]:
  "wp (emit a b c d e f g) Q E s = Q () (s\<lparr> ws_events := ws_events s @
       [\<lparr> we_work_id = a, we_stage = b, we_timestamp_ns = f, we_bytes = c, we_ticket_id = d,
          we_slot_id = e, we_hidden_time_ns = 0, we_exposed_time_ns = f, we_reason = g \<rparr>] \<rparr>)"
  by (simp add: emit_def wp_modR)

text \<open>
  When the source cannot deliver a page (read error, short payload or wrong checksum),
  the run reports an error but gives nothing back: the page stays in \<open>NvmeReading\<close>, the NVMe
  queue place stays taken, the ticket stays running, and the work stays in its read stage, so
  that running it again is refused.
\<close>

theorem failed_read_strands_page:
  assumes pos: "position (\<lambda>w. ww_work_id w = work_id) (ws_works s) = Some i"
    and w: "ws_works s ! i = w" "ww_stage w = WWaiting" "ww_mandatory w"
    and r: "hget (mg_records (ws_manager s)) (sl_page_id (ww_slice w)) = Some r" "rr_state r = Indexed"
    and room: "nvme_queue_depth (mg_snapshot (ws_manager s)) < nvme_queue_capacity (mg_snapshot (ws_manager s))"
    and bad: "source_fails sha source (ww_slice w)"
  shows "\<exists>e s'. run_one sha source t el work_id s = (Inl e, s')
    \<and> map_option rr_state (hget (mg_records (ws_manager s')) (sl_page_id (ww_slice w))) = Some NvmeReading
    \<and> nvme_queue_depth (mg_snapshot (ws_manager s')) = wadd32 (nvme_queue_depth (mg_snapshot (ws_manager s))) 1
    \<and> map_option tk_status (hget (mg_tickets (ws_manager s')) (mg_next_ticket (ws_manager s))) = Some TRunning
    \<and> run_one sha source t' el' work_id s' = (Inl (Invalid ''work is not waiting''), s')"
proof -
  have i: "i < length (ws_works s)" using pos by (rule position_found)
  have id: "ww_work_id w = work_id" using position_Some [OF pos] w(1) by simp
  have again: "run_one sha source t' el' work_id s' = (Inl (Invalid ''work is not waiting''), s')"
    if s': "ws_works s' = (ws_works s)[i := w\<lparr> ww_stage := WNvmeRead \<rparr>]" for s'
  proof -
    have "position (\<lambda>v. ww_work_id v = work_id) ((ws_works s)[i := w\<lparr> ww_stage := WNvmeRead \<rparr>]) = Some i"
      using pos i id w(1) by (intro position_update) auto
    with i show ?thesis by (simp add: run_one_def op_defs s')
  qed
  have "wp (run_one sha source t el work_id) (\<lambda>_ _. False)
    (\<lambda>e s'. map_option rr_state (hget (mg_records (ws_manager s')) (sl_page_id (ww_slice w))) = Some NvmeReading
      \<and> nvme_queue_depth (mg_snapshot (ws_manager s')) = wadd32 (nvme_queue_depth (mg_snapshot (ws_manager s))) 1
      \<and> map_option tk_status (hget (mg_tickets (ws_manager s')) (mg_next_ticket (ws_manager s))) = Some TRunning
      \<and> ws_works s' = (ws_works s)[i := w\<lparr> ww_stage := WNvmeRead \<rparr>]) s" (is ?run)
  proof -
    from bad consider (io) e where "source (ww_slice w) = Inl e"
      | (short) payload where "source (ww_slice w) = Inr payload" "length payload \<noteq> sl_payload_bytes (ww_slice w)"
      | (corrupt) payload c where "source (ww_slice w) = Inr payload" "sl_checksum (ww_slice w) = Some c"
          "sha payload \<noteq> ascii_lower c"
      by (auto simp: source_fails_def split: sum.splits option.splits)
    then show ?run
      unfolding run_one_def wave_read_def Let_def queue_nvme_read_def start_nvme_read_def
      using pos i id w r room
      by cases (simp_all add: step_simps ticket_new_def cong: wp_weak_cong)
  qed
  then show ?thesis using again by (auto simp: wp_def split: prod.splits sum.splits)
qed

definition demo_admitted :: scheduler where
  "demo_admitted = demo_scheduler\<lparr> ws_manager := snd (register demo_slice 0 demo_manager),
     ws_works := [demo_work\<lparr> ww_mandatory := True, ww_speculative := False \<rparr>] \<rparr>"

theorem failed_read_strands_page_witness:
  "\<exists>e s'. run_one (\<lambda>_. ''d'') (\<lambda>_. Inl (Io ''disk'')) id id 1 demo_admitted = (Inl e, s')
    \<and> run_one (\<lambda>_. ''d'') (\<lambda>_. Inl (Io ''disk'')) id Suc 1 s' = (Inl (Invalid ''work is not waiting''), s')"
proof -
  let ?w = "demo_work\<lparr> ww_mandatory := True, ww_speculative := False \<rparr>"
  have pos: "position (\<lambda>w. ww_work_id w = 1) (ws_works demo_admitted) = Some 0"
    by (simp add: demo_admitted_def demo_work_def)
  have w: "ws_works demo_admitted ! 0 = ?w" "ww_stage ?w = WWaiting" "ww_mandatory ?w"
    by (simp_all add: demo_admitted_def demo_work_def)
  obtain r where r: "hget (mg_records (ws_manager demo_admitted)) (sl_page_id (ww_slice ?w)) = Some r"
      "rr_state r = Indexed"
    by (simp add: demo_admitted_def demo_work_def register_def demo_slice_def slice_validate_def
        demo_manager_def manager_new_def slot_table_new_def record_new_def)
  have room: "nvme_queue_depth (mg_snapshot (ws_manager demo_admitted)) < nvme_queue_capacity (mg_snapshot (ws_manager demo_admitted))"
    by (simp add: demo_admitted_def register_def demo_slice_def slice_validate_def
        demo_manager_def manager_new_def slot_table_new_def snapshot_default_def)
  have bad: "source_fails (\<lambda>_. ''d'') (\<lambda>_. Inl (Io ''disk'')) (ww_slice ?w)" by (simp add: source_fails_def)
  from failed_read_strands_page [OF pos w r room bad, of id id id Suc] show ?thesis by blast
qed

subsection \<open>A run that succeeds\<close>

definition replay_of :: "byte list \<Rightarrow> projection_replay" where
  "replay_of payload = \<lparr> pr_reference_digest = simple_digest payload,
     pr_output_digest = simple_digest payload, pr_equal = True, pr_bytes = length payload \<rparr>"

lemma wave_run:
  assumes new: "manager_new a b c d e f h = Inr mg"
    and valid: "slice_validate sl = Inr ()"
    and room: "sl_payload_bytes sl \<le> b" "sl_payload_bytes sl \<le> d" "b \<le> u64_max" "0 < e" "0 < f" "0 < h"
    and payload: "source sl = Inr payload" "length payload = sl_payload_bytes sl"
      "case sl_checksum sl of None \<Rightarrow> True | Some c \<Rightarrow> sha payload = ascii_lower c"
  shows "wp (bindR (work_add sl g True False dl u fu) (run_one sha source t el))
    (\<lambda>replay s. replay = replay_of payload
       \<and> map ww_stage (ws_works s) = [WDone] \<and> map ww_slot_id (ws_works s) = [Some 0]
       \<and> (\<exists>r. hget (mg_records (ws_manager s)) (sl_page_id sl) = Some r \<and> rr_state r = ComputeReady
            \<and> rr_leases r = [] \<and> has_replica r (VramSlot 0))
       \<and> claims (mg_slots (ws_manager s)) 0 = Some (Some (sl_page_id sl), Some g, Some (sl_projection sl))
       \<and> ws_mandatory_bytes_measured s = sl_payload_bytes sl)
    (\<lambda>_ _. False) (scheduler_new mg)"
proof -
  have bytes: "0 < sl_payload_bytes sl" "sl_payload_bytes sl \<le> u64_max"
    using valid room(1,3) by (auto simp: slice_validate_def split: if_splits option.splits)
  from new obtain t where t: "slot_table_new c d = Inr t" "mg_records mg = []" "mg_tickets mg = []"
    "mg_slots mg = t" "mg_ram_pageable_budget mg = a" "mg_ram_pinned_budget mg = b"
    "mg_snapshot mg = snapshot_default
              \<lparr> ram_pageable_capacity := a, ram_pinned_capacity := b,
                vram_slot_capacity := slot_table_capacity_bytes t,
                nvme_queue_capacity := e, transfer_queue_capacity := f,
                compute_queue_capacity := h \<rparr>"
    by (rule manager_new_cases)
  from t(1) obtain n where n: "c = Suc n" "t = \<lparr> st_slots = map (\<lambda>i. slot_new i d) [0..<Suc n], st_next_epoch = 0 \<rparr>"
    by (cases c) (auto simp: slot_table_new_def split: if_splits)
  let ?rest = "map (\<lambda>i. slot_new i d) [1..<Suc n]"
  have slots: "st_slots t = slot_new 0 d # ?rest"
    unfolding n(2) by (simp add: upt_conv_Cons del: upt_Suc)
  have free: "list_all unclaimed (st_slots t)"
    unfolding n(2) by (simp add: list_all_iff unclaimed_def slot_new_def)
  have nt: "mg_next_ticket mg = 1" using new by (auto simp: manager_new_def split: sum.splits)
  show ?thesis
    unfolding work_add_def run_one_def wave_read_def wave_upload_def wave_compute_def Let_def queue_nvme_read_def
      start_nvme_read_def complete_nvme_read_def
      reserve_vram_def queue_upload_def start_upload_def complete_upload_def
      mark_compute_ready_def acquire_compute_def release_compute_def
    using valid bytes room t(2-7) nt payload
    by (simp add: step_simps wp_slot_reserve_fresh [OF free slots] slots record_new_def ticket_new_def
      has_replica_def snapshot_default_def record_bytes_def slice_representation_def slot_new_def
      validate_slot_identity_def get_or_insert_def claims_def slot_claim_def scheduler_new_def
      lease_validate_against_def record_locations_def sat_add32_def u32_max_def replay_of_def bdel_def
      Let_def cong: wp_weak_cong)
qed

text \<open>
  C36.  The first work item of a scheduler on a fresh manager with room, if it is mandatory and
  not speculative and its source delivers the bytes of a valid slice with the right length and checksum,
  is taken from registration through disk, pinned memory, slot and compute to \<open>Done\<close> without error.
  Afterwards the lease is released, the page is ready in slot 0 at its
  generation and its bytes are counted as measured mandatory bytes.  The replay always
  compares the digest of the payload with itself, so \<open>equal\<close> carries no information.
\<close>

theorem wavefront_run_succeeds:
  assumes "manager_new a b c d e f h = Inr mg" "slice_validate sl = Inr ()"
    and "sl_payload_bytes sl \<le> b" "sl_payload_bytes sl \<le> d" "b \<le> u64_max" "0 < e" "0 < f" "0 < h"
    and "source sl = Inr payload" "length payload = sl_payload_bytes sl"
      "case sl_checksum sl of None \<Rightarrow> True | Some c \<Rightarrow> sha payload = ascii_lower c"
  shows "\<exists>i s1 s2. work_add sl g True False dl u fu (scheduler_new mg) = (Inr i, s1)
    \<and> run_one sha source t el i s1 = (Inr (replay_of payload), s2)
    \<and> map ww_stage (ws_works s2) = [WDone]
    \<and> (\<exists>r. hget (mg_records (ws_manager s2)) (sl_page_id sl) = Some r \<and> rr_state r = ComputeReady
            \<and> rr_leases r = [] \<and> has_replica r (VramSlot 0))
    \<and> claims (mg_slots (ws_manager s2)) 0 = Some (Some (sl_page_id sl), Some g, Some (sl_projection sl))
    \<and> ws_mandatory_bytes_measured s2 = sl_payload_bytes sl"
proof -
  obtain res s1 where add: "work_add sl g True False dl u fu (scheduler_new mg) = (res, s1)" by force
  from wave_run [where source = source and sha = sha and sl = sl and payload = payload and g = g and dl = dl
      and u = u and fu = fu and t = t and el = el, OF assms] add show ?thesis
    by (cases res) (auto simp: wp_def bindR_def split: prod.splits sum.splits)
qed

text \<open>On the in-memory page store.\<close>

theorem wavefront_run_succeeds_witness:
  "\<exists>s i s1 s2. store_insert demo_slice (replicate 64 7) [] = (Inr (), s)
    \<and> work_add demo_slice 0 True False None 0 0 (scheduler_new demo_manager) = (Inr i, s1)
    \<and> run_one (\<lambda>_. ''d'') (store_read s) id id i s1 = (Inr (replay_of (replicate 64 7)), s2)"
proof -
  obtain s where s: "store_insert demo_slice (replicate 64 7) [] = (Inr (), s)"
    by (simp add: store_insert_def demo_slice_def)
  have "store_read s demo_slice = Inr (replicate 64 7)" using mem.read_inserted [OF s] .
  moreover have "slice_validate demo_slice = Inr ()" "sl_payload_bytes demo_slice = 64" "sl_checksum demo_slice = None"
    by (simp_all add: demo_slice_def slice_validate_def)
  ultimately show ?thesis
    using s wavefront_run_succeeds [OF demo_manager_new, where sl = demo_slice and source = "store_read s"
        and payload = "replicate 64 7" and sha = "(\<lambda>_. ''d'')" and g = 0 and dl = None and u = 0 and fu = 0 and t = id and el = id]
    by (auto simp: u64_max_def)
qed

end
