(* ===== verification/Core_Types.thy ===== *)
theory Core_Types
  imports Prelude "HOL-Library.Product_Lexorder" "HOL-Library.List_Lexorder" "HOL-Library.Char_ord"
begin

text \<open>
  \<open>har-core/src/lib.rs\<close>: the typed vocabulary of the control plane.  Wire names of formats,
  roles, tiers, states and kernels, model and generation identities, capability sets, memory
  budgets, and the residency state graph of the plan vocabulary.
\<close>

subsection \<open>Errors\<close>

datatype har_error =
  HarInvalid string string
| HarIdentityMismatch string string string
| HarUnsupported string string
| HarIo string
| HarSerialization string

subsection \<open>Interface versions\<close>

record interface_version =
  iv_name :: string
  iv_version :: nat

definition iv_schema :: "interface_version \<Rightarrow> string" where
  "iv_schema v = ''har.'' @ iv_name v @ ''.v'' @ dec_digits (iv_version v)"

subsection \<open>Kernels and formats\<close>

datatype kernel_kind =
  KUnknown | KDenseMulMat | KQuantizedMulMat | KEmbeddingLookup | KNormalization | KAttention
| KMtpVerify | KSampling | KCopy | KQ4KMatVec

fun kernel_capability :: "kernel_kind \<Rightarrow> string" where
  "kernel_capability KUnknown = ''unknown_kernel''"
| "kernel_capability KDenseMulMat = ''dense_mul_mat''"
| "kernel_capability KQuantizedMulMat = ''quantized_mul_mat''"
| "kernel_capability KEmbeddingLookup = ''embedding_lookup''"
| "kernel_capability KNormalization = ''normalization''"
| "kernel_capability KAttention = ''attention''"
| "kernel_capability KMtpVerify = ''mtp_verify''"
| "kernel_capability KSampling = ''sampling''"
| "kernel_capability KCopy = ''copy''"
| "kernel_capability KQ4KMatVec = ''q4_k_matvec''"

datatype quant_format =
  F32 | F16 | Bf16 | Q4_0 | Q4_1 | Q5_0 | Q5_1 | Q8_0 | Q2K | Q3K | Q4K | Q5K | Q6K | Q8K | Mxfp4
| UnknownFormat

fun quant_from_ggml_type :: "nat \<Rightarrow> quant_format" where
  "quant_from_ggml_type t =
     (if t = 0 then F32 else if t = 1 then F16 else if t = 2 then Q4_0 else if t = 3 then Q4_1
      else if t = 6 then Q5_0 else if t = 7 then Q5_1 else if t = 8 then Q8_0
      else if t = 10 then Q2K else if t = 11 then Q3K else if t = 12 then Q4K
      else if t = 13 then Q5K else if t = 14 then Q6K else if t = 15 then Q8K
      else if t = 30 then Bf16 else if t = 39 then Mxfp4 else UnknownFormat)"

fun quant_str :: "quant_format \<Rightarrow> string" where
  "quant_str F32 = ''F32''"
| "quant_str F16 = ''F16''"
| "quant_str Bf16 = ''BF16''"
| "quant_str Q4_0 = ''Q4_0''"
| "quant_str Q4_1 = ''Q4_1''"
| "quant_str Q5_0 = ''Q5_0''"
| "quant_str Q5_1 = ''Q5_1''"
| "quant_str Q8_0 = ''Q8_0''"
| "quant_str Q2K = ''Q2_K''"
| "quant_str Q3K = ''Q3_K''"
| "quant_str Q4K = ''Q4_K''"
| "quant_str Q5K = ''Q5_K''"
| "quant_str Q6K = ''Q6_K''"
| "quant_str Q8K = ''Q8_K''"
| "quant_str Mxfp4 = ''MXFP4''"
| "quant_str UnknownFormat = ''UNKNOWN''"

definition quant_from_gguf_name :: "string \<Rightarrow> quant_format" where
  "quant_from_gguf_name name =
     (if name = ''F32'' then F32 else if name = ''F16'' then F16 else if name = ''BF16'' then Bf16
      else if name = ''Q4_0'' then Q4_0 else if name = ''Q4_1'' then Q4_1
      else if name = ''Q5_0'' then Q5_0 else if name = ''Q5_1'' then Q5_1
      else if name = ''Q8_0'' then Q8_0 else if name = ''Q2_K'' then Q2K
      else if name = ''Q3_K'' then Q3K else if name = ''Q4_K'' then Q4K
      else if name = ''Q5_K'' then Q5K else if name = ''Q6_K'' then Q6K
      else if name = ''Q8_K'' then Q8K else if name = ''MXFP4'' then Mxfp4 else UnknownFormat)"

definition is_quantized :: "quant_format \<Rightarrow> bool" where
  "is_quantized q \<longleftrightarrow> q \<notin> {F32, F16, Bf16, UnknownFormat}"

fun kernel_hint :: "quant_format \<Rightarrow> kernel_kind" where
  "kernel_hint q =
     (if q \<in> {Q4K, Q4_0, Q4_1} then KQ4KMatVec
      else if q \<in> {F32, F16, Bf16} then KDenseMulMat
      else if q = UnknownFormat then KUnknown else KQuantizedMulMat)"

text \<open>
  Format names and formats correspond: reading back the name of a format gives the
  format, a name that is read as a known format is exactly the name of that format, and every
  quantized format is planned for a quantized kernel and no other format is.
\<close>

theorem format_names_round_trip:
  "quant_from_gguf_name (quant_str q) = q
   \<and> (quant_from_gguf_name name = q \<longrightarrow> q \<noteq> UnknownFormat \<longrightarrow> quant_str q = name)
   \<and> (is_quantized q \<longleftrightarrow> kernel_hint q \<in> {KQ4KMatVec, KQuantizedMulMat})"
proof (intro conjI)
  show "quant_from_gguf_name (quant_str q) = q" by (cases q) (simp_all add: quant_from_gguf_name_def)
  show "quant_from_gguf_name name = q \<longrightarrow> q \<noteq> UnknownFormat \<longrightarrow> quant_str q = name"
    by (auto simp: quant_from_gguf_name_def)
  show "is_quantized q \<longleftrightarrow> kernel_hint q \<in> {KQ4KMatVec, KQuantizedMulMat}"
    by (cases q) (simp_all add: is_quantized_def)
qed

theorem format_names_round_trip_witness: "quant_str (quant_from_gguf_name ''Q4_K'') = ''Q4_K''"
  using format_names_round_trip [of Q4K "''Q4_K''"] by simp

subsection \<open>Tensor roles\<close>

datatype tensor_role =
  TokenEmbedding | OutputProjection | AttentionRole | FeedForward | Router | NormalizationRole
| MtpRole | OtherRole

fun role_str :: "tensor_role \<Rightarrow> string" where
  "role_str TokenEmbedding = ''TOKEN_EMBEDDING''"
| "role_str OutputProjection = ''OUTPUT_PROJECTION''"
| "role_str AttentionRole = ''ATTENTION''"
| "role_str FeedForward = ''FEED_FORWARD''"
| "role_str Router = ''ROUTER''"
| "role_str NormalizationRole = ''NORMALIZATION''"
| "role_str MtpRole = ''MTP''"
| "role_str OtherRole = ''OTHER''"

definition is_routed_expert :: "tensor_role \<Rightarrow> bool" where
  "is_routed_expert r \<longleftrightarrow> r \<in> {FeedForward, Router}"

definition classify :: "string \<Rightarrow> tensor_role" where
  "classify name = (let l = ascii_lower name in
     if str_contains ''mtp'' l \<or> str_contains ''nextn'' l then MtpRole
     else if str_contains ''router'' l \<or> str_contains ''ffn_gate_inp'' l then Router
     else if str_contains ''ffn_'' l then FeedForward
     else if str_contains ''attn'' l \<or> str_contains ''ssm'' l then AttentionRole
     else if str_contains ''norm'' l then NormalizationRole
     else if str_contains ''token_embd'' l then TokenEmbedding
     else if str_contains ''output'' l then OutputProjection
     else OtherRole)"

subsection \<open>Identities\<close>

record model_root =
  mr_name :: string
  mr_sha256 :: string

definition root_from_name :: "string \<Rightarrow> model_root" where
  "root_from_name name = \<lparr> mr_name = name, mr_sha256 = [] \<rparr>"

definition root_is_empty :: "model_root \<Rightarrow> bool" where
  "root_is_empty r \<longleftrightarrow> mr_name r = [] \<and> mr_sha256 r = []"

definition root_identity :: "model_root \<Rightarrow> string" where
  "root_identity r = (if mr_sha256 r = [] then mr_name r else mr_name r @ ''@'' @ mr_sha256 r)"

definition root_short_sha256 :: "model_root \<Rightarrow> string" where
  "root_short_sha256 r = (if 16 \<le> length (mr_sha256 r) then take 16 (mr_sha256 r) else mr_sha256 r)"

record generation =
  gen_graph :: nat
  gen_decode_epoch :: nat

definition next_graph :: "generation \<Rightarrow> generation" where
  "next_graph g = g\<lparr> gen_graph := sat_add64 (gen_graph g) 1 \<rparr>"

definition next_decode :: "generation \<Rightarrow> generation" where
  "next_decode g = g\<lparr> gen_decode_epoch := sat_add64 (gen_decode_epoch g) 1 \<rparr>"

definition generation_str :: "generation \<Rightarrow> string" where
  "generation_str g = ''g'' @ dec_digits (gen_graph g) @ ''d'' @ dec_digits (gen_decode_epoch g)"

record epoch_namespace =
  en_model_root :: model_root
  en_graph_generation :: nat
  en_decode_epoch :: nat
  en_sequence_id :: nat

definition namespace_new :: "model_root \<Rightarrow> nat \<Rightarrow> epoch_namespace" where
  "namespace_new root seq = \<lparr> en_model_root = root, en_graph_generation = 0, en_decode_epoch = 0,
     en_sequence_id = seq \<rparr>"

definition namespace_next_decode :: "epoch_namespace \<Rightarrow> epoch_namespace" where
  "namespace_next_decode n = n\<lparr> en_decode_epoch := wadd64 (en_decode_epoch n) 1 \<rparr>"

definition namespace_generation :: "epoch_namespace \<Rightarrow> generation" where
  "namespace_generation n = \<lparr> gen_graph = en_graph_generation n, gen_decode_epoch = en_decode_epoch n \<rparr>"

definition namespace_with_generation :: "generation \<Rightarrow> epoch_namespace \<Rightarrow> epoch_namespace" where
  "namespace_with_generation g n =
     n\<lparr> en_graph_generation := gen_graph g, en_decode_epoch := gen_decode_epoch g \<rparr>"

subsection \<open>Capabilities\<close>

type_synonym capability_set = "(string \<times> bool) list"

definition cap_insert :: "string \<Rightarrow> bool \<Rightarrow> capability_set \<Rightarrow> capability_set" where
  "cap_insert key supported caps = bput key supported caps"

definition cap_supports :: "capability_set \<Rightarrow> string \<Rightarrow> bool" where
  "cap_supports caps key = (case bget caps key of Some b \<Rightarrow> b | None \<Rightarrow> False)"

definition cap_contains :: "capability_set \<Rightarrow> string \<Rightarrow> bool" where
  "cap_contains caps key \<longleftrightarrow> bget caps key \<noteq> None"

definition cap_missing :: "capability_set \<Rightarrow> string list \<Rightarrow> string list" where
  "cap_missing caps required = filter (\<lambda>key. \<not> cap_supports caps key) required"

definition cap_require_all :: "capability_set \<Rightarrow> string list \<Rightarrow> har_error + unit" where
  "cap_require_all caps required =
     (let missing = cap_missing caps required in
      if missing = [] then Inr ()
      else Inl (HarUnsupported ''capability'' (str_join '', '' missing)))"

fun cap_insert_all :: "(string \<times> bool) list \<Rightarrow> capability_set \<Rightarrow> capability_set" where
  "cap_insert_all [] caps = caps"
| "cap_insert_all ((k, b) # rest) caps = cap_insert_all rest (cap_insert k b caps)"

lemma cap_insert_all_get:
  "bget (cap_insert_all kvs caps) k = (case hget (rev kvs) k of Some b \<Rightarrow> Some b | None \<Rightarrow> bget caps k)"
  by (induction kvs caps rule: cap_insert_all.induct)
    (auto simp: cap_insert_def map_add_def split: option.splits)

text \<open>
  Capability checks fail closed.  A requirement passes exactly when every required
  capability has been inserted as supported, whatever else was inserted before or after; an
  unknown capability is unsupported.
\<close>

theorem capabilities_fail_closed:
  "cap_require_all (cap_insert_all kvs []) required = Inr ()
     \<longleftrightarrow> (\<forall>k\<in>set required. hget (rev kvs) k = Some True)"
  by (auto simp: cap_require_all_def cap_missing_def cap_supports_def cap_insert_all_get filter_empty_conv
      Let_def split: option.splits)

theorem capabilities_fail_closed_witness:
  "cap_require_all (cap_insert_all [(''copy'', True), (''attention'', True)] []) [''attention'', ''copy''] = Inr ()"
  using capabilities_fail_closed [of "[(''copy'', True), (''attention'', True)]" "[''attention'', ''copy'']"]
  by simp

subsection \<open>Memory tiers and the plan's residency states\<close>

datatype memory_tier =
  TNvmeCold | TRamMapped | TRamPinned | TVramResident | TVramSlot | TReconstructionScratch | TCpuHeap

fun tier_str :: "memory_tier \<Rightarrow> string" where
  "tier_str TNvmeCold = ''NVME_COLD''"
| "tier_str TRamMapped = ''RAM_MAPPED''"
| "tier_str TRamPinned = ''RAM_PINNED''"
| "tier_str TVramResident = ''VRAM_RESIDENT''"
| "tier_str TVramSlot = ''VRAM_SLOT''"
| "tier_str TReconstructionScratch = ''RECONSTRUCTION_SCRATCH''"
| "tier_str TCpuHeap = ''CPU_HEAP''"

datatype core_state =
  CUnavailable | CIndexed | CReadQueued | CReading | CReadyHost | CTransferQueued | CCopyingToVram
| CReadyVram | CComputing | CEvictable | CEvicting | CError

fun core_state_str :: "core_state \<Rightarrow> string" where
  "core_state_str CUnavailable = ''UNAVAILABLE''"
| "core_state_str CIndexed = ''INDEXED''"
| "core_state_str CReadQueued = ''READ_QUEUED''"
| "core_state_str CReading = ''READING''"
| "core_state_str CReadyHost = ''READY_HOST''"
| "core_state_str CTransferQueued = ''TRANSFER_QUEUED''"
| "core_state_str CCopyingToVram = ''COPYING_TO_VRAM''"
| "core_state_str CReadyVram = ''READY_VRAM''"
| "core_state_str CComputing = ''COMPUTING''"
| "core_state_str CEvictable = ''EVICTABLE''"
| "core_state_str CEvicting = ''EVICTING''"
| "core_state_str CError = ''ERROR''"

fun can_transition_to :: "core_state \<Rightarrow> core_state \<Rightarrow> bool" where
  "can_transition_to CUnavailable n = (n \<in> {CIndexed, CError})"
| "can_transition_to CIndexed n = (n \<in> {CReadQueued, CReadyHost, CError})"
| "can_transition_to CReadQueued n = (n \<in> {CReading, CError})"
| "can_transition_to CReading n = (n \<in> {CReadyHost, CError})"
| "can_transition_to CReadyHost n = (n \<in> {CTransferQueued, CComputing, CEvictable, CError})"
| "can_transition_to CTransferQueued n = (n \<in> {CCopyingToVram, CError})"
| "can_transition_to CCopyingToVram n = (n \<in> {CReadyVram, CError})"
| "can_transition_to CReadyVram n = (n \<in> {CComputing, CEvictable, CEvicting, CError})"
| "can_transition_to CComputing n = (n \<in> {CReadyHost, CReadyVram, CEvictable, CError})"
| "can_transition_to CEvictable n = (n \<in> {CEvicting, CComputing, CError})"
| "can_transition_to CEvicting n = (n \<in> {CReadyHost, CUnavailable, CError})"
| "can_transition_to CError n = False"

subsection \<open>Budgets\<close>

record memory_budget =
  mb_tier :: memory_tier
  mb_capacity_bytes :: nat
  mb_reserved_bytes :: nat
  mb_assigned_bytes :: nat
  mb_reservation_basis :: string

definition available_bytes :: "memory_budget \<Rightarrow> nat" where
  "available_bytes b = mb_capacity_bytes b - sat_add64 (mb_reserved_bytes b) (mb_assigned_bytes b)"

record resource_budget =
  rb_tiers :: "memory_budget list"
  rb_kv_bytes :: nat
  rb_staging_bytes :: nat
  rb_scratch_bytes :: nat
  rb_model_bytes :: nat

definition budget_for :: "resource_budget \<Rightarrow> memory_tier \<Rightarrow> memory_budget option" where
  "budget_for b tier = find (\<lambda>item. mb_tier item = tier) (rb_tiers b)"

lemma available_bytes_fit:
  "mb_capacity_bytes b \<le> u64_max \<Longrightarrow> n \<le> available_bytes b \<Longrightarrow> 0 < n \<Longrightarrow>
     mb_reserved_bytes b + mb_assigned_bytes b + n \<le> mb_capacity_bytes b"
  by (auto simp: available_bytes_def sat_add64_def min_def split: if_splits)

end
