(* ===== verification/Memory_Machine.thy ===== *)
theory Memory_Machine
  imports Core_Types Residency_Types
begin

text \<open>
  \<open>har-memory/src/lib.rs\<close> (the event-recording residency machine and the memory registry) and
  \<open>har-residency/src/compat.rs\<close> (how the detailed page states of the residency manager map to
  the states of the plan vocabulary).
\<close>

subsection \<open>The residency machine\<close>

record residency_event =
  re_sequence :: nat
  re_resource_id :: string
  re_from :: core_state
  re_to :: core_state
  re_reason :: string
  re_namespace :: epoch_namespace

record residency_machine =
  rm_resource_id :: string
  rm_generation :: nat
  rm_state :: core_state
  rm_namespace :: epoch_namespace
  rm_events :: "residency_event list"

definition machine_new :: "string \<Rightarrow> model_root \<Rightarrow> nat \<Rightarrow> residency_machine" where
  "machine_new rid root seq = \<lparr> rm_resource_id = rid, rm_generation = 0, rm_state = CUnavailable,
     rm_namespace = namespace_new root seq, rm_events = [] \<rparr>"

definition machine_transition :: "core_state \<Rightarrow> string \<Rightarrow> (residency_machine, har_error, unit) op" where
  "machine_transition nxt reason m =
     (if \<not> can_transition_to (rm_state m) nxt
      then (Inl (HarInvalid ''residency transition''
              (core_state_str (rm_state m) @ '' -> '' @ core_state_str nxt)), m)
      else (Inr (), m\<lparr> rm_state := nxt, rm_events := rm_events m @
              [\<lparr> re_sequence = length (rm_events m), re_resource_id = rm_resource_id m,
                 re_from = rm_state m, re_to = nxt, re_reason = reason,
                 re_namespace = rm_namespace m \<rparr>] \<rparr>))"

definition machine_fail :: "string \<Rightarrow> residency_machine \<Rightarrow> residency_machine" where
  "machine_fail reason m = snd (machine_transition CError reason m)"

definition machine_bump_generation :: "residency_machine \<Rightarrow> residency_machine" where
  "machine_bump_generation m =
     (let g = sat_add64 (rm_generation m) 1 in
      m\<lparr> rm_generation := g, rm_namespace := (rm_namespace m)\<lparr> en_graph_generation := g \<rparr> \<rparr>)"

definition machine_require :: "core_state \<Rightarrow> nat \<Rightarrow> residency_machine \<Rightarrow> har_error + unit" where
  "machine_require expected g m =
     (if rm_state m \<noteq> expected
      then Inl (HarInvalid ''residency state''
             (''expected '' @ core_state_str expected @ '', got '' @ core_state_str (rm_state m)))
      else if g \<noteq> rm_generation m
      then Inl (HarIdentityMismatch ''generation'' (dec_digits (rm_generation m)) (dec_digits g))
      else Inr ())"

datatype machine_cmd = MTransition core_state string | MFail string | MBump

fun machine_exec :: "machine_cmd \<Rightarrow> residency_machine \<Rightarrow> residency_machine" where
  "machine_exec (MTransition s why) m = snd (machine_transition s why m)"
| "machine_exec (MFail why) m = machine_fail why m"
| "machine_exec MBump m = machine_bump_generation m"

text \<open>The event log as a path through the state graph.\<close>

fun path_from :: "core_state \<Rightarrow> residency_event list \<Rightarrow> core_state option" where
  "path_from s [] = Some s"
| "path_from s (e # es) =
     (if re_from e = s \<and> can_transition_to s (re_to e) then path_from (re_to e) es else None)"

lemma path_from_append:
  "path_from s (es @ es') = (case path_from s es of None \<Rightarrow> None | Some s' \<Rightarrow> path_from s' es')"
  by (induction es arbitrary: s) auto

definition machine_ok :: "residency_machine \<Rightarrow> bool" where
  "machine_ok m \<longleftrightarrow> path_from CUnavailable (rm_events m) = Some (rm_state m)
     \<and> (\<forall>i<length (rm_events m). re_sequence (rm_events m ! i) = i
          \<and> re_resource_id (rm_events m ! i) = rm_resource_id m)
     \<and> en_graph_generation (rm_namespace m) = rm_generation m"

lemma machine_exec_ok: "machine_ok m \<Longrightarrow> machine_ok (machine_exec c m)"
  by (cases c) (auto simp: machine_ok_def machine_transition_def machine_fail_def
      machine_bump_generation_def path_from_append nth_append Let_def)

text \<open>
  The event log of a residency machine is its complete history: after any calls it is
  a path of allowed transitions from \<open>UNAVAILABLE\<close> to the current state, numbered from 0
  without gaps, all of the machine's resource, and the namespace carries the machine's own
  generation.
\<close>

theorem event_log_explains_state:
  "machine_ok (fold machine_exec cmds (machine_new rid root seq))"
proof -
  have "machine_ok m \<Longrightarrow> machine_ok (fold machine_exec cmds m)" for m
    by (induction cmds arbitrary: m) (simp_all add: machine_exec_ok)
  moreover have "machine_ok (machine_new rid root seq)"
    by (simp add: machine_ok_def machine_new_def namespace_new_def)
  ultimately show ?thesis by blast
qed

subsection \<open>The memory registry\<close>

record buffer_id =
  buf_index :: nat
  buf_generation :: nat
  buf_stable_id :: string

record memory_record =
  me_buffer :: buffer_id
  me_resource_id :: string
  me_authoritative :: memory_tier
  me_replicas :: "memory_tier list"
  me_machine :: residency_machine
  me_bytes :: nat

definition memory_record_new :: "buffer_id \<Rightarrow> string \<Rightarrow> nat \<Rightarrow> model_root \<Rightarrow> memory_record" where
  "memory_record_new buf rid bytes root =
     \<lparr> me_buffer = buf, me_resource_id = rid, me_authoritative = TNvmeCold, me_replicas = [],
       me_machine = machine_new rid root 0, me_bytes = bytes \<rparr>"

definition me_add_replica :: "memory_tier \<Rightarrow> memory_record \<Rightarrow> memory_record" where
  "me_add_replica tier r = (if tier \<in> set (me_replicas r) then r
     else r\<lparr> me_replicas := me_replicas r @ [tier] \<rparr>)"

definition me_has_replica :: "memory_record \<Rightarrow> memory_tier \<Rightarrow> bool" where
  "me_has_replica r tier \<longleftrightarrow> me_authoritative r = tier \<or> tier \<in> set (me_replicas r)"

definition me_validate :: "memory_record \<Rightarrow> har_error + unit" where
  "me_validate r =
     (if me_bytes r = 0 then Inl (HarInvalid ''residency record'' ''zero-byte resource'')
      else if rm_state (me_machine r) = CReadyVram \<and> \<not> me_has_replica r TVramResident
           \<and> \<not> me_has_replica r TVramSlot
      then Inl (HarInvalid ''residency record'' ''READY_VRAM without a VRAM replica'')
      else Inr ())"

record memory_ticket =
  mt_id :: nat
  mt_resource_id :: string
  mt_generation :: nat
  mt_source :: memory_tier
  mt_destination :: memory_tier
  mt_bytes :: nat
  mt_queue :: string
  mt_mandatory :: bool
  mt_completed :: bool
  mt_useful :: bool

record memory_registry =
  mr_schema :: string
  mr_records :: "(string \<times> memory_record) list"
  mr_transfers :: "memory_ticket list"
  mr_next_transfer_id :: nat

definition registry_new :: memory_registry where
  "registry_new = \<lparr> mr_schema = ''har.memory.v1'', mr_records = [], mr_transfers = [],
     mr_next_transfer_id = 0 \<rparr>"

definition registry_register :: "memory_record \<Rightarrow> (memory_registry, har_error, unit) op" where
  "registry_register rec reg =
     (case me_validate rec of
        Inl e \<Rightarrow> (Inl e, reg)
      | Inr _ \<Rightarrow>
        (if bget (mr_records reg) (me_resource_id rec) \<noteq> None
         then (Inl (HarInvalid ''memory registry'' (''duplicate resource '' @ me_resource_id rec)), reg)
         else (Inr (), reg\<lparr> mr_records := bput (me_resource_id rec) rec (mr_records reg) \<rparr>)))"

definition registry_get :: "memory_registry \<Rightarrow> string \<Rightarrow> memory_record option" where
  "registry_get reg rid = bget (mr_records reg) rid"

definition queue_transfer ::
  "string \<Rightarrow> memory_tier \<Rightarrow> memory_tier \<Rightarrow> nat \<Rightarrow> string \<Rightarrow> bool \<Rightarrow> (memory_registry, har_error, nat) op" where
  "queue_transfer rid src dst bytes queue mandatory reg =
     (case bget (mr_records reg) rid of
        None \<Rightarrow> (Inl (HarInvalid ''memory registry'' (''unknown resource '' @ rid)), reg)
      | Some rec \<Rightarrow>
        (if me_bytes rec < bytes
         then (Inl (HarInvalid ''transfer'' ''requested bytes exceed resource''), reg)
         else (Inr (mr_next_transfer_id reg),
               reg\<lparr> mr_next_transfer_id := wadd64 (mr_next_transfer_id reg) 1,
                    mr_transfers := mr_transfers reg @
                      [\<lparr> mt_id = mr_next_transfer_id reg, mt_resource_id = rid,
                         mt_generation = rm_generation (me_machine rec), mt_source = src,
                         mt_destination = dst, mt_bytes = bytes, mt_queue = queue,
                         mt_mandatory = mandatory, mt_completed = False, mt_useful = False \<rparr>] \<rparr>)))"

definition complete_transfer :: "nat \<Rightarrow> bool \<Rightarrow> (memory_registry, har_error, unit) op" where
  "complete_transfer i useful reg =
     (case position (\<lambda>t. mt_id t = i) (mr_transfers reg) of
        None \<Rightarrow> (Inl (HarInvalid ''transfer'' (''unknown ticket '' @ dec_digits i)), reg)
      | Some k \<Rightarrow> (Inr (), reg\<lparr> mr_transfers := (mr_transfers reg)
            [k := (mr_transfers reg ! k)\<lparr> mt_completed := True, mt_useful := useful \<rparr>] \<rparr>))"

datatype registry_cmd =
  RRegister memory_record
| RQueue string memory_tier memory_tier nat string bool
| RComplete nat bool

fun registry_exec :: "registry_cmd \<Rightarrow> memory_registry \<Rightarrow> memory_registry" where
  "registry_exec (RRegister rec) reg = snd (registry_register rec reg)"
| "registry_exec (RQueue rid src dst bytes q m) reg = snd (queue_transfer rid src dst bytes q m reg)"
| "registry_exec (RComplete i u) reg = snd (complete_transfer i u reg)"

definition registry_ok :: "memory_registry \<Rightarrow> bool" where
  "registry_ok reg \<longleftrightarrow> bsorted (mr_records reg)
     \<and> (\<forall>rid rec. bget (mr_records reg) rid = Some rec \<longrightarrow> me_resource_id rec = rid \<and> me_validate rec = Inr ())
     \<and> (\<forall>k<length (mr_transfers reg). mt_id (mr_transfers reg ! k) = k mod 2 ^ 64
          \<and> (\<exists>rec. bget (mr_records reg) (mt_resource_id (mr_transfers reg ! k)) = Some rec
               \<and> mt_bytes (mr_transfers reg ! k) \<le> me_bytes rec))
     \<and> mr_next_transfer_id reg = length (mr_transfers reg) mod 2 ^ 64"

lemma nth_upd: "k < length xs \<Longrightarrow> xs[i := v] ! k = (if i = k then v else xs ! k)"
  by (simp add: nth_list_update)

lemma registry_exec_ok:
  assumes "registry_ok reg"
  shows "registry_ok (registry_exec c reg)"
proof (cases c)
  case (RRegister rec)
  with assms show ?thesis
    by (auto simp: registry_register_def registry_ok_def bsorted_bput split: sum.splits; metis option.distinct(1))
next
  case (RQueue rid src dst bytes q m)
  with assms show ?thesis
    by (auto simp: queue_transfer_def registry_ok_def nth_append wadd64_def mod_Suc_eq less_Suc_eq split: option.splits)
next
  case (RComplete i u)
  with assms show ?thesis
    by (auto simp: complete_transfer_def registry_ok_def nth_upd split: option.splits)
qed

text \<open>
  After any calls on a new registry, every registered resource is valid and filed under
  its own name, transfer ids are handed out in order from 0, and every transfer is of a
  registered resource and of no more bytes than that resource has.
\<close>

theorem registry_transfers_are_sound:
  "registry_ok (fold registry_exec cmds registry_new)"
proof -
  have "registry_ok reg \<Longrightarrow> registry_ok (fold registry_exec cmds reg)" for reg
    by (induction cmds arbitrary: reg) (simp_all add: registry_exec_ok)
  moreover have "registry_ok registry_new" by (simp add: registry_ok_def registry_new_def)
  ultimately show ?thesis by blast
qed

subsection \<open>Detailed states and plan states\<close>

fun page_location_from_model :: "memory_tier \<Rightarrow> page_location" where
  "page_location_from_model TNvmeCold = NvmeCold"
| "page_location_from_model TRamMapped = RamPageable"
| "page_location_from_model TRamPinned = RamPinned"
| "page_location_from_model TVramResident = VramPage 0"
| "page_location_from_model TVramSlot = VramSlot 0"
| "page_location_from_model TReconstructionScratch = Scratch 0"
| "page_location_from_model TCpuHeap = RamPageable"

fun residency_state_to_model :: "residency_state \<Rightarrow> core_state" where
  "residency_state_to_model Indexed = CIndexed"
| "residency_state_to_model NvmeReadQueued = CReadQueued"
| "residency_state_to_model NvmeReading = CReading"
| "residency_state_to_model RamReady = CReadyHost"
| "residency_state_to_model VramReservationQueued = CTransferQueued"
| "residency_state_to_model VramReserved = CTransferQueued"
| "residency_state_to_model UploadQueued = CTransferQueued"
| "residency_state_to_model VramUploading = CCopyingToVram"
| "residency_state_to_model Uploaded = CCopyingToVram"
| "residency_state_to_model ComputeReady = CReadyVram"
| "residency_state_to_model InUse = CComputing"
| "residency_state_to_model EvictionQueued = CEvicting"
| "residency_state_to_model Evicting = CEvicting"
| "residency_state_to_model Evicted = CUnavailable"
| "residency_state_to_model Cancelled = CError"
| "residency_state_to_model Failed = CError"

definition check_model_generation :: "memory_record \<Rightarrow> nat \<Rightarrow> residency_error + unit" where
  "check_model_generation r expected =
     (if rm_generation (me_machine r) \<noteq> expected
      then Inl (Invalid (''compiler generation mismatch: expected '' @ dec_digits expected
              @ '', got '' @ dec_digits (rm_generation (me_machine r))))
      else Inr ())"

text \<open>The transitions of a page that have no counterpart in the plan's state graph.\<close>

definition unmapped_transitions :: "(residency_state \<times> residency_state) set" where
  "unmapped_transitions =
     {(Indexed, Evicted), (RamReady, EvictionQueued), (RamReady, Indexed),
      (VramReservationQueued, RamReady), (VramReserved, EvictionQueued),
      (Uploaded, EvictionQueued), (ComputeReady, RamReady), (ComputeReady, Indexed),
      (InUse, EvictionQueued), (Evicting, Indexed), (Evicted, NvmeReadQueued),
      (Cancelled, Indexed), (Cancelled, Evicted)}"

text \<open>
  Mapping page states to plan states is a simulation on the way from disk to compute:
  every allowed page transition is a stutter or an allowed transition of the plan's state
  graph, except exactly the listed thirteen, which are the refusals, evictions and restarts
  that the plan's graph reaches only through other states or not at all.
\<close>

theorem plan_states_simulate_pages:
  assumes "legal_transition s s'"
  shows "(residency_state_to_model s = residency_state_to_model s'
      \<or> can_transition_to (residency_state_to_model s) (residency_state_to_model s'))
    \<longleftrightarrow> (s, s') \<notin> unmapped_transitions"
  using assms by (cases s; cases s') (simp_all add: unmapped_transitions_def)

theorem plan_states_simulate_pages_witness:
  "can_transition_to (residency_state_to_model UploadQueued) (residency_state_to_model VramUploading)
   \<and> \<not> can_transition_to (residency_state_to_model RamReady) (residency_state_to_model EvictionQueued)"
  using plan_states_simulate_pages [of UploadQueued VramUploading]
    plan_states_simulate_pages [of RamReady EvictionQueued]
  by (auto simp: unmapped_transitions_def)

end
