(* ===== verification/Pinned_Pool.thy ===== *)
theory Pinned_Pool
  imports Core_Types
begin

text \<open>
  \<open>har-memory/src/pinned_pool.rs\<close>: the first-fit allocator over one pinned region.  The
  invariant counts, for every byte, the intervals that cover it: the free blocks and the
  reservations of the live handles tile the region, each byte in exactly one of them.
\<close>

record pool_config =
  pc_capacity_bytes :: nat
  pc_alignment :: nat

definition is_power_of_two :: "nat \<Rightarrow> bool" where
  "is_power_of_two n \<longleftrightarrow> list_ex (\<lambda>k. n = 2 ^ k) [0..<64]"

definition pool_config_validate :: "pool_config \<Rightarrow> har_error + unit" where
  "pool_config_validate c =
     (if pc_capacity_bytes c = 0 \<or> pc_alignment c = 0 \<or> \<not> is_power_of_two (pc_alignment c)
      then Inl (HarInvalid ''pinned pool config''
             ''capacity must be > 0 and alignment a nonzero power of two'')
      else Inr ())"

record free_block =
  fb_start :: nat
  fb_end :: nat

record pinned_handle =
  ph_id :: nat
  ph_generation :: nat
  ph_offset :: nat
  ph_bytes :: nat

record pool_stats =
  ps_acquisitions :: nat
  ps_releases :: nat
  ps_coalesces :: nat
  ps_peak_in_use_bytes :: nat

record pinned_pool =
  pp_config :: pool_config
  pp_free :: "(nat \<times> free_block) list"
  pp_in_use :: "(nat \<times> pinned_handle) list"
  pp_next_id :: nat
  pp_stats :: pool_stats

type_synonym 'a pool_op = "(pinned_pool, har_error, 'a) op"

definition pool_new :: "pool_config \<Rightarrow> har_error + pinned_pool" where
  "pool_new c = (case pool_config_validate c of
     Inl e \<Rightarrow> Inl e
   | Inr _ \<Rightarrow> Inr \<lparr> pp_config = c,
       pp_free = [(0, \<lparr> fb_start = 0, fb_end = pc_capacity_bytes c \<rparr>)], pp_in_use = [],
       pp_next_id = 1,
       pp_stats = \<lparr> ps_acquisitions = 0, ps_releases = 0, ps_coalesces = 0, ps_peak_in_use_bytes = 0 \<rparr> \<rparr>)"

definition in_use_bytes :: "pinned_pool \<Rightarrow> nat" where
  "in_use_bytes p = foldl wadd64 0 (map (ph_bytes \<circ> snd) (pp_in_use p))"

definition round_up :: "nat \<Rightarrow> nat \<Rightarrow> nat" where
  "round_up align bytes = wmul64 (div_ceil bytes align) align"

definition misalignment :: "nat \<Rightarrow> nat \<Rightarrow> nat" where
  "misalignment align start = (align - start mod align) mod align"

definition block_fits :: "nat \<Rightarrow> nat \<Rightarrow> free_block \<Rightarrow> bool" where
  "block_fits align rounded b \<longleftrightarrow>
     wadd64 (misalignment align (fb_start b)) rounded \<le> fb_end b - fb_start b"

definition pool_acquire :: "nat \<Rightarrow> pinned_handle pool_op" where
  "pool_acquire bytes p =
     (if bytes = 0 then (Inl (HarInvalid ''pinned pool'' ''zero-byte acquisition''), p)
      else
        let align = pc_alignment (pp_config p); rounded = round_up align bytes in
        case find (block_fits align rounded) (map snd (pp_free p)) of
          None \<Rightarrow> (Inl (HarInvalid ''pinned pool''
                    (''no contiguous '' @ dec_digits bytes @ ''-byte aligned block free'')), p)
        | Some b \<Rightarrow>
            let block_start = fb_start b; block_end = fb_end b;
                payload_start = wadd64 block_start (misalignment align block_start);
                reserved_end = wadd64 payload_start rounded;
                free0 = bdel block_start (pp_free p);
                free1 = (if payload_start > block_start
                         then bput block_start \<lparr> fb_start = block_start, fb_end = payload_start \<rparr> free0
                         else free0);
                free2 = (if reserved_end < block_end
                         then bput reserved_end \<lparr> fb_start = reserved_end, fb_end = block_end \<rparr> free1
                         else free1);
                handle = \<lparr> ph_id = pp_next_id p, ph_generation = pp_next_id p,
                           ph_offset = payload_start, ph_bytes = bytes \<rparr>;
                p1 = p\<lparr> pp_free := free2, pp_next_id := wadd64 (pp_next_id p) 1,
                        pp_in_use := bput payload_start handle (pp_in_use p) \<rparr>
            in (Inr handle,
                p1\<lparr> pp_stats := (pp_stats p)
                      \<lparr> ps_acquisitions := wadd64 (ps_acquisitions (pp_stats p)) 1,
                        ps_peak_in_use_bytes := max (ps_peak_in_use_bytes (pp_stats p)) (in_use_bytes p1) \<rparr> \<rparr>))"

text \<open>\<open>BTreeMap::range(..start).next_back()\<close>.\<close>

definition last_below :: "nat \<Rightarrow> (nat \<times> 'v) list \<Rightarrow> (nat \<times> 'v) option" where
  "last_below start m = find (\<lambda>(k, _). k < start) (rev m)"

definition insert_free :: "nat \<Rightarrow> nat \<Rightarrow> pinned_pool \<Rightarrow> pinned_pool" where
  "insert_free start0 reserved_end p =
     (let free = pp_free p;
          (start, c1) = (case last_below start0 free of
             Some (k, b) \<Rightarrow> if wadd64 k (fb_end b - fb_start b) = start0 then (k, 1) else (start0, 0)
           | None \<Rightarrow> (start0, 0));
          (stop, c2) = (case bget free reserved_end of
             Some b \<Rightarrow> (fb_end b, c1 + 1)
           | None \<Rightarrow> (reserved_end, c1));
          stats = (if 0 < c2 then (pp_stats p)\<lparr> ps_coalesces := wadd64 (ps_coalesces (pp_stats p)) c2 \<rparr>
                   else pp_stats p)
      in p\<lparr> pp_stats := stats,
            pp_free := bput start \<lparr> fb_start = start, fb_end = stop \<rparr>
              (filter (\<lambda>(k, _). \<not> (start \<le> k \<and> k < stop)) free) \<rparr>)"

definition pool_release :: "pinned_handle \<Rightarrow> unit pool_op" where
  "pool_release h p =
     (case bget (pp_in_use p) (ph_offset h) of
        None \<Rightarrow> (Inl (HarInvalid ''pinned pool'' (''release of unknown offset '' @ dec_digits (ph_offset h))), p)
      | Some live \<Rightarrow>
        (if live \<noteq> h
         then (Inl (HarInvalid ''pinned pool'' (''stale handle for offset '' @ dec_digits (ph_offset h))), p)
         else
           let rounded_end = wadd64 (ph_offset h) (round_up (pc_alignment (pp_config p)) (ph_bytes h));
               p1 = p\<lparr> pp_in_use := bdel (ph_offset h) (pp_in_use p),
                       pp_stats := (pp_stats p)\<lparr> ps_releases := wadd64 (ps_releases (pp_stats p)) 1 \<rparr> \<rparr>
           in (Inr (), insert_free (ph_offset h) rounded_end p1)))"

subsection \<open>The tiling invariant\<close>

definition inside :: "nat \<Rightarrow> nat \<Rightarrow> nat \<Rightarrow> nat" where
  "inside a b x = (if a \<le> x \<and> x < b then 1 else 0)"

definition free_cover :: "(nat \<times> free_block) list \<Rightarrow> nat \<Rightarrow> nat" where
  "free_cover m x = sum_list (map (\<lambda>(k, b). inside k (fb_end b) x) m)"

definition used_cover :: "nat \<Rightarrow> (nat \<times> pinned_handle) list \<Rightarrow> nat \<Rightarrow> nat" where
  "used_cover al m x = sum_list (map (\<lambda>(k, h). inside k (k + round_up al (ph_bytes h)) x) m)"

definition blocks_ok :: "nat \<Rightarrow> (nat \<times> free_block) list \<Rightarrow> bool" where
  "blocks_ok cap m \<longleftrightarrow> bsorted m
     \<and> (\<forall>k b. bget m k = Some b \<longrightarrow> fb_start b = k \<and> k < fb_end b \<and> fb_end b \<le> cap
          \<and> bget m (fb_end b) = None)"

definition handles_ok :: "nat \<Rightarrow> nat \<Rightarrow> (nat \<times> pinned_handle) list \<Rightarrow> bool" where
  "handles_ok al nxt m \<longleftrightarrow> bsorted m
     \<and> (\<forall>k h. bget m k = Some h \<longrightarrow> ph_offset h = k \<and> k mod al = 0 \<and> 0 < ph_bytes h
          \<and> ph_bytes h + 2 * al \<le> 2 ^ 64 \<and> ph_id h < nxt)"

definition pool_ok :: "pinned_pool \<Rightarrow> bool" where
  "pool_ok p \<longleftrightarrow> (let cap = pc_capacity_bytes (pp_config p); al = pc_alignment (pp_config p) in
     0 < al \<and> cap < 2 ^ 64
     \<and> blocks_ok cap (pp_free p) \<and> handles_ok al (pp_next_id p) (pp_in_use p)
     \<and> (\<forall>x. free_cover (pp_free p) x + used_cover al (pp_in_use p) x = inside 0 cap x))"

lemma inside_split: "a \<le> b \<Longrightarrow> b \<le> c \<Longrightarrow> inside a c x = inside a b x + inside b c x"
  by (auto simp: inside_def)

lemma inside_empty [simp]: "b \<le> a \<Longrightarrow> inside a b x = 0"
  by (auto simp: inside_def)

lemma round_up_bounds:
  assumes "0 < al" "0 < n" "n + 2 * al \<le> 2 ^ 64"
  shows "n \<le> round_up al n" "round_up al n < n + al" "round_up al n mod al = 0"
proof -
  have "div_ceil n al * al < 2 ^ 64" using div_ceil_mult_less [OF assms(1), of n] assms(3) by linarith
  then have eq: "round_up al n = div_ceil n al * al" by (simp add: round_up_def wmul64_exact)
  show "n \<le> round_up al n" "round_up al n < n + al" "round_up al n mod al = 0"
    unfolding eq using div_ceil_mult_ge [OF assms(1)] div_ceil_mult_less [OF assms(1)] by auto
qed

lemma free_cover_bdel:
  "bsorted m \<Longrightarrow> bget m k = Some b \<Longrightarrow> free_cover m x = inside k (fb_end b) x + free_cover (bdel k m) x"
  unfolding free_cover_def by (subst sum_entries_bdel [of m k b]) auto

lemma free_cover_bput:
  "bget m k = None \<Longrightarrow> free_cover (bput k b m) x = inside k (fb_end b) x + free_cover m x"
  unfolding free_cover_def by (subst sum_entries_bput) auto

lemma used_cover_bdel:
  "bsorted m \<Longrightarrow> bget m k = Some h \<Longrightarrow>
     used_cover al m x = inside k (k + round_up al (ph_bytes h)) x + used_cover al (bdel k m) x"
  unfolding used_cover_def by (subst sum_entries_bdel [of m k h]) auto

lemma used_cover_bput:
  "bget m k = None \<Longrightarrow>
     used_cover al (bput k h m) x = inside k (k + round_up al (ph_bytes h)) x + used_cover al m x"
  unfolding used_cover_def by (subst sum_entries_bput) auto

lemma free_cover_ge:
  "bsorted m \<Longrightarrow> bget m k = Some b \<Longrightarrow> k \<le> x \<Longrightarrow> x < fb_end b \<Longrightarrow> 1 \<le> free_cover m x"
  by (simp add: free_cover_bdel inside_def)

text \<open>A byte lies in at most one free block.\<close>

lemma free_unique:
  assumes "bsorted m" "free_cover m x \<le> 1"
    and "bget m k = Some b" "k \<le> x" "x < fb_end b"
    and "bget m k' = Some b'" "k' \<le> x" "x < fb_end b'"
  shows "k = k'"
proof (rule ccontr)
  assume ne: "k \<noteq> k'"
  have "bget (bdel k m) k' = Some b'" using assms(6) ne by simp
  with free_cover_ge [OF bsorted_bdel [OF assms(1)], of k k' b' x] assms(7,8)
  have "1 \<le> free_cover (bdel k m) x" by simp
  with free_cover_bdel [OF assms(1,3), of x] assms(2,4,5) show False by (simp add: inside_def)
qed

lemma misalignment_aligns:
  assumes "0 < al"
  shows "misalignment al start < al" "(start + misalignment al start) mod al = 0"
proof -
  obtain q r where qr: "start = q * al + r" "r < al" "start mod al = r"
    using assms by (metis div_mod_decomp mod_less_divisor)
  show "misalignment al start < al" using assms by (simp add: misalignment_def)
  show "(start + misalignment al start) mod al = 0"
  proof (cases "r = 0")
    case True
    with qr show ?thesis by (simp add: misalignment_def)
  next
    case False
    with qr have "misalignment al start = al - r" by (simp add: misalignment_def)
    with qr have "start + misalignment al start = (q + 1) * al" by simp
    then show ?thesis by simp
  qed
qed

text \<open>What a successful choice of a block means, in exact arithmetic.\<close>

lemma block_fits_exact:
  assumes "0 < al" "al \<le> cap" "0 < n" "n + 2 * al \<le> 2 ^ 64" "cap < 2 ^ 64"
    and "fb_start b < fb_end b" "fb_end b \<le> cap" "block_fits al (round_up al n) b"
  shows "fb_start b + misalignment al (fb_start b) + round_up al n \<le> fb_end b"
proof -
  have "misalignment al (fb_start b) + round_up al n < 2 ^ 64"
    using misalignment_aligns(1) [OF assms(1), of "fb_start b"] round_up_bounds(2) [OF assms(1,3,4)] assms(4)
    by linarith
  with assms(6,8) show ?thesis by (simp add: block_fits_def wadd64_exact)
qed

lemma split_block:
  assumes ok: "blocks_ok cap m" and one: "\<And>x. free_cover m x \<le> 1"
    and blk: "bget m s = Some b" "e = fb_end b" and ord: "s \<le> ps" "ps < re" "re \<le> e"
  defines "m0 \<equiv> bdel s m"
  defines "m1 \<equiv> if ps > s then bput s \<lparr> fb_start = s, fb_end = ps \<rparr> m0 else m0"
  defines "m2 \<equiv> if re < e then bput re \<lparr> fb_start = re, fb_end = e \<rparr> m1 else m1"
  shows "blocks_ok cap m2" and "free_cover m x = inside ps re x + free_cover m2 x"
proof -
  have sorted: "bsorted m" and blocks: "\<And>k c. bget m k = Some c \<Longrightarrow>
      fb_start c = k \<and> k < fb_end c \<and> fb_end c \<le> cap \<and> bget m (fb_end c) = None"
    using ok by (auto simp: blocks_ok_def)
  have se: "s < e" "e \<le> cap" "bget m e = None" using blocks [OF blk(1)] blk(2) by auto
  have uniq: "k = s" if "bget m k = Some c" "k \<le> y" "y < fb_end c" "s \<le> y" "y < e" for k c y
    using free_unique [OF sorted one that(1-3) blk(1) that(4)] that(5) blk(2) by simp
  have mid: "bget m k = None" if "s < k" "k < e" for k
  proof (rule ccontr)
    assume "bget m k \<noteq> None"
    then obtain c where c: "bget m k = Some c" by auto
    with blocks [OF c] uniq [OF c, of k] that show False by auto
  qed
  have fin: "fb_end c \<le> s \<or> e < fb_end c" if "bget m k = Some c" "k \<noteq> s" for k c
  proof (rule ccontr)
    assume "\<not> ?thesis"
    then have "s < fb_end c" "fb_end c \<le> e" by auto
    moreover have "k < fb_end c" using blocks [OF that(1)] by simp
    ultimately have "k \<le> fb_end c - 1" "fb_end c - 1 < fb_end c" "s \<le> fb_end c - 1" "fb_end c - 1 < e"
      by linarith+
    from uniq [OF that(1) this] that(2) show False by simp
  qed
  have m0: "bget m0 = (bget m)(s := None)" "bsorted m0" using sorted by (simp_all add: m0_def bsorted_bdel)
  have m1: "bget m1 = (if ps > s then (bget m)(s \<mapsto> \<lparr> fb_start = s, fb_end = ps \<rparr>) else (bget m)(s := None))"
    "bsorted m1" using m0 by (auto simp: m1_def bsorted_bput)
  have re_new: "bget m1 re = None" if "re < e" using mid [of re] m1(1) ord that by auto
  have m2: "bget m2 = (if re < e then (bget m1)(re \<mapsto> \<lparr> fb_start = re, fb_end = e \<rparr>) else bget m1)" "bsorted m2"
    using m1(2) by (auto simp: m2_def bsorted_bput)
  show "blocks_ok cap m2" unfolding blocks_ok_def
  proof (intro conjI allI impI)
    fix k c assume c: "bget m2 k = Some c"
    then consider (rest) "re < e" "k = re" "c = \<lparr> fb_start = re, fb_end = e \<rparr>"
      | (left) "s < ps" "k = s" "c = \<lparr> fb_start = s, fb_end = ps \<rparr>"
      | (old) "k \<noteq> s" "bget m k = Some c"
      unfolding m2(1) m1(1) by (auto split: if_splits)
    then have "fb_start c = k \<and> k < fb_end c \<and> fb_end c \<le> cap \<and> bget m2 (fb_end c) = None"
    proof cases
      case rest
      with se ord m1(1) m2(1) show ?thesis by auto
    next
      case left
      have "bget m ps = None" using mid [of ps] left(1) ord by auto
      with left se ord m1(1) m2(1) show ?thesis by auto
    next
      case old
      from blocks [OF old(2)] fin [OF old(2,1)] se ord have f: "fb_end c \<noteq> re" "fb_end c \<noteq> s \<or> s = s"
        "fb_start c = k" "k < fb_end c" "fb_end c \<le> cap" "bget m (fb_end c) = None" by auto
      have "fb_end c \<noteq> s" using f(6) blk(1) by auto
      with f m1(1) m2(1) show ?thesis by auto
    qed
    then show "fb_start c = k" "k < fb_end c" "fb_end c \<le> cap" "bget m2 (fb_end c) = None" by auto
  qed (rule m2(2))
  have "free_cover m x = inside s e x + free_cover m0 x"
    using free_cover_bdel [OF sorted blk(1), of x] blk(2) by (simp add: m0_def)
  also have "inside s e x = inside s ps x + inside ps re x + inside re e x"
    using ord by (auto simp: inside_def)
  also have "inside s ps x + free_cover m0 x = free_cover m1 x"
    using m0(1) ord by (auto simp: m1_def free_cover_bput)
  then have "inside s ps x + inside ps re x + inside re e x + free_cover m0 x
      = inside ps re x + (inside re e x + free_cover m1 x)" by simp
  also have "inside re e x + free_cover m1 x = free_cover m2 x"
    using re_new ord by (auto simp: m2_def free_cover_bput)
  finally show "free_cover m x = inside ps re x + free_cover m2 x" .
qed

lemma pool_cover_le: "pool_ok p \<Longrightarrow> free_cover (pp_free p) x \<le> 1"
proof -
  assume "pool_ok p"
  then have "free_cover (pp_free p) x \<le> inside 0 (pc_capacity_bytes (pp_config p)) x"
    by (metis (no_types, lifting) le_add1 pool_ok_def)
  also have "\<dots> \<le> 1" by (simp add: inside_def)
  finally show ?thesis .
qed

text \<open>
  What \<open>acquire\<close> returns, on every branch: the invariant is kept, and a success hands out an
  aligned range of free bytes inside the region.
\<close>

lemma acquire_spec:
  assumes ok: "pool_ok p" and n: "n + 2 * pc_alignment (pp_config p) \<le> 2 ^ 64"
    and fresh: "pp_next_id p + 1 < 2 ^ 64"
  shows "wp (pool_acquire n)
    (\<lambda>h p'. pool_ok p' \<and> pp_config p' = pp_config p \<and> pp_next_id p' = pp_next_id p + 1
       \<and> ph_bytes h = n \<and> ph_id h = pp_next_id p \<and> ph_offset h mod pc_alignment (pp_config p) = 0
       \<and> ph_offset h + n \<le> pc_capacity_bytes (pp_config p)
       \<and> bget (pp_in_use p') = (bget (pp_in_use p))(ph_offset h \<mapsto> h)
       \<and> (\<forall>x. ph_offset h \<le> x \<and> x < ph_offset h + n \<longrightarrow> used_cover (pc_alignment (pp_config p)) (pp_in_use p) x = 0))
    (\<lambda>_ p'. p' = p \<and> (n = 0 \<or> (\<forall>b\<in>set (map snd (pp_free p)).
         \<not> block_fits (pc_alignment (pp_config p)) (round_up (pc_alignment (pp_config p)) n) b))) p"
proof -
  define al where "al = pc_alignment (pp_config p)"
  define cap where "cap = pc_capacity_bytes (pp_config p)"
  define r where "r = round_up al n"
  have al: "0 < al" and cap: "cap < 2 ^ 64" and blocks: "blocks_ok cap (pp_free p)"
    and handles: "handles_ok al (pp_next_id p) (pp_in_use p)"
    and tile: "\<And>x. free_cover (pp_free p) x + used_cover al (pp_in_use p) x = inside 0 cap x"
    using ok by (auto simp: pool_ok_def al_def cap_def Let_def)
  have n': "n + 2 * al \<le> 2 ^ 64" using n by (simp add: al_def)
  show ?thesis
  proof (cases "n = 0 \<or> find (block_fits al r) (map snd (pp_free p)) = None")
    case True
    show ?thesis
    proof (cases "n = 0")
      case zero: False
      with True have none: "find (block_fits al r) (map snd (pp_free p)) = None" by simp
      then have "\<forall>b\<in>set (map snd (pp_free p)). \<not> block_fits al r b" unfolding find_None_iff by blast
      with none zero show ?thesis
        by (simp add: wp_def pool_acquire_def al_def [symmetric] r_def [symmetric])
    qed (simp add: wp_def pool_acquire_def)
  next
    case False
    then obtain b where pos: "0 < n" and b: "find (block_fits al r) (map snd (pp_free p)) = Some b" by auto
    then obtain k where k: "(k, b) \<in> set (pp_free p)" and fits: "block_fits al r b"
      using find_Some_in [OF b] by auto
    define s where "s = fb_start b"
    define ps where "ps = s + misalignment al s"
    define re where "re = ps + r"
    have sorted: "bsorted (pp_free p)" using blocks by (simp add: blocks_ok_def)
    have kb: "bget (pp_free p) s = Some b" "k = s" and sb: "s < fb_end b" "fb_end b \<le> cap"
      using k blocks bsorted_in_set [OF sorted, of k b] by (auto simp: blocks_ok_def s_def)
    have r: "n \<le> r" "0 < r" using round_up_bounds [OF al pos n'] pos by (auto simp: r_def)
    have end_le: "re \<le> fb_end b"
    proof -
      have "misalignment al s + r < 2 ^ 64"
        using misalignment_aligns(1) [OF al, of s] round_up_bounds(2) [OF al pos n'] n' by (simp add: r_def)
      with fits sb(1) show ?thesis by (simp add: block_fits_def wadd64_exact re_def ps_def s_def)
    qed
    have ord: "s \<le> ps" "ps < re" using r by (simp_all add: ps_def re_def)
    have exact: "wadd64 s (misalignment al s) = ps" "wadd64 ps r = re"
      using end_le sb(2) cap ord by (auto simp: wadd64_exact ps_def re_def)
    let ?free = "(let m0 = bdel s (pp_free p);
        m1 = (if ps > s then bput s \<lparr> fb_start = s, fb_end = ps \<rparr> m0 else m0) in
        if re < fb_end b then bput re \<lparr> fb_start = re, fb_end = fb_end b \<rparr> m1 else m1)"
    note split = split_block [OF blocks pool_cover_le [OF ok] kb(1) refl ord end_le]
    have blocks': "blocks_ok cap ?free" and cover': "\<And>x. free_cover (pp_free p) x = inside ps re x + free_cover ?free x"
      using split by (simp_all only: Let_def)
    let ?h = "\<lparr> ph_id = pp_next_id p, ph_generation = pp_next_id p, ph_offset = ps, ph_bytes = n \<rparr>"
    have free_range: "used_cover al (pp_in_use p) x = 0" if "ps \<le> x" "x < re" for x
      using tile [of x] cover' [of x] that by (auto simp: inside_def split: if_splits)
    have ps_new: "bget (pp_in_use p) ps = None"
    proof (rule ccontr)
      assume "bget (pp_in_use p) ps \<noteq> None"
      then obtain h where h: "bget (pp_in_use p) ps = Some h" by auto
      have hs: "bsorted (pp_in_use p)" using handles by (simp add: handles_ok_def)
      have "0 < ph_bytes h" "ph_bytes h + 2 * al \<le> 2 ^ 64" using handles h by (auto simp: handles_ok_def)
      from round_up_bounds(1) [OF al this] this(1) have "0 < round_up al (ph_bytes h)" by simp
      then have "0 < used_cover al (pp_in_use p) ps"
        using used_cover_bdel [OF hs h, of al ps] by (simp add: inside_def)
      with free_range [of ps] ord show False by simp
    qed
    have handles': "handles_ok al (pp_next_id p + 1) (bput ps ?h (pp_in_use p))"
      using handles misalignment_aligns(2) [OF al, of s] pos n' fresh
      by (auto simp: handles_ok_def bsorted_bput ps_def less_Suc_eq)
    have tile': "free_cover ?free x + used_cover al (bput ps ?h (pp_in_use p)) x = inside 0 cap x" for x
      using tile [of x] cover' [of x] ps_new by (simp add: used_cover_bput r_def re_def)
    have run: "pool_acquire n p = (Inr ?h, p')" "pp_free p' = ?free" "pp_in_use p' = bput ps ?h (pp_in_use p)"
        "pp_config p' = pp_config p" "pp_next_id p' = pp_next_id p + 1"
      if "p' = snd (pool_acquire n p)" for p'
      using that pos b exact fresh
      by (simp_all add: pool_acquire_def al_def [symmetric] r_def [symmetric] s_def [symmetric] Let_def wadd64_exact)
    obtain p' where p': "p' = snd (pool_acquire n p)" by simp
    have "pool_ok p'"
      using al cap blocks' handles' tile' run [OF p'] by (simp add: pool_ok_def al_def [symmetric] cap_def [symmetric] Let_def)
    moreover have "ps mod al = 0" using misalignment_aligns(2) [OF al, of s] by (simp add: ps_def)
    moreover have "ps + n \<le> cap" using r(1) end_le sb(2) by (simp add: re_def)
    moreover have "\<forall>x. ps \<le> x \<and> x < ps + n \<longrightarrow> used_cover al (pp_in_use p) x = 0"
      using free_range r(1) by (simp add: re_def)
    ultimately show ?thesis using run [OF p']
      by (simp add: wp_def al_def [symmetric] cap_def [symmetric])
  qed
qed

subsection \<open>Release\<close>

lemma last_below_spec:
  assumes "bsorted m"
  shows "case last_below a m of
      Some (k, b) \<Rightarrow> bget m k = Some b \<and> k < a \<and> (\<forall>k'. bget m k' \<noteq> None \<longrightarrow> k' < a \<longrightarrow> k' \<le> k)
    | None \<Rightarrow> (\<forall>k'. bget m k' \<noteq> None \<longrightarrow> a \<le> k')"
  using assms
proof (induction m rule: rev_induct)
  case Nil
  then show ?case by (simp add: last_below_def)
next
  case (snoc x m)
  obtain k b where x: "x = (k, b)" by force
  have sorted: "bsorted m" and last: "\<forall>k'\<in>fst ` set m. k' < k"
    using snoc.prems x by (auto simp: bsorted_def sorted_wrt_append)
  have get: "bget (m @ [x]) k' = (if k' = k then Some b else bget m k')" for k'
  proof -
    have "bget m k = None" using last by (auto simp: map_of_eq_None_iff)
    then show ?thesis by (simp add: x map_add_def split: option.splits)
  qed
  have below: "k' < k" if "bget m k' \<noteq> None" for k'
    using that last by (auto dest!: map_of_SomeD)
  show ?case
  proof (cases "k < a")
    case True
    then show ?thesis using x get below by (auto simp: last_below_def less_imp_le)
  next
    case False
    then have "last_below a (m @ [x]) = last_below a m" using x by (simp add: last_below_def)
    with snoc.IH [OF sorted] get False show ?thesis by (auto split: option.splits if_splits)
  qed
qed

lemma bget_filter: "bget (filter (\<lambda>(k, _). P k) m) k = (if P k then bget m k else None)"
  by (induction m) auto

lemma bsorted_filter: "bsorted m \<Longrightarrow> bsorted (filter P m)"
  unfolding bsorted_def by (induction m) auto

lemma free_cover_partition:
  "free_cover m x = free_cover (filter P m) x + free_cover (filter (\<lambda>y. \<not> P y) m) x"
  unfolding free_cover_def by (induction m) auto

lemma free_cover_none: "(\<forall>k. bget m k = None) \<Longrightarrow> free_cover m x = 0"
  by (cases m) (auto simp: free_cover_def split: if_splits)

text \<open>The block to the left and the block to the right of a range, as the code finds them.\<close>

definition left_of :: "nat \<Rightarrow> (nat \<times> free_block) list \<Rightarrow> nat \<times> nat" where
  "left_of s m = (case last_below s m of
     Some (k, b) \<Rightarrow> if wadd64 k (fb_end b - fb_start b) = s then (k, 1) else (s, 0)
   | None \<Rightarrow> (s, 0))"

lemma left_of_spec:
  assumes ok: "blocks_ok cap m" and cap: "cap < 2 ^ 64" and one: "\<And>x. free_cover m x \<le> 1"
    and run: "left_of s m = (s', c)"
  shows "(s' = s \<and> (\<forall>k b. bget m k = Some b \<longrightarrow> fb_end b \<noteq> s))
    \<or> (s' < s \<and> (\<exists>b. bget m s' = Some b \<and> fb_end b = s))"
proof -
  have sorted: "bsorted m" and blocks: "\<And>k c. bget m k = Some c \<Longrightarrow>
      fb_start c = k \<and> k < fb_end c \<and> fb_end c \<le> cap \<and> bget m (fb_end c) = None"
    using ok by (auto simp: blocks_ok_def)
  show ?thesis
  proof (cases "last_below s m")
    case None
    with last_below_spec [OF sorted, of s] have "\<forall>k b. bget m k = Some b \<longrightarrow> s \<le> k" by auto
    then have "\<forall>k b. bget m k = Some b \<longrightarrow> fb_end b \<noteq> s" using blocks by fastforce
    with None run show ?thesis by (simp add: left_of_def)
  next
    case (Some kb)
    obtain k b where kb: "kb = (k, b)" by force
    from last_below_spec [OF sorted, of s] Some kb have k: "bget m k = Some b" "k < s"
      and great: "\<And>k' b'. bget m k' = Some b' \<Longrightarrow> k' < s \<Longrightarrow> k' \<le> k" by auto
    have sum: "wadd64 k (fb_end b - fb_start b) = fb_end b"
      using blocks [OF k(1)] cap by (simp add: wadd64_exact)
    show ?thesis
    proof (cases "fb_end b = s")
      case True
      with Some kb run sum k show ?thesis by (simp add: left_of_def)
    next
      case False
      have "fb_end b' \<noteq> s" if b': "bget m k' = Some b'" for k' b'
      proof
        assume fin: "fb_end b' = s"
        with blocks [OF b'] have "k' < s" by simp
        with great [OF b'] have "k' \<le> k" by simp
        with fin k(2) have "k = k'"
          using free_unique [OF sorted one k(1), of k k' b'] blocks [OF k(1)] b' by simp
        with b' k(1) fin False show False by simp
      qed
      with Some kb run sum False show ?thesis by (simp add: left_of_def)
    qed
  qed
qed

text \<open>
  Putting a range back: it is merged with the block that ends where it starts and with the
  block that starts where it ends, and no other block lies in the merged range.
\<close>

lemma put_back:
  assumes ok: "blocks_ok cap m" and se: "s < e" "e \<le> cap" and cap: "cap < 2 ^ 64"
    and one: "\<And>x. free_cover m x + inside s e x \<le> 1"
    and left: "left_of s m = (s', c)"
    and right: "e' = (case bget m e of Some b \<Rightarrow> fb_end b | None \<Rightarrow> e)"
  defines "m' \<equiv> filter (\<lambda>(k, _). \<not> (s' \<le> k \<and> k < e')) m"
  shows "blocks_ok cap (bput s' \<lparr> fb_start = s', fb_end = e' \<rparr> m')"
    and "free_cover (bput s' \<lparr> fb_start = s', fb_end = e' \<rparr> m') x = free_cover m x + inside s e x"
proof -
  have sorted: "bsorted m" and blocks: "\<And>k c. bget m k = Some c \<Longrightarrow>
      fb_start c = k \<and> k < fb_end c \<and> fb_end c \<le> cap \<and> bget m (fb_end c) = None"
    using ok by (auto simp: blocks_ok_def)
  have one': "free_cover m x \<le> 1" for x using one [of x] by simp
  from left_of_spec [OF ok cap one' left]
  have L: "(s' = s \<and> (\<forall>k b. bget m k = Some b \<longrightarrow> fb_end b \<noteq> s))
    \<or> (s' < s \<and> (\<exists>b. bget m s' = Some b \<and> fb_end b = s))" .
  have R: "(e' = e \<and> bget m e = None) \<or> (e < e' \<and> (\<exists>b. bget m e = Some b \<and> fb_end b = e'))"
    using right blocks by (auto split: option.splits)
  have "s' \<le> s" using L by (auto intro: less_imp_le)
  moreover have "e \<le> e'" "e' \<le> cap" using R se blocks by (auto intro: less_imp_le)
  ultimately have ord: "s' \<le> s" "e \<le> e'" "s' < e'" "e' \<le> cap" using se(1) by linarith+
  have range: "k = s' \<and> s' < s \<or> k = e \<and> e < e'" if k: "bget m k = Some b" "s' \<le> k" "k < e'" for k b
  proof -
    consider "k < s" | "s \<le> k" "k < e" | "e \<le> k" by linarith
    then show ?thesis
    proof cases
      case 1
      with k(2) L obtain b0 where b0: "bget m s' = Some b0" "fb_end b0 = s" "s' < s" by auto
      with 1 free_unique [OF sorted one' k(1) _ _ b0(1), of k] k(2) blocks [OF k(1)] show ?thesis by simp
    next
      case 2
      with one [of k] free_cover_ge [OF sorted k(1), of k] blocks [OF k(1)] show ?thesis
        by (simp add: inside_def)
    next
      case 3
      with k(3) R obtain b1 where b1: "bget m e = Some b1" "fb_end b1 = e'" "e < e'" by auto
      with 3 free_unique [OF sorted one' k(1) _ _ b1(1), of k] k(3) blocks [OF k(1)] show ?thesis by simp
    qed
  qed
  have m': "bget m' k = (if s' \<le> k \<and> k < e' then None else bget m k)" for k
    by (simp add: m'_def bget_filter)
  have sorted': "bsorted m'" using sorted by (simp add: m'_def bsorted_filter)
  show "blocks_ok cap (bput s' \<lparr> fb_start = s', fb_end = e' \<rparr> m')" unfolding blocks_ok_def
  proof (intro conjI allI impI)
    fix k b assume k: "bget (bput s' \<lparr> fb_start = s', fb_end = e' \<rparr> m') k = Some b"
    have "fb_start b = k \<and> k < fb_end b \<and> fb_end b \<le> cap
      \<and> fb_end b \<noteq> s' \<and> bget m' (fb_end b) = None"
    proof (cases "k = s'")
      case True
      have "bget m e' = None" using R blocks by auto
      with True k ord m' show ?thesis by auto
    next
      case False
      with k have old: "bget m k = Some b" using m' by (auto split: if_splits)
      have "fb_end b \<noteq> s'" using L old blocks [OF old] by auto
      with blocks [OF old] m' show ?thesis by auto
    qed
    then show "fb_start b = k" "k < fb_end b" "fb_end b \<le> cap"
      "bget (bput s' \<lparr> fb_start = s', fb_end = e' \<rparr> m') (fb_end b) = None" by auto
  qed (rule bsorted_bput [OF sorted'])
  define q where "q = filter (\<lambda>(k, _). s' \<le> k \<and> k < e') m"
  have q: "bget q k = (if s' \<le> k \<and> k < e' then bget m k else None)" for k
    by (simp add: q_def bget_filter)
  have sq: "bsorted q" using sorted by (simp add: q_def bsorted_filter)
  define q1 where "q1 = (if s' < s then bdel s' q else q)"
  have q1: "free_cover q x = inside s' s x + free_cover q1 x"
  proof (cases "s' < s")
    case True
    with L obtain b0 where "bget m s' = Some b0" "fb_end b0 = s" by auto
    with True ord q free_cover_bdel [OF sq, of s' b0 x] show ?thesis by (simp add: q1_def)
  qed (simp add: q1_def)
  have sq1: "bsorted q1" using sq by (simp add: q1_def bsorted_bdel)
  have q2: "free_cover q1 x = inside e e' x"
  proof (cases "e < e'")
    case True
    with R obtain b1 where b1: "bget m e = Some b1" "fb_end b1 = e'" by auto
    have "bget q1 e = Some b1" using True b1(1) q ord se by (auto simp: q1_def)
    from free_cover_bdel [OF sq1 this, of x] b1(2)
    have "free_cover q1 x = inside e e' x + free_cover (bdel e q1) x" by simp
    moreover have "free_cover (bdel e q1) x = 0"
    proof (rule free_cover_none, rule allI)
      fix k show "bget (bdel e q1) k = None"
        using range [of k] q [of k] by (cases "bget m k") (auto simp: q1_def)
    qed
    ultimately show ?thesis by simp
  next
    case False
    have "free_cover q1 x = 0"
    proof (rule free_cover_none, rule allI)
      fix k show "bget q1 k = None"
        using range [of k] q [of k] False by (cases "bget m k") (auto simp: q1_def)
    qed
    with False show ?thesis by simp
  qed
  have part: "free_cover m x = free_cover q x + free_cover m' x"
    using free_cover_partition [of m x "\<lambda>(k, _). s' \<le> k \<and> k < e'"]
    by (simp add: q_def m'_def case_prod_unfold)
  have "free_cover (bput s' \<lparr> fb_start = s', fb_end = e' \<rparr> m') x = inside s' e' x + free_cover m' x"
    using m' ord by (subst free_cover_bput) auto
  also have "inside s' e' x = inside s' s x + inside s e x + inside e e' x"
    using ord se by (auto simp: inside_def)
  finally show "free_cover (bput s' \<lparr> fb_start = s', fb_end = e' \<rparr> m') x = free_cover m x + inside s e x"
    using part q1 q2 by simp
qed


text \<open>\<open>insert_free\<close> on the free list, with the coalescing written with \<open>left_of\<close>.\<close>

lemma insert_free_eq:
  fixes e :: nat
  assumes "left_of s m = (s', c)" "m = pp_free p"
  defines "e' \<equiv> (case bget m e of Some b \<Rightarrow> fb_end b | None \<Rightarrow> e)"
  shows "pp_free (insert_free s e p)
      = bput s' \<lparr> fb_start = s', fb_end = e' \<rparr> (filter (\<lambda>(k, _). \<not> (s' \<le> k \<and> k < e')) m)"
    and "pp_in_use (insert_free s e p) = pp_in_use p" and "pp_config (insert_free s e p) = pp_config p"
    and "pp_next_id (insert_free s e p) = pp_next_id p"
  using assms(1) unfolding insert_free_def left_of_def e'_def assms(2)
  by (auto simp: Let_def split: option.splits prod.splits if_splits)

lemma release_unknown:
  "bget (pp_in_use p) (ph_offset h) \<noteq> Some h \<Longrightarrow> \<exists>e. pool_release h p = (Inl e, p)"
  by (auto simp: pool_release_def split: option.splits)

lemma release_spec:
  assumes ok: "pool_ok p" and h: "bget (pp_in_use p) (ph_offset h) = Some h"
  shows "wp (pool_release h)
    (\<lambda>_ p'. pool_ok p' \<and> pp_config p' = pp_config p \<and> pp_next_id p' = pp_next_id p
       \<and> pp_in_use p' = bdel (ph_offset h) (pp_in_use p))
    (\<lambda>_ _. False) p"
proof -
  define al where "al = pc_alignment (pp_config p)"
  define cap where "cap = pc_capacity_bytes (pp_config p)"
  have al: "0 < al" and cap: "cap < 2 ^ 64" and blocks: "blocks_ok cap (pp_free p)"
    and handles: "handles_ok al (pp_next_id p) (pp_in_use p)"
    and tile: "\<And>x. free_cover (pp_free p) x + used_cover al (pp_in_use p) x = inside 0 cap x"
    using ok by (auto simp: pool_ok_def al_def cap_def Let_def)
  define s where "s = ph_offset h"
  define r where "r = round_up al (ph_bytes h)"
  have sorted: "bsorted (pp_in_use p)" and pos: "0 < ph_bytes h" "ph_bytes h + 2 * al \<le> 2 ^ 64"
    using handles h by (auto simp: handles_ok_def)
  have r: "0 < r" "ph_bytes h \<le> r" using round_up_bounds(1) [OF al pos] pos by (simp_all add: r_def)
  have split: "used_cover al (pp_in_use p) x = inside s (s + r) x + used_cover al (bdel s (pp_in_use p)) x" for x
    using used_cover_bdel [OF sorted h] by (simp add: s_def r_def)
  have "s + r - 1 < cap"
    using tile [of "s + r - 1"] split [of "s + r - 1"] r by (auto simp: inside_def split: if_splits)
  then have se: "s < s + r" "s + r \<le> cap" using r by simp_all
  have one: "free_cover (pp_free p) x + inside s (s + r) x \<le> 1" for x
    using tile [of x] split [of x] by (auto simp: inside_def split: if_splits)
  obtain s' c where left: "left_of s (pp_free p) = (s', c)" by force
  define p1 where "p1 = p\<lparr> pp_in_use := bdel s (pp_in_use p),
      pp_stats := (pp_stats p)\<lparr> ps_releases := wadd64 (ps_releases (pp_stats p)) 1 \<rparr> \<rparr>"
  define p' where "p' = insert_free s (s + r) p1"
  have run: "pool_release h p = (Inr (), p')"
    using h se cap unfolding pool_release_def
    by (simp add: p'_def p1_def s_def [symmetric] al_def [symmetric] r_def [symmetric] wadd64_exact Let_def)
  have left1: "left_of s (pp_free p) = (s', c)" "pp_free p = pp_free p1" using left by (simp_all add: p1_def)
  note eqs = insert_free_eq [OF left1, of "s + r", folded p'_def]
  note merged = put_back [OF blocks se cap one left refl, folded eqs(1)]
  have "handles_ok al (pp_next_id p) (bdel s (pp_in_use p))"
    using handles by (auto simp: handles_ok_def bsorted_bdel)
  moreover have "free_cover (pp_free p') x + used_cover al (bdel s (pp_in_use p)) x = inside 0 cap x" for x
    using tile [of x] split [of x] merged(2) [of x] by simp
  ultimately have "pool_ok p'"
    using al cap merged(1) eqs by (simp add: pool_ok_def p1_def al_def cap_def Let_def)
  then show ?thesis using run eqs by (simp add: wp_def p1_def s_def)
qed

subsection \<open>The free list is determined by the free bytes\<close>

lemma covering_block:
  "1 \<le> free_cover m x \<Longrightarrow> \<exists>k b. (k, b) \<in> set m \<and> k \<le> x \<and> x < fb_end b"
proof (induction m)
  case (Cons a m)
  obtain k b where a: "a = (k, b)" by force
  show ?case
  proof (cases "k \<le> x \<and> x < fb_end b")
    case True
    with a show ?thesis by auto
  next
    case False
    with Cons.prems a have "1 \<le> free_cover m x" by (auto simp: free_cover_def inside_def)
    from Cons.IH [OF this] show ?thesis by auto
  qed
qed (simp add: free_cover_def)

lemma block_boundaries:
  assumes ok: "blocks_ok cap m" and one: "\<And>x. free_cover m x \<le> 1"
  shows "bget m k = Some b \<longleftrightarrow> fb_start b = k \<and> k < fb_end b \<and> (\<forall>x. k \<le> x \<and> x < fb_end b \<longrightarrow> free_cover m x = 1)
     \<and> (0 < k \<longrightarrow> free_cover m (k - 1) = 0) \<and> free_cover m (fb_end b) = 0"
proof -
  have sorted: "bsorted m" and blocks: "\<And>k c. bget m k = Some c \<Longrightarrow>
      fb_start c = k \<and> k < fb_end c \<and> fb_end c \<le> cap \<and> bget m (fb_end c) = None"
    using ok by (auto simp: blocks_ok_def)
  have zero: "free_cover m x = 0" if "\<And>k b. bget m k = Some b \<Longrightarrow> k \<le> x \<Longrightarrow> x < fb_end b \<Longrightarrow> False" for x
  proof (rule ccontr)
    assume "free_cover m x \<noteq> 0"
    then obtain k b where "(k, b) \<in> set m" "k \<le> x" "x < fb_end b" using covering_block [of m x] by auto
    with that [of k b] bsorted_in_set [OF sorted, of k b] show False by simp
  qed
  have fwd: "(\<forall>x. k \<le> x \<and> x < fb_end b \<longrightarrow> free_cover m x = 1)
     \<and> (0 < k \<longrightarrow> free_cover m (k - 1) = 0) \<and> free_cover m (fb_end b) = 0" if b: "bget m k = Some b" for k b
  proof (intro conjI impI allI)
    fix x assume "k \<le> x \<and> x < fb_end b"
    with free_cover_ge [OF sorted b, of x] one [of x] show "free_cover m x = 1" by simp
  next
    assume k: "0 < k"
    show "free_cover m (k - 1) = 0"
    proof (rule zero)
      fix k' b' assume b': "bget m k' = Some b'" "k' \<le> k - 1" "k - 1 < fb_end b'"
      have "fb_end b' \<noteq> k" using blocks [OF b'(1)] b by auto
      with b' k have "k' \<le> k" "k < fb_end b'" by simp_all
      with free_unique [OF sorted one b'(1) _ _ b, of k] blocks [OF b] b'(2) k show False by simp
    qed
  next
    show "free_cover m (fb_end b) = 0"
    proof (rule zero)
      fix k' b' assume b': "bget m k' = Some b'" "k' \<le> fb_end b" "fb_end b < fb_end b'"
      have "k' \<noteq> fb_end b" using blocks [OF b] b'(1) by auto
      moreover have "k < fb_end b" using blocks [OF b] by simp
      ultimately have "k' \<le> fb_end b - 1" "fb_end b - 1 < fb_end b'" "k \<le> fb_end b - 1" "fb_end b - 1 < fb_end b"
        using b'(2,3) by linarith+
      with free_unique [OF sorted one b'(1) _ _ b, of "fb_end b - 1"] have "k' = k" by simp
      with b b'(1,3) show False by simp
    qed
  qed
  show ?thesis
  proof
    assume "bget m k = Some b"
    with fwd [of k b] blocks [of k b] show "fb_start b = k \<and> k < fb_end b
      \<and> (\<forall>x. k \<le> x \<and> x < fb_end b \<longrightarrow> free_cover m x = 1)
      \<and> (0 < k \<longrightarrow> free_cover m (k - 1) = 0) \<and> free_cover m (fb_end b) = 0" by simp
  next
    assume r: "fb_start b = k \<and> k < fb_end b \<and> (\<forall>x. k \<le> x \<and> x < fb_end b \<longrightarrow> free_cover m x = 1)
      \<and> (0 < k \<longrightarrow> free_cover m (k - 1) = 0) \<and> free_cover m (fb_end b) = 0"
    then have "1 \<le> free_cover m k" by simp
    then obtain k' b' where "(k', b') \<in> set m" and in': "k' \<le> k" "k < fb_end b'" using covering_block by blast
    then have b': "bget m k' = Some b'" using bsorted_in_set [OF sorted] by blast
    have "\<not> k' < k"
    proof
      assume "k' < k"
      then have "1 \<le> free_cover m (k - 1)" using free_cover_ge [OF sorted b', of "k - 1"] in' by simp
      with r \<open>k' < k\<close> show False by simp
    qed
    with in' have k: "k' = k" by simp
    have "\<not> fb_end b < fb_end b'" using free_cover_ge [OF sorted b', of "fb_end b"] r k by auto
    moreover have "\<not> fb_end b' < fb_end b" using fwd [OF b'] r in' by auto
    ultimately have "fb_end b = fb_end b'" by simp
    with k r blocks [OF b'] have "b = b'" by simp
    with b' k show "bget m k = Some b" by simp
  qed
qed

lemma bsorted_ext: "bsorted m \<Longrightarrow> bsorted m' \<Longrightarrow> bget m = bget m' \<Longrightarrow> m = m'"
proof (induction m arbitrary: m')
  case Nil
  then show ?case by (cases m') (auto simp: fun_eq_iff split: if_splits)
next
  case (Cons a m)
  obtain k v where a: "a = (k, v)" by force
  obtain b m2 where m': "m' = b # m2"
    using Cons.prems(3) a by (cases m') (auto simp: fun_eq_iff split: if_splits)
  obtain k' v' where b: "b = (k', v')" by force
  have sa: "\<forall>x\<in>fst ` set m. k < x" "bsorted m" and sb: "\<forall>x\<in>fst ` set m2. k' < x" "bsorted m2"
    using Cons.prems a m' b by (simp_all add: bsorted_Cons)
  have g: "bget (a # m) x = bget (b # m2) x" for x using fun_cong [OF Cons.prems(3), of x] unfolding m' .
  have kk: "k = k'"
  proof (rule ccontr)
    assume ne: "k \<noteq> k'"
    have "bget m k' = Some v'" using g [of k'] a b ne by simp
    then have "k < k'" using sa(1) by (force dest!: map_of_SomeD)
    moreover have "bget m2 k = Some v" using g [of k] a b ne by (simp split: if_splits)
    then have "k' < k" using sb(1) by (force dest!: map_of_SomeD)
    ultimately show False by simp
  qed
  have vv: "v = v'" using g [of k] a b kk by simp
  have "bget m x = bget m2 x" for x
  proof (cases "x = k")
    case True
    have "bget m k = None" "bget m2 k = None" using sa(1) sb(1) kk by (force simp: map_of_eq_None_iff)+
    with True show ?thesis by simp
  next
    case False
    with g [of x] a b kk show ?thesis by simp
  qed
  then have "bget m = bget m2" by (rule ext)
  with Cons.IH [OF sa(2) sb(2)] have "m = m2" by simp
  with a b kk vv m' show ?case by simp
qed

lemma option_eqI: "(\<And>b. x = Some b \<longleftrightarrow> y = Some b) \<Longrightarrow> x = y"
  by (metis option.exhaust)

text \<open>Same free bytes, same free list: the coalescing keeps the list canonical.\<close>

lemma free_list_canonical:
  assumes "blocks_ok cap m" "blocks_ok cap m'" "\<And>x. free_cover m x = free_cover m' x"
    and one: "\<And>x. free_cover m' x \<le> 1"
  shows "m = m'"
proof (rule bsorted_ext)
  have one0: "free_cover m x \<le> 1" for x using one [of x] assms(3) [of x] by simp
  show "bget m = bget m'"
  proof
    fix k
    show "bget m k = bget m' k"
    proof (rule option_eqI)
      fix b show "bget m k = Some b \<longleftrightarrow> bget m' k = Some b"
        unfolding block_boundaries [OF assms(1) one0] block_boundaries [OF assms(2) one] assms(3) by (rule refl)
    qed
  qed
qed (use assms in \<open>auto simp: blocks_ok_def\<close>)

lemma pool_free_determined:
  assumes "pool_ok p" "pool_ok p'" "pp_config p = pp_config p'" "pp_in_use p = pp_in_use p'"
  shows "pp_free p = pp_free p'"
proof (rule free_list_canonical)
  define al where "al = pc_alignment (pp_config p')"
  define cap where "cap = pc_capacity_bytes (pp_config p')"
  have A: "blocks_ok cap (pp_free p)" "\<And>x. free_cover (pp_free p) x + used_cover al (pp_in_use p') x = inside 0 cap x"
    using assms(1) unfolding pool_ok_def assms(3,4) by (simp_all add: Let_def al_def cap_def)
  have B: "blocks_ok cap (pp_free p')" "\<And>x. free_cover (pp_free p') x + used_cover al (pp_in_use p') x = inside 0 cap x"
    using assms(2) unfolding pool_ok_def by (simp_all add: Let_def al_def cap_def)
  show "blocks_ok cap (pp_free p)" by (rule A(1))
  show "blocks_ok cap (pp_free p')" by (rule B(1))
  show "free_cover (pp_free p) x = free_cover (pp_free p') x" for x using A(2) [of x] B(2) [of x] by simp
  show "free_cover (pp_free p') x \<le> 1" for x by (rule pool_cover_le [OF assms(2)])
qed


subsection \<open>Any sequence of calls\<close>

datatype pool_cmd = PoolAcquire nat | PoolRelease pinned_handle

fun pool_step :: "pool_cmd \<Rightarrow> pinned_pool \<Rightarrow> pinned_pool" where
  "pool_step (PoolAcquire n) p = snd (pool_acquire n p)"
| "pool_step (PoolRelease h) p = snd (pool_release h p)"

fun pool_run :: "pool_cmd list \<Rightarrow> pinned_pool \<Rightarrow> pinned_pool" where
  "pool_run [] p = p"
| "pool_run (c # cs) p = pool_run cs (pool_step c p)"

text \<open>
  Requests so large that rounding them up to the alignment would wrap are excluded here and
  treated at the end.
\<close>

fun small_cmd :: "nat \<Rightarrow> pool_cmd \<Rightarrow> bool" where
  "small_cmd al (PoolAcquire n) = (n + 2 * al \<le> 2 ^ 64)"
| "small_cmd al (PoolRelease h) = True"

lemma pool_new_ok:
  assumes "pool_new c = Inr p" "pc_capacity_bytes c < 2 ^ 64"
  shows "pool_ok p" "pp_config p = c" "pp_in_use p = []" "pp_next_id p = 1"
proof -
  have "pc_capacity_bytes c \<noteq> 0" "pc_alignment c \<noteq> 0"
    and p: "p = \<lparr> pp_config = c, pp_free = [(0, \<lparr> fb_start = 0, fb_end = pc_capacity_bytes c \<rparr>)],
       pp_in_use = [], pp_next_id = 1, pp_stats = \<lparr> ps_acquisitions = 0, ps_releases = 0, ps_coalesces = 0,
       ps_peak_in_use_bytes = 0 \<rparr> \<rparr>"
    using assms(1) by (auto simp: pool_new_def pool_config_validate_def split: if_splits)
  then show "pool_ok p" using assms(2)
    by (auto simp: pool_ok_def blocks_ok_def handles_ok_def bsorted_def free_cover_def used_cover_def)
  show "pp_config p = c" "pp_in_use p = []" "pp_next_id p = 1" using p by simp_all
qed

lemma pool_step_ok:
  assumes "pool_ok p" "small_cmd (pc_alignment (pp_config p)) c" "pp_next_id p + 1 < 2 ^ 64"
  shows "pool_ok (pool_step c p) \<and> pp_config (pool_step c p) = pp_config p
    \<and> pp_next_id p \<le> pp_next_id (pool_step c p) \<and> pp_next_id (pool_step c p) \<le> pp_next_id p + 1
    \<and> (\<forall>k h. bget (pp_in_use (pool_step c p)) k = Some h \<longrightarrow>
          bget (pp_in_use p) k = Some h \<or> pp_next_id p \<le> ph_id h)"
proof (cases c)
  case (PoolAcquire n)
  have n: "n + 2 * pc_alignment (pp_config p) \<le> 2 ^ 64" using assms(2) PoolAcquire by simp
  note spec = acquire_spec [OF assms(1) n assms(3)]
  show ?thesis
  proof (cases "fst (pool_acquire n p)")
    case (Inl e)
    then have run: "pool_acquire n p = (Inl e, pool_step c p)" using PoolAcquire by (simp add: prod_eq_iff)
    from wp_errD [OF spec run] assms(1) show ?thesis by simp
  next
    case (Inr h)
    then have run: "pool_acquire n p = (Inr h, pool_step c p)" using PoolAcquire by (simp add: prod_eq_iff)
    from wp_okD [OF spec run] show ?thesis by auto
  qed
next
  case (PoolRelease h)
  show ?thesis
  proof (cases "bget (pp_in_use p) (ph_offset h) = Some h")
    case True
    note spec = release_spec [OF assms(1) True]
    show ?thesis
    proof (cases "fst (pool_release h p)")
      case (Inl e)
      then have run: "pool_release h p = (Inl e, pool_step c p)" using PoolRelease by (simp add: prod_eq_iff)
      from wp_errD [OF spec run] show ?thesis by simp
    next
      case (Inr u)
      then have run: "pool_release h p = (Inr u, pool_step c p)" using PoolRelease by (simp add: prod_eq_iff)
      from wp_okD [OF spec run] show ?thesis by auto
    qed
  next
    case False
    from release_unknown [OF False] PoolRelease assms(1) show ?thesis by auto
  qed
qed

lemma pool_run_ok:
  "pool_ok p \<Longrightarrow> list_all (small_cmd (pc_alignment (pp_config p))) cs \<Longrightarrow> pp_next_id p + length cs < 2 ^ 64 \<Longrightarrow>
   pool_ok (pool_run cs p) \<and> pp_config (pool_run cs p) = pp_config p
     \<and> pp_next_id p \<le> pp_next_id (pool_run cs p) \<and> pp_next_id (pool_run cs p) \<le> pp_next_id p + length cs
     \<and> (\<forall>k h. bget (pp_in_use (pool_run cs p)) k = Some h \<longrightarrow>
          bget (pp_in_use p) k = Some h \<or> pp_next_id p \<le> ph_id h)"
proof (induction cs arbitrary: p)
  case (Cons c cs)
  have step: "pool_ok (pool_step c p)" "pp_config (pool_step c p) = pp_config p"
    "pp_next_id p \<le> pp_next_id (pool_step c p)" "pp_next_id (pool_step c p) \<le> pp_next_id p + 1"
    "\<And>k h. bget (pp_in_use (pool_step c p)) k = Some h \<Longrightarrow>
          bget (pp_in_use p) k = Some h \<or> pp_next_id p \<le> ph_id h"
    using pool_step_ok [of p c] Cons.prems by auto
  have "pool_ok (pool_run cs (pool_step c p)) \<and> pp_config (pool_run cs (pool_step c p)) = pp_config (pool_step c p)
     \<and> pp_next_id (pool_step c p) \<le> pp_next_id (pool_run cs (pool_step c p))
     \<and> pp_next_id (pool_run cs (pool_step c p)) \<le> pp_next_id (pool_step c p) + length cs
     \<and> (\<forall>k h. bget (pp_in_use (pool_run cs (pool_step c p))) k = Some h \<longrightarrow>
          bget (pp_in_use (pool_step c p)) k = Some h \<or> pp_next_id (pool_step c p) \<le> ph_id h)"
    using Cons.prems step(1,2,4) by (intro Cons.IH) auto
  then have rest: "pool_ok (pool_run cs (pool_step c p))" "pp_config (pool_run cs (pool_step c p)) = pp_config p"
    "pp_next_id (pool_step c p) \<le> pp_next_id (pool_run cs (pool_step c p))"
    "pp_next_id (pool_run cs (pool_step c p)) \<le> pp_next_id (pool_step c p) + length cs"
    and ids: "\<And>k h. bget (pp_in_use (pool_run cs (pool_step c p))) k = Some h \<Longrightarrow>
          bget (pp_in_use (pool_step c p)) k = Some h \<or> pp_next_id (pool_step c p) \<le> ph_id h"
    using step(2) by auto
  have "bget (pp_in_use p) k = Some h \<or> pp_next_id p \<le> ph_id h"
    if "bget (pp_in_use (pool_run cs (pool_step c p))) k = Some h" for k h
    using ids [OF that] step(3) step(5) [of k h] by linarith
  with rest step(3,4) show ?case by simp
qed simp

lemma live_handles_disjoint:
  assumes ok: "pool_ok p" and h: "bget (pp_in_use p) k = Some h" "bget (pp_in_use p) k' = Some h'" "k \<noteq> k'"
  shows "k + ph_bytes h \<le> k' \<or> k' + ph_bytes h' \<le> k"
proof (rule ccontr)
  assume neg: "\<not> ?thesis"
  define al where "al = pc_alignment (pp_config p)"
  have al: "0 < al" and handles: "handles_ok al (pp_next_id p) (pp_in_use p)"
    and tile: "\<And>x. free_cover (pp_free p) x + used_cover al (pp_in_use p) x
      = inside 0 (pc_capacity_bytes (pp_config p)) x"
    using ok by (auto simp: pool_ok_def al_def Let_def)
  have one: "used_cover al (pp_in_use p) x \<le> 1" for x
    using tile [of x] by (simp add: inside_def split: if_splits)
  have sorted: "bsorted (pp_in_use p)" using handles by (simp add: handles_ok_def)
  have pos: "0 < ph_bytes h" "ph_bytes h + 2 * al \<le> 2 ^ 64" "0 < ph_bytes h'" "ph_bytes h' + 2 * al \<le> 2 ^ 64"
    using handles h by (auto simp: handles_ok_def)
  define x where "x = max k k'"
  have x: "k \<le> x" "x < k + round_up al (ph_bytes h)" "k' \<le> x" "x < k' + round_up al (ph_bytes h')"
    using neg round_up_bounds(1) [OF al pos(1,2)] round_up_bounds(1) [OF al pos(3,4)] pos
    by (auto simp: x_def max_def)
  have "bget (bdel k (pp_in_use p)) k' = Some h'" using h by simp
  from used_cover_bdel [OF sorted h(1), of al x] used_cover_bdel [OF bsorted_bdel [OF sorted] this, of al x]
    x one [of x] show False by (simp add: inside_def)
qed

text \<open>
  C11: after any sequence of fewer than \<open>2^64 - 1\<close> acquires and releases on a new pool,
  in which no requested size exceeds \<open>2^64\<close> less twice the alignment, every live
  handle is aligned, lies inside the region and overlaps no other; and every byte of the
  region is covered by exactly one free block or reservation, so no byte is lost or handed
  out twice.  A size that wraps when it is rounded up breaks it (\<open>oversized_acquire_wraps\<close>).
\<close>

theorem pool_tiles_region:
  assumes "pool_new c = Inr p0" "pc_capacity_bytes c < 2 ^ 64"
    and "list_all (small_cmd (pc_alignment c)) cs" "length cs + 1 < 2 ^ 64"
  defines "p \<equiv> pool_run cs p0"
  shows "(\<forall>k h. bget (pp_in_use p) k = Some h \<longrightarrow>
            ph_offset h = k \<and> k mod pc_alignment c = 0 \<and> k + ph_bytes h \<le> pc_capacity_bytes c)
    \<and> (\<forall>k h k' h'. bget (pp_in_use p) k = Some h \<longrightarrow> bget (pp_in_use p) k' = Some h' \<longrightarrow> k \<noteq> k' \<longrightarrow>
            k + ph_bytes h \<le> k' \<or> k' + ph_bytes h' \<le> k)
    \<and> (\<forall>x. free_cover (pp_free p) x + used_cover (pc_alignment c) (pp_in_use p) x
            = (if x < pc_capacity_bytes c then 1 else 0))"
proof -
  note new = pool_new_ok [OF assms(1,2)]
  have ok: "pool_ok p" "pp_config p = c"
    using pool_run_ok [of p0 cs] new assms(3,4) by (simp_all add: p_def)
  define al where "al = pc_alignment c"
  define cap where "cap = pc_capacity_bytes c"
  have al: "0 < al" and handles: "handles_ok al (pp_next_id p) (pp_in_use p)"
    and tile: "\<And>x. free_cover (pp_free p) x + used_cover al (pp_in_use p) x = inside 0 cap x"
    using ok by (auto simp: pool_ok_def al_def cap_def Let_def)
  have "k + ph_bytes h \<le> cap" if h: "bget (pp_in_use p) k = Some h" for k h
  proof -
    have pos: "0 < ph_bytes h" "ph_bytes h + 2 * al \<le> 2 ^ 64" and sorted: "bsorted (pp_in_use p)"
      using handles h by (auto simp: handles_ok_def)
    have "k \<le> k + ph_bytes h - 1" "k + ph_bytes h - 1 < k + round_up al (ph_bytes h)"
      using round_up_bounds(1) [OF al pos] pos by linarith+
    then have "1 \<le> used_cover al (pp_in_use p) (k + ph_bytes h - 1)"
      using used_cover_bdel [OF sorted h, of al "k + ph_bytes h - 1"] by (simp add: inside_def)
    with tile [of "k + ph_bytes h - 1"] have "k + ph_bytes h - 1 < cap"
      by (auto simp: inside_def split: if_splits)
    with pos show ?thesis by simp
  qed
  with handles live_handles_disjoint [OF ok(1)] tile show ?thesis
    unfolding al_def [symmetric] cap_def [symmetric] by (auto simp: handles_ok_def inside_def)
qed

text \<open>A small pool and two handles, for the witnesses.\<close>

definition pool_c0 :: pool_config where
  "pool_c0 = \<lparr> pc_capacity_bytes = 64, pc_alignment = 16 \<rparr>"

definition pool_p0 :: pinned_pool where
  "pool_p0 = \<lparr> pp_config = pool_c0, pp_free = [(0, \<lparr> fb_start = 0, fb_end = 64 \<rparr>)], pp_in_use = [],
     pp_next_id = 1, pp_stats = \<lparr> ps_acquisitions = 0, ps_releases = 0, ps_coalesces = 0,
     ps_peak_in_use_bytes = 0 \<rparr> \<rparr>"

lemma pool_p0_new: "pool_new pool_c0 = Inr pool_p0"
proof -
  have "is_power_of_two 16" unfolding is_power_of_two_def list_ex_iff by (rule bexI [of _ 4]) simp_all
  then show ?thesis by (simp add: pool_new_def pool_config_validate_def pool_c0_def pool_p0_def)
qed

lemma pool_p0_ok: "pool_ok pool_p0"
  by (rule pool_new_ok [OF pool_p0_new]) (simp add: pool_c0_def)

lemma pool_tiles_region_witness:
  "\<forall>x. free_cover (pp_free (pool_run [PoolAcquire 20, PoolAcquire 5] pool_p0)) x
     + used_cover 16 (pp_in_use (pool_run [PoolAcquire 20, PoolAcquire 5] pool_p0)) x = (if x < 64 then 1 else 0)"
  using pool_tiles_region [OF pool_p0_new, of "[PoolAcquire 20, PoolAcquire 5]"] by (simp add: pool_c0_def)

text \<open>
  Releasing a handle just acquired succeeds and brings back
  exactly the free list and the live handles of before: the coalescing rejoins the pieces the
  acquire cut off.
\<close>

theorem pool_release_undoes_acquire:
  assumes "pool_new c = Inr p0" "pc_capacity_bytes c < 2 ^ 64"
    and "list_all (small_cmd (pc_alignment c)) cs" "length cs + 2 < 2 ^ 64"
    and "p = pool_run cs p0" "n + 2 * pc_alignment c \<le> 2 ^ 64" "pool_acquire n p = (Inr h, p1)"
  shows "\<exists>p2. pool_release h p1 = (Inr (), p2) \<and> pp_free p2 = pp_free p \<and> pp_in_use p2 = pp_in_use p"
proof -
  note new = pool_new_ok [OF assms(1,2)]
  have ok: "pool_ok p" "pp_config p = c" "pp_next_id p + 1 < 2 ^ 64"
    using pool_run_ok [of p0 cs] new assms(3,4,5) by simp_all
  have n: "n + 2 * pc_alignment (pp_config p) \<le> 2 ^ 64" using assms(6) ok by simp
  from wp_okD [OF acquire_spec [OF ok(1) n ok(3)] assms(7)]
  have p1: "pool_ok p1" "pp_config p1 = pp_config p" "bget (pp_in_use p1) = (bget (pp_in_use p))(ph_offset h \<mapsto> h)"
    and fresh: "\<forall>x. ph_offset h \<le> x \<and> x < ph_offset h + n \<longrightarrow> used_cover (pc_alignment (pp_config p)) (pp_in_use p) x = 0"
    and hn: "ph_bytes h = n" by auto
  have h: "bget (pp_in_use p1) (ph_offset h) = Some h" using p1(3) by simp
  obtain r p2 where run: "pool_release h p1 = (r, p2)" by force
  note spec = release_spec [OF p1(1) h]
  obtain u where r: "r = Inr u" using wp_errD [OF spec] run by (cases r) auto
  from wp_okD [OF spec] run r have p2: "pool_ok p2" "pp_config p2 = pp_config p1"
    "pp_in_use p2 = bdel (ph_offset h) (pp_in_use p1)" by auto
  have sorted: "bsorted (pp_in_use p)" "bsorted (pp_in_use p1)"
    using ok(1) p1(1) by (simp_all add: pool_ok_def handles_ok_def Let_def)
  have none: "bget (pp_in_use p) (ph_offset h) = None"
  proof (rule ccontr)
    assume "bget (pp_in_use p) (ph_offset h) \<noteq> None"
    then obtain h0 where h0: "bget (pp_in_use p) (ph_offset h) = Some h0" by auto
    have al: "0 < pc_alignment (pp_config p)" and pos: "0 < ph_bytes h0" "ph_bytes h0 + 2 * pc_alignment (pp_config p) \<le> 2 ^ 64"
      using ok(1) h0 by (auto simp: pool_ok_def handles_ok_def Let_def)
    have "n \<noteq> 0"
    proof
      assume "n = 0"
      with assms(7) show False by (simp add: pool_acquire_def)
    qed
    then have "used_cover (pc_alignment (pp_config p)) (pp_in_use p) (ph_offset h) = 0" using fresh by simp
    moreover have "0 < round_up (pc_alignment (pp_config p)) (ph_bytes h0)"
      using round_up_bounds(1) [OF al pos] pos by linarith
    ultimately show False
      using used_cover_bdel [OF sorted(1) h0, of "pc_alignment (pp_config p)" "ph_offset h"] by (simp add: inside_def)
  qed
  have "pp_in_use p2 = pp_in_use p" unfolding p2(3)
    using p1(3) none by (intro bsorted_ext bsorted_bdel sorted) (auto simp: fun_eq_iff)
  with pool_free_determined [OF p2(1) ok(1)] p2(2) p1(2) run r show ?thesis by simp
qed

lemma pool_release_undoes_acquire_witness:
  "\<exists>h p1 p2. pool_acquire 20 pool_p0 = (Inr h, p1) \<and> pool_release h p1 = (Inr (), p2) \<and> pp_free p2 = pp_free pool_p0"
proof -
  obtain h p1 where run: "pool_acquire 20 pool_p0 = (Inr h, p1)"
    by (simp add: pool_acquire_def pool_p0_def pool_c0_def round_up_def div_ceil_def wmul64_def wadd64_def
        block_fits_def misalignment_def Let_def)
  have "\<exists>p2. pool_release h p1 = (Inr (), p2) \<and> pp_free p2 = pp_free pool_p0 \<and> pp_in_use p2 = pp_in_use pool_p0"
    by (rule pool_release_undoes_acquire [OF pool_p0_new, of "[]" _ 20, OF _ _ _ _ _ run]) (simp_all add: pool_c0_def)
  with run show ?thesis by blast
qed

text \<open>
  Whatever was acquired and released, in whatever order, once no handle
  is live the free list is again the single block of the whole region.
\<close>

theorem pool_empty_is_whole:
  assumes "pool_new c = Inr p0" "pc_capacity_bytes c < 2 ^ 64"
    and "list_all (small_cmd (pc_alignment c)) cs" "length cs + 1 < 2 ^ 64"
    and "pp_in_use (pool_run cs p0) = []"
  shows "pp_free (pool_run cs p0) = [(0, \<lparr> fb_start = 0, fb_end = pc_capacity_bytes c \<rparr>)]"
proof -
  note new = pool_new_ok [OF assms(1,2)]
  have ok: "pool_ok (pool_run cs p0)" "pp_config (pool_run cs p0) = c"
    using pool_run_ok [of p0 cs] new assms(3,4) by simp_all
  have "pp_free (pool_run cs p0) = pp_free p0"
    by (rule pool_free_determined [OF ok(1) new(1)]) (simp_all add: ok new assms(5))
  also have "pp_free p0 = [(0, \<lparr> fb_start = 0, fb_end = pc_capacity_bytes c \<rparr>)]"
    using assms(1) by (auto simp: pool_new_def split: sum.splits)
  finally show ?thesis .
qed

definition pool_h1 :: pinned_handle where
  "pool_h1 = \<lparr> ph_id = 1, ph_generation = 1, ph_offset = 0, ph_bytes = 20 \<rparr>"

lemma pool_empty_is_whole_witness:
  "pp_free (pool_run [PoolAcquire 20, PoolRelease pool_h1] pool_p0) = [(0, \<lparr> fb_start = 0, fb_end = 64 \<rparr>)]"
proof -
  have "pp_in_use (pool_run [PoolAcquire 20, PoolRelease pool_h1] pool_p0) = []"
    by (simp add: pool_acquire_def pool_release_def pool_p0_def pool_c0_def pool_h1_def round_up_def div_ceil_def
        wmul64_def wadd64_def block_fits_def misalignment_def insert_free_def last_below_def bdel_def Let_def)
  with pool_empty_is_whole [OF pool_p0_new, of "[PoolAcquire 20, PoolRelease pool_h1]"]
  show ?thesis by (simp add: pool_c0_def)
qed

text \<open>
  Once a handle has been released it can never be released
  again, whatever happens to the pool in between: the id of a live handle is never reused,
  and the refused call changes nothing.
\<close>

theorem released_handle_stays_dead:
  assumes "pool_new c = Inr p0" "pc_capacity_bytes c < 2 ^ 64"
    and "list_all (small_cmd (pc_alignment c)) (cs @ cs')" "length cs + length cs' + 1 < 2 ^ 64"
    and "pool_release h (pool_run cs p0) = (Inr (), p)"
  shows "\<exists>e. pool_release h (pool_run cs' p) = (Inl e, pool_run cs' p)"
proof -
  note new = pool_new_ok [OF assms(1,2)]
  let ?q = "pool_run cs p0"
  have ok: "pool_ok ?q" "pp_config ?q = c" "pp_next_id ?q \<le> 1 + length cs"
    using pool_run_ok [of p0 cs] new assms(3,4) by simp_all
  have h: "bget (pp_in_use ?q) (ph_offset h) = Some h"
    using assms(5) release_unknown [of ?q h] by fastforce
  from wp_okD [OF release_spec [OF ok(1) h] assms(5)]
  have p: "pool_ok p" "pp_config p = c" "pp_next_id p = pp_next_id ?q"
    and gone: "bget (pp_in_use p) (ph_offset h) = None" using ok(2) by auto
  have old: "ph_id h < pp_next_id p" using ok(1) h p(3) by (auto simp: pool_ok_def handles_ok_def Let_def)
  have "pp_next_id p + length cs' < 2 ^ 64" using ok(3) p(3) assms(4) by simp
  then have "bget (pp_in_use (pool_run cs' p)) (ph_offset h) = Some h \<longrightarrow>
      bget (pp_in_use p) (ph_offset h) = Some h \<or> pp_next_id p \<le> ph_id h"
    using pool_run_ok [of p cs'] p assms(3) by simp
  then have "bget (pp_in_use (pool_run cs' p)) (ph_offset h) \<noteq> Some h" using gone old by simp
  then show ?thesis by (rule release_unknown)
qed

lemma released_handle_stays_dead_witness:
  "\<exists>p e. pool_release pool_h1 (pool_run [PoolAcquire 20] pool_p0) = (Inr (), p)
     \<and> pool_release pool_h1 (pool_run [PoolAcquire 20] p) = (Inl e, pool_run [PoolAcquire 20] p)"
proof -
  obtain p where run: "pool_release pool_h1 (pool_run [PoolAcquire 20] pool_p0) = (Inr (), p)"
    by (simp add: pool_acquire_def pool_release_def pool_p0_def pool_c0_def pool_h1_def round_up_def div_ceil_def
        wmul64_def wadd64_def block_fits_def misalignment_def insert_free_def last_below_def bdel_def Let_def)
  have "\<exists>e. pool_release pool_h1 (pool_run [PoolAcquire 20] p) = (Inl e, pool_run [PoolAcquire 20] p)"
    by (rule released_handle_stays_dead [OF pool_p0_new _ _ _ run]) (simp_all add: pool_c0_def)
  with run show ?thesis by blast
qed

text \<open>
  The rounding \<open>div_ceil(align) * align\<close> wraps in a release build.
  A request of \<open>2^64 - 1\<close> bytes from a pool of 64 bytes is granted, reserves nothing, and the
  next acquire gets the same offset.
\<close>

theorem oversized_acquire_wraps:
  "\<exists>h p1 h2 p2. pool_acquire (2 ^ 64 - 1) pool_p0 = (Inr h, p1) \<and> ph_bytes h = 2 ^ 64 - 1
     \<and> ph_offset h = 0 \<and> pp_free p1 = pp_free pool_p0
     \<and> pool_acquire 20 p1 = (Inr h2, p2) \<and> ph_offset h2 = 0"
proof -
  have round: "round_up 16 (2 ^ 64 - 1) = 0" by (simp add: round_up_def div_ceil_def wmul64_def)
  have small: "(2 ^ 64 - 1 :: nat) \<noteq> 0" by simp
  have fit: "block_fits 16 0 \<lparr> fb_start = 0, fb_end = 64 \<rparr>" by (simp add: block_fits_def misalignment_def wadd64_def)
  have first: "\<exists>p1. pool_acquire n pool_p0
      = (Inr \<lparr> ph_id = 1, ph_generation = 1, ph_offset = 0, ph_bytes = n \<rparr>, p1)
      \<and> pp_free p1 = pp_free pool_p0 \<and> pp_config p1 = pool_c0" if "n \<noteq> 0" "round_up 16 n = 0" for n
    using that fit
    by (simp add: pool_acquire_def pool_p0_def pool_c0_def misalignment_def wadd64_def bdel_def Let_def)
  have "\<exists>h p1 h2 p2. pool_acquire n pool_p0 = (Inr h, p1) \<and> ph_bytes h = n
     \<and> ph_offset h = 0 \<and> pp_free p1 = pp_free pool_p0
     \<and> pool_acquire 20 p1 = (Inr h2, p2) \<and> ph_offset h2 = 0" if n: "n \<noteq> 0" "round_up 16 n = 0" for n
  proof -
    obtain p1 where p1: "pool_acquire n pool_p0
      = (Inr \<lparr> ph_id = 1, ph_generation = 1, ph_offset = 0, ph_bytes = n \<rparr>, p1)"
      "pp_free p1 = pp_free pool_p0" "pp_config p1 = pool_c0" using first [OF n] by blast
    have found: "find (block_fits 16 (round_up 16 20)) (map snd (pp_free p1)) = Some \<lparr> fb_start = 0, fb_end = 64 \<rparr>"
      unfolding p1(2)
      by (simp add: pool_p0_def round_up_def div_ceil_def wmul64_def wadd64_def block_fits_def misalignment_def)
    have "pc_alignment (pp_config p1) = 16" "wadd64 0 (misalignment 16 0) = 0"
      by (simp_all add: p1(3) pool_c0_def wadd64_def misalignment_def)
    then have "\<exists>h2. fst (pool_acquire 20 p1) = Inr h2 \<and> ph_offset h2 = 0"
      using found by (simp add: pool_acquire_def Let_def)
    then obtain h2 p2 where "pool_acquire 20 p1 = (Inr h2, p2)" "ph_offset h2 = 0"
      by (metis prod.collapse)
    with p1 show ?thesis by force
  qed
  from this [OF small round] show ?thesis .
qed

end
