(* ===== verification/Elastic_Budget.thy ===== *)
theory Elastic_Budget
  imports Core_Types
begin

text \<open>
  \<open>har-memory/src/elastic_budget.rs\<close>: the VRAM budget that is adjusted only while the engine
  is idle.  The rollback ladder is a loop that a zero step would never leave, so it is a
  partial function; that it returns is proved for every budget the constructor accepts.
\<close>

datatype engine_phase = PhaseIdle | PhasePrefill | PhaseDecode

fun phase_debug :: "engine_phase \<Rightarrow> string" where
  "phase_debug PhaseIdle = ''Idle''"
| "phase_debug PhasePrefill = ''Prefill''"
| "phase_debug PhaseDecode = ''Decode''"

record elastic_policy =
  ep_min_vram_bytes :: nat
  ep_max_vram_bytes :: nat
  ep_step_bytes :: nat
  ep_headroom_bytes :: nat

definition elastic_policy_validate :: "elastic_policy \<Rightarrow> har_error + unit" where
  "elastic_policy_validate p =
     (if ep_step_bytes p = 0 \<or> ep_min_vram_bytes p > ep_max_vram_bytes p
      then Inl (HarInvalid ''elastic budget policy'' ''step must be > 0 and min <= max'')
      else Inr ())"

datatype adjustment_kind = Grow | Shrink

record budget_adjustment =
  ba_epoch :: nat
  ba_kind :: adjustment_kind
  ba_requested_bytes :: nat
  ba_committed_bytes :: nat
  ba_rollback_rungs :: nat
  ba_reason :: string

record pending_adjustment =
  pa_kind :: adjustment_kind
  pa_target_bytes :: nat
  pa_reason :: string

record elastic_budget =
  eb_policy :: elastic_policy
  eb_phase :: engine_phase
  eb_current_bytes :: nat
  eb_epoch :: nat
  eb_pending :: "pending_adjustment option"
  eb_log :: "budget_adjustment list"

definition elastic_new :: "elastic_policy \<Rightarrow> nat \<Rightarrow> har_error + elastic_budget" where
  "elastic_new p initial = (case elastic_policy_validate p of
     Inl e \<Rightarrow> Inl e
   | Inr _ \<Rightarrow>
       (if initial < ep_min_vram_bytes p \<or> initial > ep_max_vram_bytes p
        then Inl (HarInvalid ''elastic budget'' (''initial '' @ dec_digits initial @ '' outside ['' @
               dec_digits (ep_min_vram_bytes p) @ '', '' @ dec_digits (ep_max_vram_bytes p) @ '']''))
        else Inr \<lparr> eb_policy = p, eb_phase = PhaseIdle, eb_current_bytes = initial, eb_epoch = 0,
                   eb_pending = None, eb_log = [] \<rparr>))"

definition elastic_set_phase :: "engine_phase \<Rightarrow> elastic_budget \<Rightarrow> elastic_budget" where
  "elastic_set_phase ph b = b\<lparr> eb_phase := ph \<rparr>"

definition elastic_cancel_pending :: "elastic_budget \<Rightarrow> elastic_budget" where
  "elastic_cancel_pending b = b\<lparr> eb_pending := None \<rparr>"

text \<open>\<open>u64::clamp\<close> (its bounds are ordered in a validated policy).\<close>

definition clamp :: "nat \<Rightarrow> nat \<Rightarrow> nat \<Rightarrow> nat" where
  "clamp lo hi x = (if x < lo then lo else if x > hi then hi else x)"

definition elastic_request :: "nat \<Rightarrow> string \<Rightarrow> (elastic_budget, har_error, unit) op" where
  "elastic_request target_bytes reason b =
     (let target = clamp (ep_min_vram_bytes (eb_policy b)) (ep_max_vram_bytes (eb_policy b)) target_bytes;
          kind = (if target \<ge> eb_current_bytes b then Grow else Shrink) in
      if target = eb_current_bytes b then (Inr (), b)
      else if eb_pending b \<noteq> None
      then (Inl (HarInvalid ''elastic budget'' ''an adjustment is already pending''), b)
      else (Inr (), b\<lparr> eb_pending := Some \<lparr> pa_kind = kind, pa_target_bytes = target, pa_reason = reason \<rparr> \<rparr>))"

text \<open>The ladder: from a candidate down by steps, counting the rungs in a \<open>u32\<close>.\<close>

partial_function (option) grow_ladder :: "nat \<Rightarrow> nat \<Rightarrow> nat \<Rightarrow> nat \<Rightarrow> nat \<Rightarrow> (nat \<times> nat) option" where
  "grow_ladder current usable step candidate rungs =
     (if wsub64 candidate current \<le> usable \<or> candidate = current then Some (candidate, rungs)
      else grow_ladder current usable step (max (candidate - step) current) (wadd32 rungs 1))"

definition elastic_commit_idle ::
  "nat \<Rightarrow> elastic_budget \<Rightarrow> ((har_error + budget_adjustment) \<times> elastic_budget) option" where
  "elastic_commit_idle free b =
     (if eb_phase b \<noteq> PhaseIdle
      then Some (Inl (HarInvalid ''elastic budget''
             (''adjustments are idle-only, phase is '' @ phase_debug (eb_phase b))), b)
      else case eb_pending b of
        None \<Rightarrow> Some (Inl (HarInvalid ''elastic budget'' ''no pending adjustment''), b)
      | Some p \<Rightarrow>
          let b1 = b\<lparr> eb_pending := None \<rparr> in
          case (case pa_kind p of
                  Shrink \<Rightarrow> Some (pa_target_bytes p, 0)
                | Grow \<Rightarrow> grow_ladder (eb_current_bytes b) (free - ep_headroom_bytes (eb_policy b))
                           (ep_step_bytes (eb_policy b)) (pa_target_bytes p) 0) of
            None \<Rightarrow> None
          | Some (committed, rungs) \<Rightarrow>
              (if committed = eb_current_bytes b
               then Some (Inl (HarInvalid ''elastic budget''
                      ''grow refused: no rung satisfied headroom constraint''), b1)
               else
                 let epoch = wadd64 (eb_epoch b) 1;
                     r = \<lparr> ba_epoch = epoch, ba_kind = pa_kind p, ba_requested_bytes = pa_target_bytes p,
                           ba_committed_bytes = committed, ba_rollback_rungs = rungs, ba_reason = pa_reason p \<rparr>
                 in Some (Inr r, b1\<lparr> eb_current_bytes := committed, eb_epoch := epoch,
                                     eb_log := eb_log b @ [r] \<rparr>)))"

subsection \<open>The ladder\<close>

definition rung :: "nat \<Rightarrow> nat \<Rightarrow> nat \<Rightarrow> nat \<Rightarrow> nat" where
  "rung current step target k = max (target - k * step) current"

lemma rung_Suc: "rung current step (max (target - step) current) k = rung current step target (Suc k)"
  by (auto simp: rung_def max_def)

lemma grow_ladder_spec:
  assumes "0 < step" "current \<le> target" "target < 2 ^ 64" "n < 2 ^ 32"
  shows "\<exists>k. grow_ladder current usable step target n = Some (rung current step target k, (n + k) mod 2 ^ 32)
      \<and> (\<forall>j<k. usable < rung current step target j - current)
      \<and> rung current step target k - current \<le> usable"
  using assms
proof (induction "target - current" arbitrary: target n rule: less_induct)
  case less
  show ?case
  proof (cases "target - current \<le> usable")
    case True
    with less.prems have "grow_ladder current usable step target n = Some (target, n)"
      by (subst grow_ladder.simps) (simp add: wsub64_exact)
    with True less.prems show ?thesis by (intro exI [of _ 0]) (simp add: rung_def)
  next
    case False
    then have ne: "target \<noteq> current" by auto
    let ?t = "max (target - step) current"
    have run: "grow_ladder current usable step target n = grow_ladder current usable step ?t (wadd32 n 1)"
      using False ne less.prems by (subst grow_ladder.simps) (simp add: wsub64_exact)
    have "?t - current < target - current" "current \<le> ?t" "?t < 2 ^ 64" "wadd32 n 1 < 2 ^ 32"
      using False less.prems by (auto simp: wadd32_def)
    from less.hyps [OF this(1) less.prems(1) this(2-4)]
    obtain k where k: "grow_ladder current usable step ?t (wadd32 n 1)
        = Some (rung current step ?t k, (wadd32 n 1 + k) mod 2 ^ 32)"
      "\<forall>j<k. usable < rung current step ?t j - current" "rung current step ?t k - current \<le> usable" by blast
    have "\<forall>j<Suc k. usable < rung current step target j - current"
    proof (intro allI impI)
      fix j assume "j < Suc k"
      show "usable < rung current step target j - current"
      proof (cases j)
        case 0
        with False less.prems show ?thesis by (simp add: rung_def)
      next
        case (Suc i)
        with k(2) \<open>j < Suc k\<close> show ?thesis by (simp add: rung_Suc [symmetric])
      qed
    qed
    moreover have "(wadd32 n 1 + k) mod 2 ^ 32 = (n + Suc k) mod 2 ^ 32"
      by (simp add: wadd32_def mod_simps)
    ultimately show ?thesis using run k(1,3) by (intro exI [of _ "Suc k"]) (simp add: rung_Suc)
  qed
qed

subsection \<open>Any sequence of calls\<close>

datatype elastic_cmd = ERequest nat string | ESetPhase engine_phase | ECancel | ECommit nat

fun elastic_step :: "elastic_cmd \<Rightarrow> elastic_budget \<Rightarrow> elastic_budget option" where
  "elastic_step (ERequest t r) b = Some (snd (elastic_request t r b))"
| "elastic_step (ESetPhase ph) b = Some (elastic_set_phase ph b)"
| "elastic_step ECancel b = Some (elastic_cancel_pending b)"
| "elastic_step (ECommit free) b = map_option snd (elastic_commit_idle free b)"

fun elastic_run :: "elastic_cmd list \<Rightarrow> elastic_budget \<Rightarrow> elastic_budget option" where
  "elastic_run [] b = Some b"
| "elastic_run (c # cs) b = (case elastic_step c b of None \<Rightarrow> None | Some b' \<Rightarrow> elastic_run cs b')"

definition elastic_ok :: "elastic_policy \<Rightarrow> nat \<Rightarrow> elastic_budget \<Rightarrow> bool" where
  "elastic_ok p initial b \<longleftrightarrow> eb_policy b = p \<and> elastic_policy_validate p = Inr ()
     \<and> ep_min_vram_bytes p \<le> eb_current_bytes b \<and> eb_current_bytes b \<le> ep_max_vram_bytes p
     \<and> eb_current_bytes b = last (initial # map ba_committed_bytes (eb_log b))
     \<and> map ba_epoch (eb_log b) = map (\<lambda>n. n mod 2 ^ 64) [1..<Suc (length (eb_log b))]
     \<and> eb_epoch b = length (eb_log b) mod 2 ^ 64
     \<and> (\<forall>a. eb_pending b = Some a \<longrightarrow>
          ep_min_vram_bytes p \<le> pa_target_bytes a \<and> pa_target_bytes a \<le> ep_max_vram_bytes p
          \<and> (pa_kind a = Grow \<longrightarrow> eb_current_bytes b < pa_target_bytes a)
          \<and> (pa_kind a = Shrink \<longrightarrow> pa_target_bytes a < eb_current_bytes b))"

lemma policy_valid: "elastic_policy_validate p = Inr () \<longleftrightarrow> 0 < ep_step_bytes p \<and> ep_min_vram_bytes p \<le> ep_max_vram_bytes p"
  by (auto simp: elastic_policy_validate_def)

lemma elastic_new_ok: "elastic_new p initial = Inr b \<Longrightarrow> elastic_ok p initial b"
  by (auto simp: elastic_new_def elastic_ok_def split: sum.splits if_splits)

lemma elastic_request_ok:
  assumes ok: "elastic_ok p i b"
  shows "elastic_ok p i (snd (elastic_request t r b))"
proof -
  define t' where "t' = clamp (ep_min_vram_bytes p) (ep_max_vram_bytes p) t"
  have t': "ep_min_vram_bytes p \<le> t'" "t' \<le> ep_max_vram_bytes p"
    using ok by (auto simp: t'_def clamp_def elastic_ok_def policy_valid)
  have "eb_policy b = p" using ok by (simp add: elastic_ok_def)
  then consider "snd (elastic_request t r b) = b"
    | "t' \<noteq> eb_current_bytes b" "snd (elastic_request t r b) = b\<lparr> eb_pending := Some
        \<lparr> pa_kind = (if t' \<ge> eb_current_bytes b then Grow else Shrink), pa_target_bytes = t', pa_reason = r \<rparr> \<rparr>"
    by (cases "t' = eb_current_bytes b"; cases "eb_pending b = None")
       (simp_all add: elastic_request_def Let_def t'_def)
  then show ?thesis
  proof cases
    case 2
    have set_pending: "elastic_ok p i (b\<lparr> eb_pending := Some a \<rparr>)"
      if "ep_min_vram_bytes p \<le> pa_target_bytes a" "pa_target_bytes a \<le> ep_max_vram_bytes p"
        "pa_kind a = Grow \<longrightarrow> eb_current_bytes b < pa_target_bytes a"
        "pa_kind a = Shrink \<longrightarrow> pa_target_bytes a < eb_current_bytes b" for a
      using ok that by (simp add: elastic_ok_def)
    show ?thesis unfolding 2(2) by (rule set_pending) (use t' 2(1) in auto)
  qed (use ok in simp)
qed

text \<open>What a commit does once the ladder has settled on \<open>c\<close> after \<open>k\<close> rungs.\<close>

definition commit_outcome ::
  "elastic_budget \<Rightarrow> pending_adjustment \<Rightarrow> nat \<Rightarrow> nat \<Rightarrow> (har_error + budget_adjustment) \<times> elastic_budget" where
  "commit_outcome b a c k =
     (if c = eb_current_bytes b
      then (Inl (HarInvalid ''elastic budget'' ''grow refused: no rung satisfied headroom constraint''),
            b\<lparr> eb_pending := None \<rparr>)
      else let r = \<lparr> ba_epoch = wadd64 (eb_epoch b) 1, ba_kind = pa_kind a, ba_requested_bytes = pa_target_bytes a,
                  ba_committed_bytes = c, ba_rollback_rungs = k mod 2 ^ 32, ba_reason = pa_reason a \<rparr>
           in (Inr r, b\<lparr> eb_pending := None, eb_current_bytes := c, eb_epoch := wadd64 (eb_epoch b) 1,
                         eb_log := eb_log b @ [r] \<rparr>))"

lemma elastic_commit_shrink:
  "eb_phase b = PhaseIdle \<Longrightarrow> eb_pending b = Some a \<Longrightarrow> pa_kind a = Shrink \<Longrightarrow>
     elastic_commit_idle free b = Some (commit_outcome b a (pa_target_bytes a) 0)"
  by (simp add: elastic_commit_idle_def commit_outcome_def Let_def)

lemma elastic_commit_grow:
  assumes ok: "elastic_ok p i b" and max: "ep_max_vram_bytes p < 2 ^ 64"
    and run: "eb_phase b = PhaseIdle" "eb_pending b = Some a" "pa_kind a = Grow"
  defines "cur \<equiv> eb_current_bytes b"
  obtains k where
    "\<forall>j<k. free - ep_headroom_bytes p < rung cur (ep_step_bytes p) (pa_target_bytes a) j - cur"
    "rung cur (ep_step_bytes p) (pa_target_bytes a) k - cur \<le> free - ep_headroom_bytes p"
    "elastic_commit_idle free b
       = Some (commit_outcome b a (rung cur (ep_step_bytes p) (pa_target_bytes a) k) k)"
proof -
  have pos: "0 < ep_step_bytes p" "cur \<le> pa_target_bytes a" "pa_target_bytes a < 2 ^ 64" "(0::nat) < 2 ^ 32"
    using ok run max by (auto simp: elastic_ok_def policy_valid cur_def)
  have pol: "eb_policy b = p" using ok by (simp add: elastic_ok_def)
  obtain k where k: "grow_ladder cur (free - ep_headroom_bytes p) (ep_step_bytes p) (pa_target_bytes a) 0
      = Some (rung cur (ep_step_bytes p) (pa_target_bytes a) k, k mod 2 ^ 32)"
    "\<forall>j<k. free - ep_headroom_bytes p < rung cur (ep_step_bytes p) (pa_target_bytes a) j - cur"
    "rung cur (ep_step_bytes p) (pa_target_bytes a) k - cur \<le> free - ep_headroom_bytes p"
    using grow_ladder_spec [OF pos, of "free - ep_headroom_bytes p"] by auto
  have "elastic_commit_idle free b
      = Some (commit_outcome b a (rung cur (ep_step_bytes p) (pa_target_bytes a) k) k)"
    using k(1) run pol by (simp add: elastic_commit_idle_def commit_outcome_def cur_def Let_def)
  with k(2,3) that show thesis by blast
qed

lemma commit_outcome_ok:
  assumes ok: "elastic_ok p i b" and c: "ep_min_vram_bytes p \<le> c" "c \<le> ep_max_vram_bytes p"
  shows "elastic_ok p i (snd (commit_outcome b a c k))"
proof -
  have "wadd64 (eb_epoch b) 1 = Suc (length (eb_log b)) mod 2 ^ 64"
    using ok by (simp add: elastic_ok_def wadd64_def mod_Suc_eq)
  with ok c show ?thesis by (simp add: elastic_ok_def commit_outcome_def Let_def)
qed

lemma elastic_step_ok:
  assumes ok: "elastic_ok p i b" and max: "ep_max_vram_bytes p < 2 ^ 64"
  shows "\<exists>b'. elastic_step c b = Some b' \<and> elastic_ok p i b'"
proof (cases c)
  case (ERequest t r)
  then show ?thesis using elastic_request_ok [OF ok] by simp
next
  case (ESetPhase ph)
  have "elastic_ok p i (elastic_set_phase ph b) = elastic_ok p i b"
    by (simp add: elastic_set_phase_def elastic_ok_def)
  then show ?thesis using ok ESetPhase by simp
next
  case ECancel
  then show ?thesis using ok by (simp add: elastic_cancel_pending_def elastic_ok_def)
next
  case (ECommit free)
  show ?thesis
  proof (cases "eb_phase b = PhaseIdle \<and> eb_pending b \<noteq> None")
    case False
    then show ?thesis using ok ECommit by (auto simp: elastic_commit_idle_def)
  next
    case True
    then obtain a where a: "eb_phase b = PhaseIdle" "eb_pending b = Some a" by auto
    have bounds: "ep_min_vram_bytes p \<le> eb_current_bytes b" "eb_current_bytes b \<le> ep_max_vram_bytes p"
      "ep_min_vram_bytes p \<le> pa_target_bytes a" "pa_target_bytes a \<le> ep_max_vram_bytes p"
      using ok a by (auto simp: elastic_ok_def)
    show ?thesis
    proof (cases "pa_kind a")
      case Shrink
      with elastic_commit_shrink [OF a] commit_outcome_ok [OF ok bounds(3,4)] ECommit show ?thesis by simp
    next
      case Grow
      obtain k where "elastic_commit_idle free b = Some (commit_outcome b a
          (rung (eb_current_bytes b) (ep_step_bytes p) (pa_target_bytes a) k) k)"
        using elastic_commit_grow [OF ok max a Grow] by metis
      moreover have "ep_min_vram_bytes p \<le> rung (eb_current_bytes b) (ep_step_bytes p) (pa_target_bytes a) k"
        "rung (eb_current_bytes b) (ep_step_bytes p) (pa_target_bytes a) k \<le> ep_max_vram_bytes p"
        using bounds by (auto simp: rung_def)
      ultimately show ?thesis using commit_outcome_ok [OF ok] ECommit by simp
    qed
  qed
qed

lemma elastic_run_ok:
  "elastic_ok p i b \<Longrightarrow> ep_max_vram_bytes p < 2 ^ 64 \<Longrightarrow> \<exists>b'. elastic_run cs b = Some b' \<and> elastic_ok p i b'"
proof (induction cs arbitrary: b)
  case (Cons c cs)
  from elastic_step_ok [OF Cons.prems, of c] obtain b1 where "elastic_step c b = Some b1" "elastic_ok p i b1" by blast
  with Cons.IH [of b1] Cons.prems(2) show ?case by simp
qed simp

text \<open>
  C32: every sequence of requests, phase changes, cancellations
  and commits returns, keeps the budget inside the policy window, and leaves a log that
  explains it: the epochs count up from 1 and the last committed value is the budget.
\<close>

theorem elastic_budget_stays_in_window:
  assumes "elastic_new p initial = Inr b" "ep_max_vram_bytes p < 2 ^ 64"
  shows "\<exists>b'. elastic_run cs b = Some b'
    \<and> ep_min_vram_bytes p \<le> eb_current_bytes b' \<and> eb_current_bytes b' \<le> ep_max_vram_bytes p
    \<and> eb_current_bytes b' = last (initial # map ba_committed_bytes (eb_log b'))
    \<and> map ba_epoch (eb_log b') = map (\<lambda>n. n mod 2 ^ 64) [1..<Suc (length (eb_log b'))]"
  using elastic_run_ok [OF elastic_new_ok [OF assms(1)] assms(2), of cs] by (auto simp: elastic_ok_def)

definition elastic_p0 :: elastic_policy where
  "elastic_p0 = \<lparr> ep_min_vram_bytes = 10, ep_max_vram_bytes = 160, ep_step_bytes = 5, ep_headroom_bytes = 10 \<rparr>"

definition elastic_b0 :: elastic_budget where
  "elastic_b0 = \<lparr> eb_policy = elastic_p0, eb_phase = PhaseIdle, eb_current_bytes = 80, eb_epoch = 0,
     eb_pending = None, eb_log = [] \<rparr>"

lemma elastic_b0_new: "elastic_new elastic_p0 80 = Inr elastic_b0"
  by (simp add: elastic_new_def elastic_policy_validate_def elastic_p0_def elastic_b0_def)

lemma elastic_budget_stays_in_window_witness:
  "\<exists>b'. elastic_run [ERequest 120 ''kv'', ECommit 30] elastic_b0 = Some b' \<and> eb_current_bytes b' \<le> 160"
proof -
  have "ep_max_vram_bytes elastic_p0 < 2 ^ 64" by (simp add: elastic_p0_def)
  from elastic_budget_stays_in_window [OF elastic_b0_new this, of "[ERequest 120 ''kv'', ECommit 30]"]
  show ?thesis by (auto simp: elastic_p0_def simp del: elastic_run.simps)
qed

text \<open>
  In any state reached, committing a pending grow while
  idle returns: it descends \<open>target\<close>, \<open>target - step\<close>, \<open>target - 2 * step\<close>, \<dots> to the first
  rung whose growth fits the measured free memory less the headroom.  That rung is
  committed and logged with the number of rungs descended; if it is the current budget the
  request is refused, and in either case nothing stays pending.
\<close>

theorem elastic_grow_takes_highest_rung:
  assumes "elastic_new p initial = Inr b0" "ep_max_vram_bytes p < 2 ^ 64" "elastic_run cs b0 = Some b"
    and "eb_phase b = PhaseIdle" "eb_pending b = Some a" "pa_kind a = Grow"
  shows "\<exists>k res b'. elastic_commit_idle free b = Some (res, b') \<and> eb_pending b' = None
    \<and> (\<forall>j<k. free - ep_headroom_bytes p
          < max (pa_target_bytes a - j * ep_step_bytes p) (eb_current_bytes b) - eb_current_bytes b)
    \<and> eb_current_bytes b' = max (pa_target_bytes a - k * ep_step_bytes p) (eb_current_bytes b)
    \<and> eb_current_bytes b' - eb_current_bytes b \<le> free - ep_headroom_bytes p
    \<and> (case res of Inl _ \<Rightarrow> eb_current_bytes b' = eb_current_bytes b \<and> eb_log b' = eb_log b
       | Inr r \<Rightarrow> eb_current_bytes b < eb_current_bytes b' \<and> eb_log b' = eb_log b @ [r]
           \<and> ba_committed_bytes r = eb_current_bytes b' \<and> ba_requested_bytes r = pa_target_bytes a
           \<and> ba_rollback_rungs r = k mod 2 ^ 32)"
proof -
  have ok: "elastic_ok p initial b"
    using elastic_run_ok [OF elastic_new_ok [OF assms(1)] assms(2), of cs] assms(3) by simp
  define cur where "cur = eb_current_bytes b"
  obtain k where k:
    "\<forall>j<k. free - ep_headroom_bytes p < rung cur (ep_step_bytes p) (pa_target_bytes a) j - cur"
    "rung cur (ep_step_bytes p) (pa_target_bytes a) k - cur \<le> free - ep_headroom_bytes p"
    "elastic_commit_idle free b = Some (commit_outcome b a (rung cur (ep_step_bytes p) (pa_target_bytes a) k) k)"
    using elastic_commit_grow [OF ok assms(2,4,5,6)] unfolding cur_def by metis
  define c where "c = rung cur (ep_step_bytes p) (pa_target_bytes a) k"
  have c: "cur \<le> c" "c = max (pa_target_bytes a - k * ep_step_bytes p) cur" by (simp_all add: c_def rung_def)
  obtain res b' where out: "commit_outcome b a c k = (res, b')" by force
  then have "eb_pending b' = None" "eb_current_bytes b' = c"
    and "case res of Inl _ \<Rightarrow> c = cur \<and> eb_log b' = eb_log b
       | Inr r \<Rightarrow> cur < c \<and> eb_log b' = eb_log b @ [r]
           \<and> ba_committed_bytes r = c \<and> ba_requested_bytes r = pa_target_bytes a
           \<and> ba_rollback_rungs r = k mod 2 ^ 32"
    using c(1) by (auto simp: commit_outcome_def cur_def Let_def split: if_splits)
  with k out c show ?thesis unfolding c_def [symmetric] cur_def [symmetric]
    by (intro exI [of _ k] exI [of _ res] exI [of _ b']) (simp add: rung_def split: sum.splits)
qed

lemma elastic_grow_takes_highest_rung_witness:
  "\<exists>b k res b'. elastic_run [ERequest 120 ''kv''] elastic_b0 = Some b
     \<and> elastic_commit_idle 30 b = Some (res, b') \<and> eb_current_bytes b' = max (120 - k * 5) 80"
proof -
  obtain b where b: "elastic_run [ERequest 120 ''kv''] elastic_b0 = Some b" "eb_phase b = PhaseIdle"
    "eb_pending b = Some \<lparr> pa_kind = Grow, pa_target_bytes = 120, pa_reason = ''kv'' \<rparr>" "eb_current_bytes b = 80"
    by (simp add: elastic_request_def elastic_b0_def elastic_p0_def clamp_def Let_def)
  have "ep_max_vram_bytes elastic_p0 < 2 ^ 64" by (simp add: elastic_p0_def)
  from elastic_grow_takes_highest_rung [OF elastic_b0_new this b(1-3), of 30] b(1,4)
  show ?thesis by (auto simp: elastic_p0_def simp del: elastic_run.simps)
qed

end
