(* ===== verification/Operation_Table.thy ===== *)
theory Operation_Table
  imports Core_Types
begin

text \<open>
  \<open>har-ir/src/lib.rs\<close>: the operation table of a plan and its validation.  The depth-first
  search colours the operations white (0), grey (1) and black (2) and fails on a grey one.  It
  is modelled with fuel for the depth of the recursion; the number of operations plus one is
  always enough, so \<open>operation_validate\<close> never runs out.
\<close>

datatype backend_kind = BackendNone | BackendCpu | BackendVulkan

datatype exactness_mode = Exact | WithinTolerance | Approximate

record tensor_handle =
  th_index :: nat
  th_stable_id :: string

datatype logical_operation_kind =
  LLoad | LMulMat | LAdd | LAttention | LMtpVerify | LSample | LCopy | LBarrier | LOther

record logical_operation =
  lo_id :: nat
  lo_stable_id :: string
  lo_kind :: logical_operation_kind
  lo_inputs :: "tensor_handle list"
  lo_outputs :: "tensor_handle list"
  lo_dependencies :: "nat list"
  lo_exactness :: exactness_mode

record dispatch_shape =
  ds_x :: nat
  ds_y :: nat
  ds_z :: nat
  ds_workgroup_x :: nat
  ds_workgroup_y :: nat
  ds_workgroup_z :: nat

definition dispatch_default :: dispatch_shape where
  "dispatch_default = \<lparr> ds_x = 0, ds_y = 0, ds_z = 0, ds_workgroup_x = 0, ds_workgroup_y = 0,
     ds_workgroup_z = 0 \<rparr>"

record physical_operation =
  po_index :: nat
  po_logical_id :: nat
  po_stable_id :: string
  po_backend :: backend_kind
  po_kernel :: kernel_kind
  po_input_slots :: "nat list"
  po_output_slots :: "nat list"
  po_dependencies :: "nat list"
  po_dispatch :: dispatch_shape
  po_source_tier :: memory_tier
  po_destination_tier :: memory_tier

datatype dependency_reason = ReasonData | ReasonResidency | ReasonFence | ReasonEpoch | ReasonAuthority

record dependency_edge =
  de_from :: nat
  de_to :: nat
  de_reason :: dependency_reason

record operation_table =
  ot_schema :: string
  ot_logical :: "logical_operation list"
  ot_physical :: "physical_operation list"
  ot_edges :: "dependency_edge list"

definition operation_table_new :: operation_table where
  "operation_table_new = \<lparr> ot_schema = ''har.ir.v1'', ot_logical = [], ot_physical = [], ot_edges = [] \<rparr>"

definition operation_at :: "operation_table \<Rightarrow> nat \<Rightarrow> physical_operation option" where
  "operation_at t i = (if i < length (ot_physical t) then Some (ot_physical t ! i) else None)"

subsection \<open>Validation\<close>

text \<open>The first loop: indices are dense and dependencies in range.\<close>

fun check_dense :: "nat \<Rightarrow> nat \<Rightarrow> physical_operation list \<Rightarrow> string + unit" where
  "check_dense n i [] = Inr ()"
| "check_dense n i (op # ops) =
     (if po_index op \<noteq> i then Inl (''physical operation index '' @ dec_digits (po_index op) @ '' is not dense'')
      else if list_ex (\<lambda>d. d \<ge> n) (po_dependencies op)
      then Inl (''operation '' @ dec_digits (po_index op) @ '' has out-of-range dependency'')
      else check_dense n (Suc i) ops)"

record dfs =
  dfs_color :: "nat list"
  dfs_path :: "nat list"

definition cycle_message :: "nat list \<Rightarrow> nat \<Rightarrow> string" where
  "cycle_message path node = ''dependency cycle: '' @ str_join '' -> '' (map dec_digits path @ [dec_digits node])"

fun visit :: "nat \<Rightarrow> operation_table \<Rightarrow> nat \<Rightarrow> dfs \<Rightarrow> (string + dfs) option"
  and visit_all :: "nat \<Rightarrow> operation_table \<Rightarrow> nat list \<Rightarrow> dfs \<Rightarrow> (string + dfs) option" where
  "visit 0 t node s = None"
| "visit (Suc fuel) t node s =
     (if dfs_color s ! node = 1 then Some (Inl (cycle_message (dfs_path s) node))
      else if dfs_color s ! node = 2 then Some (Inr s)
      else case visit_all fuel t (po_dependencies (ot_physical t ! node))
             (s\<lparr> dfs_color := (dfs_color s)[node := 1], dfs_path := dfs_path s @ [node mod 2 ^ 32] \<rparr>) of
             None \<Rightarrow> None
           | Some (Inl e) \<Rightarrow> Some (Inl e)
           | Some (Inr s') \<Rightarrow> Some (Inr (s'\<lparr> dfs_path := butlast (dfs_path s'),
                                           dfs_color := (dfs_color s')[node := 2] \<rparr>)))"
| "visit_all fuel t [] s = Some (Inr s)"
| "visit_all fuel t (d # ds) s =
     (case visit fuel t d s of
        None \<Rightarrow> None
      | Some (Inl e) \<Rightarrow> Some (Inl e)
      | Some (Inr s') \<Rightarrow> visit_all fuel t ds s')"

text \<open>The second loop: a search from every operation, the colours kept, the path reset.\<close>

fun visit_starts :: "operation_table \<Rightarrow> nat list \<Rightarrow> nat list \<Rightarrow> (string + unit) option" where
  "visit_starts t [] color = Some (Inr ())"
| "visit_starts t (start # rest) color =
     (case visit (Suc (length (ot_physical t))) t start \<lparr> dfs_color = color, dfs_path = [] \<rparr> of
        None \<Rightarrow> None
      | Some (Inl e) \<Rightarrow> Some (Inl e)
      | Some (Inr s) \<Rightarrow> visit_starts t rest (dfs_color s))"

definition operation_validate :: "operation_table \<Rightarrow> (string + unit) option" where
  "operation_validate t =
     (let n = length (ot_physical t) in
      case check_dense n 0 (ot_physical t) of
        Inl e \<Rightarrow> Some (Inl e)
      | Inr _ \<Rightarrow> visit_starts t [0..<n] (replicate n 0))"

subsection \<open>The dependency relation and the colours\<close>

definition depends :: "operation_table \<Rightarrow> (nat \<times> nat) set" where
  "depends t = {(i, d). i < length (ot_physical t) \<and> d \<in> set (po_dependencies (ot_physical t ! i))}"

definition in_range :: "operation_table \<Rightarrow> bool" where
  "in_range t \<longleftrightarrow> (\<forall>i<length (ot_physical t). \<forall>d\<in>set (po_dependencies (ot_physical t ! i)). d < length (ot_physical t))"

definition coloured :: "nat list \<Rightarrow> nat \<Rightarrow> nat set" where
  "coloured c k = {i. i < length c \<and> c ! i = k}"

definition whites :: "nat list \<Rightarrow> nat" where
  "whites c = card {i. i < length c \<and> c ! i \<noteq> 1 \<and> c ! i \<noteq> 2}"

text \<open>Black operations have only black dependencies and lie on no cycle.\<close>

definition dfs_ok :: "operation_table \<Rightarrow> nat list \<Rightarrow> bool" where
  "dfs_ok t c \<longleftrightarrow> length c = length (ot_physical t)
     \<and> (\<forall>i\<in>coloured c 2. \<forall>d. (i, d) \<in> depends t \<longrightarrow> d \<in> coloured c 2)
     \<and> (\<forall>i\<in>coloured c 2. (i, i) \<notin> (depends t)\<^sup>+)"

lemma black_closed: "dfs_ok t c \<Longrightarrow> i \<in> coloured c 2 \<Longrightarrow> (i, j) \<in> (depends t)\<^sup>+ \<Longrightarrow> j \<in> coloured c 2"
proof (erule trancl_induct)
qed (auto simp: dfs_ok_def)

lemma coloured_update:
  "i < length c \<Longrightarrow> coloured (c[i := k]) k' = (if k = k' then insert i (coloured c k') else coloured c k' - {i})"
  by (auto simp: coloured_def nth_list_update split: if_splits)

lemma whites_grey: "i < length c \<Longrightarrow> c ! i \<noteq> 1 \<Longrightarrow> c ! i \<noteq> 2 \<Longrightarrow> whites (c[i := 1]) < whites c"
  unfolding whites_def by (rule psubset_card_mono) (auto simp: nth_list_update)

lemma whites_mono:
  assumes "length c' = length c" "coloured c 1 = coloured c' 1" "coloured c 2 \<subseteq> coloured c' 2"
  shows "whites c' \<le> whites c"
  unfolding whites_def using assms by (intro card_mono) (auto simp: coloured_def set_eq_iff)

text \<open>
  One search.  If it ends well, the grey operations and the path are those of before, the start
  is black and nothing black was lost; if it fails there is a cycle.
\<close>

definition search_ok :: "operation_table \<Rightarrow> dfs \<Rightarrow> dfs \<Rightarrow> bool" where
  "search_ok t s s' \<longleftrightarrow> dfs_ok t (dfs_color s') \<and> dfs_path s' = dfs_path s
     \<and> coloured (dfs_color s') 1 = coloured (dfs_color s) 1
     \<and> coloured (dfs_color s) 2 \<subseteq> coloured (dfs_color s') 2"

lemma search_ok_trans: "search_ok t s s' \<Longrightarrow> search_ok t s' s'' \<Longrightarrow> search_ok t s s''"
  by (auto simp: search_ok_def)

lemma visit_spec:
  "in_range t \<Longrightarrow> dfs_ok t (dfs_color s) \<Longrightarrow> node < length (ot_physical t) \<Longrightarrow>
     (\<forall>g\<in>coloured (dfs_color s) 1. (g, node) \<in> (depends t)\<^sup>+) \<Longrightarrow> whites (dfs_color s) < fuel \<Longrightarrow>
     (\<exists>s'. visit fuel t node s = Some (Inr s') \<and> search_ok t s s' \<and> node \<in> coloured (dfs_color s') 2)
     \<or> (\<exists>e i. visit fuel t node s = Some (Inl e) \<and> (i, i) \<in> (depends t)\<^sup>+)"
  and visit_all_spec:
  "in_range t \<Longrightarrow> dfs_ok t (dfs_color s) \<Longrightarrow> (\<forall>d\<in>set ds. d < length (ot_physical t)) \<Longrightarrow>
     (\<forall>g\<in>coloured (dfs_color s) 1. \<forall>d\<in>set ds. (g, d) \<in> (depends t)\<^sup>+) \<Longrightarrow> whites (dfs_color s) < fuel \<Longrightarrow>
     (\<exists>s'. visit_all fuel t ds s = Some (Inr s') \<and> search_ok t s s' \<and> set ds \<subseteq> coloured (dfs_color s') 2)
     \<or> (\<exists>e i. visit_all fuel t ds s = Some (Inl e) \<and> (i, i) \<in> (depends t)\<^sup>+)"
proof (induction fuel t node s and fuel t ds s rule: visit_visit_all.induct)
  case (1 t node s)
  then show ?case by simp
next
  case (2 fuel t node s)
  have len: "length (dfs_color s) = length (ot_physical t)" using "2.prems"(2) by (simp add: dfs_ok_def)
  consider (grey) "dfs_color s ! node = 1" | (black) "dfs_color s ! node = 2"
    | (white) "dfs_color s ! node \<noteq> 1" "dfs_color s ! node \<noteq> 2" by blast
  then show ?case
  proof cases
    case grey
    then have "node \<in> coloured (dfs_color s) 1" using "2.prems"(3) len by (simp add: coloured_def)
    with "2.prems"(4) grey show ?thesis by auto
  next
    case black
    then have "node \<in> coloured (dfs_color s) 2" using "2.prems"(3) len by (simp add: coloured_def)
    with black "2.prems"(2) show ?thesis by (simp add: search_ok_def)
  next
    case white
    define s1 where "s1 = s\<lparr> dfs_color := (dfs_color s)[node := 1], dfs_path := dfs_path s @ [node mod 2 ^ 32] \<rparr>"
    define ds where "ds = po_dependencies (ot_physical t ! node)"
    have node: "node < length (dfs_color s)" using "2.prems"(3) len by simp
    have notblack: "node \<notin> coloured (dfs_color s) 2" using white by (simp add: coloured_def)
    have c1: "coloured (dfs_color s1) 1 = insert node (coloured (dfs_color s) 1)"
      "coloured (dfs_color s1) 2 = coloured (dfs_color s) 2"
      using node notblack by (auto simp: s1_def coloured_update)
    have edge: "(node, d) \<in> depends t" if "d \<in> set ds" for d
      using that "2.prems"(3) by (simp add: depends_def ds_def)
    have p1: "dfs_ok t (dfs_color s1)" using "2.prems"(2) c1(2) by (simp add: dfs_ok_def s1_def)
    have p2: "\<forall>d\<in>set ds. d < length (ot_physical t)"
      using "2.prems"(1,3) by (simp add: in_range_def ds_def)
    have p3: "\<forall>g\<in>coloured (dfs_color s1) 1. \<forall>d\<in>set ds. (g, d) \<in> (depends t)\<^sup>+"
    proof (intro ballI)
      fix g d assume "g \<in> coloured (dfs_color s1) 1" and d: "d \<in> set ds"
      then consider "g = node" | "g \<in> coloured (dfs_color s) 1" using c1(1) by auto
      then show "(g, d) \<in> (depends t)\<^sup>+"
      proof cases
        case 1
        with edge [OF d] show ?thesis by auto
      next
        case 2
        with "2.prems"(4) edge [OF d] show ?thesis by (auto intro: trancl_into_trancl)
      qed
    qed
    have p4: "whites (dfs_color s1) < fuel"
      using whites_grey [OF node white] "2.prems"(5) by (simp add: s1_def)
    note IH = "2.IH" [OF white, folded ds_def s1_def, OF "2.prems"(1) p1 p2 p3 p4]
    from IH consider s2 where "visit_all fuel t ds s1 = Some (Inr s2)" "search_ok t s1 s2" "set ds \<subseteq> coloured (dfs_color s2) 2"
      | e i where "visit_all fuel t ds s1 = Some (Inl e)" "(i, i) \<in> (depends t)\<^sup>+" by blast
    then show ?thesis
    proof cases
      case (1 s2)
      define s3 where "s3 = s2\<lparr> dfs_path := butlast (dfs_path s2), dfs_color := (dfs_color s2)[node := 2] \<rparr>"
      have run: "visit (Suc fuel) t node s = Some (Inr s3)"
        using white 1(1) by (simp add: s3_def s1_def ds_def)
      have len2: "length (dfs_color s2) = length (ot_physical t)" and ok2: "dfs_ok t (dfs_color s2)"
        using 1(2) by (simp_all add: search_ok_def dfs_ok_def)
      have node2: "node < length (dfs_color s2)" using len2 "2.prems"(3) by simp
      have grey2: "node \<in> coloured (dfs_color s2) 1" using 1(2) c1(1) by (simp add: search_ok_def)
      then have nb2: "node \<notin> coloured (dfs_color s2) 2" by (simp add: coloured_def)
      have c3: "coloured (dfs_color s3) 2 = insert node (coloured (dfs_color s2) 2)"
        "coloured (dfs_color s3) 1 = coloured (dfs_color s2) 1 - {node}"
        using node2 by (simp_all add: s3_def coloured_update)
      have white0: "node \<notin> coloured (dfs_color s) 1" using white by (simp add: coloured_def)
      have nocycle: "(node, node) \<notin> (depends t)\<^sup>+"
      proof
        assume "(node, node) \<in> (depends t)\<^sup>+"
        then obtain d where d: "(node, d) \<in> depends t" "d = node \<or> (d, node) \<in> (depends t)\<^sup>+"
          by (metis converse_tranclE)
        then have "d \<in> coloured (dfs_color s2) 2" using 1(3) by (auto simp: depends_def ds_def)
        with d(2) black_closed [OF ok2] nb2 show False by blast
      qed
      have "dfs_ok t (dfs_color s3)" unfolding dfs_ok_def c3(1)
        using ok2 len2 1(3) nocycle by (auto simp: dfs_ok_def s3_def depends_def ds_def)
      then have "search_ok t s s3"
        using 1(2) c1 c3 white0 by (auto simp: search_ok_def s3_def s1_def)
      with run c3(1) show ?thesis by blast
    next
      case (2 e i)
      then have "visit (Suc fuel) t node s = Some (Inl e)" using white by (simp add: s1_def ds_def)
      with 2 show ?thesis by blast
    qed
  qed
next
  case (3 fuel t s)
  then show ?case by (simp add: search_ok_def)
next
  case (4 fuel t d ds s)
  have d: "d < length (ot_physical t)" "\<forall>g\<in>coloured (dfs_color s) 1. (g, d) \<in> (depends t)\<^sup>+"
    using "4.prems"(3,4) by auto
  from "4.IH"(1) [OF "4.prems"(1,2) d "4.prems"(5)]
  consider s1 where "visit fuel t d s = Some (Inr s1)" "search_ok t s s1" "d \<in> coloured (dfs_color s1) 2"
    | e i where "visit fuel t d s = Some (Inl e)" "(i, i) \<in> (depends t)\<^sup>+" by blast
  then show ?case
  proof cases
    case (1 s1)
    have grey: "coloured (dfs_color s1) 1 = coloured (dfs_color s) 1" and sub: "coloured (dfs_color s) 2 \<subseteq> coloured (dfs_color s1) 2"
      and ok1: "dfs_ok t (dfs_color s1)" using 1(2) by (simp_all add: search_ok_def)
    have "whites (dfs_color s1) \<le> whites (dfs_color s)"
      using whites_mono [of "dfs_color s1" "dfs_color s"] ok1 "4.prems"(2) grey sub by (simp add: dfs_ok_def)
    with "4.prems"(5) have w: "whites (dfs_color s1) < fuel" by simp
    have p: "\<forall>d\<in>set ds. d < length (ot_physical t)" "\<forall>g\<in>coloured (dfs_color s1) 1. \<forall>d\<in>set ds. (g, d) \<in> (depends t)\<^sup>+"
      using "4.prems"(3,4) grey by auto
    from "4.IH"(2) [OF 1(1) refl "4.prems"(1) ok1 p w] show ?thesis
    proof
      assume "\<exists>s'. visit_all fuel t ds s1 = Some (Inr s') \<and> search_ok t s1 s' \<and> set ds \<subseteq> coloured (dfs_color s') 2"
      then obtain s2 where s2: "visit_all fuel t ds s1 = Some (Inr s2)" "search_ok t s1 s2" "set ds \<subseteq> coloured (dfs_color s2) 2"
        by blast
      moreover have "d \<in> coloured (dfs_color s2) 2" using 1(3) s2(2) by (auto simp: search_ok_def)
      ultimately show ?thesis using 1 search_ok_trans [OF 1(2) s2(2)] by auto
    qed (use 1 in auto)
  next
    case (2 e i)
    then show ?thesis by auto
  qed
qed


lemma visit_starts_spec:
  "in_range t \<Longrightarrow> dfs_ok t c \<Longrightarrow> coloured c 1 = {} \<Longrightarrow> (\<forall>i\<in>set starts. i < length (ot_physical t)) \<Longrightarrow>
     (visit_starts t starts c = Some (Inr ()) \<and> (\<forall>i\<in>set starts. (i, i) \<notin> (depends t)\<^sup>+))
     \<or> (\<exists>e i. visit_starts t starts c = Some (Inl e) \<and> (i, i) \<in> (depends t)\<^sup>+)"
proof (induction t starts c rule: visit_starts.induct)
  case (2 t start rest c)
  let ?s = "\<lparr> dfs_color = c, dfs_path = [] \<rparr>"
  have "whites c \<le> card {0..<length c}" unfolding whites_def by (rule card_mono) auto
  then have fuel: "whites (dfs_color ?s) < Suc (length (ot_physical t))"
    using "2.prems"(2) by (simp add: dfs_ok_def)
  have pre: "dfs_ok t (dfs_color ?s)" "start < length (ot_physical t)"
    "\<forall>g\<in>coloured (dfs_color ?s) 1. (g, start) \<in> (depends t)\<^sup>+" using "2.prems" by simp_all
  from visit_spec [OF "2.prems"(1) pre fuel]
  consider s' where "visit (Suc (length (ot_physical t))) t start ?s = Some (Inr s')" "search_ok t ?s s'"
      "start \<in> coloured (dfs_color s') 2"
    | e i where "visit (Suc (length (ot_physical t))) t start ?s = Some (Inl e)" "(i, i) \<in> (depends t)\<^sup>+" by blast
  then show ?case
  proof cases
    case (1 s')
    have ok: "dfs_ok t (dfs_color s')" "coloured (dfs_color s') 1 = {}"
      using 1(2) "2.prems"(3) by (simp_all add: search_ok_def)
    have start: "(start, start) \<notin> (depends t)\<^sup>+" using ok(1) 1(3) by (simp add: dfs_ok_def)
    have "\<forall>i\<in>set rest. i < length (ot_physical t)" using "2.prems"(4) by simp
    from "2.IH" [OF 1(1) refl "2.prems"(1) ok this] 1(1) start show ?thesis by auto
  next
    case (2 e i)
    then show ?thesis by auto
  qed
qed simp

lemma check_dense_iff:
  "check_dense n i ops = Inr () \<longleftrightarrow>
     (\<forall>k<length ops. po_index (ops ! k) = i + k \<and> (\<forall>d\<in>set (po_dependencies (ops ! k)). d < n))"
proof (induction n i ops rule: check_dense.induct)
  case (2 n i op ops)
  have split: "(\<forall>k<length (op # ops). P k) \<longleftrightarrow> P 0 \<and> (\<forall>k<length ops. P (Suc k))" for P
    by (auto simp: less_Suc_eq_0_disj)
  have "list_ex (\<lambda>d. d \<ge> n) (po_dependencies op) \<longleftrightarrow> \<not> (\<forall>d\<in>set (po_dependencies op). d < n)"
    by (auto simp: list_ex_iff not_less)
  with 2 show ?case unfolding split by simp
qed simp

lemma operation_validate_cases:
  "operation_validate t = Some (Inr ()) \<and> (\<forall>i<length (ot_physical t). po_index (ot_physical t ! i) = i)
      \<and> in_range t \<and> acyclic (depends t)
   \<or> (\<exists>e. operation_validate t = Some (Inl e))
      \<and> \<not> ((\<forall>i<length (ot_physical t). po_index (ot_physical t ! i) = i) \<and> in_range t \<and> acyclic (depends t))"
proof (cases "check_dense (length (ot_physical t)) 0 (ot_physical t)")
  case (Inl e)
  then have "check_dense (length (ot_physical t)) 0 (ot_physical t) \<noteq> Inr ()" by simp
  then have "\<not> ((\<forall>i<length (ot_physical t). po_index (ot_physical t ! i) = i) \<and> in_range t)"
    unfolding check_dense_iff by (auto simp: in_range_def)
  with Inl show ?thesis by (auto simp: operation_validate_def)
next
  case (Inr u)
  then have dense: "\<forall>i<length (ot_physical t). po_index (ot_physical t ! i) = i" and range: "in_range t"
    using check_dense_iff [of "length (ot_physical t)" 0 "ot_physical t"] by (auto simp: in_range_def)
  have run: "operation_validate t = visit_starts t [0..<length (ot_physical t)] (replicate (length (ot_physical t)) 0)"
    using Inr by (simp add: operation_validate_def Let_def)
  have "dfs_ok t (replicate (length (ot_physical t)) 0)" "coloured (replicate (length (ot_physical t)) 0) 1 = {}"
    "\<forall>i\<in>set [0..<length (ot_physical t)]. i < length (ot_physical t)"
    by (auto simp: dfs_ok_def coloured_def)
  from visit_starts_spec [OF range this] show ?thesis
  proof
    assume a: "visit_starts t [0..<length (ot_physical t)] (replicate (length (ot_physical t)) 0) = Some (Inr ())
      \<and> (\<forall>i\<in>set [0..<length (ot_physical t)]. (i, i) \<notin> (depends t)\<^sup>+)"
    have "(i, i) \<notin> (depends t)\<^sup>+" for i
    proof
      assume i: "(i, i) \<in> (depends t)\<^sup>+"
      then have "i < length (ot_physical t)" by (auto simp: depends_def dest: tranclD)
      with a i show False by simp
    qed
    with a run dense range show ?thesis by (simp add: acyclic_def)
  next
    assume "\<exists>e i. visit_starts t [0..<length (ot_physical t)] (replicate (length (ot_physical t)) 0) = Some (Inl e)
      \<and> (i, i) \<in> (depends t)\<^sup>+"
    with run show ?thesis by (auto simp: acyclic_def)
  qed
qed

text \<open>
  C12: the validation always returns, and it accepts exactly the
  tables whose indices are dense, whose dependencies are in range, and whose dependency graph
  has no cycle.  On every other table it returns an error.
\<close>

theorem operation_validate_exact:
  "\<exists>r. operation_validate t = Some r
     \<and> (r = Inr () \<longleftrightarrow> (\<forall>i<length (ot_physical t). po_index (ot_physical t ! i) = i)
          \<and> in_range t \<and> acyclic (depends t))"
  using operation_validate_cases [of t] by auto

definition demo_op :: "nat \<Rightarrow> nat list \<Rightarrow> physical_operation" where
  "demo_op i ds = \<lparr> po_index = i, po_logical_id = i, po_stable_id = ''op'', po_backend = BackendCpu,
     po_kernel = KDenseMulMat, po_input_slots = [], po_output_slots = [], po_dependencies = ds,
     po_dispatch = dispatch_default, po_source_tier = TRamMapped, po_destination_tier = TCpuHeap \<rparr>"

definition demo_table :: operation_table where
  "demo_table = operation_table_new\<lparr> ot_physical := [demo_op 0 [1], demo_op 1 [2], demo_op 2 [0]] \<rparr>"

lemma operation_validate_exact_witness: "\<exists>e. operation_validate demo_table = Some (Inl e)"
proof -
  have "(0, 1) \<in> depends demo_table" "(1, 2) \<in> depends demo_table" "(2, 0) \<in> depends demo_table"
    by (simp_all add: depends_def demo_table_def demo_op_def)
  then have "(0, 0) \<in> (depends demo_table)\<^sup>+" by (meson trancl.simps)
  then have "\<not> acyclic (depends demo_table)" by (auto simp: acyclic_def)
  with operation_validate_exact [of demo_table] show ?thesis by (metis old.unit.exhaust sum.exhaust)
qed

text \<open>A table whose operations depend only on earlier ones is accepted.\<close>

lemma backward_table_valid:
  assumes "\<And>i. i < length (ot_physical t) \<Longrightarrow>
      po_index (ot_physical t ! i) = i \<and> (\<forall>d\<in>set (po_dependencies (ot_physical t ! i)). d < i)"
  shows "operation_validate t = Some (Inr ())"
proof -
  have "depends t \<subseteq> {(i, d). d < i}" using assms by (auto simp: depends_def)
  moreover have "acyclic {(i, d :: nat). d < i}"
  proof -
    have "wf {(x, y :: nat). x < y}" by (rule wf_less)
    then have "acyclic ({(x, y :: nat). x < y}^-1)" by (simp add: wf_acyclic acyclic_converse)
    then show ?thesis by (simp add: converse_unfold)
  qed
  ultimately have "acyclic (depends t)" by (rule acyclic_subset [rotated])
  moreover have "in_range t" using assms by (force simp: in_range_def)
  ultimately show ?thesis using assms operation_validate_cases [of t] by auto
qed

end
