(* ===== verification/Execution_Plan.thy ===== *)
theory Execution_Plan
  imports Operation_Table
begin

text \<open>
  \<open>har-plan/src/lib.rs\<close> with the plan vocabulary of \<open>har-core/src/lib.rs\<close> and the model
  description of \<open>har-model/src/lib.rs\<close>: execution plans, their validation, the planner from a
  model phenotype, and the importer of compiled packages.  A parsed JSON document is a value
  of the type \<open>json\<close>; reading the file, hashing and the clock are arguments.
\<close>

subsection \<open>The plan vocabulary of \<open>har-core\<close>\<close>

datatype reason_code =
  FitsVram | ExceedsVramBudget | KernelUnavailable | DependencyClosureCpu | OutputConsumerCpu
| MtpReservedMemory | KvReservedMemory | StagingReservedMemory | HotnessPriority | UserPolicy
| ModelPackageImported

record transfer_plan =
  tp_id :: string
  tp_resource_id :: string
  tp_source :: memory_tier
  tp_destination :: memory_tier
  tp_bytes :: nat
  tp_alignment_bytes :: nat
  tp_staging_required :: bool
  tp_queue :: string
  tp_dependency :: "string option"

text \<open>The tolerance is an \<open>f64\<close> the code never computes with: its bit pattern.\<close>

record exactness_contract =
  ec_mode :: exactness_mode
  ec_output_hash_required :: bool
  ec_state_boundary_hash_required :: bool
  ec_numerical_tolerance :: "64 word"
  ec_authority :: string

definition exactness_default :: exactness_contract where
  "exactness_default = \<lparr> ec_mode = Exact, ec_output_hash_required = True,
     ec_state_boundary_hash_required = True, ec_numerical_tolerance = 0, ec_authority = ''native-rust'' \<rparr>"

record fallback_contract =
  fc_authority_backend :: backend_kind
  fc_on_unknown_capacity :: string
  fc_on_stale_generation :: string
  fc_on_kernel_unavailable :: string

definition fallback_default :: fallback_contract where
  "fallback_default = \<lparr> fc_authority_backend = BackendCpu, fc_on_unknown_capacity = ''reject_plan'',
     fc_on_stale_generation = ''fail_closed'', fc_on_kernel_unavailable = ''reject_plan'' \<rparr>"

record telemetry_contract =
  tc_schema :: string
  tc_record_residency :: bool
  tc_record_transfers :: bool
  tc_record_operation_hashes :: bool
  tc_timing_is_advisory :: bool

definition telemetry_default :: telemetry_contract where
  "telemetry_default = \<lparr> tc_schema = ''har.telemetry.v1'', tc_record_residency = True,
     tc_record_transfers = True, tc_record_operation_hashes = True, tc_timing_is_advisory = True \<rparr>"

record cpu_phenotype =
  cpu_model :: string
  cpu_architecture :: string
  cpu_logical_threads :: nat
  cpu_physical_cores :: nat
  cpu_simd_features :: "string list"

record gpu_phenotype =
  gpu_name :: string
  gpu_vendor :: string
  gpu_driver :: string
  gpu_api_version :: string
  gpu_rdna_generation :: string
  gpu_subgroup_size :: nat
  gpu_transfer_queue_count :: nat
  gpu_compute_queue_count :: nat
  gpu_vram_total_bytes :: nat
  gpu_safe_allocatable_vram_bytes :: nat
  gpu_supported_formats :: "string list"

record ram_phenotype =
  ram_total_bytes :: nat
  ram_available_bytes :: nat
  ram_pinned_limit_bytes :: nat

record storage_phenotype =
  sto_probe_path :: string
  sto_filesystem :: string
  sto_source :: string
  sto_device_model :: string
  sto_on_nvme :: bool
  sto_odirect_supported :: bool
  sto_required_alignment_bytes :: nat

record hardware_phenotype =
  hw_schema :: string
  hw_hostname :: string
  hw_kernel :: string
  hw_os_release :: string
  hw_cpu :: cpu_phenotype
  hw_gpu :: gpu_phenotype
  hw_ram :: ram_phenotype
  hw_storage :: storage_phenotype
  hw_capabilities :: capability_set

definition synthetic_capabilities :: "string list" where
  "synthetic_capabilities =
     [''vulkan'', ''q4_k'', ''q5_k'', ''q6_k'', ''q8_k'', ''subgroup_64'', ''dense_mul_mat'',
      ''quantized_mul_mat'', ''q4_k_matvec'', ''embedding_lookup'', ''normalization'', ''attention'',
      ''mtp_verify'', ''sampling'', ''copy'']"

definition synthetic_rdna4 :: hardware_phenotype where
  "synthetic_rdna4 = \<lparr>
     hw_schema = ''har.hardware_phenotype.v1'', hw_hostname = [], hw_kernel = [], hw_os_release = [],
     hw_cpu = \<lparr> cpu_model = [], cpu_architecture = ''x86_64'', cpu_logical_threads = 0,
       cpu_physical_cores = 0, cpu_simd_features = [] \<rparr>,
     hw_gpu = \<lparr> gpu_name = ''Vulkan RDNA4 reference device'', gpu_vendor = ''AMD'', gpu_driver = ''RADV'',
       gpu_api_version = ''Vulkan'', gpu_rdna_generation = ''RDNA4'', gpu_subgroup_size = 64,
       gpu_transfer_queue_count = 4, gpu_compute_queue_count = 1, gpu_vram_total_bytes = 16000000000,
       gpu_safe_allocatable_vram_bytes = 15000000000,
       gpu_supported_formats = [''Q4_K'', ''Q5_K'', ''Q6_K'', ''Q8_K''] \<rparr>,
     hw_ram = \<lparr> ram_total_bytes = 0, ram_available_bytes = 0, ram_pinned_limit_bytes = 0 \<rparr>,
     hw_storage = \<lparr> sto_probe_path = [], sto_filesystem = [], sto_source = [], sto_device_model = [],
       sto_on_nvme = True, sto_odirect_supported = False, sto_required_alignment_bytes = 4096 \<rparr>,
     hw_capabilities = foldl (\<lambda>c k. cap_insert k True c) [] synthetic_capabilities \<rparr>"

subsection \<open>The model description of \<open>har-model\<close>\<close>

record tensor_descriptor =
  td_interface :: string
  td_ordinal :: nat
  td_name :: string
  td_dimensions :: "nat list"
  td_ggml_type :: nat
  td_quantization :: quant_format
  td_element_count :: nat
  td_payload_bytes :: nat
  td_raw_span_bytes :: nat
  td_file_offset :: nat
  td_alignment_bytes :: nat
  td_layer :: "nat option"
  td_role :: tensor_role
  td_hotness :: nat
  td_is_weight :: bool
  td_is_mtp :: bool

text \<open>The fields of the model description that the planner reads.\<close>

record model_phenotype =
  mp_path :: string
  mp_sha256 :: "string option"
  mp_file_bytes :: nat
  mp_model_name :: string
  mp_nextn_predict_layers :: nat
  mp_tensors :: "tensor_descriptor list"

subsection \<open>Plans\<close>

record tensor_placement =
  pl_tensor_id :: string
  pl_tensor_name :: string
  pl_bytes :: nat
  pl_source_tier :: memory_tier
  pl_preferred_tier :: memory_tier
  pl_backend :: backend_kind
  pl_kernel :: kernel_kind
  pl_alignment_bytes :: nat
  pl_reasons :: "reason_code list"
  pl_dependency_closure :: "string list"
  pl_explanation :: string

record execution_plan =
  xp_schema :: string
  xp_plan_id :: string
  xp_plan_kind :: string
  xp_generated_at_unix_ns :: nat
  xp_model_identity :: string
  xp_model_sha256 :: string
  xp_hardware :: hardware_phenotype
  xp_target_context :: nat
  xp_kv_datatype :: string
  xp_mtp_enabled :: bool
  xp_quality_policy :: string
  xp_budget :: resource_budget
  xp_tensor_placements :: "tensor_placement list"
  xp_transfers :: "transfer_plan list"
  xp_operations :: operation_table
  xp_required_kernels :: "string list"
  xp_exactness :: exactness_contract
  xp_fallback :: fallback_contract
  xp_telemetry :: telemetry_contract
  xp_assumptions :: "string list"
  xp_unresolved_risks :: "string list"
  xp_source_model_package_schema :: "string option"
  xp_source_model_package_sha256 :: "string option"

record validation_report =
  vr_errors :: "string list"
  vr_warnings :: "string list"

definition is_valid :: "validation_report \<Rightarrow> bool" where
  "is_valid r \<longleftrightarrow> vr_errors r = []"

definition plan_schema :: string where "plan_schema = ''har.execution_plan.v1''"

text \<open>The loop over the placements, with the set of identifiers seen.\<close>

fun check_placements :: "string set \<Rightarrow> tensor_placement list \<Rightarrow> validation_report \<Rightarrow> validation_report" where
  "check_placements ids [] r = r"
| "check_placements ids (p # ps) r =
     (let r1 = (if pl_tensor_id p \<in> ids
                then r\<lparr> vr_errors := vr_errors r @ [''duplicate tensor placement '' @ pl_tensor_id p] \<rparr> else r);
          r2 = (if pl_bytes p = 0
                then r1\<lparr> vr_warnings := vr_warnings r1 @ [''zero-byte placement '' @ pl_tensor_id p] \<rparr> else r1)
      in check_placements (insert (pl_tensor_id p) ids) ps r2)"

definition operation_errors :: "capability_set \<Rightarrow> physical_operation \<Rightarrow> string list" where
  "operation_errors caps op =
     (if po_kernel op = KUnknown
      then [''operation '' @ po_stable_id op @ '' declares UNKNOWN kernel'']
      else
        (let capability = kernel_capability (po_kernel op) in
         if cap_supports caps capability then []
         else [po_stable_id op @ '' requires capability '' @ capability @
               '' that the hardware phenotype does not declare'']) @
        (if po_backend op = BackendVulkan \<and> \<not> cap_supports caps ''vulkan''
         then [po_stable_id op @ '' requires Vulkan backend but hardware has no vulkan capability'']
         else []))"

definition budget_errors :: "memory_budget \<Rightarrow> string list" where
  "budget_errors b =
     (let assigned = sat_add64 (mb_assigned_bytes b) (mb_reserved_bytes b) in
      if assigned > mb_capacity_bytes b
      then [''memory tier '' @ tier_str (mb_tier b) @ '' overcommitted: assigned+reserved '' @
            dec_digits assigned @ '' > capacity '' @ dec_digits (mb_capacity_bytes b)]
      else [])"

text \<open>
  \<open>ExecutionPlan::validate\<close>.  It returns when the validation of the operation table returns,
  which it always does (\<open>operation_validate_exact\<close>).
\<close>

definition plan_validate :: "execution_plan \<Rightarrow> validation_report option" where
  "plan_validate p = map_option (\<lambda>ops.
     let err = (\<lambda>es r. r\<lparr> vr_errors := vr_errors r @ es \<rparr>);
         warn = (\<lambda>ws r. r\<lparr> vr_warnings := vr_warnings r @ ws \<rparr>);
         r0 = \<lparr> vr_errors = [], vr_warnings = [] \<rparr>;
         r1 = err (if xp_schema p \<noteq> plan_schema then [''unsupported plan schema '' @ xp_schema p] else []) r0;
         r2 = err (if xp_plan_id p = [] then [''plan_id is empty''] else []) r1;
         r3 = err (if xp_model_identity p = [] then [''model identity is empty''] else []) r2;
         r4 = warn (if xp_model_sha256 p = [] then [''model_sha256 is empty; identity is not hash-bound''] else []) r3;
         r5 = check_placements {} (xp_tensor_placements p) r4;
         r6 = err (case ops of Inl e \<Rightarrow> [e] | Inr _ \<Rightarrow> []) r5;
         r7 = warn (if ot_physical (xp_operations p) = []
                    then [''plan has no physical operations; shape-only plan''] else []) r6;
         r8 = err (concat (map (operation_errors (hw_capabilities (xp_hardware p)))
                             (ot_physical (xp_operations p)))) r7;
         r9 = err (concat (map budget_errors (rb_tiers (xp_budget p)))) r8;
         r10 = warn (if sat_add64 (sat_add64 (sat_add64 (rb_kv_bytes (xp_budget p)) (rb_staging_bytes (xp_budget p)))
                           (rb_scratch_bytes (xp_budget p))) (rb_model_bytes (xp_budget p)) > 0
                         \<and> rb_tiers (xp_budget p) = []
                     then [''resource budget declares bytes but no tier capacities''] else []) r9;
         r11 = err (if ec_mode (xp_exactness p) = Approximate \<and> ec_output_hash_required (xp_exactness p)
                    then [''exactness contract is Approximate but output hash is required''] else []) r10;
         r12 = err (if fc_authority_backend (xp_fallback p) = BackendNone
                    then [''fallback contract has no authority backend''] else []) r11;
         r13 = warn (concat (map (\<lambda>t. if tp_bytes t = 0 then [''zero-byte transfer '' @ tp_id t] else [])
                               (xp_transfers p))) r12
     in warn (xp_unresolved_risks p) r13) (operation_validate (xp_operations p))"

definition ends_with :: "string \<Rightarrow> string \<Rightarrow> bool" where
  "ends_with s suffix \<longleftrightarrow> length suffix \<le> length s \<and> drop (length s - length suffix) s = suffix"

definition operation_for_tensor :: "execution_plan \<Rightarrow> string \<Rightarrow> physical_operation option" where
  "operation_for_tensor p name =
     find (\<lambda>op. po_stable_id op = name \<or> ends_with (po_stable_id op) name) (ot_physical (xp_operations p))"

subsection \<open>What a valid plan is\<close>

definition runnable_op :: "capability_set \<Rightarrow> physical_operation \<Rightarrow> bool" where
  "runnable_op caps op \<longleftrightarrow> po_kernel op \<noteq> KUnknown \<and> cap_supports caps (kernel_capability (po_kernel op))
     \<and> (po_backend op = BackendVulkan \<longrightarrow> cap_supports caps ''vulkan'')"

lemma operation_errors_none: "operation_errors caps op = [] \<longleftrightarrow> runnable_op caps op"
  by (auto simp: operation_errors_def runnable_op_def Let_def)

lemma budget_errors_none:
  "budget_errors b = [] \<longleftrightarrow> sat_add64 (mb_assigned_bytes b) (mb_reserved_bytes b) \<le> mb_capacity_bytes b"
  by (auto simp: budget_errors_def Let_def)

lemma check_placements_errors:
  "vr_errors (check_placements ids ps r) = [] \<longleftrightarrow>
     vr_errors r = [] \<and> distinct (map pl_tensor_id ps) \<and> ids \<inter> set (map pl_tensor_id ps) = {}"
  by (induction ids ps r rule: check_placements.induct) (auto simp: Let_def split: if_splits)

lemma plan_report:
  "\<exists>r. plan_validate p = Some r \<and> (is_valid r \<longleftrightarrow>
       xp_schema p = plan_schema \<and> xp_plan_id p \<noteq> [] \<and> xp_model_identity p \<noteq> []
     \<and> distinct (map pl_tensor_id (xp_tensor_placements p))
     \<and> operation_validate (xp_operations p) = Some (Inr ())
     \<and> (\<forall>op\<in>set (ot_physical (xp_operations p)). runnable_op (hw_capabilities (xp_hardware p)) op)
     \<and> (\<forall>b\<in>set (rb_tiers (xp_budget p)).
          sat_add64 (mb_assigned_bytes b) (mb_reserved_bytes b) \<le> mb_capacity_bytes b)
     \<and> \<not> (ec_mode (xp_exactness p) = Approximate \<and> ec_output_hash_required (xp_exactness p))
     \<and> fc_authority_backend (xp_fallback p) \<noteq> BackendNone)"
proof -
  obtain ops where ops: "operation_validate (xp_operations p) = Some ops"
    using operation_validate_cases [of "xp_operations p"] by auto
  have none: "concat (map f xs) = [] \<longleftrightarrow> (\<forall>x\<in>set xs. f x = [])" for f :: "'a \<Rightarrow> string list" and xs
    by auto
  have "ops = Inr () \<longleftrightarrow> (case ops of Inl e \<Rightarrow> [e] | Inr _ \<Rightarrow> []) = []" by (auto split: sum.splits)
  then show ?thesis unfolding plan_validate_def ops
    by (simp add: is_valid_def Let_def check_placements_errors none operation_errors_none budget_errors_none
        del: concat_eq_Nil_conv)
qed


subsection \<open>The planner\<close>

definition u32 :: "nat \<Rightarrow> nat" where "u32 n = n mod 2 ^ 32"

definition planned_tier :: "tensor_descriptor \<Rightarrow> memory_tier" where
  "planned_tier t =
     (if td_is_mtp t \<or> td_role t = Router \<or> td_role t = OutputProjection then TVramResident else TRamMapped)"

definition planned_backend :: "tensor_descriptor \<Rightarrow> backend_kind" where
  "planned_backend t = (if planned_tier t = TVramResident then BackendVulkan else BackendCpu)"

definition planned_kernel :: "tensor_descriptor \<Rightarrow> kernel_kind" where
  "planned_kernel t =
     (if td_ggml_type t = 12 then KQ4KMatVec
      else if is_quantized (td_quantization t) then KQuantizedMulMat
      else KDenseMulMat)"

definition planned_placement :: "tensor_descriptor \<Rightarrow> tensor_placement" where
  "planned_placement t =
     \<lparr> pl_tensor_id = td_name t, pl_tensor_name = td_name t, pl_bytes = td_payload_bytes t,
       pl_source_tier = TRamMapped, pl_preferred_tier = planned_tier t, pl_backend = planned_backend t,
       pl_kernel = planned_kernel t, pl_alignment_bytes = td_alignment_bytes t,
       pl_reasons = [ModelPackageImported], pl_dependency_closure = [td_name t],
       pl_explanation = ''Native Rust planner from model phenotype'' \<rparr>"

definition planned_transfer :: "nat \<Rightarrow> tensor_descriptor \<Rightarrow> transfer_plan list" where
  "planned_transfer i t =
     (if planned_tier t \<noteq> TRamMapped
      then [\<lparr> tp_id = ''transfer.'' @ dec_digits i, tp_resource_id = td_name t, tp_source = TRamMapped,
              tp_destination = planned_tier t, tp_bytes = td_payload_bytes t,
              tp_alignment_bytes = td_alignment_bytes t, tp_staging_required = True,
              tp_queue = ''transfer'', tp_dependency = None \<rparr>]
      else [])"

definition planned_op :: "nat \<Rightarrow> tensor_descriptor \<Rightarrow> physical_operation" where
  "planned_op i t =
     \<lparr> po_index = u32 i, po_logical_id = u32 i, po_stable_id = td_name t, po_backend = planned_backend t,
       po_kernel = planned_kernel t, po_input_slots = [], po_output_slots = [],
       po_dependencies = (if i = 0 then [] else [u32 (i - 1)]), po_dispatch = dispatch_default,
       po_source_tier = TRamMapped, po_destination_tier = planned_tier t \<rparr>"

definition with_index :: "(nat \<Rightarrow> 'a \<Rightarrow> 'b) \<Rightarrow> 'a list \<Rightarrow> 'b list" where
  "with_index f xs = map (\<lambda>(i, x). f i x) (List.enumerate 0 xs)"

definition compile_model_plan :: "nat \<Rightarrow> model_phenotype \<Rightarrow> hardware_phenotype \<Rightarrow> execution_plan" where
  "compile_model_plan now model hardware0 =
     (let placements = map planned_placement (mp_tensors model);
          transfers = concat (with_index planned_transfer (mp_tensors model));
          operations = operation_table_new\<lparr> ot_physical := with_index planned_op (mp_tensors model) \<rparr>;
          hardware = hardware0\<lparr> hw_storage := (hw_storage hardware0)\<lparr> sto_probe_path := mp_path model \<rparr> \<rparr>;
          assigned = foldl wadd64 0 (map pl_bytes (filter (\<lambda>x. pl_preferred_tier x = TVramResident) placements));
          budget = \<lparr> rb_tiers = [\<lparr> mb_tier = TVramResident,
                         mb_capacity_bytes = gpu_safe_allocatable_vram_bytes (hw_gpu hardware),
                         mb_reserved_bytes = 0, mb_assigned_bytes = assigned,
                         mb_reservation_basis = ''hardware phenotype'' \<rparr>],
                     rb_kv_bytes = 0, rb_staging_bytes = 0, rb_scratch_bytes = 0,
                     rb_model_bytes = mp_file_bytes model \<rparr>
      in \<lparr> xp_schema = plan_schema,
           xp_plan_id = ''native.'' @ (case mp_sha256 model of Some h \<Rightarrow> h | None \<Rightarrow> ''unhashed''),
           xp_plan_kind = ''native-rust-model-plan'', xp_generated_at_unix_ns = now,
           xp_model_identity = mp_model_name model,
           xp_model_sha256 = (case mp_sha256 model of Some h \<Rightarrow> h | None \<Rightarrow> []),
           xp_hardware = hardware, xp_target_context = 4096, xp_kv_datatype = ''f16'',
           xp_mtp_enabled = (0 < mp_nextn_predict_layers model), xp_quality_policy = ''exact-native-rust'',
           xp_budget = budget, xp_tensor_placements = placements, xp_transfers = transfers,
           xp_operations = operations, xp_required_kernels = [''q4_k_matvec''],
           xp_exactness = exactness_default, xp_fallback = fallback_default, xp_telemetry = telemetry_default,
           xp_assumptions = [''Plan is immutable after validation''], xp_unresolved_risks = [],
           xp_source_model_package_schema = None, xp_source_model_package_sha256 = None \<rparr>)"

lemma length_with_index [simp]: "length (with_index f xs) = length xs"
  by (simp add: with_index_def)

lemma nth_with_index [simp]: "i < length xs \<Longrightarrow> with_index f xs ! i = f i (xs ! i)"
  by (simp add: with_index_def nth_enumerate_eq)

text \<open>A table built as a chain, each operation depending on the one before, is accepted.\<close>

lemma chain_table_valid:
  assumes "length ops < 2 ^ 32" "ot_physical t = ops"
    and "\<And>i. i < length ops \<Longrightarrow> po_index (ops ! i) = u32 i
        \<and> po_dependencies (ops ! i) = (if i = 0 then [] else [u32 (i - 1)])"
  shows "operation_validate t = Some (Inr ())"
  by (rule backward_table_valid) (use assms in \<open>auto simp: u32_def\<close>)

lemma synthetic_supports:
  "cap_supports (hw_capabilities synthetic_rdna4) k \<longleftrightarrow> k \<in> set synthetic_capabilities"
proof -
  have "cap_supports (foldl (\<lambda>c k. cap_insert k True c) caps ks) k \<longleftrightarrow> k \<in> set ks \<or> cap_supports caps k" for ks caps
    by (induction ks arbitrary: caps) (auto simp: cap_supports_def cap_insert_def)
  then show ?thesis by (simp add: synthetic_rdna4_def cap_supports_def)
qed

lemma planned_op_runnable: "runnable_op (hw_capabilities synthetic_rdna4) (planned_op i t)"
  by (auto simp: runnable_op_def synthetic_supports planned_op_def planned_kernel_def synthetic_capabilities_def)

definition vram_bytes :: "model_phenotype \<Rightarrow> nat" where
  "vram_bytes m = sum_list (map td_payload_bytes (filter (\<lambda>t. planned_tier t = TVramResident) (mp_tensors m)))"

lemma foldl_wadd64: "foldl wadd64 (a mod 2 ^ 64) ns = (a + sum_list ns) mod 2 ^ 64"
  by (induction ns arbitrary: a) (simp_all add: wadd64_def mod_simps ac_simps)

text \<open>
  On the reference hardware the planner's output is a valid plan for
  every model that has a name and no two tensors of the same name, exactly when the tensors it
  pins to VRAM fit the device: schema, operations, kernels and contracts are never the reason
  for a rejection.
\<close>

theorem compiled_plan_validates:
  assumes "length (mp_tensors m) < 2 ^ 32" "vram_bytes m < 2 ^ 64"
  shows "\<exists>r. plan_validate (compile_model_plan now m synthetic_rdna4) = Some r \<and>
    (is_valid r \<longleftrightarrow> mp_model_name m \<noteq> [] \<and> distinct (map td_name (mp_tensors m)) \<and> vram_bytes m \<le> 15000000000)"
proof -
  let ?p = "compile_model_plan now m synthetic_rdna4"
  have ops: "ot_physical (xp_operations ?p) = with_index planned_op (mp_tensors m)"
    by (simp add: compile_model_plan_def Let_def)
  have v: "operation_validate (xp_operations ?p) = Some (Inr ())"
    by (rule chain_table_valid [OF _ ops]) (use assms(1) in \<open>simp_all add: planned_op_def\<close>)
  have run: "\<forall>op\<in>set (ot_physical (xp_operations ?p)). runnable_op (hw_capabilities (xp_hardware ?p)) op"
    unfolding ops by (auto simp: in_set_conv_nth compile_model_plan_def Let_def planned_op_runnable)
  have names: "map pl_tensor_id (xp_tensor_placements ?p) = map td_name (mp_tensors m)"
    by (simp add: compile_model_plan_def Let_def planned_placement_def)
  have "foldl wadd64 0 (map pl_bytes (filter (\<lambda>x. pl_preferred_tier x = TVramResident) (map planned_placement (mp_tensors m))))
      = vram_bytes m"
    using foldl_wadd64 [of 0 "map td_payload_bytes (filter (\<lambda>t. planned_tier t = TVramResident) (mp_tensors m))"] assms(2)
    by (simp add: vram_bytes_def filter_map comp_def planned_placement_def)
  then have fit: "(\<forall>b\<in>set (rb_tiers (xp_budget ?p)). sat_add64 (mb_assigned_bytes b) (mb_reserved_bytes b) \<le> mb_capacity_bytes b)
      \<longleftrightarrow> vram_bytes m \<le> 15000000000"
    using assms(2) by (simp add: compile_model_plan_def Let_def synthetic_rdna4_def sat_add64_exact u64_max_def)
  have rest: "xp_schema ?p = plan_schema" "xp_plan_id ?p \<noteq> []" "xp_model_identity ?p = mp_model_name m"
    "xp_exactness ?p = exactness_default" "xp_fallback ?p = fallback_default"
    by (simp_all add: compile_model_plan_def Let_def)
  show ?thesis using plan_report [of ?p] run fit rest(2)
    unfolding names v rest by (auto simp: exactness_default_def fallback_default_def)
qed

definition demo_tensor :: tensor_descriptor where
  "demo_tensor = \<lparr> td_interface = ''har.tensor_descriptor.v1'', td_ordinal = 0, td_name = ''output.weight'',
     td_dimensions = [32], td_ggml_type = 12, td_quantization = Q4K, td_element_count = 32,
     td_payload_bytes = 18, td_raw_span_bytes = 32, td_file_offset = 0, td_alignment_bytes = 32,
     td_layer = None, td_role = OutputProjection, td_hotness = 1, td_is_weight = True, td_is_mtp = False \<rparr>"

definition demo_model :: model_phenotype where
  "demo_model = \<lparr> mp_path = ''m.gguf'', mp_sha256 = None, mp_file_bytes = 64, mp_model_name = ''m'',
     mp_nextn_predict_layers = 0, mp_tensors = [demo_tensor] \<rparr>"


lemma compiled_plan_validates_witness:
  "\<exists>r. plan_validate (compile_model_plan 0 demo_model synthetic_rdna4) = Some r \<and> is_valid r"
proof -
  have "vram_bytes demo_model = 18" by (simp add: vram_bytes_def demo_model_def planned_tier_def demo_tensor_def)
  then show ?thesis using compiled_plan_validates [of demo_model 0] by (auto simp: demo_model_def)
qed

end
