(* ===== verification/Plan_Import.thy ===== *)
theory Plan_Import
  imports Execution_Plan
begin

text \<open>
  \<open>parse_model_package\<close> of \<open>har-plan/src/lib.rs\<close>: the importer of compiled packages.  Its input
  is a parsed JSON object.  Numbers are kept as \<open>serde_json\<close> keeps them, unsigned, negative or
  floating, a finite float being an integer times a power of two.
\<close>

datatype json =
  JNull
| JBool bool
| JUInt nat
| JNegInt int
| JFloat int int
| JString string
| JArray "json list"
| JObject "(string \<times> json) list"

type_synonym json_map = "(string \<times> json) list"

fun as_object :: "json \<Rightarrow> json_map option" where
  "as_object (JObject m) = Some m" | "as_object _ = None"

fun as_array :: "json \<Rightarrow> json list option" where
  "as_array (JArray xs) = Some xs" | "as_array _ = None"

fun as_str :: "json \<Rightarrow> string option" where
  "as_str (JString s) = Some s" | "as_str _ = None"

fun as_bool :: "json \<Rightarrow> bool option" where
  "as_bool (JBool b) = Some b" | "as_bool _ = None"

fun as_u64 :: "json \<Rightarrow> nat option" where
  "as_u64 (JUInt n) = Some n" | "as_u64 _ = None"

text \<open>\<open>as_f64\<close> followed by the saturating, truncating cast to \<open>u64\<close>.\<close>

fun f64_as_u64 :: "int \<Rightarrow> int \<Rightarrow> nat" where
  "f64_as_u64 m e =
     (if m \<le> 0 then 0
      else min (if 0 \<le> e then nat m * 2 ^ nat e else nat m div 2 ^ nat (- e)) u64_max)"

fun float_as_u64 :: "json \<Rightarrow> nat option" where
  "float_as_u64 (JUInt n) = Some n"
| "float_as_u64 (JNegInt _) = Some 0"
| "float_as_u64 (JFloat m e) = Some (f64_as_u64 m e)"
| "float_as_u64 _ = None"

definition or_else :: "'a option \<Rightarrow> 'a option \<Rightarrow> 'a option" where
  "or_else x y = (case x of Some _ \<Rightarrow> x | None \<Rightarrow> y)"

definition unwrap_or :: "'a \<Rightarrow> 'a option \<Rightarrow> 'a" where
  "unwrap_or d x = (case x of Some v \<Rightarrow> v | None \<Rightarrow> d)"

definition json_string :: "json_map \<Rightarrow> string \<Rightarrow> string option" where
  "json_string m key = Option.bind (bget m key) as_str"

definition u64_value :: "json_map \<Rightarrow> string \<Rightarrow> nat option" where
  "u64_value m key = or_else (Option.bind (bget m key) as_u64) (Option.bind (bget m key) float_as_u64)"

definition parse_tier :: "string \<Rightarrow> memory_tier" where
  "parse_tier value = (let l = ascii_lower value in
     if l \<in> {''nvme'', ''nvme_cold'', ''expert_sidecar''} then TNvmeCold
     else if l \<in> {''ram'', ''ram_mapped'', ''model'', ''metadata''} then TRamMapped
     else if l = ''ram_pinned'' then TRamPinned
     else if l \<in> {''vram'', ''vram_resident''} then TVramResident
     else if l = ''vram_slot'' then TVramSlot
     else if l = ''scratch'' then TReconstructionScratch
     else TRamMapped)"

definition kernel_from_format :: "string \<Rightarrow> kernel_kind" where
  "kernel_from_format value =
     (let hint = kernel_hint (quant_from_gguf_name value) in
      if hint \<noteq> KUnknown then hint
      else let lower = ascii_lower value in
        if str_contains ''router'' lower then KSampling
        else if str_contains ''mtp'' lower then KMtpVerify
        else if str_contains ''q'' lower then KQuantizedMulMat
        else KDenseMulMat)"

definition parse_hardware :: "json option \<Rightarrow> hardware_phenotype" where
  "parse_hardware value =
     (case Option.bind value as_object of
        None \<Rightarrow> synthetic_rdna4
      | Some m \<Rightarrow>
          let h0 = synthetic_rdna4;
              h1 = (case json_string m ''hardware_id'' of
                      Some i \<Rightarrow> h0\<lparr> hw_schema := ''har.hardware_phenotype.v1:'' @ i \<rparr> | None \<Rightarrow> h0);
              h2 = (case json_string m ''gpu_arch'' of
                      Some a \<Rightarrow> h1\<lparr> hw_gpu := (hw_gpu h1)\<lparr> gpu_rdna_generation := a \<rparr> \<rparr> | None \<Rightarrow> h1);
              h3 = (case u64_value m ''vram_bytes'' of
                      Some v \<Rightarrow> h2\<lparr> hw_gpu := (hw_gpu h2)\<lparr> gpu_vram_total_bytes := v \<rparr> \<rparr> | None \<Rightarrow> h2);
              h4 = (case u64_value m ''vram_bytes'' of
                      Some v \<Rightarrow> h3\<lparr> hw_gpu := (hw_gpu h3)\<lparr> gpu_safe_allocatable_vram_bytes := v \<rparr> \<rparr> | None \<Rightarrow> h3)
          in h4)"

definition tier_budget :: "memory_tier \<Rightarrow> nat \<Rightarrow> string \<Rightarrow> memory_budget" where
  "tier_budget tier capacity basis =
     \<lparr> mb_tier = tier, mb_capacity_bytes = capacity, mb_reserved_bytes = 0, mb_assigned_bytes = 0,
       mb_reservation_basis = basis \<rparr>"

definition parse_budget :: "json option \<Rightarrow> hardware_phenotype \<Rightarrow> resource_budget" where
  "parse_budget value hardware =
     (let first = tier_budget TVramResident (gpu_safe_allocatable_vram_bytes (hw_gpu hardware))
                    ''imported hardware profile'';
          rest = (case Option.bind (Option.bind (Option.bind value as_object) (\<lambda>x. bget x ''tiers'')) as_object of
                    None \<Rightarrow> []
                  | Some m \<Rightarrow> concat (map (\<lambda>(tier, bytes). case as_u64 bytes of
                        Some v \<Rightarrow> [tier_budget (parse_tier tier) v ''plan importer storage_plan'']
                      | None \<Rightarrow> []) m))
      in \<lparr> rb_tiers = first # rest, rb_kv_bytes = 0, rb_staging_bytes = 0, rb_scratch_bytes = 0,
           rb_model_bytes = 0 \<rparr>)"

subsection \<open>One tensor\<close>

definition in_vram :: "memory_tier \<Rightarrow> bool" where
  "in_vram t \<longleftrightarrow> t = TVramResident \<or> t = TVramSlot"

definition tensor_id_of :: "nat \<Rightarrow> json_map \<Rightarrow> string" where
  "tensor_id_of index m =
     unwrap_or (''tensor.'' @ dec_digits index) (or_else (json_string m ''tensor_id'') (json_string m ''name''))"

definition preferred_of :: "json_map \<Rightarrow> memory_tier" where
  "preferred_of m = parse_tier (unwrap_or ''ram'' (or_else (json_string m ''planned_memory_tier'') (json_string m ''memory_tier'')))"

definition source_of :: "json_map \<Rightarrow> memory_tier" where
  "source_of m = parse_tier (unwrap_or ''model'' (json_string m ''storage_location''))"

definition kernel_of :: "json_map \<Rightarrow> kernel_kind" where
  "kernel_of m =
     (let quant = unwrap_or ''unknown'' (or_else (json_string m ''quant_format'') (json_string m ''quantization''))
      in kernel_from_format (unwrap_or quant (json_string m ''supported_kernels'')))"

definition import_placement :: "backend_kind \<Rightarrow> nat \<Rightarrow> json_map \<Rightarrow> tensor_placement" where
  "import_placement backend index m =
     (let i = tensor_id_of index m in
      \<lparr> pl_tensor_id = i, pl_tensor_name = unwrap_or i (json_string m ''name''),
        pl_bytes = unwrap_or 0 (or_else (u64_value m ''bytes'') (u64_value m ''payload_bytes'')),
        pl_source_tier = source_of m, pl_preferred_tier = preferred_of m, pl_backend = backend,
        pl_kernel = kernel_of m,
        pl_alignment_bytes = unwrap_or 256 (or_else (u64_value m ''alignment'') (u64_value m ''alignment_bytes'')),
        pl_reasons = [ModelPackageImported] @ (if in_vram (preferred_of m) then [FitsVram] else []),
        pl_dependency_closure = [i],
        pl_explanation = ''Imported from plan importer compiled package; runtime does not infer missing policy'' \<rparr>)"

definition import_transfer :: "nat \<Rightarrow> tensor_placement \<Rightarrow> transfer_plan list" where
  "import_transfer index p =
     (if pl_source_tier p \<noteq> pl_preferred_tier p
      then [\<lparr> tp_id = ''transfer.'' @ dec_digits index, tp_resource_id = pl_tensor_id p,
              tp_source = pl_source_tier p, tp_destination = pl_preferred_tier p, tp_bytes = pl_bytes p,
              tp_alignment_bytes = pl_alignment_bytes p, tp_staging_required = in_vram (pl_preferred_tier p),
              tp_queue = (if in_vram (pl_preferred_tier p) then ''transfer'' else ''host''),
              tp_dependency = None \<rparr>]
      else [])"

definition import_op :: "nat \<Rightarrow> tensor_placement \<Rightarrow> physical_operation" where
  "import_op n p =
     \<lparr> po_index = u32 n, po_logical_id = u32 n, po_stable_id = pl_tensor_name p, po_backend = pl_backend p,
       po_kernel = pl_kernel p, po_input_slots = [], po_output_slots = [],
       po_dependencies = (if n = 0 then [] else [u32 (n - 1)]),
       po_dispatch = \<lparr> ds_x = 1, ds_y = 1, ds_z = 1, ds_workgroup_x = 64, ds_workgroup_y = 1, ds_workgroup_z = 1 \<rparr>,
       po_source_tier = pl_source_tier p, po_destination_tier = pl_preferred_tier p \<rparr>"

text \<open>The loop over the tensors; the physical operations count the iterations.\<close>

record imported =
  im_placements :: "tensor_placement list"
  im_transfers :: "transfer_plan list"
  im_physical :: "physical_operation list"

fun import_tensors :: "backend_kind \<Rightarrow> nat \<Rightarrow> json list \<Rightarrow> imported \<Rightarrow> har_error + imported" where
  "import_tensors backend index [] s = Inr s"
| "import_tensors backend index (tensor # rest) s =
     (case as_object tensor of
        None \<Rightarrow> Inl (HarInvalid ''plan importer tensor''
                 (''tensor '' @ dec_digits index @ '' is not an object''))
      | Some m \<Rightarrow>
          let p = import_placement backend index m in
          import_tensors backend (Suc index) rest
            (s\<lparr> im_placements := im_placements s @ [p],
                im_transfers := im_transfers s @ import_transfer index p,
                im_physical := im_physical s @ [import_op (length (im_physical s)) p] \<rparr>))"

definition json_strings :: "json option \<Rightarrow> string list" where
  "json_strings v = (case Option.bind v as_array of None \<Rightarrow> [] | Some xs \<Rightarrow> List.map_filter as_str xs)"

definition kv_datatypes :: "string list" where
  "kv_datatypes = [''f16'', ''f32'', ''bf16'', ''q8_0'', ''q4_0'', ''q4_k'', ''q8_k'']"

text \<open>\<open>format!("{:?}")\<close> of a string, with the escapes of the ASCII control characters.\<close>

definition debug_char :: "char \<Rightarrow> string" where
  "debug_char c = (let n = of_char c :: nat in
     if n = 9 then [CHR 0x5C, CHR ''t''] else if n = 13 then [CHR 0x5C, CHR ''r'']
     else if n = 10 then [CHR 0x5C, CHR ''n''] else if n = 0 then [CHR 0x5C, CHR ''0'']
     else if n = 34 \<or> n = 92 then [CHR 0x5C, c]
     else if n < 32 \<or> n = 127
     then [CHR 0x5C] @ ''u{'' @ (if n < 16 then [hex_digit n] else [hex_digit (n div 16), hex_digit (n mod 16)]) @ ''}''
     else [c])"

definition debug_str :: "string \<Rightarrow> string" where
  "debug_str s = [CHR 0x22] @ concat (map debug_char s) @ [CHR 0x22]"

text \<open>The plan assembled at the end, from the parts computed before.\<close>

definition package_plan ::
  "nat \<Rightarrow> json_map \<Rightarrow> string \<Rightarrow> string \<Rightarrow> hardware_phenotype \<Rightarrow> imported \<Rightarrow> (string \<Rightarrow> json option) \<Rightarrow> nat \<Rightarrow> string
     \<Rightarrow> execution_plan" where
  "package_plan now root source_schema source_sha256 hardware im field target_context kv = \<lparr>
     xp_schema = plan_schema, xp_plan_id = ''model-package.'' @ take 16 source_sha256,
     xp_plan_kind = ''model-package-import'', xp_generated_at_unix_ns = now,
     xp_model_identity = unwrap_or ''unknown-model''
       (or_else (json_string root ''model_identity'') (json_string root ''model_id'')),
     xp_model_sha256 = unwrap_or []
       (or_else (json_string root ''source_model_sha256'') (json_string root ''model_sha256'')),
     xp_hardware = hardware, xp_target_context = target_context, xp_kv_datatype = kv,
     xp_mtp_enabled = unwrap_or True (Option.bind (field ''mtp_enabled'') as_bool),
     xp_quality_policy = unwrap_or ''model-package-import'' (json_string root ''compiler''),
     xp_budget = parse_budget (bget root ''storage_plan'') hardware,
     xp_tensor_placements = im_placements im, xp_transfers = im_transfers im,
     xp_operations = operation_table_new\<lparr> ot_physical := im_physical im \<rparr>,
     xp_required_kernels = json_strings (bget root ''required_kernels''),
     xp_exactness = exactness_default, xp_fallback = fallback_default, xp_telemetry = telemetry_default,
     xp_assumptions =
       [''plan importer package was imported as data; no source code is executed'',
        (if field ''context_length'' \<noteq> None
         then ''context_length='' @ dec_digits target_context @ '' honored from plan runtime_config''
         else ''runtime_config absent; loader default target_context=4096 applied explicitly (no silent mutation)''),
        (if field ''kv_datatype'' \<noteq> None
         then ''kv_datatype='' @ kv @ '' honored from plan runtime_config''
         else ''runtime_config absent; loader default kv_datatype=f16 applied explicitly (no silent mutation)'')],
     xp_unresolved_risks = json_strings (bget root ''unresolved_risks''),
     xp_source_model_package_schema = Some source_schema,
     xp_source_model_package_sha256 = Some source_sha256 \<rparr>"

definition runtime_field :: "json_map \<Rightarrow> string \<Rightarrow> json option" where
  "runtime_field root key =
     Option.bind (Option.bind (bget root ''runtime_config'') as_object) (\<lambda>m. bget m key)"

definition target_context_of :: "json_map \<Rightarrow> nat" where
  "target_context_of root =
     unwrap_or 4096 (map_option u32 (Option.bind (runtime_field root ''context_length'') as_u64))"

definition kv_datatype_of :: "json_map \<Rightarrow> string" where
  "kv_datatype_of root = ascii_lower (unwrap_or ''f16'' (Option.bind (runtime_field root ''kv_datatype'') as_str))"

definition import_package_tensors :: "json_map \<Rightarrow> hardware_phenotype \<Rightarrow> har_error + imported" where
  "import_package_tensors root hardware =
     import_tensors (if gpu_name (hw_gpu hardware) = [] then BackendCpu else BackendVulkan) 0
       (unwrap_or [] (Option.bind (bget root ''tensors'') as_array))
       \<lparr> im_placements = [], im_transfers = [], im_physical = [] \<rparr>"

definition parse_model_package ::
  "nat \<Rightarrow> json_map \<Rightarrow> string \<Rightarrow> string \<Rightarrow> har_error + execution_plan" where
  "parse_model_package now root source_schema source_sha256 =
     (let hardware = parse_hardware (bget root ''hardware'') in
      case import_package_tensors root hardware of
        Inl e \<Rightarrow> Inl e
      | Inr im \<Rightarrow>
        let target_context = target_context_of root; kv = kv_datatype_of root in
        if target_context = 0
        then Inl (HarInvalid ''runtime_config.context_length''
               ''context_length=0 is invalid; the loader never applies a zero default'')
        else if kv \<notin> set kv_datatypes
        then Inl (HarInvalid ''runtime_config.kv_datatype'' (''unsupported kv_datatype '' @ debug_str kv @
               ''; must be one of f16/f32/bf16/q8_0/q4_0/q4_k/q8_k''))
        else Inr (package_plan now root source_schema source_sha256 hardware im (runtime_field root)
                    target_context kv))"

subsection \<open>What the importer guarantees\<close>

lemma kernel_from_format_known: "kernel_from_format v \<notin> {KUnknown, KEmbeddingLookup, KNormalization, KAttention, KCopy}"
  unfolding kernel_from_format_def by (cases "quant_from_gguf_name v") (simp_all add: Let_def)

lemma hardware_capabilities: "hw_capabilities (parse_hardware v) = hw_capabilities synthetic_rdna4"
  by (simp add: parse_hardware_def Let_def split: option.splits)

definition import_ok :: "imported \<Rightarrow> bool" where
  "import_ok s \<longleftrightarrow> im_physical s = with_index import_op (im_placements s)
     \<and> (\<forall>p\<in>set (im_placements s). pl_kernel p \<notin> {KUnknown, KEmbeddingLookup, KNormalization, KAttention, KCopy})
     \<and> (\<forall>t\<in>set (im_transfers s). tp_source t \<noteq> tp_destination t
          \<and> (\<exists>p\<in>set (im_placements s). tp_resource_id t = pl_tensor_id p \<and> tp_bytes t = pl_bytes p
              \<and> tp_source t = pl_source_tier p \<and> tp_destination t = pl_preferred_tier p))"

lemma set_with_indexE:
  assumes "x \<in> set (with_index f xs)"
  obtains i y where "y \<in> set xs" "x = f i y"
proof -
  obtain i where "i < length xs" "x = f i (xs ! i)" using assms by (auto simp: with_index_def in_set_enumerate_eq)
  then show thesis using that [of "xs ! i" i] nth_mem by blast
qed

lemma with_index_snoc: "with_index f (xs @ [x]) = with_index f xs @ [f (length xs) x]"
  by (simp add: with_index_def enumerate_append_eq)

lemma import_tensors_ok:
  "import_tensors backend index ts s = Inr s' \<Longrightarrow> import_ok s \<Longrightarrow>
     import_ok s' \<and> length (im_placements s') = length (im_placements s) + length ts"
proof (induction backend index ts s rule: import_tensors.induct)
  case (2 backend index tensor rest s)
  from "2.prems"(1) obtain m where m: "as_object tensor = Some m" by (auto split: option.splits)
  define p where "p = import_placement backend index m"
  define s1 where "s1 = s\<lparr> im_placements := im_placements s @ [p],
                im_transfers := im_transfers s @ import_transfer index p,
                im_physical := im_physical s @ [import_op (length (im_physical s)) p] \<rparr>"
  have run: "import_tensors backend (Suc index) rest s1 = Inr s'"
    using "2.prems"(1) m by (simp add: s1_def p_def Let_def)
  have "pl_kernel p \<notin> {KUnknown, KEmbeddingLookup, KNormalization, KAttention, KCopy}"
    unfolding p_def import_placement_def Let_def kernel_of_def by (simp only: tensor_placement.select_convs kernel_from_format_known) simp
  moreover have "im_physical s1 = with_index import_op (im_placements s1)"
    using "2.prems"(2) by (simp add: s1_def import_ok_def with_index_snoc)
  moreover have "t \<in> set (import_transfer index p) \<Longrightarrow> tp_source t \<noteq> tp_destination t \<and> tp_resource_id t = pl_tensor_id p
      \<and> tp_bytes t = pl_bytes p \<and> tp_source t = pl_source_tier p \<and> tp_destination t = pl_preferred_tier p" for t
    by (auto simp: import_transfer_def split: if_splits)
  ultimately have "import_ok s1" using "2.prems"(2) by (auto simp: import_ok_def s1_def)
  with "2.IH" [OF m p_def, folded s1_def, OF run] show ?case by (simp add: s1_def)
qed simp

lemma parse_model_package_Inr:
  assumes "parse_model_package now root schema sha = Inr p"
  obtains im where "import_ok im" "length (im_placements im) = length (unwrap_or [] (Option.bind (bget root ''tensors'') as_array))"
    "xp_tensor_placements p = im_placements im" "xp_transfers p = im_transfers im"
    "xp_operations p = operation_table_new\<lparr> ot_physical := im_physical im \<rparr>"
    "xp_hardware p = parse_hardware (bget root ''hardware'')"
    "xp_budget p = parse_budget (bget root ''storage_plan'') (xp_hardware p)"
    "xp_schema p = plan_schema" "xp_plan_id p \<noteq> []" "xp_exactness p = exactness_default"
    "xp_fallback p = fallback_default" "xp_target_context p \<noteq> 0" "xp_target_context p < 2 ^ 32"
    "xp_kv_datatype p \<in> set kv_datatypes"
proof -
  let ?hw = "parse_hardware (bget root ''hardware'')"
  obtain im where im: "import_package_tensors root ?hw = Inr im"
    and ctx: "target_context_of root \<noteq> 0" "kv_datatype_of root \<in> set kv_datatypes"
    and p: "p = package_plan now root schema sha ?hw im (runtime_field root) (target_context_of root) (kv_datatype_of root)"
    using assms by (auto simp: parse_model_package_def Let_def split: sum.splits if_splits)
  have "import_ok \<lparr> im_placements = [], im_transfers = [], im_physical = [] \<rparr>" by (simp add: import_ok_def with_index_def)
  from import_tensors_ok [OF im [unfolded import_package_tensors_def] this]
  have ok: "import_ok im" "length (im_placements im) = length (unwrap_or [] (Option.bind (bget root ''tensors'') as_array))"
    by simp_all
  have "target_context_of root < 2 ^ 32"
    by (auto simp: target_context_of_def unwrap_or_def u32_def split: option.splits)
  with ctx show thesis by (intro that [OF ok]) (simp_all add: p package_plan_def)
qed

text \<open>
  Every package the importer accepts gives a well-formed plan, whatever
  the JSON holds: one placement and one operation per tensor, in order and with a known kernel,
  the operations a dependency chain that validates, every transfer moving a placed tensor from
  where it is to where it is wanted, a context of 1 to \<open>2^32 - 1\<close> and a supported KV datatype.
\<close>

theorem imported_plan_well_formed:
  assumes "parse_model_package now root schema sha = Inr p"
    and "length (unwrap_or [] (Option.bind (bget root ''tensors'') as_array)) < 2 ^ 32"
  shows "operation_validate (xp_operations p) = Some (Inr ())
    \<and> ot_physical (xp_operations p) = with_index import_op (xp_tensor_placements p)
    \<and> (\<forall>op\<in>set (ot_physical (xp_operations p)). po_kernel op \<noteq> KUnknown)
    \<and> (\<forall>t\<in>set (xp_transfers p). tp_source t \<noteq> tp_destination t
         \<and> (\<exists>q\<in>set (xp_tensor_placements p). tp_resource_id t = pl_tensor_id q \<and> tp_bytes t = pl_bytes q
              \<and> tp_source t = pl_source_tier q \<and> tp_destination t = pl_preferred_tier q))
    \<and> 0 < xp_target_context p \<and> xp_target_context p < 2 ^ 32 \<and> xp_kv_datatype p \<in> set kv_datatypes"
proof -
  from assms(1) obtain im where im: "import_ok im"
    "length (im_placements im) = length (unwrap_or [] (Option.bind (bget root ''tensors'') as_array))"
    "xp_tensor_placements p = im_placements im" "xp_transfers p = im_transfers im"
    "xp_operations p = operation_table_new\<lparr> ot_physical := im_physical im \<rparr>"
    "xp_target_context p \<noteq> 0" "xp_target_context p < 2 ^ 32" "xp_kv_datatype p \<in> set kv_datatypes"
    by (rule parse_model_package_Inr)
  have ops: "ot_physical (xp_operations p) = with_index import_op (im_placements im)"
    using im(1,5) by (simp add: import_ok_def)
  have "operation_validate (xp_operations p) = Some (Inr ())"
    by (rule chain_table_valid [OF _ ops]) (use assms(2) im(2) in \<open>simp_all add: import_op_def\<close>)
  moreover have "\<forall>op\<in>set (ot_physical (xp_operations p)). po_kernel op \<noteq> KUnknown"
    unfolding ops using im(1) by (auto simp: import_ok_def import_op_def elim!: set_with_indexE)
  ultimately show ?thesis using im ops by (auto simp: import_ok_def)
qed

text \<open>
  Such a plan is valid exactly when it names a model and places no tensor
  twice.  In particular the memory budget is never the reason of a rejection: the importer
  leaves the assigned bytes of every tier at zero, whatever the tensors occupy.
\<close>

theorem imported_plan_validates:
  assumes "parse_model_package now root schema sha = Inr p"
    and "length (unwrap_or [] (Option.bind (bget root ''tensors'') as_array)) < 2 ^ 32"
  shows "\<exists>r. plan_validate p = Some r \<and> (is_valid r \<longleftrightarrow>
    xp_model_identity p \<noteq> [] \<and> distinct (map pl_tensor_id (xp_tensor_placements p)))"
proof -
  from assms(1) obtain im where im: "import_ok im"
    "length (im_placements im) = length (unwrap_or [] (Option.bind (bget root ''tensors'') as_array))"
    "xp_tensor_placements p = im_placements im"
    "xp_operations p = operation_table_new\<lparr> ot_physical := im_physical im \<rparr>"
    "xp_hardware p = parse_hardware (bget root ''hardware'')"
    "xp_budget p = parse_budget (bget root ''storage_plan'') (xp_hardware p)"
    "xp_schema p = plan_schema" "xp_plan_id p \<noteq> []" "xp_exactness p = exactness_default"
    "xp_fallback p = fallback_default"
    by (rule parse_model_package_Inr)
  have ops: "ot_physical (xp_operations p) = with_index import_op (im_placements im)"
    using im(1,4) by (simp add: import_ok_def)
  have v: "operation_validate (xp_operations p) = Some (Inr ())"
    by (rule chain_table_valid [OF _ ops]) (use assms(2) im(2) in \<open>simp_all add: import_op_def\<close>)
  have caps: "hw_capabilities (xp_hardware p) = hw_capabilities synthetic_rdna4"
    by (simp add: im(5) hardware_capabilities)
  have "runnable_op (hw_capabilities synthetic_rdna4) (import_op n q)"
    if "pl_kernel q \<notin> {KUnknown, KEmbeddingLookup, KNormalization, KAttention, KCopy}" for n q
    using that by (cases "pl_kernel q")
      (auto simp: runnable_op_def synthetic_supports import_op_def synthetic_capabilities_def)
  then have run: "\<forall>op\<in>set (ot_physical (xp_operations p)). runnable_op (hw_capabilities (xp_hardware p)) op"
    unfolding ops caps using im(1) by (fastforce simp: import_ok_def elim!: set_with_indexE)
  have "mb_assigned_bytes b = 0 \<and> mb_reserved_bytes b = 0" if "b \<in> set (rb_tiers (xp_budget p))" for b
    using that by (auto simp: im(6) parse_budget_def tier_budget_def Let_def split: option.splits)
  then have "\<forall>b\<in>set (rb_tiers (xp_budget p)). sat_add64 (mb_assigned_bytes b) (mb_reserved_bytes b) \<le> mb_capacity_bytes b"
    by (simp add: sat_add64_def)
  with plan_report [of p] run v im(8) show ?thesis
    unfolding im(7,9,10) by (auto simp: exactness_default_def fallback_default_def)
qed

text \<open>A package of one tensor of a tebibyte for the VRAM of a device of 100 bytes.\<close>

definition demo_package :: json_map where
  "demo_package =
     [(''hardware'', JObject [(''vram_bytes'', JUInt 100)]),
      (''model_identity'', JString ''fixture''),
      (''runtime_config'', JObject [(''context_length'', JUInt 4294971392)]),
      (''tensors'', JArray [JObject [(''bytes'', JUInt 1099511627776), (''name'', JString ''x''),
                                    (''planned_memory_tier'', JString ''vram'')]])]"

lemma demo_import:
  "\<exists>p. parse_model_package 0 demo_package ''s'' ''h'' = Inr p \<and> xp_target_context p = 4096
     \<and> xp_model_identity p = ''fixture'' \<and> map pl_tensor_id (xp_tensor_placements p) = [''x'']
     \<and> map pl_bytes (xp_tensor_placements p) = [1099511627776]
     \<and> map pl_preferred_tier (xp_tensor_placements p) = [TVramResident]"
proof -
  let ?hw = "parse_hardware (bget demo_package ''hardware'')"
  have ctx: "target_context_of demo_package = 4096"
    by (simp add: target_context_of_def runtime_field_def demo_package_def unwrap_or_def u32_def)
  have kv: "kv_datatype_of demo_package = ''f16''"
    by (simp add: kv_datatype_of_def runtime_field_def demo_package_def unwrap_or_def ascii_lower_def)
  obtain im where im: "import_package_tensors demo_package ?hw = Inr im"
    "map pl_tensor_id (im_placements im) = [''x'']" "map pl_bytes (im_placements im) = [1099511627776]"
    "map pl_preferred_tier (im_placements im) = [TVramResident]"
    by (simp add: import_package_tensors_def demo_package_def Let_def unwrap_or_def or_else_def json_string_def
        import_placement_def tensor_id_of_def preferred_of_def u64_value_def parse_tier_def ascii_lower_def)
  have name: "unwrap_or ''unknown-model''
      (or_else (json_string demo_package ''model_identity'') (json_string demo_package ''model_id'')) = ''fixture''"
    by (simp add: demo_package_def unwrap_or_def or_else_def json_string_def)
  show ?thesis
    by (simp add: parse_model_package_def Let_def im ctx kv kv_datatypes_def package_plan_def name)
qed

lemma demo_tensors: "length (unwrap_or [] (Option.bind (bget demo_package ''tensors'') as_array)) < 2 ^ 32"
  by (simp add: demo_package_def unwrap_or_def)

lemma imported_plan_well_formed_witness:
  "\<exists>p. parse_model_package 0 demo_package ''s'' ''h'' = Inr p \<and> operation_validate (xp_operations p) = Some (Inr ())"
proof -
  obtain p where p: "parse_model_package 0 demo_package ''s'' ''h'' = Inr p" using demo_import by blast
  have "operation_validate (xp_operations p) = Some (Inr ())"
    by (rule imported_plan_well_formed [OF p demo_tensors, THEN conjunct1])
  with p show ?thesis by blast
qed

lemma imported_plan_validates_witness:
  "\<exists>p r. parse_model_package 0 demo_package ''s'' ''h'' = Inr p \<and> plan_validate p = Some r \<and> is_valid r
     \<and> map pl_bytes (xp_tensor_placements p) = [1099511627776]
     \<and> map pl_preferred_tier (xp_tensor_placements p) = [TVramResident]"
proof -
  obtain p where p: "parse_model_package 0 demo_package ''s'' ''h'' = Inr p" "xp_model_identity p = ''fixture''"
    "map pl_tensor_id (xp_tensor_placements p) = [''x'']" "map pl_bytes (xp_tensor_placements p) = [1099511627776]"
    "map pl_preferred_tier (xp_tensor_placements p) = [TVramResident]"
    using demo_import by (elim exE conjE) (rule that)
  have "xp_model_identity p \<noteq> [] \<and> distinct (map pl_tensor_id (xp_tensor_placements p))" by (simp add: p(2,3))
  with imported_plan_validates [OF p(1) demo_tensors] obtain r where r: "plan_validate p = Some r" "is_valid r"
    by blast
  show ?thesis by (rule exI [of _ p], rule exI [of _ r], intro conjI) (rule p(1) r p(4,5))+
qed

text \<open>
  A context length beyond 32 bits is cut down without a word: \<open>2^32 + 4096\<close> is recorded as 4096,
  and the plan says that it was honoured.
\<close>

lemma context_length_truncated:
  "\<exists>p. parse_model_package 0 demo_package ''s'' ''h'' = Inr p \<and> xp_target_context p = 4096"
  using demo_import by blast

end
