(* ===== verification/R4kv_Crc.thy ===== *)
theory R4kv_Crc
  imports Byte_Fields
begin

text \<open>
  \<open>r4kv/src/crc32c.rs\<close>: the checksum of the page container.  The code works byte by byte with a
  table; the reference is the shift register that takes the message bit by bit.
\<close>

unbundle bit_operations_syntax

subsection \<open>The code\<close>

definition crc_poly :: "32 word" where "crc_poly = 0x82f63b78"

definition crc_shift :: "32 word \<Rightarrow> 32 word" where
  "crc_shift c = (if c AND 1 \<noteq> 0 then crc_poly XOR drop_bit 1 c else drop_bit 1 c)"

definition crc_entry :: "32 word \<Rightarrow> 32 word" where
  "crc_entry i = (crc_shift ^^ 8) i"

definition crc_table :: "32 word list" where
  "crc_table = map (\<lambda>i. crc_entry (of_nat i)) [0..<256]"

definition crc_update :: "32 word \<Rightarrow> byte \<Rightarrow> 32 word" where
  "crc_update c b = crc_table ! unat ((c XOR ucast b) AND 0xff) XOR drop_bit 8 c"

definition crc32c :: "byte list \<Rightarrow> 32 word" where
  "crc32c data = foldl crc_update 0xffffffff data XOR 0xffffffff"

subsection \<open>The reference: one bit at a time\<close>

definition byte_bits :: "byte \<Rightarrow> bool list" where
  "byte_bits b = map (bit b) [0..<8]"

definition crc_bit :: "32 word \<Rightarrow> bool \<Rightarrow> 32 word" where
  "crc_bit c x = (if odd c \<noteq> x then drop_bit 1 c XOR crc_poly else drop_bit 1 c)"

definition crc32c_reference :: "byte list \<Rightarrow> 32 word" where
  "crc32c_reference data = NOT (foldl crc_bit (NOT 0) (concat (map byte_bits data)))"

subsection \<open>The shift register is linear and invertible\<close>

lemma crc_xor_cancel: "(a :: 32 word) XOR c = b XOR c \<longleftrightarrow> a = b"
proof
  assume "a XOR c = b XOR c"
  then have "(a XOR c) XOR c = (b XOR c) XOR c" by simp
  then show "a = b" by (simp add: xor.assoc)
qed simp

lemma crc_xor_cancel_left: "(c :: 32 word) XOR a = c XOR b \<longleftrightarrow> a = b"
  using crc_xor_cancel [of a c b] by (simp add: xor.commute)

lemma crc_shift_alt: "crc_shift c = drop_bit 1 c XOR (if odd c then crc_poly else 0)"
proof -
  have "c AND 1 \<noteq> 0 \<longleftrightarrow> odd c" by (simp add: and_one_eq odd_iff_mod_2_eq_one)
  then show ?thesis by (simp add: crc_shift_def xor.commute)
qed

lemma crc_shift_xor: "crc_shift (a XOR b) = crc_shift a XOR crc_shift b"
proof -
  have "odd (a XOR b) \<longleftrightarrow> (odd a \<noteq> odd b)" by (simp add: even_xor_iff)
  then show ?thesis
    by (cases "odd a"; cases "odd b") (simp_all add: crc_shift_alt drop_bit_xor xor.assoc xor.left_commute xor.commute)
qed

lemma crc_shift_even: "even c \<Longrightarrow> crc_shift c = drop_bit 1 c"
  by (simp add: crc_shift_alt)

lemma crc_shift_top: "bit (crc_shift c) 31 \<longleftrightarrow> odd c"
proof -
  have "\<not> bit (drop_bit 1 c) 31" using bit_imp_le_length [of c 32] by (auto simp: bit_drop_bit_eq)
  moreover have "bit crc_poly 31" by (simp add: crc_poly_def)
  ultimately show ?thesis by (simp add: crc_shift_alt bit_xor_iff)
qed

lemma crc_shift_inj: "crc_shift a = crc_shift b \<Longrightarrow> a = b"
proof -
  assume eq: "crc_shift a = crc_shift b"
  then have odd: "odd a = odd b" using crc_shift_top [of a] crc_shift_top [of b] by simp
  have "drop_bit 1 a = drop_bit 1 b"
  proof (rule bit_eqI)
    fix n
    have "bit (crc_shift a) n = bit (crc_shift b) n" using eq by simp
    then show "bit (drop_bit 1 a) n = bit (drop_bit 1 b) n"
      using odd by (auto simp: crc_shift_alt bit_xor_iff split: if_splits)
  qed
  show "a = b"
  proof (rule bit_eqI)
    fix n
    show "bit a n = bit b n"
    proof (cases n)
      case 0
      with odd show ?thesis by (simp add: bit_0)
    next
      case (Suc m)
      have "bit (drop_bit 1 a) m = bit (drop_bit 1 b) m" using \<open>drop_bit 1 a = drop_bit 1 b\<close> by simp
      with Suc show ?thesis by (simp add: bit_drop_bit_eq)
    qed
  qed
qed

lemma crc_shifts_xor: "(crc_shift ^^ n) (a XOR b) = (crc_shift ^^ n) a XOR (crc_shift ^^ n) b"
  by (induction n) (simp_all add: crc_shift_xor)

lemma crc_shifts_inj: "(crc_shift ^^ n) a = (crc_shift ^^ n) b \<Longrightarrow> a = b"
  by (induction n) (auto dest: crc_shift_inj)

text \<open>Low zero bits are simply shifted out.\<close>

lemma crc_shifts_zeros: "(\<forall>i<n. \<not> bit c i) \<Longrightarrow> (crc_shift ^^ n) c = drop_bit n c"
proof (induction n)
  case (Suc n)
  then have "(crc_shift ^^ n) c = drop_bit n c" by simp
  moreover have "even (drop_bit n c)" using Suc.prems by (simp add: even_drop_bit_iff_not_bit)
  ultimately show ?case by (simp add: crc_shift_even drop_bit_drop_bit)
qed simp

subsection \<open>The table step is eight shifts\<close>

lemma crc_table_nth: "i < 256 \<Longrightarrow> crc_table ! i = (crc_shift ^^ 8) (of_nat i)"
  by (simp add: crc_table_def crc_entry_def)

lemma low_byte_less: "unat ((w :: 32 word) AND 0xff) < 256"
proof -
  have "w AND 0xff = take_bit 8 w" by (simp add: take_bit_eq_mask mask_eq_exp_minus_1)
  then show ?thesis using take_bit_nat_less_exp [of 8 "unat w"] by (simp add: unsigned_take_bit_eq)
qed

lemma crc_update_shifts: "crc_update c b = (crc_shift ^^ 8) (c XOR ucast b)"
proof -
  define w where "w = c XOR (ucast b :: 32 word)"
  define hi where "hi = w AND NOT 0xff"
  have split: "w = (w AND 0xff) XOR hi"
    by (rule bit_eqI) (auto simp: hi_def bit_simps)
  have low: "crc_table ! unat (w AND 0xff) = (crc_shift ^^ 8) (w AND 0xff)"
    by (simp add: crc_table_nth [OF low_byte_less])
  have mask: "(0xff :: 32 word) = mask 8" by (simp add: mask_eq_exp_minus_1)
  have "(crc_shift ^^ 8) hi = drop_bit 8 hi"
    by (rule crc_shifts_zeros) (auto simp: hi_def mask bit_simps)
  also have "drop_bit 8 hi = drop_bit 8 c"
  proof (rule bit_eqI)
    fix n
    have "\<not> bit (ucast b :: 32 word) (8 + n)"
      using bit_imp_le_length [of b "8 + n"] by (auto simp: bit_simps)
    then show "bit (drop_bit 8 hi) n = bit (drop_bit 8 c) n"
      by (auto simp: hi_def w_def mask bit_simps dest: bit_imp_le_length)
  qed
  finally have "(crc_shift ^^ 8) w = (crc_shift ^^ 8) (w AND 0xff) XOR drop_bit 8 c"
    using split crc_shifts_xor [of 8 "w AND 0xff" hi] by metis
  then show ?thesis by (simp add: crc_update_def w_def [symmetric] low)
qed

lemma crc_bit_shift: "crc_bit c x = crc_shift (c XOR of_bool x)"
proof -
  have "odd (c XOR of_bool x) \<longleftrightarrow> (odd c \<noteq> x)" by (cases x) (simp_all add: even_xor_iff)
  moreover have "drop_bit 1 (c XOR of_bool x) = drop_bit 1 c"
    by (cases x) (simp_all add: drop_bit_xor)
  ultimately show ?thesis by (simp add: crc_bit_def crc_shift_alt)
qed

text \<open>Feeding the low bits of a word one by one is adding the word and shifting.\<close>

lemma crc_bits_word:
  "n \<le> 32 \<Longrightarrow> foldl crc_bit c (map (bit w) [0..<n]) = (crc_shift ^^ n) (c XOR take_bit n w)"
proof (induction n)
  case (Suc n)
  define x where "x = push_bit n (of_bool (bit w n) :: 32 word)"
  have tb: "take_bit (Suc n) w = take_bit n w XOR x"
    by (rule bit_eqI) (auto simp: x_def bit_simps less_Suc_eq)
  have "(crc_shift ^^ n) x = of_bool (bit w n)"
  proof -
    have "\<forall>i<n. \<not> bit x i" by (simp add: x_def bit_simps)
    from crc_shifts_zeros [OF this] have "(crc_shift ^^ n) x = drop_bit n x" .
    also have "\<dots> = of_bool (bit w n)"
      using Suc.prems by (intro bit_eqI) (auto simp: x_def bit_simps)
    finally show ?thesis .
  qed
  then have "(crc_shift ^^ Suc n) (c XOR take_bit (Suc n) w)
      = crc_shift ((crc_shift ^^ n) (c XOR take_bit n w) XOR of_bool (bit w n))"
    by (simp add: tb crc_shifts_xor xor.assoc [symmetric])
  then show ?case using Suc by (simp add: crc_bit_shift)
qed simp

lemma crc_byte_bits: "foldl crc_bit c (byte_bits b) = crc_update c b"
proof -
  have "byte_bits b = map (bit (ucast b :: 32 word)) [0..<8]"
    by (simp add: byte_bits_def bit_ucast_iff)
  moreover have "take_bit 8 (ucast b :: 32 word) = ucast b"
    by (rule bit_eqI) (auto simp: bit_simps dest: bit_imp_le_length)
  ultimately show ?thesis using crc_bits_word [of 8 c "ucast b"] by (simp only: crc_update_shifts)
qed

lemma crc_foldl: "foldl crc_bit c (concat (map byte_bits data)) = foldl crc_update c data"
  by (induction data arbitrary: c) (simp_all add: crc_byte_bits)

text \<open>
  C27: the table-driven checksum of the code is the bit-serial
  CRC-32C of every message.
\<close>

theorem crc_table_equals_shift_register: "crc32c data = crc32c_reference data"
proof -
  have ones: "(0xffffffff :: 32 word) = - 1" "(NOT 0 :: 32 word) = - 1" by simp_all
  show ?thesis unfolding crc32c_def crc32c_reference_def crc_foldl ones by simp
qed

subsection \<open>Error detection\<close>

definition le_word :: "byte list \<Rightarrow> 32 word" where
  "le_word bs = foldr (\<lambda>b w. ucast b XOR push_bit 8 w) bs 0"

lemma le_word_bit: "length bs \<le> 4 \<Longrightarrow> bit (le_word bs) n \<longleftrightarrow> n < 8 * length bs \<and> bit (bs ! (n div 8)) (n mod 8)"
proof (induction bs arbitrary: n)
  case (Cons b bs)
  have step: "bit (le_word (b # bs)) n \<longleftrightarrow> (bit b n \<and> n < 8) \<noteq> (8 \<le> n \<and> n < 32 \<and> bit (le_word bs) (n - 8))" for n
  proof -
    have eq: "le_word (b # bs) = ucast b XOR push_bit 8 (le_word bs)" by (simp add: le_word_def)
    have "bit (ucast b :: 32 word) n \<longleftrightarrow> bit b n \<and> n < 8"
      using bit_imp_le_length [of b n] by (auto simp: bit_ucast_iff)
    moreover have "bit (push_bit 8 (le_word bs)) n \<longleftrightarrow> 8 \<le> n \<and> n < 32 \<and> bit (le_word bs) (n - 8)"
      by (auto simp: bit_push_bit_iff)
    ultimately show ?thesis unfolding eq bit_xor_iff by blast
  qed
  show ?case
  proof (cases "n < 8")
    case True
    then show ?thesis by (simp add: step)
  next
    case False
    define m where "m = n - 8"
    have m: "n = 8 + m" using False by (simp add: m_def)
    have "bit (le_word (b # bs)) n \<longleftrightarrow> m < 24 \<and> bit (le_word bs) m" unfolding step m by simp
    also have "bit (le_word bs) m \<longleftrightarrow> m < 8 * length bs \<and> bit (bs ! (m div 8)) (m mod 8)"
      using Cons.prems by (intro Cons.IH) simp
    also have "(m < 24 \<and> m < 8 * length bs \<and> bit (bs ! (m div 8)) (m mod 8)) \<longleftrightarrow>
        m < 8 * length bs \<and> bit (bs ! (m div 8)) (m mod 8)" using Cons.prems by auto
    finally have main: "bit (le_word (b # bs)) n \<longleftrightarrow> m < 8 * length bs \<and> bit (bs ! (m div 8)) (m mod 8)" .
    have "n div 8 = Suc (m div 8)" "n mod 8 = m mod 8" by (simp_all add: m div_add_self1)
    then show ?thesis unfolding main by (simp add: m)
  qed
qed (simp add: le_word_def)

lemma le_word_inj:
  assumes "length xs = length ys" "length xs \<le> 4" "le_word xs = le_word ys"
  shows "xs = ys"
proof (rule nth_equalityI [OF assms(1)])
  fix i assume i: "i < length xs"
  show "xs ! i = ys ! i"
  proof (rule bit_eqI)
    fix n assume "possible_bit TYPE(8 word) n"
    then have n: "n < 8" by simp
    have "bit (le_word xs) (8 * i + n) = bit (le_word ys) (8 * i + n)" using assms(3) by simp
    with i n assms(1,2) show "bit (xs ! i) n = bit (ys ! i) n" by (simp add: le_word_bit)
  qed
qed

lemma crc_feed_word:
  "length bs \<le> 4 \<Longrightarrow> foldl crc_update c bs = (crc_shift ^^ (8 * length bs)) (c XOR le_word bs)"
proof (induction bs arbitrary: c)
  case (Cons b bs)
  define w where "w = le_word bs"
  have "(crc_shift ^^ 8) (push_bit 8 w) = drop_bit 8 (push_bit 8 w)"
    by (rule crc_shifts_zeros) (simp add: bit_simps)
  also have "\<dots> = w"
  proof (rule bit_eqI)
    fix n assume "possible_bit TYPE(32 word) n"
    show "bit (drop_bit 8 (push_bit 8 w)) n = bit w n"
      using le_word_bit [of bs n] Cons.prems by (auto simp: w_def bit_simps)
  qed
  finally have w: "(crc_shift ^^ 8) (push_bit 8 w) = w" .
  have "le_word (b # bs) = ucast b XOR push_bit 8 w" by (simp add: le_word_def w_def)
  then have "(crc_shift ^^ 8) (c XOR le_word (b # bs)) = (crc_shift ^^ 8) (c XOR ucast b) XOR w"
    using w by (simp only: xor.assoc [symmetric] crc_shifts_xor)
  moreover have "8 * length (b # bs) = 8 * length bs + 8" by simp
  ultimately show ?case using Cons
    by (simp only: funpow_add comp_apply foldl_Cons crc_update_shifts w_def list.size)
qed (simp add: le_word_def)

lemma crc_update_inj: "crc_update a b = crc_update a' b \<Longrightarrow> a = a'"
  unfolding crc_update_shifts by (drule crc_shifts_inj) (simp add: crc_xor_cancel)

lemma crc_foldl_inj: "foldl crc_update a bs = foldl crc_update a' bs \<Longrightarrow> a = a'"
  by (induction bs arbitrary: a a') (auto dest: crc_update_inj)

lemma crc_burst:
  assumes "length xs = length ys" "length xs \<le> 4" "xs \<noteq> ys"
  shows "crc32c (pre @ xs @ post) \<noteq> crc32c (pre @ ys @ post)"
proof
  assume "crc32c (pre @ xs @ post) = crc32c (pre @ ys @ post)"
  then have "foldl crc_update 0xffffffff (pre @ xs @ post) = foldl crc_update 0xffffffff (pre @ ys @ post)"
    unfolding crc32c_def crc_xor_cancel .
  then have "foldl crc_update (foldl crc_update 0xffffffff pre) xs = foldl crc_update (foldl crc_update 0xffffffff pre) ys"
    by (auto dest: crc_foldl_inj)
  then have "foldl crc_update 0xffffffff pre XOR le_word xs = foldl crc_update 0xffffffff pre XOR le_word ys"
    using assms(1,2) by (auto simp: crc_feed_word dest: crc_shifts_inj)
  then have "le_word xs = le_word ys" unfolding crc_xor_cancel_left .
  with le_word_inj [OF assms(1,2)] assms(3) show False by simp
qed

end
