(* ===== verification/R4kv_Page.thy ===== *)
theory R4kv_Page
  imports R4kv_Crc
begin

text \<open>
  \<open>r4kv/src/page.rs\<close>: the page container, a 96-byte little-endian header and a payload, each
  closed by its CRC-32C, and the legality gate for restoring a page into a live stream.
\<close>

unbundle bit_operations_syntax

subsection \<open>Formats, headers and errors\<close>

datatype fmt = FmtF16 | FmtQ8 | FmtQ6 | FmtQ4 | FmtQ3

fun fmt_u8 :: "fmt \<Rightarrow> byte" where
  "fmt_u8 FmtF16 = 0" | "fmt_u8 FmtQ8 = 1" | "fmt_u8 FmtQ6 = 2" | "fmt_u8 FmtQ4 = 3" | "fmt_u8 FmtQ3 = 4"

definition fmt_from_u8 :: "byte \<Rightarrow> fmt option" where
  "fmt_from_u8 v =
     (if v = 0 then Some FmtF16 else if v = 1 then Some FmtQ8 else if v = 2 then Some FmtQ6
      else if v = 3 then Some FmtQ4 else if v = 4 then Some FmtQ3 else None)"

record page_header =
  hd_prefix_digest :: "64 word"
  hd_token_start :: "32 word"
  hd_token_count :: "32 word"
  hd_pos_start :: "32 word"
  hd_layer_lo :: "16 word"
  hd_layer_hi :: "16 word"
  hd_k_fmt :: fmt
  hd_v_fmt :: fmt
  hd_epoch :: "32 word"
  hd_generation :: "32 word"
  hd_payload_len :: "64 word"
  hd_sketch_offset :: "32 word"
  hd_flags :: "16 word"

record restore_expectation =
  re_prefix_digest :: "64 word"
  re_token_start :: "32 word"
  re_pos_start :: "32 word"
  re_layer_lo :: "16 word"
  re_layer_hi :: "16 word"
  re_k_fmt :: "fmt option"
  re_v_fmt :: "fmt option"
  re_generation :: "(32 word \<Rightarrow> bool) option"

datatype restore_error =
  BadMagic
| BadVersion
| HeaderChecksumMismatch
| PayloadChecksumMismatch
| LengthMismatch "64 word" nat
| PrefixMismatch "64 word" "64 word"
| TokenRangeMismatch "32 word" "32 word"
| PosMismatch "32 word" "32 word"
| LayerRangeInsufficient "16 word \<times> 16 word" "16 word \<times> 16 word"
| FormatRefused string
| GenerationRejected

definition magic :: "32 word" where "magic = 0x52344B56"
definition version :: "16 word" where "version = 1"

subsection \<open>Fields of a byte array\<close>

definition slice_at :: "nat \<Rightarrow> nat \<Rightarrow> byte list \<Rightarrow> byte list" where
  "slice_at off n b = take n (drop off b)"

definition put_at :: "nat \<Rightarrow> byte list \<Rightarrow> byte list \<Rightarrow> byte list" where
  "put_at off xs b = take off b @ xs @ drop (off + length xs) b"

definition get_u16 :: "byte list \<Rightarrow> nat \<Rightarrow> 16 word" where "get_u16 b off = from_le (slice_at off 2 b)"
definition get_u32 :: "byte list \<Rightarrow> nat \<Rightarrow> 32 word" where "get_u32 b off = from_le (slice_at off 4 b)"
definition get_u64 :: "byte list \<Rightarrow> nat \<Rightarrow> 64 word" where "get_u64 b off = from_le (slice_at off 8 b)"

definition header_len :: nat where "header_len = 96"

definition header_fields :: "page_header \<Rightarrow> byte list \<Rightarrow> byte list" where
  "header_fields h b =
     put_at 50 (le32 (hd_sketch_offset h)) (put_at 42 (le64 (hd_payload_len h))
    (put_at 38 (le32 (hd_generation h)) (put_at 34 (le32 (hd_epoch h))
    (put_at 33 [fmt_u8 (hd_v_fmt h)] (put_at 32 [fmt_u8 (hd_k_fmt h)]
    (put_at 30 (le16 (hd_layer_hi h)) (put_at 28 (le16 (hd_layer_lo h))
    (put_at 24 (le32 (hd_pos_start h)) (put_at 20 (le32 (hd_token_count h))
    (put_at 16 (le32 (hd_token_start h)) (put_at 8 (le64 (hd_prefix_digest h))
    (put_at 6 (le16 (hd_flags h)) (put_at 4 (le16 version) (put_at 0 (le32 magic) b))))))))))))))"

definition to_bytes :: "page_header \<Rightarrow> byte list" where
  "to_bytes h = (let b = header_fields h (replicate header_len 0) in
     put_at 92 (le32 (crc32c (slice_at 0 92 b))) b)"

definition from_bytes :: "byte list \<Rightarrow> restore_error + page_header" where
  "from_bytes b =
     (if get_u32 b 0 \<noteq> magic then Inl BadMagic
      else if get_u16 b 4 \<noteq> version then Inl BadVersion
      else if crc32c (slice_at 0 92 b) \<noteq> get_u32 b 92 then Inl HeaderChecksumMismatch
      else case fmt_from_u8 (b ! 32) of
        None \<Rightarrow> Inl (FormatRefused ''k_fmt'')
      | Some k \<Rightarrow> (case fmt_from_u8 (b ! 33) of
          None \<Rightarrow> Inl (FormatRefused ''v_fmt'')
        | Some v \<Rightarrow> Inr \<lparr> hd_prefix_digest = get_u64 b 8, hd_token_start = get_u32 b 16,
              hd_token_count = get_u32 b 20, hd_pos_start = get_u32 b 24, hd_layer_lo = get_u16 b 28,
              hd_layer_hi = get_u16 b 30, hd_k_fmt = k, hd_v_fmt = v, hd_epoch = get_u32 b 34,
              hd_generation = get_u32 b 38, hd_payload_len = get_u64 b 42,
              hd_sketch_offset = get_u32 b 50, hd_flags = get_u16 b 6 \<rparr>))"

definition check_restore ::
  "page_header \<Rightarrow> restore_expectation \<Rightarrow> byte list \<Rightarrow> restore_error + unit" where
  "check_restore h x body =
     (if of_nat (length body) \<noteq> hd_payload_len h then Inl (LengthMismatch (hd_payload_len h) (length body))
      else if hd_prefix_digest h \<noteq> re_prefix_digest x
      then Inl (PrefixMismatch (re_prefix_digest x) (hd_prefix_digest h))
      else if hd_token_start h \<noteq> re_token_start x
      then Inl (TokenRangeMismatch (re_token_start x) (hd_token_start h))
      else if hd_pos_start h \<noteq> re_pos_start x then Inl (PosMismatch (re_pos_start x) (hd_pos_start h))
      else if hd_layer_lo h > re_layer_lo x \<or> hd_layer_hi h < re_layer_hi x
      then Inl (LayerRangeInsufficient (re_layer_lo x, re_layer_hi x) (hd_layer_lo h, hd_layer_hi h))
      else if (case re_k_fmt x of Some f \<Rightarrow> f \<noteq> hd_k_fmt h | None \<Rightarrow> False) then Inl (FormatRefused ''k_fmt'')
      else if (case re_v_fmt x of Some f \<Rightarrow> f \<noteq> hd_v_fmt h | None \<Rightarrow> False) then Inl (FormatRefused ''v_fmt'')
      else if (case re_generation x of Some g \<Rightarrow> \<not> g (hd_generation h) | None \<Rightarrow> False) then Inl GenerationRejected
      else Inr ())"

definition pack_page :: "page_header \<Rightarrow> byte list \<Rightarrow> byte list" where
  "pack_page h body = to_bytes h @ body @ le32 (crc32c body)"

definition unpack_page :: "byte list \<Rightarrow> restore_error + page_header \<times> byte list" where
  "unpack_page buf =
     (if length buf < header_len + 4 then Inl (LengthMismatch 0 (length buf))
      else case from_bytes (take header_len buf) of
        Inl e \<Rightarrow> Inl e
      | Inr h \<Rightarrow>
          let body_end = length buf - 4; body = take (body_end - header_len) (drop header_len buf) in
          if of_nat (length body) \<noteq> hd_payload_len h then Inl (LengthMismatch (hd_payload_len h) (length body))
          else if crc32c body \<noteq> from_le (slice_at body_end 4 buf) then Inl PayloadChecksumMismatch
          else Inr (h, body))"

subsection \<open>Fields are read back as they were written\<close>

lemma length_put_at: "off + length xs \<le> length b \<Longrightarrow> length (put_at off xs b) = length b"
  by (simp add: put_at_def)

lemma slice_put_same:
  "n = length xs \<Longrightarrow> off + n \<le> length b \<Longrightarrow> slice_at off n (put_at off xs b) = xs"
  by (simp add: slice_at_def put_at_def)

lemma slice_put_above:
  "off + length xs \<le> o' \<Longrightarrow> off \<le> length b \<Longrightarrow> slice_at o' n (put_at off xs b) = slice_at o' n b"
  by (simp add: slice_at_def put_at_def)

lemma slice_put_below:
  "o' + n \<le> off \<Longrightarrow> off \<le> length b \<Longrightarrow> slice_at o' n (put_at off xs b) = slice_at o' n b"
proof -
  assume a: "o' + n \<le> off" "off \<le> length b"
  then have f1: "drop o' (take off b @ r) = drop o' (take off b) @ r" for r by simp
  have f2: "take n (drop o' (take off b) @ r) = take n (drop o' (take off b))" for r using a by simp
  have f3: "take n (drop o' (take off b)) = take n (drop o' b)" using a by (simp add: drop_take min_def)
  show ?thesis unfolding slice_at_def put_at_def by (simp only: f1 f2 f3)
qed

text \<open>The same for an array of 96 bytes, so that one premise settles all lengths.\<close>

lemma put96: "length b = 96 \<Longrightarrow> off + length xs \<le> 96 \<Longrightarrow> length (put_at off xs b) = 96"
  by (simp add: length_put_at)

lemma same96: "length b = 96 \<Longrightarrow> n = length xs \<Longrightarrow> off + n \<le> 96 \<Longrightarrow> slice_at off n (put_at off xs b) = xs"
  by (simp add: slice_put_same)

lemma above96: "length b = 96 \<Longrightarrow> off \<le> 96 \<Longrightarrow> off + length xs \<le> o' \<Longrightarrow> slice_at o' n (put_at off xs b) = slice_at o' n b"
  by (simp add: slice_put_above)

lemma below96: "length b = 96 \<Longrightarrow> off \<le> 96 \<Longrightarrow> o' + n \<le> off \<Longrightarrow> slice_at o' n (put_at off xs b) = slice_at o' n b"
  by (simp add: slice_put_below)

lemmas field_simps = put96 same96 above96 below96

lemma nth_slice: "i < length b \<Longrightarrow> b ! i = hd (slice_at i 1 b)"
  by (simp add: slice_at_def hd_drop_conv_nth take_Suc_conv_app_nth hd_take)

lemma fmt_round_trip: "fmt_from_u8 (fmt_u8 f) = Some f"
  by (cases f) (simp_all add: fmt_from_u8_def)

lemma length_header_fields [simp]: "length b = 96 \<Longrightarrow> length (header_fields h b) = 96"
  by (simp add: header_fields_def put96)

lemma length_to_bytes [simp]: "length (to_bytes h) = 96"
  by (simp add: to_bytes_def header_len_def Let_def put96)

lemma header_round_trip: "from_bytes (to_bytes h) = Inr h"
proof -
  define z where "z = (replicate 96 0 :: byte list)"
  have z: "length z = 96" by (simp add: z_def)
  define b where "b = header_fields h z"
  have lb: "length b = 96" by (simp add: b_def z)
  have t: "to_bytes h = put_at 92 (le32 (crc32c (slice_at 0 92 b))) b"
    by (simp add: to_bytes_def Let_def b_def z_def header_len_def)
  have up: "slice_at o' n (to_bytes h) = slice_at o' n b" if "o' + n \<le> 92" for o' n
    unfolding t using that lb by (simp add: field_simps)
  have fields: "slice_at 0 4 b = le32 magic" "slice_at 4 2 b = le16 version" "slice_at 6 2 b = le16 (hd_flags h)"
    "slice_at 8 8 b = le64 (hd_prefix_digest h)" "slice_at 16 4 b = le32 (hd_token_start h)"
    "slice_at 20 4 b = le32 (hd_token_count h)" "slice_at 24 4 b = le32 (hd_pos_start h)"
    "slice_at 28 2 b = le16 (hd_layer_lo h)" "slice_at 30 2 b = le16 (hd_layer_hi h)"
    "slice_at 32 1 b = [fmt_u8 (hd_k_fmt h)]" "slice_at 33 1 b = [fmt_u8 (hd_v_fmt h)]"
    "slice_at 34 4 b = le32 (hd_epoch h)" "slice_at 38 4 b = le32 (hd_generation h)"
    "slice_at 42 8 b = le64 (hd_payload_len h)" "slice_at 50 4 b = le32 (hd_sketch_offset h)"
    by (simp_all add: b_def header_fields_def z field_simps)
  have crc: "slice_at 92 4 (to_bytes h) = le32 (crc32c (slice_at 0 92 b))"
    unfolding t using lb by (simp add: field_simps)
  have k: "to_bytes h ! 32 = fmt_u8 (hd_k_fmt h)" "to_bytes h ! 33 = fmt_u8 (hd_v_fmt h)"
    by (simp_all add: nth_slice up fields del: One_nat_def)
  show ?thesis
    by (simp add: from_bytes_def get_u16_def get_u32_def get_u64_def up fields crc k fmt_round_trip)
qed

text \<open>
  C26: packing a header and a payload of the length it declares and unpacking the bytes
  gives back the header and the payload.
\<close>

theorem page_round_trip:
  assumes "of_nat (length body) = hd_payload_len h"
  shows "unpack_page (pack_page h body) = Inr (h, body)"
proof -
  have "slice_at (length (to_bytes h @ body)) 4 (to_bytes h @ body @ le32 c) = le32 c" for c
    by (simp add: slice_at_def)
  then have "slice_at (96 + length body) 4 (to_bytes h @ body @ le32 c) = le32 c" for c
    by simp
  then show ?thesis
    by (simp add: unpack_page_def pack_page_def header_len_def header_round_trip Let_def assms)
qed

definition demo_header :: page_header where
  "demo_header = \<lparr> hd_prefix_digest = 0xDEADBEEF, hd_token_start = 4096, hd_token_count = 512,
     hd_pos_start = 4096, hd_layer_lo = 3, hd_layer_hi = 63, hd_k_fmt = FmtQ6, hd_v_fmt = FmtQ4,
     hd_epoch = 7, hd_generation = 42, hd_payload_len = 3, hd_sketch_offset = 0, hd_flags = 0 \<rparr>"

lemma page_round_trip_witness: "unpack_page (pack_page demo_header [1, 2, 3]) = Inr (demo_header, [1, 2, 3])"
  by (rule page_round_trip) (simp add: demo_header_def)

subsection \<open>Corruption is detected\<close>

text \<open>A block followed by its checksum drives the shift register to one fixed state.\<close>

definition crc_residue :: "32 word" where
  "crc_residue = (crc_shift ^^ 32) (NOT 0)"

lemma le_word_le32: "le_word bs = from_le bs" if "length bs \<le> 4"
  by (rule bit_eqI) (use that in \<open>auto simp: le_word_bit from_le_bit\<close>)

lemma crc_codeword:
  assumes "length c = 4"
  shows "crc32c data = from_le c \<longleftrightarrow> foldl crc_update 0xffffffff (data @ c) = crc_residue"
proof -
  define st where "st = foldl crc_update 0xffffffff data"
  have ones: "(0xffffffff :: 32 word) = NOT 0" by simp
  have "foldl crc_update 0xffffffff (data @ c) = (crc_shift ^^ 32) (st XOR from_le c)"
    using assms crc_feed_word [of c st] by (simp add: st_def le_word_le32)
  then have "foldl crc_update 0xffffffff (data @ c) = crc_residue \<longleftrightarrow> st XOR from_le c = NOT 0"
    unfolding crc_residue_def by (metis crc_shifts_inj)
  also have "\<dots> \<longleftrightarrow> st XOR from_le c = st XOR (st XOR NOT 0)" by simp
  also have "\<dots> \<longleftrightarrow> from_le c = st XOR NOT 0" unfolding crc_xor_cancel_left ..
  also have "\<dots> \<longleftrightarrow> crc32c data = from_le c" unfolding crc32c_def st_def ones by (rule eq_commute)
  finally show ?thesis by simp
qed

text \<open>Two byte strings that differ within four consecutive bytes.\<close>

definition burst :: "byte list \<Rightarrow> byte list \<Rightarrow> bool" where
  "burst a b \<longleftrightarrow> (\<exists>pre xs ys post. a = pre @ xs @ post \<and> b = pre @ ys @ post
     \<and> length xs = length ys \<and> length xs \<le> 4)"

lemma burst_take: "burst a b \<Longrightarrow> burst (take n a) (take n b)"
  unfolding burst_def
proof (elim exE conjE)
  fix pre xs ys post assume "a = pre @ xs @ post" "b = pre @ ys @ post" "length xs = length ys" "length xs \<le> 4"
  then show "\<exists>pre xs ys post. take n a = pre @ xs @ post \<and> take n b = pre @ ys @ post \<and> length xs = length ys \<and> length xs \<le> 4"
    by (intro exI [of _ "take n pre"] exI [of _ "take (n - length pre) xs"] exI [of _ "take (n - length pre) ys"]
          exI [of _ "take (n - length pre - length xs) post"]) simp
qed

lemma burst_drop: "burst a b \<Longrightarrow> burst (drop n a) (drop n b)"
  unfolding burst_def
proof (elim exE conjE)
  fix pre xs ys post assume "a = pre @ xs @ post" "b = pre @ ys @ post" "length xs = length ys" "length xs \<le> 4"
  then show "\<exists>pre xs ys post. drop n a = pre @ xs @ post \<and> drop n b = pre @ ys @ post \<and> length xs = length ys \<and> length xs \<le> 4"
    by (intro exI [of _ "drop n pre"] exI [of _ "drop (n - length pre) xs"] exI [of _ "drop (n - length pre) ys"]
          exI [of _ "drop (n - length pre - length xs) post"]) simp
qed

lemma burst_same_state:
  assumes "burst a b" "foldl crc_update c a = foldl crc_update c b"
  shows "a = b"
proof -
  from assms(1) obtain pre xs ys post where ab: "a = pre @ xs @ post" "b = pre @ ys @ post"
    and len: "length xs = length ys" "length xs \<le> 4" by (auto simp: burst_def)
  have "foldl crc_update (foldl crc_update c pre) xs = foldl crc_update (foldl crc_update c pre) ys"
    using assms(2) unfolding ab by (auto dest: crc_foldl_inj)
  then have "foldl crc_update c pre XOR le_word xs = foldl crc_update c pre XOR le_word ys"
    using len by (auto simp: crc_feed_word dest: crc_shifts_inj)
  then have "le_word xs = le_word ys" unfolding crc_xor_cancel_left .
  with le_word_inj [OF len] ab show ?thesis by simp
qed

lemma from_bytes_codeword:
  assumes "from_bytes b = Inr h" "length b = 96"
  shows "foldl crc_update 0xffffffff b = crc_residue"
proof -
  have "crc32c (slice_at 0 92 b) = from_le (slice_at 92 4 b)"
    using assms(1) by (auto simp: from_bytes_def get_u32_def split: if_splits)
  moreover have "length (slice_at 92 4 b) = 4" "slice_at 0 92 b @ slice_at 92 4 b = b"
    using assms(2) append_take_drop_id [of 92 b] by (simp_all add: slice_at_def)
  ultimately show ?thesis using crc_codeword [of "slice_at 92 4 b" "slice_at 0 92 b"] by simp
qed

lemma unpack_page_codewords:
  assumes "unpack_page buf = Inr r"
  shows "foldl crc_update 0xffffffff (take 96 buf) = crc_residue"
    and "foldl crc_update 0xffffffff (drop 96 buf) = crc_residue"
proof -
  have len: "100 \<le> length buf" using assms by (auto simp: unpack_page_def header_len_def split: if_splits)
  obtain h where h: "from_bytes (take 96 buf) = Inr h"
    using assms len by (auto simp: unpack_page_def header_len_def split: sum.splits)
  show "foldl crc_update 0xffffffff (take 96 buf) = crc_residue"
    using from_bytes_codeword [OF h] len by simp
  let ?body = "take (length buf - 4 - 96) (drop 96 buf)" and ?c = "slice_at (length buf - 4) 4 buf"
  have "crc32c ?body = from_le ?c"
    using assms len h by (auto simp: unpack_page_def header_len_def Let_def split: if_splits)
  moreover have "length ?c = 4" using len by (simp add: slice_at_def)
  moreover have "?body @ ?c = drop 96 buf"
  proof -
    have "?c = drop (length buf - 4 - 96) (drop 96 buf)" using len by (simp add: slice_at_def)
    then show ?thesis by (simp only: append_take_drop_id)
  qed
  ultimately show "foldl crc_update 0xffffffff (drop 96 buf) = crc_residue"
    using crc_codeword [of ?c ?body] by simp
qed

text \<open>
  C13: a page that unpacks, changed within any four consecutive bytes, be it
  in the header, the payload, a checksum or across their borders, no longer unpacks.
\<close>

theorem corrupted_page_is_refused:
  assumes "unpack_page (pre @ xs @ post) = Inr r"
    and "length xs = length ys" "length xs \<le> 4" "xs \<noteq> ys"
  shows "\<exists>e. unpack_page (pre @ ys @ post) = Inl e"
proof (cases "unpack_page (pre @ ys @ post)")
  case (Inr r')
  have b: "burst (pre @ xs @ post) (pre @ ys @ post)" unfolding burst_def using assms(2,3) by blast
  note st = unpack_page_codewords [OF assms(1)] unpack_page_codewords [OF Inr]
  have "take 96 (pre @ xs @ post) = take 96 (pre @ ys @ post)"
    by (rule burst_same_state [where c = "0xffffffff", OF burst_take [OF b]]) (use st in metis)
  moreover have "drop 96 (pre @ xs @ post) = drop 96 (pre @ ys @ post)"
    by (rule burst_same_state [where c = "0xffffffff", OF burst_drop [OF b]]) (use st in metis)
  ultimately have "pre @ xs @ post = pre @ ys @ post" by (metis append_take_drop_id)
  with assms(4) show ?thesis by simp
qed blast

lemma corrupted_page_is_refused_witness:
  "\<exists>e. unpack_page ((to_bytes demo_header @ [1]) @ [9] @ ([3] @ le32 (crc32c [1, 2, 3]))) = Inl e"
proof (rule corrupted_page_is_refused)
  show "unpack_page ((to_bytes demo_header @ [1]) @ [2] @ ([3] @ le32 (crc32c [1, 2, 3]))) = Inr (demo_header, [1, 2, 3])"
    using page_round_trip [of "[1, 2, 3]" demo_header] by (simp add: pack_page_def demo_header_def)
qed simp_all

text \<open>
  The restore gate lets a page through exactly when its length, prefix, token and
  position origins are those expected, its layers cover the wanted ones, and its formats and
  generation are acceptable.
\<close>

theorem restore_gate_exact:
  "check_restore h x body = Inr () \<longleftrightarrow>
     of_nat (length body) = hd_payload_len h \<and> hd_prefix_digest h = re_prefix_digest x
   \<and> hd_token_start h = re_token_start x \<and> hd_pos_start h = re_pos_start x
   \<and> hd_layer_lo h \<le> re_layer_lo x \<and> re_layer_hi x \<le> hd_layer_hi h
   \<and> re_k_fmt x \<in> {None, Some (hd_k_fmt h)} \<and> re_v_fmt x \<in> {None, Some (hd_v_fmt h)}
   \<and> (case re_generation x of None \<Rightarrow> True | Some g \<Rightarrow> g (hd_generation h))"
  by (auto simp: check_restore_def not_less not_le split: option.splits if_splits)

end
