(* ===== verification/Kv_Codec.thy ===== *)
theory Kv_Codec
  imports Byte_Fields
begin

text \<open>
  \<open>LosslessXorRleCodec\<close> of \<open>har-kv/src/codec.rs\<close>: adjacent bytes are XORed, then zero runs and
  literal runs are written as records of a tag, a 16-bit length and the literal bytes.
\<close>

unbundle bit_operations_syntax

record codec_payload =
  cp_codec_id :: string
  cp_version :: string
  cp_bytes :: "byte list"
  cp_source_bytes :: nat
  cp_metadata_bytes :: nat
  cp_dictionary_bytes :: nat
  cp_scratch_bytes :: nat

datatype codec_error = InvalidPayload | CodecUnsupported string | SizeOverflow

subsection \<open>The delta\<close>

fun delta_encode_from :: "byte \<Rightarrow> byte list \<Rightarrow> byte list" where
  "delta_encode_from previous [] = []"
| "delta_encode_from previous (b # bs) = (b XOR previous) # delta_encode_from b bs"

definition delta_encode :: "byte list \<Rightarrow> byte list" where
  "delta_encode source = delta_encode_from 0 source"

fun delta_decode_from :: "byte \<Rightarrow> byte list \<Rightarrow> byte list" where
  "delta_decode_from previous [] = []"
| "delta_decode_from previous (b # bs) = (let value = b XOR previous in value # delta_decode_from value bs)"

definition delta_decode :: "byte list \<Rightarrow> byte list" where
  "delta_decode delta = delta_decode_from 0 delta"

subsection \<open>The runs\<close>

text \<open>
  The inner loops over the bytes from the current index on: a zero run of at most \<open>k\<close> bytes,
  and a literal run, which an isolated or final zero does not end.
\<close>

fun zero_run :: "nat \<Rightarrow> byte list \<Rightarrow> nat" where
  "zero_run (Suc k) (b # bs) = (if b = 0 then Suc (zero_run k bs) else 0)"
| "zero_run _ _ = 0"

fun literal_run :: "nat \<Rightarrow> byte list \<Rightarrow> nat" where
  "literal_run (Suc k) (b # bs) = (if b \<noteq> 0 \<or> bs = [] \<or> hd bs \<noteq> 0 then Suc (literal_run k bs) else 0)"
| "literal_run _ _ = 0"

definition u16_max :: nat where "u16_max = 65535"

lemma zero_run_le: "zero_run k bs \<le> k \<and> zero_run k bs \<le> length bs"
  by (induction k bs rule: zero_run.induct) auto

lemma literal_run_le: "literal_run k bs \<le> k \<and> literal_run k bs \<le> length bs"
  by (induction k bs rule: literal_run.induct) auto

definition literal_length :: "byte list \<Rightarrow> nat" where
  "literal_length bs = (let n = literal_run u16_max bs in if n = 0 then 1 else n)"

lemma zero_run_pos: "0 < k \<Longrightarrow> 0 < zero_run k (0 # bs)"
  by (cases k) simp_all

lemma runs_positive: "b = 0 \<Longrightarrow> 0 < zero_run u16_max (b # bs)" "0 < literal_length cs"
  by (simp_all add: zero_run_pos u16_max_def literal_length_def Let_def)

function rle_encode :: "byte list \<Rightarrow> byte list" where
  "rle_encode [] = []"
| "rle_encode (b # bs) =
     (if b = 0
      then let n = zero_run u16_max (b # bs) in
           0 # le16 (of_nat n) @ rle_encode (drop n (b # bs))
      else let n = literal_length (b # bs) in
           1 # le16 (of_nat n) @ take n (b # bs) @ rle_encode (drop n (b # bs)))"
  by pat_completeness auto

termination
proof (relation "measure length")
  fix b :: byte and bs x
  show "b = 0 \<Longrightarrow> x = zero_run u16_max (b # bs) \<Longrightarrow> (drop x (b # bs), b # bs) \<in> measure length"
    using runs_positive(1) [of b bs] by simp
  show "b \<noteq> 0 \<Longrightarrow> x = literal_length (b # bs) \<Longrightarrow> (drop x (b # bs), b # bs) \<in> measure length"
    using runs_positive(2) [of "b # bs"] by simp
qed simp

definition record_length :: "byte list \<Rightarrow> nat" where
  "record_length bytes = unat (from_le [bytes ! 1, bytes ! 2] :: 16 word)"

function rle_decode_from :: "byte list \<Rightarrow> byte list \<Rightarrow> codec_error + byte list" where
  "rle_decode_from bytes result =
     (if bytes = [] then Inr result
      else if length bytes < 3 then Inl InvalidPayload
      else let tag = bytes ! 0; n = record_length bytes; rest = drop 3 bytes in
        if tag = 0
        then (if length result + n > u64_max then Inl SizeOverflow
              else rle_decode_from rest (result @ replicate n 0))
        else if tag = 1
        then (if n > length rest then Inl InvalidPayload
              else rle_decode_from (drop n rest) (result @ take n rest))
        else Inl InvalidPayload)"
  by pat_completeness auto
termination by (relation "measure (\<lambda>(bytes, _). length bytes)") auto

declare rle_decode_from.simps [simp del]

definition rle_decode :: "byte list \<Rightarrow> codec_error + byte list" where
  "rle_decode bytes = rle_decode_from bytes []"

definition codec_encode :: "byte list \<Rightarrow> codec_payload" where
  "codec_encode source =
     \<lparr> cp_codec_id = ''lossless_q8_xor_rle'', cp_version = ''v1'',
       cp_bytes = rle_encode (delta_encode source), cp_source_bytes = length source,
       cp_metadata_bytes = 0, cp_dictionary_bytes = 0, cp_scratch_bytes = length source \<rparr>"

definition codec_decode :: "codec_payload \<Rightarrow> codec_error + byte list" where
  "codec_decode p =
     (if cp_codec_id p \<noteq> ''lossless_q8_xor_rle'' \<or> cp_version p \<noteq> ''v1'' then Inl InvalidPayload
      else case rle_decode (cp_bytes p) of
        Inl e \<Rightarrow> Inl e
      | Inr delta \<Rightarrow>
          let decoded = delta_decode delta in
          if length decoded \<noteq> cp_source_bytes p then Inl InvalidPayload else Inr decoded)"

subsection \<open>Round trip\<close>

lemma delta_round_trip: "delta_decode_from p (delta_encode_from p bs) = bs"
  by (induction p bs rule: delta_encode_from.induct) (simp_all add: xor.assoc Let_def)

lemma length_delta_encode [simp]: "length (delta_encode_from p bs) = length bs"
  by (induction p bs rule: delta_encode_from.induct) simp_all

lemma zero_run_zeros: "take (zero_run k bs) bs = replicate (zero_run k bs) 0"
  by (induction k bs rule: zero_run.induct) auto

lemma literal_length_le: "cs \<noteq> [] \<Longrightarrow> literal_length cs \<le> length cs \<and> literal_length cs \<le> u16_max"
  using literal_run_le [of u16_max cs] by (auto simp: literal_length_def Let_def u16_max_def Suc_le_eq)

text \<open>Reading one record.\<close>

lemma record_length_read:
  assumes "n \<le> u16_max"
  shows "record_length (tag # le16 (of_nat n) @ rest) = n"
proof -
  have "[(tag # le16 w @ rest) ! 1, (tag # le16 w @ rest) ! 2] = le16 w" for w by (simp add: le16_def)
  then have "record_length (tag # le16 (of_nat n) @ rest) = unat (of_nat n :: 16 word)"
    by (simp only: record_length_def from_le_le)
  with assms show ?thesis by (simp add: u16_max_def unat_of_nat)
qed

lemma decode_record:
  assumes "n \<le> u16_max"
  shows "rle_decode_from (tag # le16 (of_nat n) @ rest) result =
     (if tag = 0
      then (if length result + n > u64_max then Inl SizeOverflow else rle_decode_from rest (result @ replicate n 0))
      else if tag = 1
      then (if n > length rest then Inl InvalidPayload else rle_decode_from (drop n rest) (result @ take n rest))
      else Inl InvalidPayload)"
proof -
  have "(tag # le16 (of_nat n) @ rest) ! 0 = tag" "drop 3 (tag # le16 (of_nat n) @ rest) = rest"
    "\<not> length (tag # le16 (of_nat n) @ rest) < 3" by (simp_all add: numeral_3_eq_3)
  then show ?thesis
    by (subst rle_decode_from.simps) (simp add: record_length_read [OF assms] Let_def)
qed

lemma rle_round_trip:
  "length result + length bs \<le> u64_max \<Longrightarrow> rle_decode_from (rle_encode bs) result = Inr (result @ bs)"
proof (induction bs arbitrary: result rule: rle_encode.induct)
  case 1
  then show ?case by (simp add: rle_decode_from.simps)
next
  case (2 b bs)
  show ?case
  proof (cases "b = 0")
    case True
    define n where "n = zero_run u16_max (b # bs)"
    have n: "n \<le> u16_max" "n \<le> length (b # bs)" and zeros: "take n (b # bs) = replicate n 0"
      using zero_run_le [of u16_max "b # bs"] zero_run_zeros [of u16_max "b # bs"] by (simp_all add: n_def)
    have len: "length (result @ replicate n 0) + length (drop n (b # bs)) \<le> u64_max"
      using "2.prems" n(2) by simp
    have enc: "rle_encode (b # bs) = 0 # le16 (of_nat n) @ rle_encode (drop n (b # bs))"
      using True by (simp add: n_def Let_def)
    have fits: "\<not> length result + n > u64_max" using "2.prems" n(2) by simp
    have "rle_decode_from (rle_encode (b # bs)) result
        = rle_decode_from (rle_encode (drop n (b # bs))) (result @ replicate n 0)"
      unfolding enc decode_record [OF n(1)] using fits by simp
    also have "\<dots> = Inr ((result @ replicate n 0) @ drop n (b # bs))"
      by (rule "2.IH"(1) [OF True n_def len])
    also have "(result @ replicate n 0) @ drop n (b # bs) = result @ b # bs"
      unfolding append_assoc zeros [symmetric] append_take_drop_id ..
    finally show ?thesis .
  next
    case False
    define n where "n = literal_length (b # bs)"
    have n: "n \<le> u16_max" "n \<le> length (b # bs)" using literal_length_le [of "b # bs"] by (simp_all add: n_def)
    define r where "r = take n (b # bs) @ rle_encode (drop n (b # bs))"
    have enc: "rle_encode (b # bs) = 1 # le16 (of_nat n) @ r"
      using False by (simp add: n_def r_def Let_def)
    have take: "take n r = take n (b # bs)" "drop n r = rle_encode (drop n (b # bs))" "n \<le> length r"
      using n(2) by (simp_all add: r_def)
    have len: "length (result @ take n (b # bs)) + length (drop n (b # bs)) \<le> u64_max"
      using "2.prems" n(2) by simp
    have "rle_decode_from (rle_encode (b # bs)) result
        = rle_decode_from (rle_encode (drop n (b # bs))) (result @ take n (b # bs))"
      unfolding enc decode_record [OF n(1)] using take by simp
    also have "\<dots> = Inr ((result @ take n (b # bs)) @ drop n (b # bs))"
      by (rule "2.IH"(2) [OF False n_def len])
    finally show ?thesis unfolding append_assoc append_take_drop_id .
  qed
qed

lemma codec_round_trip:
  assumes "length source \<le> u64_max"
  shows "codec_decode (codec_encode source) = Inr source"
proof -
  have "rle_decode (rle_encode (delta_encode source)) = Inr (delta_encode source)"
    using rle_round_trip [of "[]" "delta_encode source"] assms by (simp add: rle_decode_def delta_encode_def)
  then show ?thesis
    by (simp add: codec_decode_def codec_encode_def delta_decode_def delta_encode_def delta_round_trip)
qed

subsection \<open>The codec interface\<close>

text \<open>The trait \<open>KVCodec\<close>, with the law a lossless codec adds to it.\<close>

locale kv_codec =
  fixes encode :: "byte list \<Rightarrow> codec_payload"
    and decode :: "codec_payload \<Rightarrow> codec_error + byte list"
  assumes lossless: "length source \<le> u64_max \<Longrightarrow> decode (encode source) = Inr source"
begin

lemma encode_injective:
  assumes "length a \<le> u64_max" "length b \<le> u64_max" "encode a = encode b"
  shows "a = b"
proof -
  have "Inr a = decode (encode a)" by (rule lossless [OF assms(1), symmetric])
  also have "\<dots> = Inr b" unfolding assms(3) by (rule lossless [OF assms(2)])
  finally show ?thesis by (rule sum.inject(2) [THEN iffD1])
qed

end

interpretation xor_rle: kv_codec codec_encode codec_decode
  by unfold_locales (rule codec_round_trip)

text \<open>
  C25: decoding what the codec encodes gives back every source that fits the address
  space, whatever its runs; so no two sources share a payload.
\<close>

theorem codec_is_lossless:
  assumes "length source \<le> u64_max"
  shows "codec_decode (codec_encode source) = Inr source
    \<and> (\<forall>other. length other \<le> u64_max \<and> codec_encode other = codec_encode source \<longrightarrow> other = source)"
  using assms xor_rle.lossless xor_rle.encode_injective by blast

lemma codec_is_lossless_witness: "codec_decode (codec_encode [7, 7, 7, 0, 1]) = Inr [7, 7, 7, 0, 1]"
  using codec_is_lossless [of "[7, 7, 7, 0, 1]"] by (simp add: u64_max_def)

end
