(* ===== verification/Kv_Pages.thy ===== *)
theory Kv_Pages
  imports Byte_Fields
begin

text \<open>
  \<open>har-kv/src/identity.rs\<close>, \<open>certificate.rs\<close> and \<open>page.rs\<close>: the identity digest, dependency
  closures and prefix identities, quality certificates, and the pages with their physical
  representations.  A metric is an \<open>f64\<close>, kept as its bit pattern and compared as IEEE does.
\<close>

unbundle bit_operations_syntax

subsection \<open>The four-lane digest\<close>

type_synonym digest = string

definition digest_seeds :: "64 word list" where
  "digest_seeds = [0xcbf29ce484222325, 0x84222325cbf29ce4, 0x9e3779b185ebca87, 0x517cc1b727220a95]"

definition digest_primes :: "64 word list" where
  "digest_primes = [0x100000001b3, 0x100000001b3 XOR 0x9e3779b97f4a7c15,
     0x100000001b3 XOR 0xd6e8feb86659fd93, 0x100000001b3 XOR 0xa0761d6478bd642f]"

definition lane_step :: "nat \<Rightarrow> byte \<Rightarrow> nat \<Rightarrow> 64 word \<Rightarrow> 64 word" where
  "lane_step index b lane w =
     (let mixed = ucast b + word_rotl (lane * 7) (of_nat index) + of_nat lane * 0x9e37;
          w1 = (w XOR mixed) * (digest_primes ! lane)
      in w1 XOR drop_bit 29 w1)"

definition digest_words :: "byte list \<Rightarrow> 64 word list" where
  "digest_words bytes =
     foldl (\<lambda>ws (index, b). map (\<lambda>(lane, w). lane_step index b lane w) (List.enumerate 0 ws))
       digest_seeds (List.enumerate 0 bytes)"

definition hex16 :: "64 word \<Rightarrow> string" where
  "hex16 w = map (\<lambda>i. hex_digit (unat (drop_bit (60 - 4 * i) w AND 15))) [0..<16]"

definition length_prefixed :: "byte list list \<Rightarrow> byte list" where
  "length_prefixed parts = concat (map (\<lambda>p. le64 (of_nat (length p)) @ p) parts)"

definition stable_digest :: "byte list list \<Rightarrow> digest" where
  "stable_digest parts = concat (map hex16 (digest_words (length_prefixed parts)))"

definition digest_of_text :: "string \<Rightarrow> digest" where
  "digest_of_text text = stable_digest [str_bytes text]"

subsection \<open>Closures and prefix identities\<close>

record kv_closure =
  kc_model_root :: digest
  kc_tokenizer_root :: digest
  kc_token_sequence_root :: digest
  kc_rope_config_root :: digest
  kc_layer_head_root :: digest
  kc_kv_type :: string
  kc_codec_version :: string
  kc_runtime_generation :: "64 word"
  kc_graph_generation :: "64 word"
  kc_decode_epoch :: "64 word"
  kc_authority_state_root :: digest

definition closure_root :: "kv_closure \<Rightarrow> digest" where
  "closure_root c = stable_digest
     [str_bytes (kc_model_root c), str_bytes (kc_tokenizer_root c), str_bytes (kc_token_sequence_root c),
      str_bytes (kc_rope_config_root c), str_bytes (kc_layer_head_root c), str_bytes (kc_kv_type c),
      str_bytes (kc_codec_version c), le64 (kc_runtime_generation c), le64 (kc_graph_generation c),
      le64 (kc_decode_epoch c), str_bytes (kc_authority_state_root c)]"

definition compatible_with :: "kv_closure \<Rightarrow> kv_closure \<Rightarrow> bool" where
  "compatible_with a b \<longleftrightarrow> a = b"

definition with_codec :: "string \<Rightarrow> kv_closure \<Rightarrow> kv_closure" where
  "with_codec v c = c\<lparr> kc_codec_version := v \<rparr>"

definition closure_with_generation :: "64 word \<Rightarrow> 64 word \<Rightarrow> 64 word \<Rightarrow> kv_closure \<Rightarrow> kv_closure" where
  "closure_with_generation r g e c =
     c\<lparr> kc_runtime_generation := r, kc_graph_generation := g, kc_decode_epoch := e \<rparr>"

record prefix_identity =
  px_model_root :: digest
  px_tokenizer_root :: digest
  px_token_sequence :: "32 word list"
  px_rope_config_root :: digest
  px_layer_start :: "32 word"
  px_layer_end :: "32 word"
  px_head_start :: "32 word"
  px_head_end :: "32 word"
  px_kv_type :: string
  px_codec_version :: string
  px_runtime_generation :: "64 word"
  px_authority_state_root :: digest

definition token_sequence_root :: "prefix_identity \<Rightarrow> digest" where
  "token_sequence_root p = stable_digest [concat (map le32 (px_token_sequence p))]"

definition layer_head_root :: "prefix_identity \<Rightarrow> digest" where
  "layer_head_root p = stable_digest
     [le32 (px_layer_start p), le32 (px_layer_end p), le32 (px_head_start p), le32 (px_head_end p)]"

definition identity_closure :: "prefix_identity \<Rightarrow> 64 word \<Rightarrow> 64 word \<Rightarrow> kv_closure" where
  "identity_closure p graph_generation decode_epoch =
     \<lparr> kc_model_root = px_model_root p, kc_tokenizer_root = px_tokenizer_root p,
       kc_token_sequence_root = token_sequence_root p, kc_rope_config_root = px_rope_config_root p,
       kc_layer_head_root = layer_head_root p, kc_kv_type = px_kv_type p,
       kc_codec_version = px_codec_version p, kc_runtime_generation = px_runtime_generation p,
       kc_graph_generation = graph_generation, kc_decode_epoch = decode_epoch,
       kc_authority_state_root = px_authority_state_root p \<rparr>"

subsection \<open>Quality certificates\<close>

definition f64_nan :: "64 word \<Rightarrow> bool" where
  "f64_nan x \<longleftrightarrow> take_bit 63 x > 0x7ff0000000000000"

definition f64_key :: "64 word \<Rightarrow> int" where
  "f64_key x = (if bit x 63 then - uint (take_bit 63 x) else uint (take_bit 63 x))"

text \<open>\<open>a <= b\<close>: false with a NaN; both zeros are equal.\<close>

definition f64_le :: "64 word \<Rightarrow> 64 word \<Rightarrow> bool" where
  "f64_le a b \<longleftrightarrow> \<not> f64_nan a \<and> \<not> f64_nan b \<and> f64_key a \<le> f64_key b"

text \<open>\<open>f64::max\<close> and \<open>f64::min\<close>: a NaN operand is ignored.\<close>

definition f64_max :: "64 word \<Rightarrow> 64 word \<Rightarrow> 64 word" where
  "f64_max a b = (if f64_nan a then b else if f64_nan b then a else if f64_le a b then b else a)"

definition f64_min :: "64 word \<Rightarrow> 64 word \<Rightarrow> 64 word" where
  "f64_min a b = (if f64_nan a then b else if f64_nan b then a else if f64_le a b then a else b)"

datatype quality_scope = PageProbe | ScopePrefix | FullContext | TaskOutput

record metric_bounds =
  me_reconstruction_mse :: "64 word option"
  me_attention_score_mse :: "64 word option"
  me_attention_distribution_jsd :: "64 word option"
  me_attention_output_mse :: "64 word option"
  me_exact_tail_retrieval :: "64 word option"

definition no_bounds :: metric_bounds where
  "no_bounds = \<lparr> me_reconstruction_mse = None, me_attention_score_mse = None,
     me_attention_distribution_jsd = None, me_attention_output_mse = None, me_exact_tail_retrieval = None \<rparr>"

record kv_certificate =
  qc_certificate_id :: digest
  qc_codec_id :: string
  qc_reference_format :: string
  qc_scope :: quality_scope
  qc_dependency_root :: digest
  qc_state_boundary_root :: digest
  qc_measured :: metric_bounds
  qc_allowed :: metric_bounds
  qc_certified :: bool
  qc_exact_tail_retrieval :: bool
  qc_evidence :: "string list"

definition measured_only :: "string \<Rightarrow> digest \<Rightarrow> digest \<Rightarrow> metric_bounds \<Rightarrow> kv_certificate" where
  "measured_only codec dep state measured =
     \<lparr> qc_certificate_id = stable_digest [str_bytes codec, str_bytes dep, str_bytes state,
           str_bytes ''measured-not-certified''],
       qc_codec_id = codec, qc_reference_format = ''q8_0'', qc_scope = PageProbe,
       qc_dependency_root = dep, qc_state_boundary_root = state, qc_measured = measured,
       qc_allowed = no_bounds, qc_certified = False, qc_exact_tail_retrieval = False,
       qc_evidence = [''tensor MSE alone is not a certificate''] \<rparr>"

definition exact_bounds :: metric_bounds where
  "exact_bounds = \<lparr> me_reconstruction_mse = Some 0, me_attention_score_mse = Some 0,
     me_attention_distribution_jsd = Some 0, me_attention_output_mse = Some 0,
     me_exact_tail_retrieval = Some 0x3ff0000000000000 \<rparr>"

definition exact_certificate :: "string \<Rightarrow> digest \<Rightarrow> digest \<Rightarrow> quality_scope \<Rightarrow> kv_certificate" where
  "exact_certificate codec dep state scope =
     \<lparr> qc_certificate_id = stable_digest [str_bytes codec, str_bytes dep, str_bytes state, str_bytes ''exact''],
       qc_codec_id = codec, qc_reference_format = ''q8_0'', qc_scope = scope,
       qc_dependency_root = dep, qc_state_boundary_root = state, qc_measured = exact_bounds,
       qc_allowed = exact_bounds, qc_certified = True, qc_exact_tail_retrieval = True,
       qc_evidence = [''exact source representation''] \<rparr>"

fun metric_leq :: "64 word option \<Rightarrow> 64 word option \<Rightarrow> bool" where
  "metric_leq _ None = True"
| "metric_leq (Some actual) (Some required) = f64_le actual required"
| "metric_leq None (Some _) = False"

definition authorize :: "kv_certificate \<Rightarrow> metric_bounds \<Rightarrow> digest \<Rightarrow> digest \<Rightarrow> bool" where
  "authorize c required dep state \<longleftrightarrow>
     qc_certified c \<and> qc_dependency_root c = dep \<and> qc_state_boundary_root c = state
   \<and> metric_leq (me_reconstruction_mse (qc_measured c)) (me_reconstruction_mse required)
   \<and> metric_leq (me_attention_score_mse (qc_measured c)) (me_attention_score_mse required)
   \<and> metric_leq (me_attention_distribution_jsd (qc_measured c)) (me_attention_distribution_jsd required)
   \<and> metric_leq (me_attention_output_mse (qc_measured c)) (me_attention_output_mse required)
   \<and> (me_exact_tail_retrieval required = None \<or> qc_exact_tail_retrieval c)"

datatype certificate_error = NotCertified | DependencyBoundaryMismatch | MissingMetric

fun opt_combine :: "('a \<Rightarrow> 'a \<Rightarrow> 'a) \<Rightarrow> 'a option \<Rightarrow> 'a option \<Rightarrow> 'a option" where
  "opt_combine f (Some a) (Some b) = Some (f a b)"
| "opt_combine f a None = a"
| "opt_combine f None a = a"

definition complete_metrics :: "metric_bounds \<Rightarrow> bool" where
  "complete_metrics m \<longleftrightarrow> me_reconstruction_mse m \<noteq> None \<and> me_attention_score_mse m \<noteq> None
     \<and> me_attention_distribution_jsd m \<noteq> None \<and> me_attention_output_mse m \<noteq> None"

definition combine_metrics :: "metric_bounds \<Rightarrow> metric_bounds \<Rightarrow> metric_bounds" where
  "combine_metrics a b = \<lparr>
     me_reconstruction_mse = opt_combine f64_max (me_reconstruction_mse a) (me_reconstruction_mse b),
     me_attention_score_mse = opt_combine f64_max (me_attention_score_mse a) (me_attention_score_mse b),
     me_attention_distribution_jsd =
       opt_combine f64_max (me_attention_distribution_jsd a) (me_attention_distribution_jsd b),
     me_attention_output_mse = opt_combine f64_max (me_attention_output_mse a) (me_attention_output_mse b),
     me_exact_tail_retrieval = opt_combine f64_min (me_exact_tail_retrieval a) (me_exact_tail_retrieval b) \<rparr>"

definition compose_certificates :: "kv_certificate \<Rightarrow> kv_certificate \<Rightarrow> certificate_error + kv_certificate" where
  "compose_certificates a b =
     (if qc_dependency_root a \<noteq> qc_dependency_root b \<or> qc_state_boundary_root a \<noteq> qc_state_boundary_root b
      then Inl DependencyBoundaryMismatch
      else if \<not> qc_certified a \<or> \<not> qc_certified b then Inl NotCertified
      else if \<not> complete_metrics (qc_measured a) \<or> \<not> complete_metrics (qc_measured b) then Inl MissingMetric
      else Inr
       \<lparr> qc_certificate_id = stable_digest [str_bytes (qc_certificate_id a), str_bytes (qc_certificate_id b),
             str_bytes ''composition-v1''],
         qc_codec_id = qc_codec_id a @ ''+'' @ qc_codec_id b, qc_reference_format = qc_reference_format a,
         qc_scope = ScopePrefix, qc_dependency_root = qc_dependency_root a,
         qc_state_boundary_root = qc_state_boundary_root a,
         qc_measured = combine_metrics (qc_measured a) (qc_measured b), qc_allowed = no_bounds,
         qc_certified = True,
         qc_exact_tail_retrieval = (qc_exact_tail_retrieval a \<and> qc_exact_tail_retrieval b),
         qc_evidence = qc_evidence a @ qc_evidence b @ [''proof-carrying composition''] \<rparr>)"

definition no_nan :: "metric_bounds \<Rightarrow> bool" where
  "no_nan m \<longleftrightarrow> (\<forall>x\<in>set [me_reconstruction_mse m, me_attention_score_mse m,
     me_attention_distribution_jsd m, me_attention_output_mse m]. case x of Some v \<Rightarrow> \<not> f64_nan v | None \<Rightarrow> True)"

lemma f64_max_le: "\<not> f64_nan a \<Longrightarrow> \<not> f64_nan b \<Longrightarrow> f64_le (f64_max a b) r \<longleftrightarrow> f64_le a r \<and> f64_le b r"
  by (auto simp: f64_max_def f64_le_def)

lemma metric_leq_max:
  "x \<noteq> None \<Longrightarrow> y \<noteq> None \<Longrightarrow> (case x of Some v \<Rightarrow> \<not> f64_nan v | None \<Rightarrow> True) \<Longrightarrow>
   (case y of Some v \<Rightarrow> \<not> f64_nan v | None \<Rightarrow> True) \<Longrightarrow>
   metric_leq (opt_combine f64_max x y) r \<longleftrightarrow> metric_leq x r \<and> metric_leq y r"
  by (cases r) (auto simp: f64_max_le)

text \<open>
  A composed certificate authorises a requirement exactly when both
  parts do, provided that no measured metric is a NaN.
\<close>

theorem composition_is_conjunction:
  assumes "compose_certificates a b = Inr c" "no_nan (qc_measured a)" "no_nan (qc_measured b)"
  shows "authorize c required dep state \<longleftrightarrow> authorize a required dep state \<and> authorize b required dep state"
proof -
  have ab: "qc_dependency_root a = qc_dependency_root b" "qc_state_boundary_root a = qc_state_boundary_root b"
    "qc_certified a" "qc_certified b" "complete_metrics (qc_measured a)" "complete_metrics (qc_measured b)"
    and c: "qc_dependency_root c = qc_dependency_root a" "qc_state_boundary_root c = qc_state_boundary_root a"
    "qc_certified c" "qc_measured c = combine_metrics (qc_measured a) (qc_measured b)"
    "qc_exact_tail_retrieval c = (qc_exact_tail_retrieval a \<and> qc_exact_tail_retrieval b)"
    using assms(1) by (auto simp: compose_certificates_def split: if_splits)
  have leq: "metric_leq (opt_combine f64_max (f (qc_measured a)) (f (qc_measured b))) r
      \<longleftrightarrow> metric_leq (f (qc_measured a)) r \<and> metric_leq (f (qc_measured b)) r"
    if "f \<in> {me_reconstruction_mse, me_attention_score_mse, me_attention_distribution_jsd, me_attention_output_mse}" for f r
    by (rule metric_leq_max) (use that ab(5,6) assms(2,3) in \<open>auto simp: complete_metrics_def no_nan_def\<close>)
  show ?thesis
    using ab leq by (auto simp: authorize_def c combine_metrics_def)
qed

lemma composition_is_conjunction_witness:
  "\<exists>c. compose_certificates (exact_certificate ''a'' ''dep'' ''state'' FullContext)
         (exact_certificate ''b'' ''dep'' ''state'' FullContext) = Inr c
     \<and> authorize c exact_bounds ''dep'' ''state''"
proof -
  let ?e = "\<lambda>k. exact_certificate k ''dep'' ''state'' FullContext"
  obtain c where c: "compose_certificates (?e ''a'') (?e ''b'') = Inr c"
    by (simp add: compose_certificates_def exact_certificate_def complete_metrics_def exact_bounds_def)
  have nan: "no_nan (qc_measured (?e k))" for k
    by (simp add: no_nan_def exact_certificate_def exact_bounds_def f64_nan_def)
  have "authorize (?e k) exact_bounds ''dep'' ''state''" for k
    by (simp add: authorize_def exact_certificate_def exact_bounds_def f64_le_def f64_nan_def)
  with composition_is_conjunction [OF c nan nan] c show ?thesis by blast
qed

text \<open>
  Without that proviso composition launders: a certificate whose score is a NaN authorises no
  bound on the score, but composed with a good one it does.
\<close>

definition nan_certificate :: kv_certificate where
  "nan_certificate = (exact_certificate ''n'' ''dep'' ''state'' FullContext)
     \<lparr> qc_measured := exact_bounds\<lparr> me_attention_score_mse := Some 0x7ff8000000000000 \<rparr> \<rparr>"

lemma composition_launders_nan:
  "\<not> authorize nan_certificate exact_bounds ''dep'' ''state''
   \<and> (\<exists>c. compose_certificates nan_certificate (exact_certificate ''b'' ''dep'' ''state'' FullContext) = Inr c
        \<and> authorize c exact_bounds ''dep'' ''state'')"
  by (simp add: compose_certificates_def nan_certificate_def exact_certificate_def complete_metrics_def
      combine_metrics_def exact_bounds_def authorize_def f64_le_def f64_nan_def f64_max_def)

subsection \<open>Pages and their representations\<close>

type_synonym node_id = digest

datatype kv_format = ExactQ8 | ReconstructedF16 | ReconstructedQ8 | FormatLatent | LosslessQ8 | TokenArchive

datatype kv_storage_tier =
  TierExactHot | TierReconstructedWarm | TierLatentCold | TierLosslessCold | TierTokenArchive
| TierReconstructionScratch

datatype representation_kind =
  KindExactHotQ8 | KindReconstructedWarm | KindContextFoldLatent | KindLosslessColdPage
| KindExactTokenArchive | KindReconstructionScratch

record kv_page_id =
  kp_prefix_node_id :: node_id
  kp_ordinal :: nat
  kp_token_start :: nat
  kp_token_end :: nat
  kp_layer_start :: nat
  kp_layer_end :: nat
  kp_head_start :: nat
  kp_head_end :: nat
  kp_logical_generation :: "64 word"

definition page_token_count :: "kv_page_id \<Rightarrow> nat" where
  "page_token_count p = kp_token_end p - kp_token_start p"

definition page_layer_count :: "kv_page_id \<Rightarrow> nat" where
  "page_layer_count p = kp_layer_end p - kp_layer_start p"

definition page_head_count :: "kv_page_id \<Rightarrow> nat" where
  "page_head_count p = kp_head_end p - kp_head_start p"

definition page_key :: "kv_page_id \<Rightarrow> string" where
  "page_key p = kp_prefix_node_id p @ '':'' @ dec_digits (kp_ordinal p) @ '':'' @
     dec_digits (kp_token_start p) @ ''-'' @ dec_digits (kp_token_end p) @ '':L'' @
     dec_digits (kp_layer_start p) @ ''-'' @ dec_digits (kp_layer_end p) @ '':H'' @
     dec_digits (kp_head_start p) @ ''-'' @ dec_digits (kp_head_end p) @ '':g'' @
     dec_digits (unat (kp_logical_generation p))"

definition page_valid :: "kv_page_id \<Rightarrow> bool" where
  "page_valid p \<longleftrightarrow> kp_token_end p > kp_token_start p \<and> kp_layer_end p > kp_layer_start p
     \<and> kp_head_end p \<ge> kp_head_start p"

record physical_location =
  ph_store_id :: string
  ph_loc_offset :: nat
  ph_length :: nat
  ph_loc_generation :: nat

datatype kv_representation =
  ExactHotQ8 nat "physical_location option"
| ReconstructedWarm nat string "physical_location option"
| ContextFoldLatent string nat kv_certificate "physical_location option"
| LosslessCold nat "physical_location option"
| ExactTokenArchive nat string "physical_location option"
| ReconstructionScratch nat string

fun repr_kind :: "kv_representation \<Rightarrow> representation_kind" where
  "repr_kind (ExactHotQ8 _ _) = KindExactHotQ8"
| "repr_kind (ReconstructedWarm _ _ _) = KindReconstructedWarm"
| "repr_kind (ContextFoldLatent _ _ _ _) = KindContextFoldLatent"
| "repr_kind (LosslessCold _ _) = KindLosslessColdPage"
| "repr_kind (ExactTokenArchive _ _ _) = KindExactTokenArchive"
| "repr_kind (ReconstructionScratch _ _) = KindReconstructionScratch"

fun repr_tier :: "kv_representation \<Rightarrow> kv_storage_tier" where
  "repr_tier (ExactHotQ8 _ _) = TierExactHot"
| "repr_tier (ReconstructedWarm _ _ _) = TierReconstructedWarm"
| "repr_tier (ContextFoldLatent _ _ _ _) = TierLatentCold"
| "repr_tier (LosslessCold _ _) = TierLosslessCold"
| "repr_tier (ExactTokenArchive _ _ _) = TierTokenArchive"
| "repr_tier (ReconstructionScratch _ _) = TierReconstructionScratch"

fun repr_bytes :: "kv_representation \<Rightarrow> nat" where
  "repr_bytes (ExactHotQ8 n _) = n"
| "repr_bytes (ReconstructedWarm n _ _) = n"
| "repr_bytes (ContextFoldLatent _ n _ _) = n"
| "repr_bytes (LosslessCold n _) = n"
| "repr_bytes (ExactTokenArchive n _ _) = n"
| "repr_bytes (ReconstructionScratch n _) = n"

definition is_exact :: "kv_representation \<Rightarrow> bool" where
  "is_exact r \<longleftrightarrow> repr_kind r \<in> {KindExactHotQ8, KindExactTokenArchive, KindLosslessColdPage}"

record kv_page =
  pg_id :: kv_page_id
  pg_closure :: kv_closure
  pg_representations :: "kv_representation list"
  pg_reference_count :: nat
  pg_active_leases :: nat
  pg_last_access_epoch :: nat

definition page_new :: "kv_page_id \<Rightarrow> kv_closure \<Rightarrow> kv_page" where
  "page_new i c = \<lparr> pg_id = i, pg_closure = c, pg_representations = [], pg_reference_count = 0,
     pg_active_leases = 0, pg_last_access_epoch = 0 \<rparr>"

definition page_add_representation :: "kv_representation \<Rightarrow> kv_page \<Rightarrow> kv_page" where
  "page_add_representation r p = p\<lparr> pg_representations :=
     filter (\<lambda>c. repr_kind c \<noteq> repr_kind r) (pg_representations p) @ [r] \<rparr>"

definition page_find :: "representation_kind \<Rightarrow> kv_page \<Rightarrow> kv_representation option" where
  "page_find k p = find (\<lambda>r. repr_kind r = k) (pg_representations p)"

record kv_page_lease =
  kl_lease_id :: string
  kl_page_id :: kv_page_id
  kl_representation :: representation_kind
  kl_generation :: "64 word"
  kl_owner :: string

datatype fallback_step =
  LatentDecode
| HigherResidual string
| WidenPage nat
| TokenArchiveReplay string
| FullReference digest

record kv_fallback_plan =
  fp_page_id :: kv_page_id
  fp_steps :: "fallback_step list"
  fp_reason :: string
  fp_required_quality :: "kv_certificate option"

definition fallback_strict :: "kv_page_id \<Rightarrow> string \<Rightarrow> digest \<Rightarrow> string \<Rightarrow> kv_fallback_plan" where
  "fallback_strict i archive authority reason =
     \<lparr> fp_page_id = i,
       fp_steps = [LatentDecode, HigherResidual ''pca_residual_v0_high'', WidenPage 32,
                   TokenArchiveReplay archive, FullReference authority],
       fp_reason = reason, fp_required_quality = None \<rparr>"

definition fallback_validate :: "kv_fallback_plan \<Rightarrow> string + unit" where
  "fallback_validate p =
     (if \<not> page_valid (fp_page_id p) \<or> fp_steps p = [] \<or> fp_reason p = []
      then Inl ''fallback plan is incomplete'' else Inr ())"

end
