(* ===== verification/Kv_Graph.thy ===== *)
theory Kv_Graph
  imports Kv_Pages
begin

text \<open>
  \<open>har-kv/src/graph.rs\<close>: the prefix graph.  A node is named by the digest of its identity; nodes form
  trees by one token per edge, pages hang off nodes and are leased by owners.  The digest is the
  parameter \<open>dg\<close> (the code's is \<open>stable_digest\<close>), because what the graph promises depends on it only
  through collisions.  \<open>HashMap\<close>s and \<open>BTreeMap\<close>s are maps, and an operation returns the state
  together with its result, since several fail after a change.  Reference and lease counts are
  \<open>nat\<close>: a run would need 2^64 calls to reach the wrap of the code's \<open>u64\<close>.
\<close>

subsection \<open>State\<close>

definition node_id_of :: "(byte list list \<Rightarrow> digest) \<Rightarrow> prefix_identity \<Rightarrow> node_id" where
  "node_id_of dg i = dg
     [str_bytes (px_model_root i), str_bytes (px_tokenizer_root i), str_bytes (token_sequence_root i),
      str_bytes (px_rope_config_root i), le32 (px_layer_start i), le32 (px_layer_end i),
      le32 (px_head_start i), le32 (px_head_end i), str_bytes (px_kv_type i),
      str_bytes (px_codec_version i), le64 (px_runtime_generation i),
      str_bytes (px_authority_state_root i)]"

record prefix_root =
  pr_id :: node_id
  pr_identity :: prefix_identity
  pr_closure :: kv_closure

record prefix_edge =
  pe_parent :: node_id
  pe_child :: node_id
  pe_token_id :: "32 word"
  pe_ordinal :: "64 word"
  pe_dependency_root :: digest
  pe_graph_generation :: "64 word"

record prefix_node =
  pn_id :: node_id
  pn_identity :: prefix_identity
  pn_closure :: kv_closure
  pn_parent :: "node_id option"
  pn_incoming_token :: "32 word option"
  pn_depth :: nat
  pn_children :: "32 word \<rightharpoonup> node_id"
  pn_pages :: "kv_page_id list"
  pn_reference_count :: nat
  pn_active_leases :: nat
  pn_graph_generation :: "64 word"

datatype graph_error =
  EmptyIdentity | RootAlreadyExists | UnknownRoot | UnknownNode | UnknownPage | DuplicateEdge
| InvalidTokenSequence | InvalidPage | StaleGeneration "64 word" "64 word" | ActiveLease | Referenced
| MissingRepresentation | NoQualityAuthorized | DependencyMismatch | InvalidLease

datatype causal_error = MissingNode | PrefixRangeOutsideNode | RootMismatch | GenerationMismatch

datatype page_selection = Representation representation_kind | Fallback kv_fallback_plan

record prefix_graph =
  gr_generation :: "64 word"
  gr_roots :: "node_id \<rightharpoonup> prefix_root"
  gr_nodes :: "node_id \<rightharpoonup> prefix_node"
  gr_pages :: "kv_page_id \<rightharpoonup> kv_page"
  gr_leases :: "string \<rightharpoonup> kv_page_lease"

definition graph_new :: prefix_graph where
  "graph_new = \<lparr> gr_generation = 1, gr_roots = Map.empty, gr_nodes = Map.empty, gr_pages = Map.empty,
     gr_leases = Map.empty \<rparr>"

abbreviation node_tokens :: "prefix_node \<Rightarrow> 32 word list" where
  "node_tokens n \<equiv> px_token_sequence (pn_identity n)"

subsection \<open>Roots and edges\<close>

definition root_node :: "(byte list list \<Rightarrow> digest) \<Rightarrow> prefix_identity \<Rightarrow> 64 word \<Rightarrow> prefix_node" where
  "root_node dg i gen = \<lparr> pn_id = node_id_of dg i, pn_identity = i, pn_closure = identity_closure i gen 0,
     pn_parent = None, pn_incoming_token = None, pn_depth = 0, pn_children = Map.empty, pn_pages = [],
     pn_reference_count = 0, pn_active_leases = 0, pn_graph_generation = gen \<rparr>"

definition insert_root ::
  "(byte list list \<Rightarrow> digest) \<Rightarrow> prefix_identity \<Rightarrow> prefix_graph \<Rightarrow> prefix_graph \<times> (graph_error + prefix_root)" where
  "insert_root dg i g =
     (if px_token_sequence i \<noteq> [] then (g, Inl EmptyIdentity)
      else let k = node_id_of dg i in
        if gr_roots g k \<noteq> None then (g, Inl RootAlreadyExists)
        else let r = \<lparr> pr_id = k, pr_identity = i, pr_closure = identity_closure i (gr_generation g) 0 \<rparr>
          in (g\<lparr> gr_roots := (gr_roots g)(k \<mapsto> r),
                 gr_nodes := (gr_nodes g)(k \<mapsto> root_node dg i (gr_generation g)) \<rparr>, Inr r))"

definition child_node ::
  "(byte list list \<Rightarrow> digest) \<Rightarrow> prefix_identity \<Rightarrow> 64 word \<Rightarrow> node_id \<Rightarrow> 32 word \<Rightarrow> nat \<Rightarrow> prefix_node" where
  "child_node dg i gen parent t depth = \<lparr> pn_id = node_id_of dg i, pn_identity = i,
     pn_closure = identity_closure i gen 0, pn_parent = Some parent, pn_incoming_token = Some t,
     pn_depth = depth + 1, pn_children = Map.empty, pn_pages = [], pn_reference_count = 0,
     pn_active_leases = 0, pn_graph_generation = gen \<rparr>"

definition child_edge ::
  "(byte list list \<Rightarrow> digest) \<Rightarrow> prefix_identity \<Rightarrow> 64 word \<Rightarrow> node_id \<Rightarrow> 32 word \<Rightarrow> nat \<Rightarrow> prefix_edge" where
  "child_edge dg i gen parent t depth = \<lparr> pe_parent = parent, pe_child = node_id_of dg i, pe_token_id = t,
     pe_ordinal = of_nat depth, pe_dependency_root = closure_root (identity_closure i gen 0),
     pe_graph_generation = gen \<rparr>"

definition add_child :: "32 word \<Rightarrow> node_id \<Rightarrow> prefix_node \<Rightarrow> prefix_node" where
  "add_child t c n = n\<lparr> pn_children := (pn_children n)(t \<mapsto> c) \<rparr>"

definition graph_extend ::
  "(byte list list \<Rightarrow> digest) \<Rightarrow> node_id \<Rightarrow> 32 word \<Rightarrow> prefix_identity \<Rightarrow> prefix_graph
     \<Rightarrow> prefix_graph \<times> (graph_error + node_id \<times> prefix_edge)" where
  "graph_extend dg parent_id t i g =
     (case gr_nodes g parent_id of
        None \<Rightarrow> (g, Inl UnknownNode)
      | Some parent \<Rightarrow>
          if length (px_token_sequence i) \<noteq> pn_depth parent + 1
             \<or> take (pn_depth parent) (px_token_sequence i) \<noteq> node_tokens parent
             \<or> px_token_sequence i ! pn_depth parent \<noteq> t
          then (g, Inl InvalidTokenSequence)
          else if pn_children parent t \<noteq> None then (g, Inl DuplicateEdge)
          else
            let k = node_id_of dg i;
                gen = gr_generation g;
                inserted = (gr_nodes g)(k \<mapsto> child_node dg i gen parent_id t (pn_depth parent));
                linked = inserted(parent_id := map_option (add_child t k) (inserted parent_id))
            in (g\<lparr> gr_nodes := linked \<rparr>, Inr (k, child_edge dg i gen parent_id t (pn_depth parent))))"

fun graph_walk :: "(node_id \<rightharpoonup> prefix_node) \<Rightarrow> node_id \<Rightarrow> 32 word list \<Rightarrow> node_id option" where
  "graph_walk N k [] = Some k"
| "graph_walk N k (t # ts) =
     (case Option.bind (N k) (\<lambda>n. pn_children n t) of
        None \<Rightarrow> None
      | Some next \<Rightarrow> graph_walk N next ts)"

definition graph_lookup ::
  "node_id \<Rightarrow> 32 word list \<Rightarrow> prefix_graph \<Rightarrow> graph_error + node_id option" where
  "graph_lookup root ts g =
     (if gr_roots g root = None then Inl UnknownRoot else Inr (graph_walk (gr_nodes g) root ts))"

subsection \<open>References along the path to the root\<close>

definition on_node :: "node_id \<Rightarrow> (prefix_node \<Rightarrow> prefix_node) \<Rightarrow> prefix_graph \<Rightarrow> prefix_graph" where
  "on_node k f g = g\<lparr> gr_nodes := (gr_nodes g)(k := map_option f (gr_nodes g k)) \<rparr>"

definition count_up :: "prefix_node \<Rightarrow> prefix_node" where
  "count_up n = n\<lparr> pn_reference_count := pn_reference_count n + 1 \<rparr>"

definition count_down :: "prefix_node \<Rightarrow> prefix_node" where
  "count_down n = n\<lparr> pn_reference_count := pn_reference_count n - 1 \<rparr>"

partial_function (option) retain_loop ::
  "node_id option \<Rightarrow> prefix_graph \<Rightarrow> (prefix_graph \<times> (graph_error + unit)) option" where
  "retain_loop current g =
     (case current of
        None \<Rightarrow> Some (g, Inr ())
      | Some k \<Rightarrow> (case gr_nodes g k of
            None \<Rightarrow> Some (g, Inl UnknownNode)
          | Some n \<Rightarrow> retain_loop (pn_parent n) (on_node k count_up g)))"

partial_function (option) release_loop ::
  "node_id option \<Rightarrow> prefix_graph \<Rightarrow> (prefix_graph \<times> (graph_error + unit)) option" where
  "release_loop current g =
     (case current of
        None \<Rightarrow> Some (g, Inr ())
      | Some k \<Rightarrow> (case gr_nodes g k of
            None \<Rightarrow> Some (g, Inl UnknownNode)
          | Some n \<Rightarrow>
              if pn_reference_count n = 0 then Some (g, Inl Referenced)
              else release_loop (pn_parent n) (on_node k count_down g)))"

definition retain_prefix :: "node_id \<Rightarrow> prefix_graph \<Rightarrow> (prefix_graph \<times> (graph_error + unit)) option" where
  "retain_prefix k = retain_loop (Some k)"

definition release_prefix :: "node_id \<Rightarrow> prefix_graph \<Rightarrow> (prefix_graph \<times> (graph_error + unit)) option" where
  "release_prefix k = release_loop (Some k)"

subsection \<open>Pages, selection, leases and eviction\<close>

definition attach_page :: "kv_page \<Rightarrow> prefix_graph \<Rightarrow> prefix_graph \<times> (graph_error + unit)" where
  "attach_page p g =
     (if \<not> page_valid (pg_id p) then (g, Inl InvalidPage)
      else case gr_nodes g (kp_prefix_node_id (pg_id p)) of
        None \<Rightarrow> (g, Inl UnknownNode)
      | Some n \<Rightarrow>
          if kp_token_end (pg_id p) > length (node_tokens n)
             \<or> kp_logical_generation (pg_id p) \<noteq> px_runtime_generation (pn_identity n)
          then (g, Inl InvalidPage)
          else if \<not> compatible_with (pg_closure p) (pn_closure n) then (g, Inl DependencyMismatch)
          else (g\<lparr> gr_nodes := (gr_nodes g)(kp_prefix_node_id (pg_id p) \<mapsto>
                     n\<lparr> pn_pages := pn_pages n @ [pg_id p] \<rparr>),
                   gr_pages := (gr_pages g)(pg_id p \<mapsto> p) \<rparr>, Inr ()))"

definition graph_add_representation ::
  "kv_page_id \<Rightarrow> kv_representation \<Rightarrow> 64 word \<Rightarrow> prefix_graph \<Rightarrow> prefix_graph \<times> (graph_error + unit)" where
  "graph_add_representation i r expected g =
     (if expected \<noteq> gr_generation g then (g, Inl (StaleGeneration expected (gr_generation g)))
      else case gr_pages g i of
        None \<Rightarrow> (g, Inl UnknownPage)
      | Some p \<Rightarrow> (g\<lparr> gr_pages := (gr_pages g)(i \<mapsto> page_add_representation r p) \<rparr>, Inr ()))"

definition latent_allowed :: "kv_page \<Rightarrow> metric_bounds option \<Rightarrow> bool" where
  "latent_allowed p required =
     (case page_find KindContextFoldLatent p of
        Some (ContextFoldLatent _ _ quality _) \<Rightarrow>
          (case required of
             Some m \<Rightarrow> authorize quality m (closure_root (pg_closure p)) (closure_root (pg_closure p))
           | None \<Rightarrow> True)
      | _ \<Rightarrow> False)"

definition select_with_hot ::
  "kv_page_id \<Rightarrow> bool \<Rightarrow> metric_bounds option \<Rightarrow> string \<Rightarrow> digest \<Rightarrow> prefix_graph \<Rightarrow> graph_error + page_selection" where
  "select_with_hot i exact_hot required archive authority g =
     (case gr_pages g i of
        None \<Rightarrow> Inl UnknownPage
      | Some p \<Rightarrow>
          if exact_hot \<and> page_find KindExactHotQ8 p \<noteq> None then Inr (Representation KindExactHotQ8)
          else if required = None \<and> page_find KindReconstructedWarm p \<noteq> None
          then Inr (Representation KindReconstructedWarm)
          else if latent_allowed p required then Inr (Representation KindContextFoldLatent)
          else if page_find KindLosslessColdPage p \<noteq> None then Inr (Representation KindLosslessColdPage)
          else if page_find KindExactTokenArchive p \<noteq> None
          then Inr (Fallback ((fallback_strict i archive authority ''no certified latent representation'')
            \<lparr> fp_required_quality := map_option (\<lambda>_. measured_only ''required''
                (closure_root (pg_closure p)) (closure_root (pg_closure p)) no_bounds) required \<rparr>))
          else Inl NoQualityAuthorized)"

definition graph_select ::
  "kv_page_id \<Rightarrow> metric_bounds option \<Rightarrow> string \<Rightarrow> digest \<Rightarrow> prefix_graph \<Rightarrow> graph_error + page_selection" where
  "graph_select i required archive authority = select_with_hot i True required archive authority"

definition lease_id_of :: "(byte list list \<Rightarrow> digest) \<Rightarrow> kv_page_id \<Rightarrow> string \<Rightarrow> 64 word \<Rightarrow> string" where
  "lease_id_of dg i owner gen = dg [str_bytes (page_key i), str_bytes owner, le64 gen]"

definition graph_lease ::
  "(byte list list \<Rightarrow> digest) \<Rightarrow> kv_page_id \<Rightarrow> representation_kind \<Rightarrow> string \<Rightarrow> 64 word \<Rightarrow> prefix_graph
     \<Rightarrow> prefix_graph \<times> (graph_error + kv_page_lease)" where
  "graph_lease dg i kind owner expected g =
     (if expected \<noteq> gr_generation g then (g, Inl (StaleGeneration expected (gr_generation g)))
      else case gr_pages g i of
        None \<Rightarrow> (g, Inl UnknownPage)
      | Some p \<Rightarrow>
          if page_find kind p = None then (g, Inl MissingRepresentation)
          else
            let lid = lease_id_of dg i owner (gr_generation g);
                l = \<lparr> kl_lease_id = lid, kl_page_id = i, kl_representation = kind,
                      kl_generation = gr_generation g, kl_owner = owner \<rparr>
            in (g\<lparr> gr_pages := (gr_pages g)(i \<mapsto> p\<lparr> pg_active_leases := pg_active_leases p + 1,
                                                   pg_reference_count := pg_reference_count p + 1 \<rparr>),
                   gr_leases := (gr_leases g)(lid \<mapsto> l) \<rparr>, Inr l))"

definition graph_release_lease :: "string \<Rightarrow> prefix_graph \<Rightarrow> prefix_graph \<times> (graph_error + unit)" where
  "graph_release_lease lid g =
     (case gr_leases g lid of
        None \<Rightarrow> (g, Inl InvalidLease)
      | Some l \<Rightarrow>
          let g1 = g\<lparr> gr_leases := (gr_leases g)(lid := None) \<rparr> in
          case gr_pages g (kl_page_id l) of
            None \<Rightarrow> (g1, Inl UnknownPage)
          | Some p \<Rightarrow>
              if pg_active_leases p = 0 \<or> pg_reference_count p = 0 then (g1, Inl InvalidLease)
              else (g1\<lparr> gr_pages := (gr_pages g)(kl_page_id l \<mapsto>
                       p\<lparr> pg_active_leases := pg_active_leases p - 1,
                          pg_reference_count := pg_reference_count p - 1 \<rparr>) \<rparr>, Inr ()))"

fun remove_kind :: "representation_kind \<Rightarrow> kv_representation list \<Rightarrow> (kv_representation \<times> kv_representation list) option" where
  "remove_kind k [] = None"
| "remove_kind k (r # rs) =
     (if repr_kind r = k then Some (r, rs) else map_option (map_prod id ((#) r)) (remove_kind k rs))"

definition graph_evict ::
  "kv_page_id \<Rightarrow> representation_kind \<Rightarrow> 64 word \<Rightarrow> prefix_graph \<Rightarrow> prefix_graph \<times> (graph_error + kv_representation)" where
  "graph_evict i kind expected g =
     (if expected \<noteq> gr_generation g then (g, Inl (StaleGeneration expected (gr_generation g)))
      else case gr_pages g i of
        None \<Rightarrow> (g, Inl UnknownPage)
      | Some p \<Rightarrow>
          if pg_active_leases p \<noteq> 0 then (g, Inl ActiveLease)
          else if pg_reference_count p \<noteq> 0 then (g, Inl Referenced)
          else case remove_kind kind (pg_representations p) of
            None \<Rightarrow> (g, Inl MissingRepresentation)
          | Some (r, rest) \<Rightarrow> (g\<lparr> gr_pages := (gr_pages g)(i \<mapsto> p\<lparr> pg_representations := rest \<rparr>) \<rparr>, Inr r))"

definition validate_causal_closure :: "kv_page_id \<Rightarrow> prefix_graph \<Rightarrow> causal_error + unit" where
  "validate_causal_closure i g =
     (case gr_pages g i of
        None \<Rightarrow> Inl MissingNode
      | Some p \<Rightarrow> (case gr_nodes g (kp_prefix_node_id i) of
            None \<Rightarrow> Inl MissingNode
          | Some n \<Rightarrow>
              if kp_token_end (pg_id p) > length (node_tokens n) \<or> kp_token_end (pg_id p) \<le> kp_token_start (pg_id p)
              then Inl PrefixRangeOutsideNode
              else if closure_root (pg_closure p) \<noteq> closure_root (pn_closure n) then Inl RootMismatch
              else if kp_logical_generation (pg_id p) \<noteq> px_runtime_generation (pn_identity n)
              then Inl GenerationMismatch
              else Inr ()))"

definition graph_advance_generation :: "prefix_graph \<Rightarrow> prefix_graph \<times> 64 word" where
  "graph_advance_generation g = (g\<lparr> gr_generation := gr_generation g + 1 \<rparr>, gr_generation g + 1)"

subsection \<open>The trees are well formed\<close>

definition parent_ok :: "(node_id \<rightharpoonup> prefix_node) \<Rightarrow> prefix_node \<Rightarrow> bool" where
  "parent_ok N n \<longleftrightarrow> (pn_parent n = None \<and> node_tokens n = [])
     \<or> (\<exists>p m t. pn_parent n = Some p \<and> N p = Some m \<and> node_tokens n = node_tokens m @ [t])"

definition children_ok :: "(node_id \<rightharpoonup> prefix_node) \<Rightarrow> prefix_node \<Rightarrow> bool" where
  "children_ok N n \<longleftrightarrow>
     (\<forall>t c. pn_children n t = Some c \<longrightarrow> (\<exists>m. N c = Some m \<and> node_tokens m = node_tokens n @ [t]))"

definition node_ok ::
  "(byte list list \<Rightarrow> digest) \<Rightarrow> prefix_identity set \<Rightarrow> (node_id \<rightharpoonup> prefix_node) \<Rightarrow> node_id \<Rightarrow> prefix_node \<Rightarrow> bool" where
  "node_ok dg ids N k n \<longleftrightarrow> pn_identity n \<in> ids \<and> k = node_id_of dg (pn_identity n)
     \<and> pn_depth n = length (node_tokens n) \<and> parent_ok N n \<and> children_ok N n"

definition tree_ok :: "(byte list list \<Rightarrow> digest) \<Rightarrow> prefix_identity set \<Rightarrow> prefix_graph \<Rightarrow> bool" where
  "tree_ok dg ids g \<longleftrightarrow> (\<forall>k n. gr_nodes g k = Some n \<longrightarrow> node_ok dg ids (gr_nodes g) k n)
     \<and> (\<forall>k. gr_roots g k \<noteq> None \<longrightarrow> (\<exists>n. gr_nodes g k = Some n \<and> node_tokens n = []))"

lemma tree_okD: "tree_ok dg ids g \<Longrightarrow> gr_nodes g k = Some n \<Longrightarrow> node_ok dg ids (gr_nodes g) k n"
  by (simp add: tree_ok_def)

text \<open>
  No two identities that are used share a node id unless they stand for the same tokens.  For a
  digest without collisions on the identities used this always holds.
\<close>

definition collision_free :: "(byte list list \<Rightarrow> digest) \<Rightarrow> prefix_identity set \<Rightarrow> bool" where
  "collision_free dg ids \<longleftrightarrow>
     (\<forall>i\<in>ids. \<forall>j\<in>ids. node_id_of dg i = node_id_of dg j \<longrightarrow> px_token_sequence i = px_token_sequence j)"

definition grows :: "(node_id \<rightharpoonup> prefix_node) \<Rightarrow> (node_id \<rightharpoonup> prefix_node) \<Rightarrow> bool" where
  "grows N N' \<longleftrightarrow> (\<forall>k n. N k = Some n \<longrightarrow> (\<exists>n'. N' k = Some n' \<and> node_tokens n' = node_tokens n))"

lemma growsD: "grows N N' \<Longrightarrow> N k = Some n \<Longrightarrow> \<exists>n'. N' k = Some n' \<and> node_tokens n' = node_tokens n"
  by (simp add: grows_def)

lemma parent_ok_grows: "parent_ok N n \<Longrightarrow> grows N N' \<Longrightarrow> parent_ok N' n"
  unfolding parent_ok_def by (metis growsD)

lemma children_ok_grows: "children_ok N n \<Longrightarrow> grows N N' \<Longrightarrow> children_ok N' n"
  unfolding children_ok_def by (metis growsD)

lemma node_ok_grows: "node_ok dg ids N k n \<Longrightarrow> grows N N' \<Longrightarrow> ids \<subseteq> ids' \<Longrightarrow> node_ok dg ids' N' k n"
  unfolding node_ok_def by (blast intro: parent_ok_grows children_ok_grows)

text \<open>Overwriting a node id by an identity with the same tokens loses no tokens.\<close>

lemma grows_update:
  assumes "tree_ok dg ids g" "collision_free dg (insert i ids)" "k = node_id_of dg i" "pn_identity n = i"
  shows "grows (gr_nodes g) ((gr_nodes g)(k \<mapsto> n))"
proof -
  have "node_tokens n = node_tokens m" if "gr_nodes g k = Some m" for m
    using tree_okD [OF assms(1) that] assms(2-4) by (auto simp: node_ok_def collision_free_def)
  then show ?thesis by (auto simp: grows_def)
qed

lemma insert_root_tree_ok:
  assumes "tree_ok dg ids g" "collision_free dg (insert i ids)"
  shows "tree_ok dg (insert i ids) (fst (insert_root dg i g))"
proof (cases "px_token_sequence i = [] \<and> gr_roots g (node_id_of dg i) = None")
  case False
  then have "fst (insert_root dg i g) = g" by (auto simp: insert_root_def Let_def)
  with assms(1) show ?thesis by (auto simp: tree_ok_def node_ok_def)
next
  case True
  define k n where "k = node_id_of dg i" and "n = root_node dg i (gr_generation g)"
  define N where "N = (gr_nodes g)(k \<mapsto> n)"
  have gr: "grows (gr_nodes g) N"
    unfolding N_def by (rule grows_update [OF assms]) (auto simp: k_def n_def root_node_def)
  have new: "node_ok dg (insert i ids) N k n"
    using True by (auto simp: node_ok_def k_def n_def root_node_def parent_ok_def children_ok_def)
  have old: "node_ok dg (insert i ids) N x m" if "gr_nodes g x = Some m" for x m
    by (rule node_ok_grows [OF tree_okD [OF assms(1) that] gr]) blast
  have nt: "node_tokens n = []" using True by (simp add: n_def root_node_def)
  have "gr_nodes (fst (insert_root dg i g)) = N"
    using True by (simp add: insert_root_def N_def k_def n_def Let_def)
  moreover have "gr_roots (fst (insert_root dg i g)) x \<noteq> None \<longrightarrow> x = k \<or> gr_roots g x \<noteq> None" for x
    using True by (simp add: insert_root_def k_def Let_def)
  moreover have "\<exists>m. N x = Some m \<and> node_tokens m = []" if "x = k \<or> gr_roots g x \<noteq> None" for x
  proof (cases "x = k")
    case True
    with nt show ?thesis by (simp add: N_def)
  next
    case False
    with that assms(1) obtain m where "gr_nodes g x = Some m" "node_tokens m = []"
      by (auto simp: tree_ok_def)
    with growsD [OF gr] show ?thesis by fastforce
  qed
  moreover have "node_ok dg (insert i ids) N x m" if "N x = Some m" for x m
    using that new old by (auto simp: N_def split: if_splits)
  ultimately show ?thesis by (auto simp: tree_ok_def)
qed

text \<open>What a successful \<open>extend\<close> does.\<close>

lemma extend_okE:
  assumes "graph_extend dg p t i g = (g', Inr (k, e))"
  obtains m where "gr_nodes g p = Some m" "length (px_token_sequence i) = pn_depth m + 1"
    "take (pn_depth m) (px_token_sequence i) = node_tokens m" "px_token_sequence i ! pn_depth m = t"
    "pn_children m t = None" "k = node_id_of dg i"
    "gr_nodes g' = (let N = (gr_nodes g)(k \<mapsto> child_node dg i (gr_generation g) p t (pn_depth m))
       in N(p := map_option (add_child t k) (N p)))"
    "gr_roots g' = gr_roots g"
  using assms by (auto simp: graph_extend_def Let_def split: option.splits if_splits)

lemma extend_failure: "graph_extend dg p t i g = (g', Inl err) \<Longrightarrow> g' = g"
  by (auto simp: graph_extend_def Let_def split: option.splits if_splits)

lemma child_node_simps [simp]:
  "pn_identity (child_node dg i gen p t d) = i" "pn_parent (child_node dg i gen p t d) = Some p"
  "pn_depth (child_node dg i gen p t d) = d + 1" "pn_children (child_node dg i gen p t d) = Map.empty"
  by (simp_all add: child_node_def)

lemma add_child_simps [simp]:
  "pn_identity (add_child t c n) = pn_identity n" "pn_parent (add_child t c n) = pn_parent n"
  "pn_depth (add_child t c n) = pn_depth n" "pn_children (add_child t c n) = (pn_children n)(t \<mapsto> c)"
  by (simp_all add: add_child_def)

text \<open>Under the invariant the new node is not its own parent, so the result is two plain updates.\<close>

lemma extend_ok_tree:
  assumes t: "tree_ok dg ids g" and cf: "collision_free dg (insert i ids)"
    and e: "graph_extend dg p t i g = (g', Inr (k, e))"
  obtains m where "gr_nodes g p = Some m" "px_token_sequence i = node_tokens m @ [t]"
    "k = node_id_of dg i" "k \<noteq> p" "pn_children m t = None" "gr_roots g' = gr_roots g"
    "gr_nodes g' = (gr_nodes g)(k \<mapsto> child_node dg i (gr_generation g) p t (pn_depth m), p \<mapsto> add_child t k m)"
proof (rule extend_okE [OF e])
  fix m
  assume m: "gr_nodes g p = Some m" "length (px_token_sequence i) = pn_depth m + 1"
    "take (pn_depth m) (px_token_sequence i) = node_tokens m" "px_token_sequence i ! pn_depth m = t"
    "pn_children m t = None" "k = node_id_of dg i"
    and N: "gr_nodes g' = (let N = (gr_nodes g)(k \<mapsto> child_node dg i (gr_generation g) p t (pn_depth m))
       in N(p := map_option (add_child t k) (N p)))"
    and r: "gr_roots g' = gr_roots g"
  have ts: "px_token_sequence i = node_tokens m @ [t]"
    using m(2-4) by (metis Suc_eq_plus1 lessI take_Suc_conv_app_nth take_all_iff order_refl)
  have ne: "k \<noteq> p"
    using tree_okD [OF t m(1)] cf ts m(6) by (auto simp: node_ok_def collision_free_def)
  show ?thesis
    by (rule that [OF m(1) ts m(6) ne m(5) r]) (use N ne m(1) in \<open>simp add: Let_def\<close>)
qed

lemma extend_tree_ok:
  assumes t: "tree_ok dg ids g" and cf: "collision_free dg (insert i ids)"
  shows "tree_ok dg (insert i ids) (fst (graph_extend dg p t i g))"
proof (cases "graph_extend dg p t i g")
  case (Pair g' res)
  show ?thesis
  proof (cases res)
    case (Inl err)
    with Pair t show ?thesis by (auto simp: tree_ok_def node_ok_def dest!: extend_failure)
  next
    case (Inr ke)
    obtain k e where ke: "ke = (k, e)" by (cases ke)
    have ext: "graph_extend dg p t i g = (g', Inr (k, e))" using Pair Inr ke by simp
    obtain m where m: "gr_nodes g p = Some m" "px_token_sequence i = node_tokens m @ [t]"
      "k = node_id_of dg i" "k \<noteq> p" "pn_children m t = None" "gr_roots g' = gr_roots g"
      "gr_nodes g' = (gr_nodes g)(k \<mapsto> child_node dg i (gr_generation g) p t (pn_depth m), p \<mapsto> add_child t k m)"
      by (rule extend_ok_tree [OF t cf ext])
    define c where "c = child_node dg i (gr_generation g) p t (pn_depth m)"
    note N = m(7) [folded c_def]
    have gr1: "grows (gr_nodes g) ((gr_nodes g)(k \<mapsto> c))"
      by (rule grows_update [OF t cf m(3)]) (simp add: c_def)
    have gr: "grows (gr_nodes g) (gr_nodes g')"
      using gr1 m(1,4) unfolding grows_def N by (auto split: if_splits)
    have mok: "node_ok dg ids (gr_nodes g) p m" by (rule tree_okD [OF t m(1)])
    have keep: "node_ok dg (insert i ids) (gr_nodes g') x n" if "gr_nodes g x = Some n" for x n
      by (rule node_ok_grows [OF tree_okD [OF t that] gr]) blast
    have cok: "node_ok dg (insert i ids) (gr_nodes g') k c"
      using mok m by (auto simp: node_ok_def c_def parent_ok_def children_ok_def)
    have pok: "node_ok dg (insert i ids) (gr_nodes g') p (add_child t k m)"
    proof -
      have kc: "gr_nodes g' k = Some c" "node_tokens c = node_tokens m @ [t]"
        using m(2,4) N by (simp_all add: c_def)
      have "children_ok (gr_nodes g') m" using keep [OF m(1)] by (simp add: node_ok_def)
      then have "children_ok (gr_nodes g') (add_child t k m)"
        using kc by (auto simp: children_ok_def)
      then show ?thesis using keep [OF m(1)] by (simp add: node_ok_def parent_ok_def)
    qed
    have "node_ok dg (insert i ids) (gr_nodes g') x n" if "gr_nodes g' x = Some n" for x n
      using that keep cok pok m(4) unfolding N by (auto split: if_splits)
    moreover have "\<exists>n. gr_nodes g' x = Some n \<and> node_tokens n = []" if "gr_roots g' x \<noteq> None" for x
      using that t gr m(6) unfolding tree_ok_def by (metis growsD)
    ultimately show ?thesis using Pair by (simp add: tree_ok_def)
  qed
qed

subsection \<open>Operations that leave the trees alone\<close>

text \<open>The part of a node that the tree is made of.\<close>

definition skeleton :: "prefix_node \<Rightarrow> prefix_identity \<times> nat \<times> node_id option \<times> (32 word \<rightharpoonup> node_id)" where
  "skeleton n = (pn_identity n, pn_depth n, pn_parent n, pn_children n)"

definition same_tree :: "prefix_graph \<Rightarrow> prefix_graph \<Rightarrow> bool" where
  "same_tree g g' \<longleftrightarrow> map_option skeleton \<circ> gr_nodes g = map_option skeleton \<circ> gr_nodes g' \<and> gr_roots g = gr_roots g'"

lemma same_treeD:
  assumes "same_tree g g'"
  shows "gr_roots g = gr_roots g'"
    "gr_nodes g' k = Some n \<Longrightarrow> \<exists>m. gr_nodes g k = Some m \<and> skeleton m = skeleton n"
    "gr_nodes g k = Some n \<Longrightarrow> \<exists>m. gr_nodes g' k = Some m \<and> skeleton m = skeleton n"
proof -
  have "map_option skeleton (gr_nodes g k) = map_option skeleton (gr_nodes g' k)"
    using assms unfolding same_tree_def by (metis comp_apply)
  then show "gr_nodes g' k = Some n \<Longrightarrow> \<exists>m. gr_nodes g k = Some m \<and> skeleton m = skeleton n"
    and "gr_nodes g k = Some n \<Longrightarrow> \<exists>m. gr_nodes g' k = Some m \<and> skeleton m = skeleton n"
    by (cases "gr_nodes g k"; cases "gr_nodes g' k"; force)+
qed (use assms in \<open>simp add: same_tree_def\<close>)

lemma same_tree_refl [simp, intro]: "same_tree g g"
  by (simp add: same_tree_def)

lemma same_tree_trans: "same_tree g g' \<Longrightarrow> same_tree g' g'' \<Longrightarrow> same_tree g g''"
  by (simp add: same_tree_def)

lemma same_tree_nodes:
  "(\<And>k. map_option skeleton (gr_nodes g k) = map_option skeleton (gr_nodes g' k)) \<Longrightarrow>
   gr_roots g = gr_roots g' \<Longrightarrow> same_tree g g'"
  by (auto simp: same_tree_def fun_eq_iff)

lemma same_tree_ok:
  assumes "same_tree g g'" "tree_ok dg ids g"
  shows "tree_ok dg ids g'"
proof -
  have gr: "grows (gr_nodes g) (gr_nodes g')"
    unfolding grows_def by (auto dest!: same_treeD(3) [OF assms(1)] simp: skeleton_def)
  have "node_ok dg ids (gr_nodes g') k n" if "gr_nodes g' k = Some n" for k n
  proof -
    from same_treeD(2) [OF assms(1) that]
    obtain m where m0: "gr_nodes g k = Some m" and m: "skeleton m = skeleton n" by blast
    have eqs: "pn_identity m = pn_identity n" "pn_depth m = pn_depth n" "pn_parent m = pn_parent n"
      "pn_children m = pn_children n"
      using m by (simp_all add: skeleton_def)
    from node_ok_grows [OF tree_okD [OF assms(2) m0] gr order_refl]
    show ?thesis unfolding node_ok_def parent_ok_def children_ok_def eqs .
  qed
  moreover have "\<exists>n. gr_nodes g' k = Some n \<and> node_tokens n = []" if "gr_roots g' k \<noteq> None" for k
    using that assms gr unfolding tree_ok_def by (metis growsD same_treeD(1))
  ultimately show ?thesis by (simp add: tree_ok_def)
qed

lemma on_node_same_tree: "(\<And>n. skeleton (f n) = skeleton n) \<Longrightarrow> same_tree g (on_node k f g)"
  by (rule same_tree_nodes) (auto simp: on_node_def option.map_comp comp_def)

lemma count_skeleton [simp]: "skeleton (count_up n) = skeleton n" "skeleton (count_down n) = skeleton n"
  by (simp_all add: skeleton_def count_up_def count_down_def)

lemma retain_same_tree:
  assumes "retain_loop c g = Some (g', r)"
  shows "same_tree g g'"
proof -
  have "same_tree g (fst (g', r))"
    by (rule retain_loop.raw_induct [where P = "\<lambda>c g y. same_tree g (fst y)", OF _ assms])
      (force split: option.splits intro: same_tree_trans [OF on_node_same_tree [OF count_skeleton(1)]])
  then show ?thesis by simp
qed

lemma release_same_tree:
  assumes "release_loop c g = Some (g', r)"
  shows "same_tree g g'"
proof -
  have "same_tree g (fst (g', r))"
    by (rule release_loop.raw_induct [where P = "\<lambda>c g y. same_tree g (fst y)", OF _ assms])
      (force split: option.splits if_splits intro: same_tree_trans [OF on_node_same_tree [OF count_skeleton(2)]])
  then show ?thesis by simp
qed

lemma same_tree_ops:
  "same_tree g (fst (attach_page p g))"
  "same_tree g (fst (graph_add_representation i r gen g))"
  "same_tree g (fst (graph_lease dg i kind owner gen g))"
  "same_tree g (fst (graph_release_lease lid g))"
  "same_tree g (fst (graph_evict i kind gen g))"
  "same_tree g (fst (graph_advance_generation g))"
  by (auto simp: attach_page_def graph_add_representation_def graph_lease_def graph_release_lease_def
      graph_evict_def graph_advance_generation_def Let_def same_tree_def fun_eq_iff skeleton_def
      split: option.splits)

subsection \<open>Reachable graphs\<close>

text \<open>\<open>graph_run dg ids g\<close>: some calls, offering the identities \<open>ids\<close>, lead from the empty graph to \<open>g\<close>.\<close>

inductive graph_run :: "(byte list list \<Rightarrow> digest) \<Rightarrow> prefix_identity set \<Rightarrow> prefix_graph \<Rightarrow> bool"
  for dg where
  start: "graph_run dg {} graph_new"
| root: "graph_run dg ids g \<Longrightarrow> graph_run dg (insert i ids) (fst (insert_root dg i g))"
| extend: "graph_run dg ids g \<Longrightarrow> graph_run dg (insert i ids) (fst (graph_extend dg p t i g))"
| retain: "graph_run dg ids g \<Longrightarrow> retain_prefix k g = Some (g', r) \<Longrightarrow> graph_run dg ids g'"
| release: "graph_run dg ids g \<Longrightarrow> release_prefix k g = Some (g', r) \<Longrightarrow> graph_run dg ids g'"
| attach: "graph_run dg ids g \<Longrightarrow> graph_run dg ids (fst (attach_page p g))"
| represent: "graph_run dg ids g \<Longrightarrow> graph_run dg ids (fst (graph_add_representation j rep gen g))"
| lease: "graph_run dg ids g \<Longrightarrow> graph_run dg ids (fst (graph_lease dg j kind owner gen g))"
| release_lease: "graph_run dg ids g \<Longrightarrow> graph_run dg ids (fst (graph_release_lease lid g))"
| evict: "graph_run dg ids g \<Longrightarrow> graph_run dg ids (fst (graph_evict j kind gen g))"
| advance: "graph_run dg ids g \<Longrightarrow> graph_run dg ids (fst (graph_advance_generation g))"

lemma collision_free_subset: "collision_free dg ids \<Longrightarrow> ids' \<subseteq> ids \<Longrightarrow> collision_free dg ids'"
  unfolding collision_free_def by blast

lemma graph_run_tree_ok: "graph_run dg ids g \<Longrightarrow> collision_free dg ids \<Longrightarrow> tree_ok dg ids g"
proof (induction rule: graph_run.induct)
  case start
  show ?case by (simp add: tree_ok_def graph_new_def)
next
  case (root ids g i)
  then show ?case by (blast intro: insert_root_tree_ok collision_free_subset)
next
  case (extend ids g i p t)
  then show ?case by (blast intro: extend_tree_ok collision_free_subset)
next
  case (retain ids g k g' r)
  then show ?case by (auto intro: same_tree_ok retain_same_tree simp: retain_prefix_def)
next
  case (release ids g k g' r)
  then show ?case by (auto intro: same_tree_ok release_same_tree simp: release_prefix_def)
qed (blast intro: same_tree_ok [OF same_tree_ops(1)] same_tree_ok [OF same_tree_ops(2)]
  same_tree_ok [OF same_tree_ops(3)] same_tree_ok [OF same_tree_ops(4)]
  same_tree_ok [OF same_tree_ops(5)] same_tree_ok [OF same_tree_ops(6)])+

subsection \<open>Lookup\<close>

lemma walk_append: "graph_walk N k (ts @ us) = Option.bind (graph_walk N k ts) (\<lambda>m. graph_walk N m us)"
  by (induction N k ts rule: graph_walk.induct) (auto split: option.splits)

lemma walk_tokens:
  assumes "tree_ok dg ids g" "gr_nodes g r = Some n" "graph_walk (gr_nodes g) r ts = Some k"
  shows "\<exists>m. gr_nodes g k = Some m \<and> node_tokens m = node_tokens n @ ts"
  using assms(2,3)
proof (induction ts arbitrary: r n)
  case (Cons t ts)
  then obtain c where c: "pn_children n t = Some c" "graph_walk (gr_nodes g) c ts = Some k"
    by (auto split: option.splits)
  obtain m where "gr_nodes g c = Some m" "node_tokens m = node_tokens n @ [t]"
    using tree_okD [OF assms(1) Cons.prems(1)] c(1) by (auto simp: node_ok_def children_ok_def)
  then show ?case using Cons.IH c(2) by fastforce
qed simp

text \<open>
  C28: in every graph that calls can build, as long as the digest does not
  confuse two of the identities offered, a lookup that finds a node finds one whose identity spells
  exactly the tokens asked for and whose name is the digest of that identity.
\<close>

theorem lookup_follows_tokens:
  assumes "graph_run dg ids g" "collision_free dg ids" "graph_lookup r ts g = Inr (Some k)"
  shows "\<exists>n. gr_nodes g k = Some n \<and> node_tokens n = ts \<and> k = node_id_of dg (pn_identity n)
    \<and> pn_depth n = length ts \<and> pn_identity n \<in> ids"
proof -
  have t: "tree_ok dg ids g" by (rule graph_run_tree_ok [OF assms(1,2)])
  have r: "gr_roots g r \<noteq> None" and w: "graph_walk (gr_nodes g) r ts = Some k"
    using assms(3) by (auto simp: graph_lookup_def split: if_splits)
  obtain n where "gr_nodes g r = Some n" "node_tokens n = []" using t r by (auto simp: tree_ok_def)
  with walk_tokens [OF t _ w] obtain m where m: "gr_nodes g k = Some m" "node_tokens m = ts" by fastforce
  then show ?thesis using tree_okD [OF t m(1)] by (auto simp: node_ok_def)
qed

text \<open>A new edge below a node does not disturb the walks that lead to it.\<close>

lemma walk_extend:
  assumes t: "tree_ok dg ids g"
    and N': "\<And>x n. gr_nodes g x = Some n \<Longrightarrow> length (node_tokens n) \<le> len \<Longrightarrow>
      \<exists>n'. N' x = Some n' \<and> (\<forall>s c. pn_children n s = Some c \<longrightarrow> pn_children n' s = Some c)"
    and "gr_nodes g r = Some n" "graph_walk (gr_nodes g) r ts = Some k"
    and "length (node_tokens n) + length ts \<le> len + 1"
  shows "graph_walk N' r ts = Some k"
  using assms(3-5)
proof (induction ts arbitrary: r n)
  case (Cons s ts)
  then obtain c where c: "pn_children n s = Some c" "graph_walk (gr_nodes g) c ts = Some k"
    by (auto split: option.splits)
  obtain m where m: "gr_nodes g c = Some m" "node_tokens m = node_tokens n @ [s]"
    using tree_okD [OF t Cons.prems(1)] c(1) by (auto simp: node_ok_def children_ok_def)
  have "graph_walk N' c ts = Some k"
    by (rule Cons.IH [OF m(1) c(2)]) (use m(2) Cons.prems(3) in simp)
  moreover obtain n' where "N' r = Some n'" "pn_children n' s = Some c"
    using N' [OF Cons.prems(1)] Cons.prems(3) c(1) by auto
  ultimately show ?case by simp
qed simp

text \<open>
  C18: after the node found for some tokens has been extended by one more
  token, looking the longer sequence up from the same root finds exactly the new node.
\<close>

theorem lookup_finds_extension:
  assumes "graph_run dg ids g" "collision_free dg (insert i ids)"
    and "graph_lookup r ts g = Inr (Some p)" "graph_extend dg p t i g = (g', Inr (k, e))"
  shows "graph_lookup r ts g' = Inr (Some p) \<and> graph_lookup r (ts @ [t]) g' = Inr (Some k)"
proof -
  have t: "tree_ok dg ids g"
    by (rule graph_run_tree_ok [OF assms(1) collision_free_subset [OF assms(2)]]) blast
  have r: "gr_roots g r \<noteq> None" and w: "graph_walk (gr_nodes g) r ts = Some p"
    using assms(3) by (auto simp: graph_lookup_def split: if_splits)
  obtain n where n: "gr_nodes g r = Some n" "node_tokens n = []" using t r by (auto simp: tree_ok_def)
  obtain m where m: "gr_nodes g p = Some m" "px_token_sequence i = node_tokens m @ [t]"
      "k = node_id_of dg i" "k \<noteq> p" "pn_children m t = None" "gr_roots g' = gr_roots g"
      "gr_nodes g' = (gr_nodes g)(k \<mapsto> child_node dg i (gr_generation g) p t (pn_depth m), p \<mapsto> add_child t k m)"
    by (rule extend_ok_tree [OF t assms(2,4)])
  have ts: "node_tokens m = ts" using walk_tokens [OF t n(1) w] m(1) n(2) by simp
  have other: "x \<noteq> k" if "gr_nodes g x = Some q" "length (node_tokens q) \<le> length ts" for x q
  proof
    assume "x = k"
    then have "node_id_of dg (pn_identity q) = node_id_of dg i" "pn_identity q \<in> ids"
      using tree_okD [OF t that(1)] m(3) by (simp_all add: node_ok_def)
    then have "node_tokens q = px_token_sequence i"
      using assms(2) unfolding collision_free_def by blast
    then show False using that(2) m(2) ts by simp
  qed
  have keep: "\<exists>n'. gr_nodes g' x = Some n' \<and> (\<forall>s c. pn_children q s = Some c \<longrightarrow> pn_children n' s = Some c)"
    if "gr_nodes g x = Some q" "length (node_tokens q) \<le> length ts" for x q
    using other [OF that] that(1) m(1,5) unfolding m(7) by auto
  have len: "length (node_tokens n) + length ts \<le> length ts + 1" by (simp add: n(2))
  have w': "graph_walk (gr_nodes g') r ts = Some p"
    by (rule walk_extend [OF t _ n(1) w len]) (rule keep)
  moreover have "graph_walk (gr_nodes g') p [t] = Some k" using m(4) unfolding m(7) by simp
  ultimately show ?thesis using r m(6) by (simp add: graph_lookup_def walk_append)
qed

subsection \<open>Retaining and releasing a prefix\<close>

inductive lineage :: "(node_id \<rightharpoonup> prefix_node) \<Rightarrow> node_id option \<Rightarrow> node_id list \<Rightarrow> bool" for N where
  top: "lineage N None []"
| up: "N k = Some n \<Longrightarrow> lineage N (pn_parent n) ks \<Longrightarrow> lineage N (Some k) (k # ks)"

inductive_cases lineage_ConsE: "lineage N c (k # ks)"
inductive_cases lineage_NilE: "lineage N c []"

definition count_on :: "node_id set \<Rightarrow> (prefix_node \<Rightarrow> prefix_node) \<Rightarrow> prefix_graph \<Rightarrow> prefix_graph" where
  "count_on S f g = g\<lparr> gr_nodes := (\<lambda>k. if k \<in> S then map_option f (gr_nodes g k) else gr_nodes g k) \<rparr>"

lemma count_on_empty [simp]: "count_on {} f g = g"
  by (simp add: count_on_def)

lemma count_on_insert: "k \<notin> S \<Longrightarrow> count_on S f (on_node k f g) = count_on (insert k S) f g"
  by (auto simp: count_on_def on_node_def fun_eq_iff)

lemma count_on_inverse: "(\<And>n. f' (f n) = n) \<Longrightarrow> count_on S f' (count_on S f g) = g"
  by (cases g) (auto simp: count_on_def fun_eq_iff option.map_comp comp_def option.map_ident)

lemma count_down_up [simp]: "count_down (count_up n) = n"
  by (simp add: count_up_def count_down_def)

lemma lineage_nodes:
  "lineage N c ks \<Longrightarrow> (\<And>k n. N k = Some n \<Longrightarrow> \<exists>m. N' k = Some m \<and> pn_parent m = pn_parent n) \<Longrightarrow> lineage N' c ks"
proof (induction rule: lineage.induct)
  case (up k n ks)
  then show ?case by (metis lineage.up)
qed (rule lineage.top)

lemma lineage_on_node:
  "lineage (gr_nodes g) c ks \<Longrightarrow> (\<And>n. pn_parent (f n) = pn_parent n) \<Longrightarrow> lineage (gr_nodes (on_node x f g)) c ks"
  by (erule lineage_nodes) (auto simp: on_node_def)

lemma lineage_count_on:
  "lineage (gr_nodes g) c ks \<Longrightarrow> (\<And>n. pn_parent (f n) = pn_parent n) \<Longrightarrow> lineage (gr_nodes (count_on S f g)) c ks"
  by (erule lineage_nodes) (auto simp: count_on_def)

lemma count_parent [simp]: "pn_parent (count_up n) = pn_parent n" "pn_parent (count_down n) = pn_parent n"
  by (simp_all add: count_up_def count_down_def)

lemma retain_loop_spec:
  "lineage (gr_nodes g) c ks \<Longrightarrow> distinct ks \<Longrightarrow> retain_loop c g = Some (count_on (set ks) count_up g, Inr ())"
proof (induction ks arbitrary: c g)
  case Nil
  then show ?case by (auto elim: lineage_NilE simp: retain_loop.simps)
next
  case (Cons k ks)
  from Cons.prems(1) obtain n where c: "c = Some k" "gr_nodes g k = Some n" "lineage (gr_nodes g) (pn_parent n) ks"
    by (auto elim: lineage_ConsE)
  have "retain_loop (pn_parent n) (on_node k count_up g)
    = Some (count_on (set ks) count_up (on_node k count_up g), Inr ())"
    by (rule Cons.IH) (use c(3) Cons.prems(2) lineage_on_node in auto)
  then show ?case using c Cons.prems(2) by (subst retain_loop.simps) (simp add: count_on_insert)
qed

lemma release_loop_spec:
  "lineage (gr_nodes g) c ks \<Longrightarrow> distinct ks \<Longrightarrow>
   (\<And>k n. k \<in> set ks \<Longrightarrow> gr_nodes g k = Some n \<Longrightarrow> pn_reference_count n > 0) \<Longrightarrow>
   release_loop c g = Some (count_on (set ks) count_down g, Inr ())"
proof (induction ks arbitrary: c g)
  case Nil
  then show ?case by (auto elim: lineage_NilE simp: release_loop.simps)
next
  case (Cons k ks)
  from Cons.prems(1) obtain n where c: "c = Some k" "gr_nodes g k = Some n" "lineage (gr_nodes g) (pn_parent n) ks"
    by (auto elim: lineage_ConsE)
  have "release_loop (pn_parent n) (on_node k count_down g)
    = Some (count_on (set ks) count_down (on_node k count_down g), Inr ())"
  proof (rule Cons.IH)
    show "lineage (gr_nodes (on_node k count_down g)) (pn_parent n) ks"
      by (rule lineage_on_node [OF c(3)]) simp
    show "pn_reference_count m > 0" if "x \<in> set ks" "gr_nodes (on_node k count_down g) x = Some m" for x m
      using that Cons.prems(2,3) by (auto simp: on_node_def split: if_splits)
  qed (use Cons.prems(2) in simp)
  then show ?case
    using c Cons.prems(2) Cons.prems(3) [of k n] by (subst release_loop.simps) (simp add: count_on_insert)
qed

lemma lineage_exists:
  assumes "tree_ok dg ids g" "gr_nodes g k = Some n"
  shows "\<exists>ks. lineage (gr_nodes g) (Some k) ks \<and> distinct ks
    \<and> (\<forall>x\<in>set ks. \<exists>m. gr_nodes g x = Some m \<and> length (node_tokens m) \<le> length (node_tokens n))"
  using assms(2)
proof (induction "length (node_tokens n)" arbitrary: k n rule: less_induct)
  case less
  from tree_okD [OF assms(1) less.prems] consider (top) "pn_parent n = None"
    | (up) p m t where "pn_parent n = Some p" "gr_nodes g p = Some m" "node_tokens n = node_tokens m @ [t]"
    by (auto simp: node_ok_def parent_ok_def)
  then show ?case
  proof cases
    case top
    then have "lineage (gr_nodes g) (Some k) [k]" using lineage.up [of "gr_nodes g" k n "[]"] less.prems lineage.top by simp
    then show ?thesis using less.prems by (intro exI [of _ "[k]"]) simp
  next
    case up
    with less.hyps [OF _ up(2)] obtain ks where ks: "lineage (gr_nodes g) (Some p) ks" "distinct ks"
      "\<forall>x\<in>set ks. \<exists>q. gr_nodes g x = Some q \<and> length (node_tokens q) \<le> length (node_tokens m)" by auto
    have "k \<notin> set ks" using ks(3) up(3) less.prems by fastforce
    moreover have "lineage (gr_nodes g) (Some k) (k # ks)"
      using lineage.up [of "gr_nodes g" k n ks] less.prems up(1) ks(1) by simp
    ultimately show ?thesis using ks up(3) less.prems by (intro exI [of _ "k # ks"]) fastforce
  qed
qed

text \<open>
  C19: retaining the prefix of a node always returns and succeeds; it adds
  one reference to each node on the path to the root, each counted once, and to nothing else; and
  releasing the prefix then always returns, succeeds and restores the graph exactly.
\<close>

theorem retain_release_round_trip:
  assumes "graph_run dg ids g" "collision_free dg ids" "gr_nodes g k = Some n"
  shows "\<exists>ks g'. lineage (gr_nodes g) (Some k) ks \<and> distinct ks \<and> g' = count_on (set ks) count_up g
    \<and> retain_prefix k g = Some (g', Inr ()) \<and> release_prefix k g' = Some (g, Inr ())"
proof -
  obtain ks where ks: "lineage (gr_nodes g) (Some k) ks" "distinct ks"
    using lineage_exists [OF graph_run_tree_ok [OF assms(1,2)] assms(3)] by blast
  let ?g = "count_on (set ks) count_up g"
  have "release_loop (Some k) ?g = Some (count_on (set ks) count_down ?g, Inr ())"
    by (rule release_loop_spec [OF lineage_count_on [OF ks(1)] ks(2)])
      (auto simp: count_on_def count_up_def)
  also have "count_on (set ks) count_down ?g = g" by (rule count_on_inverse) simp
  finally show ?thesis
    using ks retain_loop_spec [OF ks] unfolding retain_prefix_def release_prefix_def by blast
qed

subsection \<open>A small tree\<close>

text \<open>Two identities, and a digest that tells them apart by their authority state.\<close>

definition demo_identity :: "32 word list \<Rightarrow> digest \<Rightarrow> prefix_identity" where
  "demo_identity ts authority = \<lparr> px_model_root = ''m'', px_tokenizer_root = ''t'', px_token_sequence = ts,
     px_rope_config_root = ''r'', px_layer_start = 0, px_layer_end = 1, px_head_start = 0, px_head_end = 1,
     px_kv_type = ''q8'', px_codec_version = ''v1'', px_runtime_generation = 1,
     px_authority_state_root = authority \<rparr>"

definition demo_digest :: "byte list list \<Rightarrow> digest" where
  "demo_digest parts = (if last parts = [] then ''root'' else ''child'')"

lemma demo_ids:
  "node_id_of demo_digest (demo_identity [] []) = ''root''"
  "node_id_of demo_digest (demo_identity [7] ''s'') = ''child''"
  by (simp_all add: node_id_of_def demo_identity_def demo_digest_def str_bytes_def)

definition demo_root_graph :: prefix_graph where
  "demo_root_graph = fst (insert_root demo_digest (demo_identity [] []) graph_new)"

definition demo_graph :: prefix_graph where
  "demo_graph = fst (graph_extend demo_digest ''root'' 7 (demo_identity [7] ''s'') demo_root_graph)"

lemma demo_identity_tokens [simp]: "px_token_sequence (demo_identity ts a) = ts"
  by (simp add: demo_identity_def)

lemma demo_root_parts:
  "gr_roots demo_root_graph ''root'' \<noteq> None"
  "gr_nodes demo_root_graph = [''root'' \<mapsto> root_node demo_digest (demo_identity [] []) 1]"
  "gr_generation demo_root_graph = 1"
  by (simp_all add: demo_root_graph_def insert_root_def graph_new_def demo_ids Let_def)

lemma demo_extend:
  "graph_extend demo_digest ''root'' 7 (demo_identity [7] ''s'') demo_root_graph =
     (demo_graph, Inr (''child'', child_edge demo_digest (demo_identity [7] ''s'') 1 ''root'' 7 0))"
  by (simp add: demo_graph_def graph_extend_def demo_root_parts demo_ids root_node_def Let_def)

lemma demo_runs:
  "graph_run demo_digest {demo_identity [] []} demo_root_graph"
  "graph_run demo_digest {demo_identity [7] ''s'', demo_identity [] []} demo_graph"
  unfolding demo_graph_def demo_root_graph_def by (intro graph_run.intros)+

lemma demo_collision_free: "collision_free demo_digest {demo_identity [7] ''s'', demo_identity [] []}"
  by (simp add: collision_free_def demo_ids)

lemma demo_root_lookup: "graph_lookup ''root'' [] demo_root_graph = Inr (Some ''root'')"
  using demo_root_parts(1) by (simp add: graph_lookup_def)

lemma demo_lookup: "graph_lookup ''root'' [7] demo_graph = Inr (Some ''child'')"
  using demo_root_parts(1)
  by (simp add: graph_lookup_def demo_graph_def graph_extend_def demo_root_parts demo_ids root_node_def
      add_child_def Let_def)

lemma lookup_follows_tokens_witness:
  "\<exists>n. gr_nodes demo_graph ''child'' = Some n \<and> node_tokens n = [7]"
  using lookup_follows_tokens [OF demo_runs(2) demo_collision_free demo_lookup] by blast

lemma lookup_finds_extension_witness:
  "graph_lookup ''root'' ([] @ [7]) demo_graph = Inr (Some ''child'')"
  using lookup_finds_extension [OF demo_runs(1) demo_collision_free demo_root_lookup demo_extend] by blast

lemma retain_release_round_trip_witness:
  "\<exists>g'. retain_prefix ''child'' demo_graph = Some (g', Inr ()) \<and> release_prefix ''child'' g' = Some (demo_graph, Inr ())"
proof -
  obtain n where "gr_nodes demo_graph ''child'' = Some n"
    by (simp add: demo_graph_def graph_extend_def demo_root_parts demo_ids root_node_def Let_def)
  from retain_release_round_trip [OF demo_runs(2) demo_collision_free this] show ?thesis by blast
qed

text \<open>
  \<open>extend\<close> compares only tokens with the parent.  Offered, below another root, the identity of a node
  that exists already, it replaces that node: the old one's children, pages and references are gone,
  and its parent is the new one, while the old parent still lists it as a child.
\<close>

lemma extend_replaces_node:
  assumes "gr_nodes g p = Some m" "px_token_sequence i = node_tokens m @ [t]" "pn_depth m = length (node_tokens m)"
    and "pn_children m t = None" "node_id_of dg i = k" "k \<noteq> p" "q \<noteq> k" "q \<noteq> p"
    and "gr_nodes g q = Some old_parent" "pn_children old_parent t = Some k"
  shows "\<exists>g' e n. graph_extend dg p t i g = (g', Inr (k, e)) \<and> gr_nodes g' k = Some n \<and> pn_parent n = Some p
    \<and> pn_children n = Map.empty \<and> pn_pages n = [] \<and> pn_reference_count n = 0
    \<and> gr_nodes g' q = Some old_parent"
  using assms by (simp add: graph_extend_def Let_def child_node_def)

subsection \<open>Pages and leases\<close>

lemma attached_page_is_causal:
  "attach_page p g = (g', Inr ()) \<Longrightarrow> validate_causal_closure (pg_id p) g' = Inr () \<and> gr_pages g' (pg_id p) = Some p"
  by (auto simp: attach_page_def validate_causal_closure_def page_valid_def compatible_with_def
      split: option.splits if_splits)

lemma leased_page_is_kept:
  assumes "graph_lease dg i kind owner gen g = (g', Inr l)"
  shows "graph_evict i any gen g' = (g', Inl ActiveLease)
    \<and> (\<exists>g''. graph_release_lease (kl_lease_id l) g' = (g'', Inr ()) \<and> gr_pages g'' = gr_pages g
         \<and> gr_nodes g'' = gr_nodes g \<and> gr_leases g'' (kl_lease_id l) = None)"
  using assms
  by (auto simp: graph_lease_def graph_evict_def graph_release_lease_def Let_def fun_eq_iff
      split: option.splits if_splits)

lemma lease_effect:
  assumes "graph_lease dg i kind owner gen g = (g', Inr l)"
  shows "gr_leases g' = (gr_leases g)(kl_lease_id l \<mapsto> l)" "kl_lease_id l = lease_id_of dg i owner gen"
    "gr_generation g = gen" "gr_generation g' = gen" "\<exists>p. gr_pages g' i = Some p \<and> pg_active_leases p \<noteq> 0"
  using assms by (auto simp: graph_lease_def Let_def split: option.splits if_splits)

lemma release_lease_effect:
  assumes "graph_release_lease lid g = (g', Inr ())"
  shows "gr_leases g' = (gr_leases g)(lid := None)" "gr_generation g' = gr_generation g"
  using assms by (auto simp: graph_release_lease_def Let_def split: option.splits if_splits)

text \<open>Calls that may follow, other than attaching a page under the same identity, which replaces its record.\<close>

inductive page_calls :: "(byte list list \<Rightarrow> digest) \<Rightarrow> kv_page_id \<Rightarrow> prefix_graph \<Rightarrow> prefix_graph \<Rightarrow> bool"
  for dg i where
  none: "page_calls dg i g g"
| root: "page_calls dg i g g' \<Longrightarrow> page_calls dg i g (fst (insert_root dg x g'))"
| extend: "page_calls dg i g g' \<Longrightarrow> page_calls dg i g (fst (graph_extend dg k t x g'))"
| retain: "page_calls dg i g g' \<Longrightarrow> retain_prefix k g' = Some (h, r) \<Longrightarrow> page_calls dg i g h"
| release: "page_calls dg i g g' \<Longrightarrow> release_prefix k g' = Some (h, r) \<Longrightarrow> page_calls dg i g h"
| attach: "page_calls dg i g g' \<Longrightarrow> pg_id p \<noteq> i \<Longrightarrow> page_calls dg i g (fst (attach_page p g'))"
| represent: "page_calls dg i g g' \<Longrightarrow> page_calls dg i g (fst (graph_add_representation j rep gen g'))"
| lease: "page_calls dg i g g' \<Longrightarrow> page_calls dg i g (fst (graph_lease dg j kind owner gen g'))"
| release_lease: "page_calls dg i g g' \<Longrightarrow> page_calls dg i g (fst (graph_release_lease lid g'))"
| evict: "page_calls dg i g g' \<Longrightarrow> page_calls dg i g (fst (graph_evict j kind gen g'))"
| advance: "page_calls dg i g g' \<Longrightarrow> page_calls dg i g (fst (graph_advance_generation g'))"

definition leases_on :: "kv_page_id \<Rightarrow> prefix_graph \<Rightarrow> string set" where
  "leases_on i g = {lid. \<exists>l. gr_leases g lid = Some l \<and> kl_page_id l = i}"

text \<open>Every lease of the page in the table is counted, and one more: a count no lease stands for.\<close>

definition counted :: "kv_page_id \<Rightarrow> prefix_graph \<Rightarrow> bool" where
  "counted i g \<longleftrightarrow> finite (leases_on i g) \<and> (\<forall>p. gr_pages g i = Some p \<longrightarrow> card (leases_on i g) \<le> pg_active_leases p)"

definition overcounted :: "kv_page_id \<Rightarrow> prefix_graph \<Rightarrow> bool" where
  "overcounted i g \<longleftrightarrow> finite (leases_on i g) \<and> (\<exists>p. gr_pages g i = Some p \<and> card (leases_on i g) < pg_active_leases p)"

lemma overcounted_same:
  "gr_leases h = gr_leases g \<Longrightarrow> gr_pages h i = gr_pages g i \<Longrightarrow> overcounted i h = overcounted i g"
  by (simp add: overcounted_def leases_on_def)

lemma retain_same_pages:
  assumes "retain_loop c g = Some (g', r)"
  shows "gr_leases g' = gr_leases g \<and> gr_pages g' = gr_pages g"
proof -
  have "gr_leases (fst (g', r)) = gr_leases g \<and> gr_pages (fst (g', r)) = gr_pages g"
    by (rule retain_loop.raw_induct [where P = "\<lambda>c g y. gr_leases (fst y) = gr_leases g \<and> gr_pages (fst y) = gr_pages g", OF _ assms])
      (force simp: on_node_def split: option.splits)
  then show ?thesis by simp
qed

lemma release_same_pages:
  assumes "release_loop c g = Some (g', r)"
  shows "gr_leases g' = gr_leases g \<and> gr_pages g' = gr_pages g"
proof -
  have "gr_leases (fst (g', r)) = gr_leases g \<and> gr_pages (fst (g', r)) = gr_pages g"
    by (rule release_loop.raw_induct [where P = "\<lambda>c g y. gr_leases (fst y) = gr_leases g \<and> gr_pages (fst y) = gr_pages g", OF _ assms])
      (force simp: on_node_def split: option.splits if_splits)
  then show ?thesis by simp
qed

lemma leases_on_put:
  "gr_leases h = (gr_leases g)(lid \<mapsto> l) \<Longrightarrow> leases_on i h = (if kl_page_id l = i then insert lid (leases_on i g) else leases_on i g - {lid})"
  by (auto simp: leases_on_def)

lemma leases_on_drop: "gr_leases h = (gr_leases g)(lid := None) \<Longrightarrow> leases_on i h = leases_on i g - {lid}"
  by (auto simp: leases_on_def)

lemma lease_page:
  assumes "graph_lease dg j kind owner gen g = (g', Inr l)"
  obtains p where "gr_pages g j = Some p" "kl_page_id l = j"
    "gr_pages g' = (gr_pages g)(j \<mapsto> p\<lparr> pg_active_leases := pg_active_leases p + 1, pg_reference_count := pg_reference_count p + 1 \<rparr>)"
  using assms by (auto simp: graph_lease_def Let_def split: option.splits if_splits)

lemma release_lease_page:
  assumes "gr_leases g lid = Some l" "gr_pages g i = Some p"
  shows "gr_pages (fst (graph_release_lease lid g)) i = Some p
     \<or> kl_page_id l = i \<and> gr_pages (fst (graph_release_lease lid g)) i
         = Some (p\<lparr> pg_active_leases := pg_active_leases p - 1, pg_reference_count := pg_reference_count p - 1 \<rparr>)"
proof (cases "kl_page_id l = i")
  case True
  then show ?thesis using assms by (simp add: graph_release_lease_def Let_def)
next
  case False
  then show ?thesis using assms by (simp add: graph_release_lease_def Let_def split: option.split)
qed

lemma overcounted_lease:
  assumes "overcounted i g"
  shows "overcounted i (fst (graph_lease dg j kind owner gen g))"
proof (cases "snd (graph_lease dg j kind owner gen g)")
  case (Inl e)
  then have "fst (graph_lease dg j kind owner gen g) = g"
    by (auto simp: graph_lease_def Let_def split: option.splits if_splits)
  with assms show ?thesis by simp
next
  case (Inr l)
  then obtain g' where g': "graph_lease dg j kind owner gen g = (g', Inr l)" by (metis prod.collapse)
  obtain p where p: "gr_pages g j = Some p" "kl_page_id l = j"
      "gr_pages g' = (gr_pages g)(j \<mapsto> p\<lparr> pg_active_leases := pg_active_leases p + 1, pg_reference_count := pg_reference_count p + 1 \<rparr>)"
    using lease_page [OF g'] by blast
  note leases = leases_on_put [OF lease_effect(1) [OF g'], of i]
  have fin: "finite (leases_on i g)" using assms by (simp add: overcounted_def)
  have grow: "card (insert (kl_lease_id l) (leases_on i g)) \<le> Suc (card (leases_on i g))"
    using fin by (simp add: card_insert_if)
  have drop: "card (leases_on i g - {kl_lease_id l}) \<le> card (leases_on i g)"
    using fin by (simp add: card_mono)
  show ?thesis
  proof (cases "j = i")
    case True
    then show ?thesis using assms p grow fin unfolding g' fst_conv overcounted_def leases by auto
  next
    case False
    then show ?thesis using assms p drop fin unfolding g' fst_conv overcounted_def leases by auto
  qed
qed

lemma overcounted_release:
  assumes "overcounted i g"
  shows "overcounted i (fst (graph_release_lease lid g))"
proof (cases "gr_leases g lid")
  case None
  then show ?thesis using assms by (simp add: graph_release_lease_def)
next
  case (Some l)
  let ?h = "fst (graph_release_lease lid g)"
  have "gr_leases ?h = (gr_leases g)(lid := None)"
    using Some by (simp add: graph_release_lease_def Let_def split: option.splits)
  note leases = leases_on_drop [OF this, of i]
  obtain p where p: "gr_pages g i = Some p" "card (leases_on i g) < pg_active_leases p" "finite (leases_on i g)"
    using assms by (auto simp: overcounted_def)
  have member: "lid \<in> leases_on i g" if "kl_page_id l = i" using Some that by (simp add: leases_on_def)
  have drop: "card (leases_on i g - {lid}) \<le> card (leases_on i g)" using p(3) by (simp add: card_mono)
  from release_lease_page [OF Some p(1)] show ?thesis
  proof
    assume "gr_pages ?h i = Some p"
    then show ?thesis using p(2,3) drop unfolding overcounted_def leases by auto
  next
    assume released: "kl_page_id l = i \<and> gr_pages ?h i
         = Some (p\<lparr> pg_active_leases := pg_active_leases p - 1, pg_reference_count := pg_reference_count p - 1 \<rparr>)"
    then have "lid \<in> leases_on i g" using member by blast
    then have "card (leases_on i g - {lid}) = card (leases_on i g) - 1" "0 < card (leases_on i g)"
      using p(3) by (auto simp: card_gt_0_iff)
    then show ?thesis using p(2,3) released unfolding overcounted_def leases by auto
  qed
qed

lemma overcounted_evict:
  assumes "overcounted i g"
  shows "overcounted i (fst (graph_evict j kind gen g))"
proof -
  have "gr_pages (fst (graph_evict j kind gen g)) i = gr_pages g i" "gr_leases (fst (graph_evict j kind gen g)) = gr_leases g"
    using assms by (auto simp: overcounted_def graph_evict_def split: option.split prod.split)
  with assms show ?thesis by (simp add: overcounted_def leases_on_def)
qed

lemma overcounted_represent:
  "overcounted i g \<Longrightarrow> overcounted i (fst (graph_add_representation j rep gen g))"
  by (auto simp: overcounted_def leases_on_def graph_add_representation_def page_add_representation_def split: option.splits)

lemma overcounted_calls:
  assumes "page_calls dg i g g'" "overcounted i g"
  shows "overcounted i g'"
  using assms
proof (induction rule: page_calls.induct)
  case (retain g g' k h r)
  then show ?case using retain_same_pages [of "Some k" g' h r] overcounted_same [of h g' i] by (simp add: retain_prefix_def)
next
  case (release g g' k h r)
  then show ?case using release_same_pages [of "Some k" g' h r] overcounted_same [of h g' i] by (simp add: release_prefix_def)
next
  case (root g g' x)
  have "gr_leases (fst (insert_root dg x g')) = gr_leases g'" "gr_pages (fst (insert_root dg x g')) = gr_pages g'"
    by (simp_all add: insert_root_def Let_def)
  with root show ?case by (simp add: overcounted_def leases_on_def)
next
  case (extend g g' k t x)
  have "gr_leases (fst (graph_extend dg k t x g')) = gr_leases g'" "gr_pages (fst (graph_extend dg k t x g')) = gr_pages g'"
    by (simp_all add: graph_extend_def Let_def split: option.splits)
  with extend show ?case by (simp add: overcounted_def leases_on_def)
next
  case (attach g g' p)
  have "gr_leases (fst (attach_page p g')) = gr_leases g'" "gr_pages (fst (attach_page p g')) i = gr_pages g' i"
    using attach.hyps(2) by (simp_all add: attach_page_def split: option.splits)
  with attach show ?case by (simp add: overcounted_def leases_on_def)
next
  case (advance g g')
  then show ?case by (simp add: graph_advance_generation_def overcounted_def leases_on_def)
next
  case lease
  then show ?case by (blast intro: overcounted_lease)
next
  case release_lease
  then show ?case by (blast intro: overcounted_release)
next
  case evict
  then show ?case by (blast intro: overcounted_evict)
next
  case represent
  then show ?case by (blast intro: overcounted_represent)
qed blast

text \<open>
  C37: two leases of one page by one owner in one generation have the same id.  Let every
  lease of the page be counted before.  Then whatever calls follow (releases included, attaching a page
  under the same identity excepted), the count of active leases stays above the number of leases of
  the page in the table, so it never returns to zero, and every eviction of the page is refused.
\<close>

theorem double_lease_leaks:
  assumes "counted i g"
    and "graph_lease dg i kind owner gen g = (g1, Inr l1)" "graph_lease dg i kind' owner gen g1 = (g2, Inr l2)"
    and "page_calls dg i g2 g'"
  shows "kl_lease_id l1 = kl_lease_id l2
    \<and> (\<exists>p. gr_pages g' i = Some p \<and> card (leases_on i g') < pg_active_leases p)
    \<and> (\<exists>e. graph_evict i any expected g' = (g', Inl e))"
proof -
  have id: "kl_lease_id l1 = kl_lease_id l2"
    using lease_effect(2) [OF assms(2)] lease_effect(2) [OF assms(3)] by simp
  obtain p where p: "gr_pages g i = Some p" "kl_page_id l1 = i"
      "gr_pages g1 = (gr_pages g)(i \<mapsto> p\<lparr> pg_active_leases := pg_active_leases p + 1, pg_reference_count := pg_reference_count p + 1 \<rparr>)"
    using lease_page [OF assms(2)] by blast
  obtain q where q: "gr_pages g1 i = Some q" "kl_page_id l2 = i"
      "gr_pages g2 = (gr_pages g1)(i \<mapsto> q\<lparr> pg_active_leases := pg_active_leases q + 1, pg_reference_count := pg_reference_count q + 1 \<rparr>)"
    using lease_page [OF assms(3)] by blast
  have leases: "leases_on i g2 = insert (kl_lease_id l2) (leases_on i g)"
    using leases_on_put [OF lease_effect(1) [OF assms(2)], of i] leases_on_put [OF lease_effect(1) [OF assms(3)], of i] p(2) q(2) id
    by auto
  have "card (leases_on i g2) \<le> Suc (card (leases_on i g))" "finite (leases_on i g2)"
    using assms(1) unfolding leases by (auto simp: counted_def card_insert_if)
  then have "overcounted i g2" using assms(1) p(1,3) q(1,3) by (auto simp: overcounted_def counted_def)
  from overcounted_calls [OF assms(4) this] obtain r where "gr_pages g' i = Some r"
      "card (leases_on i g') < pg_active_leases r" by (auto simp: overcounted_def)
  then show ?thesis using id by (auto simp: graph_evict_def)
qed

definition demo_page_id :: kv_page_id where
  "demo_page_id = \<lparr> kp_prefix_node_id = ''child'', kp_ordinal = 0, kp_token_start = 0, kp_token_end = 1,
     kp_layer_start = 0, kp_layer_end = 1, kp_head_start = 0, kp_head_end = 1, kp_logical_generation = 1 \<rparr>"

definition demo_leased_graph :: prefix_graph where
  "demo_leased_graph = graph_new\<lparr> gr_pages := [demo_page_id \<mapsto>
     page_add_representation (ExactHotQ8 8 None) (page_new demo_page_id (identity_closure (demo_identity [7] ''s'') 1 0))] \<rparr>"

lemma double_lease_leaks_witness:
  "\<exists>g1 g2 l g3 p. graph_lease demo_digest demo_page_id KindExactHotQ8 ''a'' 1 demo_leased_graph = (g1, Inr l)
     \<and> graph_lease demo_digest demo_page_id KindExactHotQ8 ''a'' 1 g1 = (g2, Inr l)
     \<and> fst (graph_release_lease (kl_lease_id l) (fst (graph_release_lease (kl_lease_id l) g2))) = g3
     \<and> gr_pages g3 demo_page_id = Some p \<and> 0 < pg_active_leases p"
proof -
  obtain g1 l1 where 1: "graph_lease demo_digest demo_page_id KindExactHotQ8 ''a'' 1 demo_leased_graph = (g1, Inr l1)"
    by (simp add: graph_lease_def demo_leased_graph_def graph_new_def page_add_representation_def page_find_def
        page_new_def Let_def)
  then obtain g2 l2 where 2: "graph_lease demo_digest demo_page_id KindExactHotQ8 ''a'' 1 g1 = (g2, Inr l2)"
    by (auto simp: graph_lease_def page_find_def Let_def split: option.splits if_splits)
  have same: "l1 = l2" using 1 2 by (auto simp: graph_lease_def Let_def split: option.splits if_splits)
  have "counted demo_page_id demo_leased_graph"
    by (simp add: counted_def leases_on_def demo_leased_graph_def graph_new_def)
  from double_lease_leaks [OF this 1 2 page_calls.release_lease [OF page_calls.release_lease [OF page_calls.none]],
      of "kl_lease_id l2" "kl_lease_id l2"]
  obtain p where "gr_pages (fst (graph_release_lease (kl_lease_id l2) (fst (graph_release_lease (kl_lease_id l2) g2)))) demo_page_id = Some p"
     "0 < pg_active_leases p" by (metis gr_implies_not_zero not_gr_zero)
  with 1 2 same show ?thesis by blast
qed

end
