(* ===== verification/Serve_Scheduler.thy ===== *)
theory Serve_Scheduler
  imports Kv_Graph "HOL-Library.Product_Lexorder"
begin

text \<open>
  \<open>har-serve/src/scheduler.rs\<close>, \<open>adapter.rs\<close> and \<open>telemetry.rs\<close>: the continuous-batching scheduler with
  prefix reuse.  Requests wait in a queue, are admitted into a batch, and every step runs the model
  once on all prefilling and once on all decoding sequences.  Each consumed token becomes an edge of
  the prefix graph, and the hidden state after it is cached at the node, so that a later request
  with the same prefix starts from there.

  Parameters: the model (a record of the trait's functions), the digest of the graph, and the iteration
  order of the cache's \<open>HashMap\<close> (a rank of its keys).  A hidden state or a row of logits is the list of
  the bit patterns of its \<open>f32\<close>s.  A panic is the error \<open>Panic\<close>; a walk to the root that never ends
  would be \<open>Hang\<close>.  Counters are \<open>nat\<close>: none counts more than the tokens processed.
\<close>

subsection \<open>The model contract\<close>

type_synonym token = "32 word"
type_synonym hidden = "32 word list"
type_synonym logits = "32 word list"

record step_outcome =
  so_next :: hidden
  so_logits :: logits
  so_drafts :: "token list"
  so_draft_states :: "hidden list"
  so_consumed_state :: hidden

definition plain_outcome :: "hidden \<Rightarrow> logits \<Rightarrow> step_outcome" where
  "plain_outcome next logits = \<lparr> so_next = next, so_logits = logits, so_drafts = [], so_draft_states = [],
     so_consumed_state = next \<rparr>"

record serve_model =
  sm_batch_step :: "(hidden \<times> token) list \<Rightarrow> step_outcome list"
  sm_prefill_batch :: "(hidden \<times> token list) list \<Rightarrow> (hidden list \<times> logits list) list"
  sm_initial_hidden :: hidden
  sm_eos :: token
  sm_weight_bytes_per_row :: nat

text \<open>The default of \<open>prefill_batch\<close>: one \<open>batch_step\<close> per token.\<close>

fun default_prefill_row ::
  "((hidden \<times> token) list \<Rightarrow> step_outcome list) \<Rightarrow> hidden \<Rightarrow> token list \<Rightarrow> hidden list \<times> logits list" where
  "default_prefill_row step h [] = ([], [])"
| "default_prefill_row step h (t # ts) =
     (let out = step [(h, t)] ! 0; (states, logits) = default_prefill_row step (so_next out) ts
      in (so_next out # states, so_logits out # logits))"

definition default_prefill ::
  "((hidden \<times> token) list \<Rightarrow> step_outcome list) \<Rightarrow> (hidden \<times> token list) list \<Rightarrow> (hidden list \<times> logits list) list" where
  "default_prefill step inputs = map (\<lambda>(h, ts). default_prefill_row step h ts) inputs"

text \<open>\<open>a > b\<close> on \<open>f32\<close> bit patterns: false with a NaN, and both zeros are equal.\<close>

definition f32_nan :: "32 word \<Rightarrow> bool" where
  "f32_nan x \<longleftrightarrow> take_bit 31 x > 0x7f800000"

definition f32_key :: "32 word \<Rightarrow> int" where
  "f32_key x = (if bit x 31 then - uint (take_bit 31 x) else uint (take_bit 31 x))"

definition f32_gt :: "32 word \<Rightarrow> 32 word \<Rightarrow> bool" where
  "f32_gt a b \<longleftrightarrow> \<not> f32_nan a \<and> \<not> f32_nan b \<and> f32_key a > f32_key b"

definition f32_neg_infinity :: "32 word" where
  "f32_neg_infinity = 0xff800000"

fun argmax_from :: "nat \<Rightarrow> 32 word \<Rightarrow> 32 word \<Rightarrow> logits \<Rightarrow> token" where
  "argmax_from i best best_v [] = best"
| "argmax_from i best best_v (v # vs) =
     (if f32_gt v best_v then argmax_from (Suc i) (of_nat i) v vs else argmax_from (Suc i) best best_v vs)"

definition argmax :: "logits \<Rightarrow> token" where
  "argmax logits = argmax_from 0 0 f32_neg_infinity logits"

subsection \<open>Configuration\<close>

record identity_roots =
  ir_model :: string
  ir_tokenizer :: string
  ir_rope :: string
  ir_authority :: string

definition identity_roots_default :: identity_roots where
  "identity_roots_default = \<lparr> ir_model = ''har-serve-model'', ir_tokenizer = ''har-serve-tokenizer'',
     ir_rope = ''har-serve-rope'', ir_authority = ''har-serve-authority'' \<rparr>"

datatype eviction_policy = PolicyLru | TrunkFirst

record serve_config =
  sc_max_batch :: nat
  sc_page_size :: nat
  sc_kv_layers :: "32 word"
  sc_kv_heads :: "32 word"
  sc_identity :: identity_roots
  sc_kv_type :: string
  sc_max_cache_bytes :: "nat option"
  sc_max_live_state_bytes :: "nat option"
  sc_pin_live_nodes :: bool
  sc_prefill_chunk :: nat
  sc_eviction_policy :: eviction_policy

definition serve_config_default :: serve_config where
  "serve_config_default = \<lparr> sc_max_batch = 4, sc_page_size = 8, sc_kv_layers = 8, sc_kv_heads = 4,
     sc_identity = identity_roots_default, sc_kv_type = ''q8_0'', sc_max_cache_bytes = None,
     sc_max_live_state_bytes = None, sc_pin_live_nodes = True, sc_prefill_chunk = 1,
     sc_eviction_policy = PolicyLru \<rparr>"

definition identity_for :: "serve_config \<Rightarrow> token list \<Rightarrow> prefix_identity" where
  "identity_for cfg tokens = \<lparr> px_model_root = digest_of_text (ir_model (sc_identity cfg)),
     px_tokenizer_root = digest_of_text (ir_tokenizer (sc_identity cfg)), px_token_sequence = tokens,
     px_rope_config_root = digest_of_text (ir_rope (sc_identity cfg)), px_layer_start = 0,
     px_layer_end = sc_kv_layers cfg, px_head_start = 0, px_head_end = sc_kv_heads cfg,
     px_kv_type = sc_kv_type cfg, px_codec_version = ''har-serve-v0'', px_runtime_generation = 1,
     px_authority_state_root = digest_of_text (ir_authority (sc_identity cfg)) \<rparr>"

subsection \<open>Sequences, cached states, telemetry\<close>

datatype sequence_state = Running | Finished

record sequence =
  sq_id :: nat
  sq_stream :: "token list"
  sq_consumed :: nat
  sq_prefix_depth :: nat
  sq_max_new :: nat
  sq_state :: sequence_state
  sq_hidden :: hidden
  sq_pending_logits :: "logits option"
  sq_node :: "node_id option"
  sq_work_rows :: nat
  sq_generated :: nat

definition sq_prompt :: "sequence \<Rightarrow> token list" where
  "sq_prompt q = take (length (sq_stream q) - sq_generated q) (sq_stream q)"

definition sq_prompt_len :: "sequence \<Rightarrow> nat" where
  "sq_prompt_len q = length (sq_prompt q)"

definition sq_finished :: "sequence \<Rightarrow> bool" where
  "sq_finished q \<longleftrightarrow> sq_state q = Finished"

record cached_state =
  cs_hidden :: hidden
  cs_logits :: "logits option"
  cs_last_access :: nat
  cs_pinned :: nat

definition cs_bytes :: "cached_state \<Rightarrow> nat" where
  "cs_bytes c = length (cs_hidden c) * 4 + (case cs_logits c of None \<Rightarrow> 0 | Some l \<Rightarrow> length l * 4)"

definition depth_bucket :: "nat \<Rightarrow> nat" where
  "depth_bucket d = (if d = 0 then 0 else if d \<le> 8 then 1 else if d \<le> 32 then 2 else if d \<le> 128 then 3 else 4)"

record prefix_telemetry =
  pt_admissions :: nat
  pt_cache_hits :: nat
  pt_cache_misses :: nat
  pt_full_prompt_hits :: nat
  pt_hit_depth_total :: nat
  pt_hit_depth_buckets :: "nat list"
  pt_reuse_rows_saved :: nat
  pt_eviction_age_total :: nat
  pt_evictions :: nat
  pt_pinned_evictions_skipped :: nat
  pt_over_budget_steps :: nat

definition telemetry_new :: prefix_telemetry where
  "telemetry_new = \<lparr> pt_admissions = 0, pt_cache_hits = 0, pt_cache_misses = 0, pt_full_prompt_hits = 0,
     pt_hit_depth_total = 0, pt_hit_depth_buckets = [0, 0, 0, 0, 0], pt_reuse_rows_saved = 0,
     pt_eviction_age_total = 0, pt_evictions = 0, pt_pinned_evictions_skipped = 0,
     pt_over_budget_steps = 0 \<rparr>"

type_synonym state_cache = "(node_id \<times> cached_state) list"
type_synonym cache_rank = "state_cache \<Rightarrow> node_id \<Rightarrow> nat"

record serve =
  sv_graph :: prefix_graph
  sv_root :: node_id
  sv_cache :: state_cache
  sv_sequences :: "sequence list"
  sv_queue :: "sequence list"
  sv_next_id :: nat
  sv_step_index :: nat
  sv_graph_nodes :: nat
  sv_kv_pages :: nat
  sv_cache_bytes :: nat
  sv_evictions :: nat
  sv_telemetry :: prefix_telemetry

datatype serve_fault = Panic string | Hang

type_synonym 'a serve_op = "(serve, serve_fault, 'a) op"

definition serve_new :: "(byte list list \<Rightarrow> digest) \<Rightarrow> serve_config \<Rightarrow> serve_fault + serve" where
  "serve_new dg cfg =
     (case insert_root dg (identity_for cfg []) graph_new of
        (_, Inl _) \<Rightarrow> Inl (Panic ''fresh graph root'')
      | (g, Inr r) \<Rightarrow> Inr \<lparr> sv_graph = g, sv_root = pr_id r, sv_cache = [], sv_sequences = [], sv_queue = [],
          sv_next_id = 0, sv_step_index = 0, sv_graph_nodes = 1, sv_kv_pages = 0, sv_cache_bytes = 0,
          sv_evictions = 0, sv_telemetry = telemetry_new \<rparr>)"

definition serve_live :: "serve \<Rightarrow> nat" where
  "serve_live s = length (filter (\<lambda>q. \<not> sq_finished q) (sv_sequences s))"

datatype serve_error = EmptyPrompt | UnknownSequence

definition serve_submit :: "serve_model \<Rightarrow> token list \<Rightarrow> nat \<Rightarrow> (serve, serve_error, nat) op" where
  "serve_submit m prompt max_new s =
     (if prompt = [] then (Inl EmptyPrompt, s)
      else (Inr (sv_next_id s), s\<lparr> sv_next_id := sv_next_id s + 1,
        sv_queue := sv_queue s @ [\<lparr> sq_id = sv_next_id s, sq_stream = prompt, sq_consumed = 0, sq_prefix_depth = 0,
          sq_max_new = max_new, sq_state = Running, sq_hidden = sm_initial_hidden m, sq_pending_logits = None,
          sq_node = None, sq_work_rows = 0, sq_generated = 0 \<rparr>] \<rparr>))"

definition serve_stream_of :: "nat \<Rightarrow> serve \<Rightarrow> serve_error + token list" where
  "serve_stream_of i s =
     (case find (\<lambda>q. sq_id q = i) (sv_sequences s) of
        None \<Rightarrow> Inl UnknownSequence | Some q \<Rightarrow> Inr (sq_stream q))"

subsection \<open>Pins\<close>

text \<open>The ids that \<open>pin_path\<close> and \<open>unpin_path\<close> visit, from a node up to its root.\<close>

partial_function (option) path_to_root ::
  "(node_id \<rightharpoonup> prefix_node) \<Rightarrow> node_id option \<Rightarrow> node_id list option" where
  "path_to_root N current =
     (case current of
        None \<Rightarrow> Some []
      | Some k \<Rightarrow> Option.bind (path_to_root N (Option.bind (N k) pn_parent)) (\<lambda>ks. Some (k # ks)))"

declare path_to_root.simps [code]

definition on_cached :: "node_id \<Rightarrow> (cached_state \<Rightarrow> cached_state) \<Rightarrow> serve \<Rightarrow> serve" where
  "on_cached k f s =
     (case hget (sv_cache s) k of None \<Rightarrow> s | Some c \<Rightarrow> s\<lparr> sv_cache := hput k (f c) (sv_cache s) \<rparr>)"

definition pin_node :: "node_id \<Rightarrow> serve \<Rightarrow> serve" where
  "pin_node k s = on_cached k (\<lambda>c. c\<lparr> cs_pinned := cs_pinned c + 1, cs_last_access := sv_step_index s \<rparr>) s"

definition unpin_node :: "node_id \<Rightarrow> serve \<Rightarrow> serve" where
  "unpin_node k = on_cached k (\<lambda>c. c\<lparr> cs_pinned := cs_pinned c - 1 \<rparr>)"

definition walk_up :: "(node_id \<Rightarrow> serve \<Rightarrow> serve) \<Rightarrow> node_id \<Rightarrow> unit serve_op" where
  "walk_up f k =
     bindR (readR (\<lambda>s. case path_to_root (gr_nodes (sv_graph s)) (Some k) of None \<Rightarrow> Inl Hang | Some ks \<Rightarrow> Inr ks))
       (\<lambda>ks. modR (fold f ks))"

definition pin_path :: "node_id \<Rightarrow> unit serve_op" where
  "pin_path = walk_up pin_node"

definition unpin_path :: "node_id \<Rightarrow> unit serve_op" where
  "unpin_path = walk_up unpin_node"

subsection \<open>Eviction\<close>

definition cache_iter :: "cache_rank \<Rightarrow> state_cache \<Rightarrow> state_cache" where
  "cache_iter rk m = sort_key (rk m \<circ> fst) m"

definition eviction_key :: "eviction_policy \<Rightarrow> prefix_graph \<Rightarrow> node_id \<times> cached_state \<Rightarrow> nat \<times> nat" where
  "eviction_key pol g = (\<lambda>(k, c). case pol of
     PolicyLru \<Rightarrow> (cs_last_access c, 0)
   | TrunkFirst \<Rightarrow> (u64_max - (case gr_nodes g k of None \<Rightarrow> 0 | Some n \<Rightarrow> pn_depth n), u64_max - cs_last_access c))"

definition serve_victim :: "cache_rank \<Rightarrow> eviction_policy \<Rightarrow> serve \<Rightarrow> (node_id \<times> cached_state) option" where
  "serve_victim rk pol s =
     min_by_key (eviction_key pol (sv_graph s)) (filter (\<lambda>(_, c). cs_pinned c = 0) (cache_iter rk (sv_cache s)))"

definition drop_state :: "node_id \<times> cached_state \<Rightarrow> serve \<Rightarrow> serve" where
  "drop_state = (\<lambda>(k, c) s. s\<lparr> sv_cache := hdel k (sv_cache s), sv_cache_bytes := sv_cache_bytes s - cs_bytes c,
     sv_evictions := sv_evictions s + 1,
     sv_telemetry := (sv_telemetry s)\<lparr> pt_evictions := pt_evictions (sv_telemetry s) + 1,
       pt_eviction_age_total := pt_eviction_age_total (sv_telemetry s) + (sv_step_index s - cs_last_access c) \<rparr> \<rparr>)"

definition note_pressure :: "serve \<Rightarrow> serve" where
  "note_pressure s = s\<lparr> sv_telemetry := (sv_telemetry s)\<lparr>
     pt_pinned_evictions_skipped := pt_pinned_evictions_skipped (sv_telemetry s) + 1,
     pt_over_budget_steps := pt_over_budget_steps (sv_telemetry s) + 1 \<rparr> \<rparr>"

lemma serve_victim_in: "serve_victim rk pol s = Some v \<Longrightarrow> v \<in> set (sv_cache s) \<and> cs_pinned (snd v) = 0"
  unfolding serve_victim_def by (drule min_by_key_min) (auto simp: cache_iter_def)

lemma drop_state_shorter:
  assumes "serve_victim rk pol s = Some v"
  shows "length (sv_cache (drop_state v s)) < length (sv_cache s)"
proof -
  obtain k c where v: "v = (k, c)" by (cases v)
  have "(k, c) \<in> set (sv_cache s)" using serve_victim_in [OF assms] v by simp
  then obtain c' where "hget (sv_cache s) k = Some c'"
    by (metis weak_map_of_SomeI)
  from length_hdel_less [OF this] show ?thesis by (simp add: v drop_state_def)
qed

function evict_loop :: "cache_rank \<Rightarrow> eviction_policy \<Rightarrow> nat \<Rightarrow> serve \<Rightarrow> serve" where
  "evict_loop rk pol budget s =
     (if sv_cache_bytes s \<le> budget then s
      else case serve_victim rk pol s of None \<Rightarrow> note_pressure s | Some v \<Rightarrow> evict_loop rk pol budget (drop_state v s))"
  by pat_completeness auto
termination
  by (relation "measure (\<lambda>(_, _, _, s). length (sv_cache s))")
    (auto simp: drop_state_shorter)

declare evict_loop.simps [simp del]

definition evict_to_budget :: "cache_rank \<Rightarrow> serve_config \<Rightarrow> serve \<Rightarrow> serve" where
  "evict_to_budget rk cfg s =
     (case sc_max_cache_bytes cfg of None \<Rightarrow> s | Some budget \<Rightarrow> evict_loop rk (sc_eviction_policy cfg) budget s)"

subsection \<open>Admission\<close>

text \<open>The walk from the root along children whose state is cached.\<close>

fun resident_walk ::
  "(node_id \<rightharpoonup> prefix_node) \<Rightarrow> state_cache \<Rightarrow> node_id \<Rightarrow> nat \<Rightarrow> token list \<Rightarrow> node_id \<times> nat" where
  "resident_walk N cache k depth [] = (k, depth)"
| "resident_walk N cache k depth (t # ts) =
     (case Option.bind (N k) (\<lambda>n. pn_children n t) of
        None \<Rightarrow> (k, depth)
      | Some next \<Rightarrow>
          if hget cache next \<noteq> None then resident_walk N cache next (depth + 1) ts else (k, depth))"

definition longest_prefix :: "token list \<Rightarrow> serve \<Rightarrow> node_id \<times> nat" where
  "longest_prefix prompt s = resident_walk (gr_nodes (sv_graph s)) (sv_cache s) (sv_root s) 0 prompt"

definition admission_open :: "serve_model \<Rightarrow> serve_config \<Rightarrow> serve \<Rightarrow> bool" where
  "admission_open m cfg s \<longleftrightarrow> serve_live s < sc_max_batch cfg
     \<and> (case sc_max_live_state_bytes cfg of None \<Rightarrow> True
        | Some budget \<Rightarrow> (serve_live s + 1) * (length (sm_initial_hidden m) * 4) \<le> budget)"

definition note_hit :: "nat \<Rightarrow> nat \<Rightarrow> serve \<Rightarrow> serve" where
  "note_hit depth prompt_len s = s\<lparr> sv_telemetry := (let t = sv_telemetry s; b = depth_bucket depth in
     t\<lparr> pt_admissions := pt_admissions t + 1, pt_cache_hits := pt_cache_hits t + 1,
        pt_hit_depth_total := pt_hit_depth_total t + depth,
        pt_hit_depth_buckets := (pt_hit_depth_buckets t)[b := pt_hit_depth_buckets t ! b + 1],
        pt_reuse_rows_saved := pt_reuse_rows_saved t + depth,
        pt_full_prompt_hits := pt_full_prompt_hits t + (if depth = prompt_len then 1 else 0) \<rparr>) \<rparr>"

definition note_miss :: "serve \<Rightarrow> serve" where
  "note_miss s = s\<lparr> sv_telemetry := (sv_telemetry s)\<lparr>
     pt_admissions := pt_admissions (sv_telemetry s) + 1, pt_cache_misses := pt_cache_misses (sv_telemetry s) + 1 \<rparr> \<rparr>"

definition resume_sequence :: "node_id \<Rightarrow> nat \<Rightarrow> cached_state \<Rightarrow> sequence \<Rightarrow> sequence" where
  "resume_sequence k depth c q = q\<lparr> sq_prefix_depth := depth, sq_consumed := depth, sq_node := Some k,
     sq_hidden := cs_hidden c,
     sq_pending_logits := (if depth = sq_prompt_len q then cs_logits c else None) \<rparr>"

definition restart_sequence :: "node_id \<Rightarrow> hidden \<Rightarrow> sequence \<Rightarrow> sequence" where
  "restart_sequence root h q = q\<lparr> sq_prefix_depth := 0, sq_consumed := 0, sq_node := Some root,
     sq_hidden := h, sq_pending_logits := None \<rparr>"

definition push_sequence :: "sequence \<Rightarrow> serve \<Rightarrow> serve" where
  "push_sequence q s = s\<lparr> sv_sequences := sv_sequences s @ [q] \<rparr>"

definition touch_cached :: "node_id \<Rightarrow> serve \<Rightarrow> serve" where
  "touch_cached k s = on_cached k (\<lambda>c. c\<lparr> cs_last_access := sv_step_index s \<rparr>) s"

definition admit_sequence :: "serve_model \<Rightarrow> serve_config \<Rightarrow> sequence \<Rightarrow> unit serve_op" where
  "admit_sequence m cfg q =
     bindR (getsR (longest_prefix (sq_prompt q))) (\<lambda>(k, depth).
     bindR (getsR (\<lambda>s. hget (sv_cache s) k)) (\<lambda>found.
     case found of
       Some c \<Rightarrow>
         thenR (modR (\<lambda>s. touch_cached k (note_hit depth (sq_prompt_len q) s)))
        (thenR (if sc_pin_live_nodes cfg then pin_path k else okR ())
               (modR (push_sequence (resume_sequence k depth c q))))
     | None \<Rightarrow> modR (\<lambda>s. push_sequence (restart_sequence (sv_root s) (sm_initial_hidden m) q) (note_miss s))))"

fun admit_from :: "serve_model \<Rightarrow> serve_config \<Rightarrow> sequence list \<Rightarrow> unit serve_op" where
  "admit_from m cfg [] = okR ()"
| "admit_from m cfg (q # qs) =
     bindR (getsR (admission_open m cfg)) (\<lambda>open.
       if open
       then thenR (modR (\<lambda>s. s\<lparr> sv_queue := qs \<rparr>)) (thenR (admit_sequence m cfg q) (admit_from m cfg qs))
       else okR ())"

definition admit :: "serve_model \<Rightarrow> serve_config \<Rightarrow> unit serve_op" where
  "admit m cfg = bindR (getsR sv_queue) (admit_from m cfg)"

subsection \<open>Sampling\<close>

definition sample_greedy :: "token \<Rightarrow> logits \<Rightarrow> sequence \<Rightarrow> token option \<times> sequence" where
  "sample_greedy eos logits q =
     (let t = argmax logits; q1 = q\<lparr> sq_generated := sq_generated q + 1 \<rparr> in
      if t = eos then (None, q1\<lparr> sq_state := Finished \<rparr>)
      else (Some t, q1\<lparr> sq_stream := sq_stream q @ [t] \<rparr>))"

text \<open>
  Sampling at admission: what it does to one sequence, whether it sampled a token and whether it
  finished the sequence for want of any to sample.
\<close>

definition sample_pending :: "token \<Rightarrow> sequence \<Rightarrow> sequence \<times> bool \<times> bool" where
  "sample_pending eos q =
     (if sq_finished q then (q, False, False)
      else if sq_consumed q = sq_prompt_len q \<and> sq_pending_logits q \<noteq> None
      then if sq_max_new q > 0
           then let (sampled, q') = sample_greedy eos (the (sq_pending_logits q)) (q\<lparr> sq_pending_logits := None \<rparr>)
                in (q', sampled \<noteq> None, False)
           else (q\<lparr> sq_state := Finished \<rparr>, False, True)
      else (q, False, False))"

definition indices_where :: "('a \<Rightarrow> bool) \<Rightarrow> 'a list \<Rightarrow> nat list" where
  "indices_where P xs = filter (\<lambda>i. P (xs ! i)) [0..<length xs]"

subsection \<open>Consuming a token\<close>

definition extend_or_follow ::
  "(byte list list \<Rightarrow> digest) \<Rightarrow> node_id \<Rightarrow> token \<Rightarrow> prefix_identity \<Rightarrow> (node_id \<times> bool) serve_op" where
  "extend_or_follow dg parent t i s =
     (case graph_extend dg parent t i (sv_graph s) of
        (g, Inr (k, _)) \<Rightarrow> (Inr (k, True), s\<lparr> sv_graph := g \<rparr>)
      | (g, Inl DuplicateEdge) \<Rightarrow>
          (case Option.bind (gr_nodes g parent) (\<lambda>n. pn_children n t) of
             Some c \<Rightarrow> (Inr (c, False), s)
           | None \<Rightarrow> (Inl (Panic ''duplicate edge implies child exists''), s))
      | (g, Inl _) \<Rightarrow> (Inl (Panic ''prefix graph extend failed''), s))"

definition boundary_page :: "serve_config \<Rightarrow> prefix_identity \<Rightarrow> node_id \<Rightarrow> nat \<Rightarrow> 64 word \<Rightarrow> kv_page" where
  "boundary_page cfg i k consumed gen =
     (let ps = sc_page_size cfg in
      page_new \<lparr> kp_prefix_node_id = k, kp_ordinal = unat (of_nat (consumed div ps) - 1 :: 32 word),
          kp_token_start = consumed - ps, kp_token_end = consumed, kp_layer_start = 0,
          kp_layer_end = unat (sc_kv_layers cfg), kp_head_start = 0, kp_head_end = unat (sc_kv_heads cfg),
          kp_logical_generation = 1 \<rparr>
        (identity_closure i gen 0))"

definition attach_page_if_boundary :: "serve_config \<Rightarrow> prefix_identity \<Rightarrow> node_id \<Rightarrow> nat \<Rightarrow> unit serve_op" where
  "attach_page_if_boundary cfg i k consumed s =
     (let ps = sc_page_size cfg in
      if ps = 0 then (Inl (Panic ''attempt to calculate the remainder with a divisor of zero''), s)
      else if consumed mod ps \<noteq> 0 \<or> consumed < ps then (Inr (), s)
      else case attach_page (boundary_page cfg i k consumed (gr_generation (sv_graph s))) (sv_graph s) of
        (g, Inl _) \<Rightarrow> (Inl (Panic ''KV page attach failed''), s\<lparr> sv_graph := g \<rparr>)
      | (g, Inr _) \<Rightarrow> (Inr (), s\<lparr> sv_graph := g, sv_kv_pages := sv_kv_pages s + 1 \<rparr>))"

definition insert_state :: "node_id \<Rightarrow> cached_state \<Rightarrow> serve \<Rightarrow> serve" where
  "insert_state k c s = s\<lparr> sv_graph_nodes := sv_graph_nodes s + 1, sv_cache_bytes := sv_cache_bytes s + cs_bytes c,
     sv_cache := hput k c (sv_cache s) \<rparr>"

text \<open>
  What the step does for every token it consumes: the edge, the state if the node is new, the page
  record at a page boundary, the pin.  The state is indexed in the model's output only if needed.
\<close>

definition consume_edge ::
  "(byte list list \<Rightarrow> digest) \<Rightarrow> serve_config \<Rightarrow> node_id \<Rightarrow> token \<Rightarrow> prefix_identity \<Rightarrow> hidden option \<Rightarrow> logits option
     \<Rightarrow> nat \<Rightarrow> node_id serve_op" where
  "consume_edge dg cfg parent t i h l consumed =
     bindR (extend_or_follow dg parent t i) (\<lambda>(k, created).
     thenR (if created then
              (case h of None \<Rightarrow> errR (Panic ''index out of bounds'')
               | Some h \<Rightarrow> modR (\<lambda>s. insert_state k \<lparr> cs_hidden = h, cs_logits = l,
                             cs_last_access = sv_step_index s, cs_pinned = 0 \<rparr> s))
            else okR ())
    (thenR (attach_page_if_boundary cfg i k consumed)
    (thenR (if sc_pin_live_nodes cfg then modR (pin_node k) else okR ())
           (okR k))))"

definition nth_opt :: "'a list \<Rightarrow> nat \<Rightarrow> 'a option" where
  "nth_opt xs i = (if i < length xs then Some (xs ! i) else None)"

definition indexR :: "'a list \<Rightarrow> nat \<Rightarrow> 'a serve_op" where
  "indexR xs i = (case nth_opt xs i of None \<Rightarrow> errR (Panic ''index out of bounds'') | Some x \<Rightarrow> okR x)"

definition sliceR :: "token list \<Rightarrow> nat \<Rightarrow> token list serve_op" where
  "sliceR ts n = (if n \<le> length ts then okR (take n ts) else errR (Panic ''range end index out of range''))"

definition on_seq :: "nat \<Rightarrow> (sequence \<Rightarrow> sequence) \<Rightarrow> serve \<Rightarrow> serve" where
  "on_seq i f s = s\<lparr> sv_sequences := (sv_sequences s)[i := f (sv_sequences s ! i)] \<rparr>"

datatype phase = Prefill | Decode

record sequence_step_outcome =
  ss_id :: nat
  ss_phase :: phase
  ss_token_consumed :: token
  ss_tokens_consumed :: nat
  ss_token_sampled :: "token option"
  ss_finished :: bool

text \<open>What one sequence contributes to the report, and whether it is to be unpinned.\<close>

type_synonym row_result = "sequence_step_outcome \<times> bool"

subsection \<open>One prefill chunk\<close>

text \<open>The edges of a chunk: token, identity, state, and the logits for the last one.\<close>

fun prefill_edges ::
  "(byte list list \<Rightarrow> digest) \<Rightarrow> serve_config \<Rightarrow> node_id \<Rightarrow> nat \<Rightarrow> (token \<times> prefix_identity \<times> hidden option) list
     \<Rightarrow> logits \<Rightarrow> node_id serve_op" where
  "prefill_edges dg cfg k consumed [] final = okR k"
| "prefill_edges dg cfg k consumed ((t, i, h) # rest) final =
     bindR (consume_edge dg cfg k t i h (if rest = [] then Some final else None) (consumed + 1)) (\<lambda>k'.
       prefill_edges dg cfg k' (consumed + 1) rest final)"

definition prefill_input :: "serve_config \<Rightarrow> sequence \<Rightarrow> hidden \<times> token list" where
  "prefill_input cfg q =
     (let start = sq_consumed q; stop = min (start + max (sc_prefill_chunk cfg) 1) (sq_prompt_len q)
      in (sq_hidden q, take (stop - start) (drop start (sq_prompt q))))"

definition finish_prefill ::
  "token \<Rightarrow> node_id \<Rightarrow> hidden \<Rightarrow> logits \<Rightarrow> nat \<Rightarrow> sequence \<Rightarrow> token option \<times> bool \<times> sequence" where
  "finish_prefill eos k h final n q =
     (let q1 = q\<lparr> sq_hidden := h, sq_work_rows := sq_work_rows q + n, sq_node := Some k,
                  sq_consumed := sq_consumed q + n \<rparr> in
      if sq_consumed q1 = length (sq_stream q1)
      then if sq_generated q1 < sq_max_new q1
           then let (sampled, q2) = sample_greedy eos final q1 in (sampled, False, q2)
           else (None, True, q1\<lparr> sq_state := Finished \<rparr>)
      else (None, False, q1))"

definition prefill_sequence ::
  "(byte list list \<Rightarrow> digest) \<Rightarrow> serve_model \<Rightarrow> serve_config \<Rightarrow> token list \<Rightarrow> (hidden list \<times> logits list) list
     \<Rightarrow> nat \<times> nat \<Rightarrow> row_result serve_op" where
  "prefill_sequence dg m cfg tokens outputs = (\<lambda>(row, i).
     bindR (getsR (\<lambda>s. sv_sequences s ! i)) (\<lambda>q.
     bindR (indexR outputs row) (\<lambda>(states, logits).
     if logits = [] \<or> sq_node q = None then errR (Panic ''non-empty chunk'')
     else
       bindR (prefill_edges dg cfg (the (sq_node q)) (sq_consumed q)
         (map (\<lambda>j. (tokens ! j, identity_for cfg (take (sq_consumed q + j + 1) (sq_stream q)), nth_opt states j))
            [0..<length tokens])
         (last logits)) (\<lambda>k.
       if states = [] then errR (Panic ''non-empty chunk'')
       else
         (let (sampled, fin, q') = finish_prefill (sm_eos m) k (last states) (last logits) (length tokens) q in
          thenR (modR (on_seq i (\<lambda>_. q')))
            (okR (\<lparr> ss_id = sq_id q, ss_phase = Prefill, ss_token_consumed = last tokens,
                    ss_tokens_consumed = length tokens, ss_token_sampled = sampled,
                    ss_finished = sq_finished q' \<rparr>, fin)))))))"

subsection \<open>One decode row\<close>

fun decode_drafts ::
  "(byte list list \<Rightarrow> digest) \<Rightarrow> serve_config \<Rightarrow> token \<Rightarrow> nat \<Rightarrow> node_id \<Rightarrow> nat \<Rightarrow> (token \<times> hidden option) list
     \<Rightarrow> (bool \<times> node_id \<times> nat) serve_op" where
  "decode_drafts dg cfg eos i k consumed [] = okR (False, k, consumed)"
| "decode_drafts dg cfg eos i k consumed ((t, h) # rest) =
     bindR (getsR (\<lambda>s. sv_sequences s ! i)) (\<lambda>q.
       if t = eos \<or> sq_max_new q \<le> sq_generated q then okR (True, k, consumed)
       else
         thenR (modR (on_seq i (\<lambda>q. q\<lparr> sq_stream := sq_stream q @ [t], sq_generated := sq_generated q + 1 \<rparr>)))
        (bindR (sliceR (sq_stream q @ [t]) (consumed + 1)) (\<lambda>ts.
         bindR (consume_edge dg cfg k t (identity_for cfg ts) h None (consumed + 1)) (\<lambda>k'.
           decode_drafts dg cfg eos i k' (consumed + 1) rest))))"

definition finish_decode ::
  "token \<Rightarrow> logits \<Rightarrow> bool \<Rightarrow> node_id \<Rightarrow> nat \<Rightarrow> sequence \<Rightarrow> token option \<times> bool \<times> sequence" where
  "finish_decode eos logits finished k consumed q =
     (let q1 = q\<lparr> sq_node := Some k, sq_consumed := consumed \<rparr> in
      if finished \<or> sq_max_new q1 \<le> sq_generated q1 then (None, True, q1\<lparr> sq_state := Finished \<rparr>)
      else if consumed = length (sq_stream q1)
      then let (sampled, q2) = sample_greedy eos logits q1 in (sampled, sampled = None, q2)
      else (None, False, q1))"

definition decode_sequence ::
  "(byte list list \<Rightarrow> digest) \<Rightarrow> serve_model \<Rightarrow> serve_config \<Rightarrow> token \<Rightarrow> step_outcome list \<Rightarrow> nat \<times> nat
     \<Rightarrow> row_result serve_op" where
  "decode_sequence dg m cfg token_in outputs = (\<lambda>(row, i).
     bindR (indexR outputs row) (\<lambda>out.
     bindR (getsR (\<lambda>s. sv_sequences s ! i)) (\<lambda>q.
     if sq_node q = None then errR (Panic ''admitted sequence has a node'')
     else
       thenR (modR (on_seq i (\<lambda>q. q\<lparr> sq_hidden := so_next out, sq_work_rows := sq_work_rows q + 1 \<rparr>)))
      (bindR (sliceR (sq_stream q) (sq_consumed q + 1)) (\<lambda>ts.
       bindR (consume_edge dg cfg (the (sq_node q)) token_in (identity_for cfg ts) (Some (so_consumed_state out))
                (Some (so_logits out)) (sq_consumed q + 1)) (\<lambda>k.
       bindR (decode_drafts dg cfg (sm_eos m) i k (sq_consumed q + 1)
                (map (\<lambda>j. (so_drafts out ! j, nth_opt (so_draft_states out) j)) [0..<length (so_drafts out)]))
         (\<lambda>(finished, k', consumed).
       bindR (getsR (\<lambda>s. finish_decode (sm_eos m) (so_logits out) finished k' consumed (sv_sequences s ! i)))
         (\<lambda>(sampled, fin, q').
       thenR (modR (on_seq i (\<lambda>_. q')))
         (okR (\<lparr> ss_id = sq_id q, ss_phase = Decode, ss_token_consumed = token_in, ss_tokens_consumed = 1,
                 ss_token_sampled = sampled, ss_finished = sq_finished q' \<rparr>, fin))))))))))"

subsection \<open>The step\<close>

fun for_each :: "('x \<Rightarrow> ('s, 'e, 'a) op) \<Rightarrow> 'x list \<Rightarrow> ('s, 'e, 'a list) op" where
  "for_each f [] = okR []"
| "for_each f (x # xs) = bindR (f x) (\<lambda>y. bindR (for_each f xs) (\<lambda>ys. okR (y # ys)))"

datatype step_kind = StepPrefill | StepDecode | StepIdle

record step_report =
  sr_step_index :: nat
  sr_kind :: step_kind
  sr_active :: nat
  sr_rows :: nat
  sr_prefill_rows :: nat
  sr_decode_rows :: nat
  sr_tokens_sampled :: nat
  sr_finished :: nat
  sr_weight_bytes :: nat
  sr_graph_nodes :: nat
  sr_kv_pages :: nat
  sr_cache_bytes :: nat
  sr_evictions :: nat
  sr_outcomes :: "sequence_step_outcome list"

definition unpin_sequence :: "nat \<Rightarrow> unit serve_op" where
  "unpin_sequence i =
     bindR (getsR (\<lambda>s. sq_node (sv_sequences s ! i))) (\<lambda>node.
       case node of None \<Rightarrow> errR (Panic ''node'') | Some k \<Rightarrow> unpin_path k)"

definition release_and_sweep :: "cache_rank \<Rightarrow> serve_config \<Rightarrow> nat list \<Rightarrow> unit serve_op" where
  "release_and_sweep rk cfg finished =
     thenR (for_each unpin_sequence finished) (modR (evict_to_budget rk cfg))"

definition sample_admitted :: "serve_model \<Rightarrow> (nat \<times> nat list) serve_op" where
  "sample_admitted m =
     bindR (getsR (\<lambda>s. map (sample_pending (sm_eos m)) (sv_sequences s))) (\<lambda>rs.
     thenR (modR (\<lambda>s. s\<lparr> sv_sequences := map fst rs \<rparr>))
       (okR (length (filter (\<lambda>(_, sampled, _). sampled) rs), indices_where (\<lambda>(_, _, fin). fin) rs)))"

definition idle_report :: "nat \<Rightarrow> serve \<Rightarrow> serve \<Rightarrow> step_report" where
  "idle_report sampled s0 s = \<lparr> sr_step_index = sv_step_index s0, sr_kind = StepIdle, sr_active = 0, sr_rows = 0,
     sr_prefill_rows = 0, sr_decode_rows = 0, sr_tokens_sampled = sampled, sr_finished = 0, sr_weight_bytes = 0,
     sr_graph_nodes = sv_graph_nodes s0, sr_kv_pages = sv_kv_pages s0, sr_cache_bytes = sv_cache_bytes s,
     sr_evictions = sv_evictions s, sr_outcomes = [] \<rparr>"

definition busy_report ::
  "serve_model \<Rightarrow> nat \<Rightarrow> (hidden \<times> token list) list \<Rightarrow> (hidden \<times> token) list \<Rightarrow> row_result list \<Rightarrow> serve \<Rightarrow> step_report" where
  "busy_report m sampled pins dins rows s = \<lparr> sr_step_index = sv_step_index s,
     sr_kind = (if pins \<noteq> [] then StepPrefill else StepDecode), sr_active = length pins + length dins,
     sr_rows = sum_list (map (length \<circ> snd) pins) + length dins,
     sr_prefill_rows = sum_list (map (length \<circ> snd) pins), sr_decode_rows = length dins,
     sr_tokens_sampled = sampled + length (filter (\<lambda>(o1, _). ss_token_sampled o1 \<noteq> None) rows),
     sr_finished = length (filter snd rows),
     sr_weight_bytes = (if pins \<noteq> [] then sm_weight_bytes_per_row m else 0)
       + (if dins \<noteq> [] then sm_weight_bytes_per_row m else 0),
     sr_graph_nodes = sv_graph_nodes s, sr_kv_pages = sv_kv_pages s, sr_cache_bytes = sv_cache_bytes s,
     sr_evictions = sv_evictions s, sr_outcomes = map fst rows \<rparr>"

definition run_rows ::
  "(byte list list \<Rightarrow> digest) \<Rightarrow> serve_model \<Rightarrow> serve_config \<Rightarrow> nat list \<Rightarrow> nat list
     \<Rightarrow> (hidden \<times> token list) list \<Rightarrow> (hidden \<times> token) list \<Rightarrow> row_result list serve_op" where
  "run_rows dg m cfg pre dec pins dins =
     (let pouts = sm_prefill_batch m pins; douts = (if dins = [] then [] else sm_batch_step m dins) in
      bindR (for_each (\<lambda>(row, i). prefill_sequence dg m cfg (snd (pins ! row)) pouts (row, i))
               (List.enumerate 0 pre)) (\<lambda>a.
      bindR (for_each (\<lambda>(row, i). decode_sequence dg m cfg (snd (dins ! row)) douts (row, i))
               (List.enumerate 0 dec)) (\<lambda>b.
      okR (a @ b))))"

definition busy_step ::
  "(byte list list \<Rightarrow> digest) \<Rightarrow> cache_rank \<Rightarrow> serve_model \<Rightarrow> serve_config \<Rightarrow> nat \<Rightarrow> nat list \<Rightarrow> sequence list
     \<Rightarrow> step_report serve_op" where
  "busy_step dg rk m cfg sampled fin0 qs =
     (let running = indices_where (\<lambda>q. \<not> sq_finished q) qs;
          pre = filter (\<lambda>i. sq_consumed (qs ! i) < sq_prompt_len (qs ! i)) running;
          dec = filter (\<lambda>i. \<not> sq_consumed (qs ! i) < sq_prompt_len (qs ! i)) running;
          pins = map (\<lambda>i. prefill_input cfg (qs ! i)) pre;
          dins = map (\<lambda>i. (sq_hidden (qs ! i), last (sq_stream (qs ! i)))) dec
      in bindR (run_rows dg m cfg pre dec pins dins) (\<lambda>rows.
         thenR (release_and_sweep rk cfg (map snd (filter fst (zip (map snd rows) (pre @ dec))) @ fin0))
           (getsR (busy_report m sampled pins dins rows))))"

definition run_admitted ::
  "(byte list list \<Rightarrow> digest) \<Rightarrow> cache_rank \<Rightarrow> serve_model \<Rightarrow> serve_config \<Rightarrow> serve \<Rightarrow> nat \<Rightarrow> nat list
     \<Rightarrow> step_report serve_op" where
  "run_admitted dg rk m cfg s0 sampled fin0 =
     bindR (getsR sv_sequences) (\<lambda>qs.
       if indices_where (\<lambda>q. \<not> sq_finished q) qs = []
       then thenR (release_and_sweep rk cfg fin0) (getsR (idle_report sampled s0))
       else busy_step dg rk m cfg sampled fin0 qs)"

definition serve_step ::
  "(byte list list \<Rightarrow> digest) \<Rightarrow> cache_rank \<Rightarrow> serve_model \<Rightarrow> serve_config \<Rightarrow> step_report serve_op" where
  "serve_step dg rk m cfg =
     thenR (modR (\<lambda>s. s\<lparr> sv_step_index := sv_step_index s + 1 \<rparr>))
    (thenR (admit m cfg)
    (bindR (getsR id) (\<lambda>s0.
     bindR (sample_admitted m) (\<lambda>(sampled, fin0). run_admitted dg rk m cfg s0 sampled fin0))))"

partial_function (option) run_to_idle ::
  "(byte list list \<Rightarrow> digest) \<Rightarrow> cache_rank \<Rightarrow> serve_model \<Rightarrow> serve_config \<Rightarrow> step_report list \<Rightarrow> serve
     \<Rightarrow> ((serve_fault + step_report list) \<times> serve) option" where
  "run_to_idle dg rk m cfg reports s =
     (case serve_step dg rk m cfg s of
        (Inl e, s') \<Rightarrow> Some (Inl e, s')
      | (Inr r, s') \<Rightarrow> if sr_kind r = StepIdle then Some (Inr reports, s')
                      else run_to_idle dg rk m cfg (reports @ [r]) s')"

declare run_to_idle.simps [code]

end
