(* ===== verification/Serve_Graph.thy ===== *)
theory Serve_Graph
  imports Serve_Scheduler "HOL-Library.Sublist"
begin

text \<open>
  The prefix graph as the scheduler uses it: one root, every identity built by \<open>identity_for\<close>, edges
  added by \<open>extend_or_follow\<close> and pages by \<open>attach_page_if_boundary\<close>.  Such a graph is a tree of token
  sequences in which no node is ever replaced, so the extension of a node either creates a fresh node
  or follows the edge that is there.
\<close>

subsection \<open>The invariant of the graph\<close>

definition linked :: "(node_id \<rightharpoonup> prefix_node) \<Rightarrow> bool" where
  "linked N \<longleftrightarrow> (\<forall>k n p. N k = Some n \<longrightarrow> pn_parent n = Some p \<longrightarrow>
     (\<exists>q t. N p = Some q \<and> node_tokens n = node_tokens q @ [t] \<and> pn_children q t = Some k))"

lemma linkedD:
  "linked N \<Longrightarrow> N k = Some n \<Longrightarrow> pn_parent n = Some p \<Longrightarrow>
   \<exists>q t. N p = Some q \<and> node_tokens n = node_tokens q @ [t] \<and> pn_children q t = Some k"
  unfolding linked_def by blast

definition served_ids :: "serve_config \<Rightarrow> token list set \<Rightarrow> prefix_identity set" where
  "served_ids cfg TS = identity_for cfg ` TS"

definition graph_ok :: "(byte list list \<Rightarrow> digest) \<Rightarrow> serve_config \<Rightarrow> token list set \<Rightarrow> prefix_graph \<Rightarrow> bool" where
  "graph_ok dg cfg TS g \<longleftrightarrow> tree_ok dg (served_ids cfg TS) g \<and> linked (gr_nodes g) \<and> gr_generation g = 1
     \<and> (\<forall>k n. gr_nodes g k = Some n \<longrightarrow> pn_closure n = identity_closure (pn_identity n) 1 0)"

text \<open>\<open>node_at g k ts\<close>: the node \<open>k\<close> stands for the tokens \<open>ts\<close>.\<close>

definition node_at :: "prefix_graph \<Rightarrow> node_id \<Rightarrow> token list \<Rightarrow> bool" where
  "node_at g k ts \<longleftrightarrow> (\<exists>n. gr_nodes g k = Some n \<and> node_tokens n = ts)"

lemma identity_for_tokens [simp]: "px_token_sequence (identity_for cfg ts) = ts"
  by (simp add: identity_for_def)

lemma identity_for_generation [simp]: "px_runtime_generation (identity_for cfg ts) = 1"
  by (simp add: identity_for_def)

lemma graph_ok_linked: "graph_ok dg cfg TS g \<Longrightarrow> linked (gr_nodes g)"
  by (simp add: graph_ok_def)

lemma served_identity: "i \<in> served_ids cfg TS \<Longrightarrow> i = identity_for cfg (px_token_sequence i) \<and> px_token_sequence i \<in> TS"
  by (auto simp: served_ids_def)

lemma served_ids_insert: "ts \<in> TS \<Longrightarrow> insert (identity_for cfg ts) (served_ids cfg TS) = served_ids cfg TS"
  by (auto simp: served_ids_def)

lemma graph_ok_node:
  assumes "graph_ok dg cfg TS g" "gr_nodes g k = Some n"
  shows "pn_identity n = identity_for cfg (node_tokens n)" "node_tokens n \<in> TS"
    "k = node_id_of dg (identity_for cfg (node_tokens n))" "pn_depth n = length (node_tokens n)"
    "pn_closure n = identity_closure (identity_for cfg (node_tokens n)) 1 0"
proof -
  have ok: "node_ok dg (served_ids cfg TS) (gr_nodes g) k n"
    using assms by (auto simp: graph_ok_def dest: tree_okD)
  then have i: "pn_identity n = identity_for cfg (node_tokens n) \<and> node_tokens n \<in> TS"
    unfolding node_ok_def by (blast dest: served_identity)
  then show "pn_identity n = identity_for cfg (node_tokens n)" "node_tokens n \<in> TS" by blast+
  show "k = node_id_of dg (identity_for cfg (node_tokens n))" "pn_depth n = length (node_tokens n)"
    using ok i by (metis node_ok_def)+
  show "pn_closure n = identity_closure (identity_for cfg (node_tokens n)) 1 0"
    using assms i by (metis graph_ok_def)
qed

lemma node_at_unique:
  assumes "graph_ok dg cfg TS g" "node_at g k ts" "node_at g k' ts"
  shows "k = k'"
  using assms graph_ok_node(3) unfolding node_at_def by metis

lemma node_at_grows: "grows (gr_nodes g) (gr_nodes g') \<Longrightarrow> node_at g k ts \<Longrightarrow> node_at g' k ts"
  by (auto simp: node_at_def dest: growsD)

lemma node_at_child:
  assumes "graph_ok dg cfg TS g" "gr_nodes g k = Some n" "pn_children n t = Some c"
  shows "node_at g c (node_tokens n @ [t])"
  using assms by (auto simp: graph_ok_def node_at_def node_ok_def children_ok_def dest!: tree_okD)

text \<open>Whenever an edge is missing, so is the node it would lead to.\<close>

lemma missing_edge_missing_node:
  assumes ok: "graph_ok dg cfg TS g" and p: "gr_nodes g p = Some m" and free: "pn_children m t = None"
  shows "\<not> node_at g k (node_tokens m @ [t])"
proof
  assume "node_at g k (node_tokens m @ [t])"
  then obtain n where n: "gr_nodes g k = Some n" "node_tokens n = node_tokens m @ [t]"
    by (auto simp: node_at_def)
  have "parent_ok (gr_nodes g) n" using ok n(1) by (auto simp: graph_ok_def node_ok_def dest!: tree_okD)
  then obtain p' where p': "pn_parent n = Some p'" using n(2) by (auto simp: parent_ok_def)
  then obtain q t' where q: "gr_nodes g p' = Some q" "node_tokens n = node_tokens q @ [t']" "pn_children q t' = Some k"
    using linkedD [OF graph_ok_linked [OF ok] n(1)] by blast
  then have "node_tokens q = node_tokens m" "t' = t" using n(2) by auto
  then have "p' = p" using node_at_unique [OF ok] q(1) p by (auto simp: node_at_def)
  with p q free \<open>t' = t\<close> show False by simp
qed

subsection \<open>Extending\<close>

lemma extend_spec:
  assumes ok: "graph_ok dg cfg TS g" and cf: "collision_free dg (served_ids cfg TS)"
    and p: "gr_nodes g p = Some m" and ts: "node_tokens m @ [t] \<in> TS"
    and i: "i = identity_for cfg (node_tokens m @ [t])"
  shows "(\<exists>c. graph_extend dg p t i g = (g, Inl DuplicateEdge) \<and> pn_children m t = Some c)
    \<or> (\<exists>g' k e. graph_extend dg p t i g = (g', Inr (k, e)) \<and> gr_nodes g k = None \<and> graph_ok dg cfg TS g'
         \<and> grows (gr_nodes g) (gr_nodes g') \<and> node_at g' k (node_tokens m @ [t]) \<and> gr_roots g' = gr_roots g)"
proof (cases "pn_children m t")
  case (Some c)
  then have "graph_extend dg p t i g = (g, Inl DuplicateEdge)"
    using p i graph_ok_node(4) [OF ok p] by (simp add: graph_extend_def)
  with Some show ?thesis by blast
next
  case None
  let ?ids = "served_ids cfg TS"
  have t: "tree_ok dg ?ids g" using ok by (simp add: graph_ok_def)
  have ids: "insert i ?ids = ?ids" using served_ids_insert [OF ts] i by simp
  obtain g' k e where ext: "graph_extend dg p t i g = (g', Inr (k, e))" and gen: "gr_generation g' = gr_generation g"
    using p i graph_ok_node(4) [OF ok p] None by (simp add: graph_extend_def Let_def)
  have cf': "collision_free dg (insert i ?ids)" using cf ids by simp
  obtain m' where m': "gr_nodes g p = Some m'" "px_token_sequence i = node_tokens m' @ [t]"
      "k = node_id_of dg i" "k \<noteq> p" "pn_children m' t = None" "gr_roots g' = gr_roots g"
      and N': "gr_nodes g' = (gr_nodes g)(k \<mapsto> child_node dg i (gr_generation g) p t (pn_depth m'), p \<mapsto> add_child t k m')"
    by (rule extend_ok_tree [OF t cf' ext])
  have mm: "m' = m" using m'(1) p by simp
  define c where "c = child_node dg i (gr_generation g) p t (pn_depth m)"
  note N = N' [unfolded mm, folded c_def]
  have fresh: "gr_nodes g k = None"
  proof (rule ccontr)
    assume "gr_nodes g k \<noteq> None"
    then obtain n where n: "gr_nodes g k = Some n" by blast
    have "node_id_of dg (pn_identity n) = node_id_of dg i" "pn_identity n \<in> ?ids"
      using tree_okD [OF t n] m'(3) by (simp_all add: node_ok_def)
    then have "node_tokens n = px_token_sequence i"
      using cf' unfolding collision_free_def by blast
    then show False
      using missing_edge_missing_node [OF ok p None, of k] n i by (simp add: node_at_def)
  qed
  have tree: "tree_ok dg ?ids g'"
    using extend_tree_ok [OF t cf', of p t] ext ids by simp
  have gr: "grows (gr_nodes g) (gr_nodes g')"
    using fresh p m'(4) unfolding grows_def N by auto
  have at: "node_at g' k (node_tokens m @ [t])"
    using m'(4) i unfolding node_at_def N by (simp add: c_def)
  have "linked (gr_nodes g')"
    unfolding linked_def
  proof (intro allI impI)
    fix x n y assume x: "gr_nodes g' x = Some n" and y: "pn_parent n = Some y"
    show "\<exists>q s. gr_nodes g' y = Some q \<and> node_tokens n = node_tokens q @ [s] \<and> pn_children q s = Some x"
    proof (cases "x = k")
      case True
      with x m'(4) have "n = c" by (simp add: N)
      with y have "y = p" by (simp add: c_def)
      with True \<open>n = c\<close> show ?thesis using i by (simp add: N c_def)
    next
      case False
      with x obtain n0 where n0: "gr_nodes g x = Some n0" "pn_parent n0 = pn_parent n" "node_tokens n0 = node_tokens n"
        using p by (auto simp: N split: if_splits)
      then obtain q s where q: "gr_nodes g y = Some q" "node_tokens n0 = node_tokens q @ [s]" "pn_children q s = Some x"
        using linkedD [OF graph_ok_linked [OF ok], of x n0 y] y by auto
      have "y \<noteq> k" using q(1) fresh by auto
      show ?thesis
      proof (cases "y = p")
        case True
        with q p None have "q = m" "s \<noteq> t" by auto
        with True q n0 show ?thesis by (simp add: N)
      next
        case False
        with q n0 \<open>y \<noteq> k\<close> show ?thesis by (simp add: N)
      qed
    qed
  qed
  moreover have "pn_closure n = identity_closure (pn_identity n) 1 0" if "gr_nodes g' x = Some n" for x n
    using that ok p unfolding N graph_ok_def
    by (auto simp: c_def child_node_def add_child_def split: if_splits)
  ultimately have "graph_ok dg cfg TS g'" using tree gen ok by (simp add: graph_ok_def)
  with ext fresh gr at m'(6) show ?thesis by blast
qed

lemma linked_same_tree: "same_tree g g' \<Longrightarrow> linked (gr_nodes g) \<Longrightarrow> linked (gr_nodes g')"
proof -
  assume st: "same_tree g g'" and l: "linked (gr_nodes g)"
  show "linked (gr_nodes g')"
    unfolding linked_def
  proof (intro allI impI)
    fix k n p assume "gr_nodes g' k = Some n" and p: "pn_parent n = Some p"
    with same_treeD(2) [OF st] obtain m where m: "gr_nodes g k = Some m" "skeleton m = skeleton n" by blast
    then have "pn_parent m = Some p" "node_tokens m = node_tokens n" using p by (simp_all add: skeleton_def)
    then obtain q t where q: "gr_nodes g p = Some q" "node_tokens m = node_tokens q @ [t]" "pn_children q t = Some k"
      using linkedD [OF l m(1)] by blast
    from same_treeD(3) [OF st q(1)] obtain q' where "gr_nodes g' p = Some q'" "skeleton q' = skeleton q" by blast
    then show "\<exists>q t. gr_nodes g' p = Some q \<and> node_tokens n = node_tokens q @ [t] \<and> pn_children q t = Some k"
      using q \<open>node_tokens m = node_tokens n\<close> by (auto simp: skeleton_def)
  qed
qed

subsection \<open>Attaching\<close>

lemma attach_spec:
  assumes ok: "graph_ok dg cfg TS g" and at: "node_at g k ts" and len: "consumed = length ts"
    and ps: "0 < sc_page_size cfg" "sc_page_size cfg \<le> consumed" and layers: "0 < sc_kv_layers cfg"
  shows "\<exists>g'. attach_page (boundary_page cfg (identity_for cfg ts) k consumed (gr_generation g)) g = (g', Inr ())
    \<and> graph_ok dg cfg TS g' \<and> grows (gr_nodes g) (gr_nodes g') \<and> gr_roots g' = gr_roots g"
proof -
  obtain n where n: "gr_nodes g k = Some n" "node_tokens n = ts" using at by (auto simp: node_at_def)
  define P where "P = boundary_page cfg (identity_for cfg ts) k consumed (gr_generation g)"
  have clo: "pg_closure P = pn_closure n"
    using ok graph_ok_node(5) [OF ok n(1)] n(2) by (simp add: P_def boundary_page_def page_new_def Let_def graph_ok_def)
  have gen: "px_runtime_generation (pn_identity n) = 1"
    by (subst graph_ok_node(1) [OF ok n(1)]) simp
  have valid: "page_valid (pg_id P)"
    using ps layers by (simp add: page_valid_def P_def boundary_page_def page_new_def Let_def word_less_nat_alt)
  have pid: "kp_prefix_node_id (pg_id P) = k" "kp_token_end (pg_id P) = length ts"
    "kp_logical_generation (pg_id P) = 1"
    by (simp_all add: P_def boundary_page_def page_new_def Let_def len)
  define g' where "g' = g\<lparr> gr_nodes := (gr_nodes g)(k \<mapsto> n\<lparr> pn_pages := pn_pages n @ [pg_id P] \<rparr>),
     gr_pages := (gr_pages g)(pg_id P \<mapsto> P) \<rparr>"
  have att: "attach_page P g = (g', Inr ())"
    using n clo gen valid by (simp add: attach_page_def pid compatible_with_def g'_def)
  have st: "same_tree g g'" using same_tree_ops(1) [of g P] att by simp
  have "pn_closure x = identity_closure (pn_identity x) 1 0" if "gr_nodes g' y = Some x" for x y
    using that ok n unfolding g'_def graph_ok_def by (auto split: if_splits)
  then have "graph_ok dg cfg TS g'"
    using ok same_tree_ok [OF st] linked_same_tree [OF st] by (simp add: graph_ok_def g'_def)
  moreover have "grows (gr_nodes g) (gr_nodes g')" using n by (auto simp: grows_def g'_def)
  moreover have "gr_roots g' = gr_roots g" by (simp add: g'_def)
  ultimately show ?thesis using att unfolding P_def by blast
qed

subsection \<open>The path to the root\<close>

lemma path_to_root_lineage: "lineage N c ks \<Longrightarrow> path_to_root N c = Some ks"
proof (induction rule: lineage.induct)
  case top
  show ?case by (simp add: path_to_root.simps)
next
  case (up k n ks)
  then show ?case by (subst path_to_root.simps) simp
qed

lemma path_to_root_returns:
  assumes "graph_ok dg cfg TS g" "node_at g k ts"
  shows "\<exists>ks. path_to_root (gr_nodes g) (Some k) = Some ks"
proof -
  obtain n where "gr_nodes g k = Some n" using assms(2) by (auto simp: node_at_def)
  moreover have "tree_ok dg (served_ids cfg TS) g" using assms(1) by (simp add: graph_ok_def)
  ultimately show ?thesis using lineage_exists path_to_root_lineage by blast
qed

end
