(* ===== verification/Serve_State.thy ===== *)
theory Serve_State
  imports Serve_Graph
begin

text \<open>
  The reference the scheduler is measured against, greedy decoding of one prompt on its own, and the
  invariant of the scheduler's graph and cache: every cached state is the state the model reaches
  from its start on the tokens of the node it is cached at.
\<close>

subsection \<open>Greedy decoding of one prompt\<close>

text \<open>
  \<open>plain_model nx lg m\<close>: the model works row by row, without speculation.  \<open>nx\<close> gives the state after a
  token, \<open>lg\<close> the logits it returns with it.  This is the contract of the trait.
\<close>

fun chunk_row :: "(hidden \<Rightarrow> token \<Rightarrow> hidden) \<Rightarrow> (hidden \<Rightarrow> token \<Rightarrow> logits) \<Rightarrow> hidden \<Rightarrow> token list \<Rightarrow> hidden list \<times> logits list" where
  "chunk_row nx lg h [] = ([], [])"
| "chunk_row nx lg h (t # ts) =
     (nx h t # fst (chunk_row nx lg (nx h t) ts), lg h t # snd (chunk_row nx lg (nx h t) ts))"

definition plain_model :: "(hidden \<Rightarrow> token \<Rightarrow> hidden) \<Rightarrow> (hidden \<Rightarrow> token \<Rightarrow> logits) \<Rightarrow> serve_model \<Rightarrow> bool" where
  "plain_model nx lg m \<longleftrightarrow>
     (\<forall>ins. sm_batch_step m ins = map (\<lambda>(h, t). plain_outcome (nx h t) (lg h t)) ins)
   \<and> (\<forall>ins. sm_prefill_batch m ins = map (\<lambda>(h, ts). chunk_row nx lg h ts) ins)"

text \<open>A model that keeps the default \<open>prefill_batch\<close> satisfies the second half because of the first.\<close>

lemma default_prefill_plain:
  assumes "\<And>ins. step ins = map (\<lambda>(h, t). plain_outcome (nx h t) (lg h t)) ins"
  shows "default_prefill step ins = map (\<lambda>(h, ts). chunk_row nx lg h ts) ins"
proof -
  have "default_prefill_row step h ts = chunk_row nx lg h ts" for h ts
    by (induction ts arbitrary: h) (simp_all add: assms plain_outcome_def Let_def split_beta)
  then show ?thesis by (simp add: default_prefill_def)
qed

definition state_after :: "(hidden \<Rightarrow> token \<Rightarrow> hidden) \<Rightarrow> serve_model \<Rightarrow> token list \<Rightarrow> hidden" where
  "state_after nx m ts = foldl nx (sm_initial_hidden m) ts"

definition predict ::
  "(hidden \<Rightarrow> token \<Rightarrow> hidden) \<Rightarrow> (hidden \<Rightarrow> token \<Rightarrow> logits) \<Rightarrow> serve_model \<Rightarrow> token list \<Rightarrow> logits" where
  "predict nx lg m ts = lg (state_after nx m (butlast ts)) (last ts)"

fun greedy ::
  "(hidden \<Rightarrow> token \<Rightarrow> hidden) \<Rightarrow> (hidden \<Rightarrow> token \<Rightarrow> logits) \<Rightarrow> serve_model \<Rightarrow> nat \<Rightarrow> token list \<Rightarrow> token list" where
  "greedy nx lg m 0 ts = ts"
| "greedy nx lg m (Suc n) ts =
     (let t = argmax (predict nx lg m ts) in if t = sm_eos m then ts else greedy nx lg m n (ts @ [t]))"

text \<open>The stream a request must end with: its prompt and what greedy decoding adds to it.\<close>

definition reference :: "(hidden \<Rightarrow> token \<Rightarrow> hidden) \<Rightarrow> (hidden \<Rightarrow> token \<Rightarrow> logits) \<Rightarrow> serve_model \<Rightarrow> token list \<times> nat \<Rightarrow> token list" where
  "reference nx lg m r = greedy nx lg m (snd r) (fst r)"

lemma state_after_snoc [simp]: "state_after nx m (ts @ [t]) = nx (state_after nx m ts) t"
  by (simp add: state_after_def)

lemma state_after_Nil [simp]: "state_after nx m [] = sm_initial_hidden m"
  by (simp add: state_after_def)

lemma predict_snoc [simp]: "predict nx lg m (ts @ [t]) = lg (state_after nx m ts) t"
  by (simp add: predict_def)

lemma prefix_greedy: "prefix ts (greedy nx lg m n ts)"
proof (induction n arbitrary: ts)
  case (Suc n)
  show ?case by (auto simp: Let_def intro: append_prefixD [OF Suc])
qed simp

lemma chunk_row_foldl:
  "j < length ts \<Longrightarrow> fst (chunk_row nx lg h ts) ! j = foldl nx h (take (Suc j) ts)"
  "j < length ts \<Longrightarrow> snd (chunk_row nx lg h ts) ! j = lg (foldl nx h (take j ts)) (ts ! j)"
proof (induction ts arbitrary: h j)
  case (Cons t ts)
  {
    case 1
    then show ?case using Cons.IH(1) [of "j - 1" "nx h t"] by (cases j) simp_all
  next
    case 2
    then show ?case using Cons.IH(2) [of "j - 1" "nx h t"] by (cases j) simp_all
  }
qed simp_all

lemma chunk_row_nth:
  assumes "j < length ts"
  shows "fst (chunk_row nx lg (state_after nx m us) ts) ! j = state_after nx m (us @ take (Suc j) ts)"
    "snd (chunk_row nx lg (state_after nx m us) ts) ! j = predict nx lg m (us @ take (Suc j) ts)"
  using chunk_row_foldl [OF assms, of nx lg "state_after nx m us"] assms
  by (simp_all add: state_after_def predict_def take_Suc_conv_app_nth butlast_append)

lemma length_chunk_row [simp]:
  "length (fst (chunk_row nx lg h ts)) = length ts" "length (snd (chunk_row nx lg h ts)) = length ts"
  by (induction ts arbitrary: h) simp_all

lemma last_chunk_row:
  assumes "ts \<noteq> []"
  shows "last (fst (chunk_row nx lg (state_after nx m us) ts)) = state_after nx m (us @ ts)"
    "last (snd (chunk_row nx lg (state_after nx m us) ts)) = predict nx lg m (us @ ts)"
proof -
  have ne: "fst (chunk_row nx lg h ts) \<noteq> []" "snd (chunk_row nx lg h ts) \<noteq> []" for h
    using assms length_chunk_row [of nx lg h ts] by (metis length_0_conv)+
  show "last (fst (chunk_row nx lg (state_after nx m us) ts)) = state_after nx m (us @ ts)"
    using chunk_row_nth(1) [of "length ts - 1" ts nx lg m us] assms ne by (simp add: last_conv_nth)
  show "last (snd (chunk_row nx lg (state_after nx m us) ts)) = predict nx lg m (us @ ts)"
    using chunk_row_nth(2) [of "length ts - 1" ts nx lg m us] assms ne by (simp add: last_conv_nth)
qed

subsection \<open>The invariant of graph and cache\<close>

definition entry_ok ::
  "bool \<Rightarrow> (hidden \<Rightarrow> token \<Rightarrow> hidden) \<Rightarrow> (hidden \<Rightarrow> token \<Rightarrow> logits) \<Rightarrow> serve_model \<Rightarrow> prefix_graph \<Rightarrow> node_id \<Rightarrow> cached_state \<Rightarrow> bool" where
  "entry_ok full nx lg m g k c \<longleftrightarrow> (\<exists>ts. node_at g k ts \<and> ts \<noteq> [] \<and> cs_hidden c = state_after nx m ts
     \<and> cs_logits c \<in> {None, Some (predict nx lg m ts)} \<and> (full \<longrightarrow> cs_logits c \<noteq> None))"

definition cached_bytes :: "state_cache \<Rightarrow> nat" where
  "cached_bytes m = sum_list (map (cs_bytes \<circ> snd) m)"

text \<open>With \<open>full\<close>, every cached state comes with its logits.\<close>

definition store_ok ::
  "bool \<Rightarrow> (byte list list \<Rightarrow> digest) \<Rightarrow> serve_config \<Rightarrow> (hidden \<Rightarrow> token \<Rightarrow> hidden) \<Rightarrow> (hidden \<Rightarrow> token \<Rightarrow> logits)
     \<Rightarrow> serve_model \<Rightarrow> token list set \<Rightarrow> serve \<Rightarrow> bool" where
  "store_ok full dg cfg nx lg m TS s \<longleftrightarrow> graph_ok dg cfg TS (sv_graph s) \<and> node_at (sv_graph s) (sv_root s) []
     \<and> hdistinct (sv_cache s) \<and> (\<forall>k c. hget (sv_cache s) k = Some c \<longrightarrow> entry_ok full nx lg m (sv_graph s) k c)
     \<and> sv_cache_bytes s = cached_bytes (sv_cache s)"

lemma store_ok_entry:
  "store_ok full dg cfg nx lg m TS s \<Longrightarrow> hget (sv_cache s) k = Some c \<Longrightarrow> entry_ok full nx lg m (sv_graph s) k c"
  unfolding store_ok_def by blast

lemma entry_ok_grows: "entry_ok full nx lg m g k c \<Longrightarrow> grows (gr_nodes g) (gr_nodes g') \<Longrightarrow> entry_ok full nx lg m g' k c"
  unfolding entry_ok_def by (blast intro: node_at_grows)

lemma cached_bytes_hput_old:
  "hdistinct m \<Longrightarrow> hget m k = Some c \<Longrightarrow> cs_bytes c' = cs_bytes c \<Longrightarrow> cached_bytes (hput k c' m) = cached_bytes m"
  unfolding cached_bytes_def using sum_list_hput_old [of m k c cs_bytes c'] by simp

lemma cached_bytes_hput_new: "hget m k = None \<Longrightarrow> cached_bytes (hput k c m) = cached_bytes m + cs_bytes c"
  unfolding cached_bytes_def by (simp add: sum_list_hput_new)

lemma cached_bytes_hdel:
  "hdistinct m \<Longrightarrow> hget m k = Some c \<Longrightarrow> cached_bytes (hdel k m) = cached_bytes m - cs_bytes c"
  unfolding cached_bytes_def by (simp add: sum_list_hdel)

subsection \<open>Operations on the cache alone\<close>

text \<open>What no operation on graph and cache touches, and that the graph only grows.\<close>

definition frame :: "serve \<Rightarrow> serve \<Rightarrow> bool" where
  "frame s s' \<longleftrightarrow> sv_sequences s' = sv_sequences s \<and> sv_queue s' = sv_queue s \<and> sv_next_id s' = sv_next_id s
     \<and> sv_root s' = sv_root s \<and> grows (gr_nodes (sv_graph s)) (gr_nodes (sv_graph s'))"

lemma grows_refl [simp]: "grows N N"
  by (simp add: grows_def)

lemma grows_trans: "grows N N' \<Longrightarrow> grows N' N'' \<Longrightarrow> grows N N''"
  unfolding grows_def by metis

lemma frame_refl [simp]: "frame s s"
  by (simp add: frame_def)

lemma frame_trans: "frame s s' \<Longrightarrow> frame s' s'' \<Longrightarrow> frame s s''"
  unfolding frame_def by (auto intro: grows_trans)

lemma frame_node_at: "frame s s' \<Longrightarrow> node_at (sv_graph s) k ts \<Longrightarrow> node_at (sv_graph s') k ts"
  unfolding frame_def by (blast intro: node_at_grows)

text \<open>Operations that change only bookkeeping of cached states: pins, clocks, entries removed.\<close>

definition cache_only :: "(serve \<Rightarrow> serve) \<Rightarrow> bool" where
  "cache_only f \<longleftrightarrow> (\<forall>s full dg cfg nx lg m TS. store_ok full dg cfg nx lg m TS s \<longrightarrow>
     store_ok full dg cfg nx lg m TS (f s) \<and> frame s (f s))"

lemma cache_onlyD:
  "cache_only f \<Longrightarrow> store_ok full dg cfg nx lg m TS s \<Longrightarrow> store_ok full dg cfg nx lg m TS (f s) \<and> frame s (f s)"
  by (simp add: cache_only_def)

lemma cache_only_id: "cache_only (\<lambda>s. s)"
  by (simp add: cache_only_def)

lemma cache_only_fold: "(\<And>k. cache_only (f k)) \<Longrightarrow> cache_only (fold f ks)"
proof (induction ks)
  case (Cons k ks)
  have fk: "cache_only (f k)" and fks: "cache_only (fold f ks)" using Cons by blast+
  show ?case
    unfolding cache_only_def
  proof (intro allI impI)
    fix s full dg cfg nx lg m TS assume st: "store_ok full dg cfg nx lg m TS s"
    have 1: "store_ok full dg cfg nx lg m TS (f k s) \<and> frame s (f k s)" by (rule cache_onlyD [OF fk st])
    have 2: "store_ok full dg cfg nx lg m TS (fold f ks (f k s)) \<and> frame (f k s) (fold f ks (f k s))"
      by (rule cache_onlyD [OF fks]) (use 1 in blast)
    show "store_ok full dg cfg nx lg m TS (fold f (k # ks) s) \<and> frame s (fold f (k # ks) s)"
      using 1 2 frame_trans by auto
  qed
qed (simp add: cache_only_def)

lemma entry_ok_same:
  "cs_hidden c' = cs_hidden c \<Longrightarrow> cs_logits c' = cs_logits c \<Longrightarrow>
   entry_ok full nx lg m g k c' = entry_ok full nx lg m g k c"
  by (simp add: entry_ok_def)

lemma on_cached_store_ok:
  assumes "\<And>c. cs_hidden (f c) = cs_hidden c" "\<And>c. cs_logits (f c) = cs_logits c"
    and "store_ok full dg cfg nx lg m TS s"
  shows "store_ok full dg cfg nx lg m TS (on_cached k f s) \<and> frame s (on_cached k f s)"
proof (cases "hget (sv_cache s) k")
  case None
  then show ?thesis using assms(3) by (simp add: on_cached_def)
next
  case (Some c)
  have d: "hdistinct (sv_cache s)" using assms(3) by (simp add: store_ok_def)
  have "cs_bytes (f c) = cs_bytes c" using assms(1,2) by (simp add: cs_bytes_def)
  with d Some have "cached_bytes (hput k (f c) (sv_cache s)) = cached_bytes (sv_cache s)"
    by (rule cached_bytes_hput_old)
  moreover have "entry_ok full nx lg m (sv_graph s) k (f c)"
    using assms Some entry_ok_same [OF assms(1,2)] by (simp add: store_ok_def)
  ultimately show ?thesis
    using assms(3) Some d by (simp add: on_cached_def store_ok_def frame_def)
qed

lemma cache_only_pins:
  "cache_only (pin_node k)" "cache_only (unpin_node k)" "cache_only (touch_cached k)"
proof -
  show "cache_only (unpin_node k)"
    unfolding cache_only_def unpin_node_def by (intro allI impI on_cached_store_ok) simp_all
  have "store_ok full dg cfg nx lg m TS (on_cached k (\<lambda>c. c\<lparr> cs_pinned := cs_pinned c + 1, cs_last_access := e \<rparr>) s)
      \<and> frame s (on_cached k (\<lambda>c. c\<lparr> cs_pinned := cs_pinned c + 1, cs_last_access := e \<rparr>) s)"
    if "store_ok full dg cfg nx lg m TS s" for s full dg cfg nx lg m TS e
    by (rule on_cached_store_ok [OF _ _ that]) simp_all
  then show "cache_only (pin_node k)" by (simp add: cache_only_def pin_node_def)
  have "store_ok full dg cfg nx lg m TS (on_cached k (\<lambda>c. c\<lparr> cs_last_access := e \<rparr>) s)
      \<and> frame s (on_cached k (\<lambda>c. c\<lparr> cs_last_access := e \<rparr>) s)"
    if "store_ok full dg cfg nx lg m TS s" for s full dg cfg nx lg m TS e
    by (rule on_cached_store_ok [OF _ _ that]) simp_all
  then show "cache_only (touch_cached k)" by (simp add: cache_only_def touch_cached_def)
qed

lemma cache_only_telemetry:
  "cache_only (note_hit d n)" "cache_only note_miss" "cache_only note_pressure"
  by (simp_all add: cache_only_def note_hit_def note_miss_def note_pressure_def store_ok_def frame_def)

lemma drop_state_store_ok:
  assumes "store_ok full dg cfg nx lg m TS s" "serve_victim rk pol s = Some v"
  shows "store_ok full dg cfg nx lg m TS (drop_state v s) \<and> frame s (drop_state v s)"
proof -
  obtain k c where v: "v = (k, c)" by (cases v)
  have d: "hdistinct (sv_cache s)" using assms(1) by (simp add: store_ok_def)
  have "hget (sv_cache s) k = Some c"
    using in_set_hget [OF d] serve_victim_in [OF assms(2)] v by simp
  with d have "cached_bytes (hdel k (sv_cache s)) = cached_bytes (sv_cache s) - cs_bytes c"
    by (rule cached_bytes_hdel)
  then show ?thesis
    using assms(1) d by (auto simp: v drop_state_def store_ok_def frame_def)
qed

lemma cache_only_evict_loop: "cache_only (evict_loop rk pol budget)"
proof -
  have "store_ok full dg cfg nx lg m TS (evict_loop rk pol budget s) \<and> frame s (evict_loop rk pol budget s)"
    if "store_ok full dg cfg nx lg m TS s" for s full dg cfg nx lg m TS
    using that
  proof (induction rk pol budget s rule: evict_loop.induct)
    case (1 rk pol budget s)
    show ?case
    proof (cases "sv_cache_bytes s \<le> budget")
      case True
      then show ?thesis using 1 by (simp add: evict_loop.simps)
    next
      case over: False
      show ?thesis
      proof (cases "serve_victim rk pol s")
        case None
        then have "evict_loop rk pol budget s = note_pressure s" using over by (simp add: evict_loop.simps)
        then show ?thesis using cache_onlyD [OF cache_only_telemetry(3) "1.prems"] by simp
      next
        case (Some v)
        then have e: "evict_loop rk pol budget s = evict_loop rk pol budget (drop_state v s)"
          using over by (subst evict_loop.simps) simp
        have dr: "store_ok full dg cfg nx lg m TS (drop_state v s) \<and> frame s (drop_state v s)"
          by (rule drop_state_store_ok [OF "1.prems" Some])
        then show ?thesis unfolding e using "1.IH" [OF over Some] frame_trans by blast
      qed
    qed
  qed
  then show ?thesis by (simp add: cache_only_def)
qed

lemma cache_only_evict: "cache_only (evict_to_budget rk cfg)"
proof (cases "sc_max_cache_bytes cfg")
  case None
  then show ?thesis using cache_only_id by (simp add: evict_to_budget_def cache_only_def)
next
  case (Some budget)
  then show ?thesis using cache_only_evict_loop by (simp add: evict_to_budget_def cache_only_def)
qed

text \<open>The sweep ends within the budget, or with nothing left that is not pinned.\<close>

lemma evict_loop_result:
  "sv_cache_bytes (evict_loop rk pol budget s) \<le> budget \<or> (\<forall>(k, c)\<in>set (sv_cache (evict_loop rk pol budget s)). cs_pinned c \<noteq> 0)"
proof (induction rk pol budget s rule: evict_loop.induct)
  case (1 rk pol budget s)
  show ?case
  proof (cases "sv_cache_bytes s \<le> budget")
    case True
    then show ?thesis by (simp add: evict_loop.simps)
  next
    case over: False
    show ?thesis
    proof (cases "serve_victim rk pol s")
      case None
      then have "\<forall>(k, c)\<in>set (sv_cache s). cs_pinned c \<noteq> 0"
        by (auto simp: serve_victim_def cache_iter_def filter_empty_conv)
      moreover have "sv_cache (evict_loop rk pol budget s) = sv_cache s"
        using None over by (simp add: evict_loop.simps note_pressure_def)
      ultimately show ?thesis by simp
    next
      case (Some v)
      then have "evict_loop rk pol budget s = evict_loop rk pol budget (drop_state v s)"
        using over by (subst evict_loop.simps) simp
      with "1.IH" [OF over Some] show ?thesis by simp
    qed
  qed
qed

subsection \<open>Consuming one token\<close>

definition well_configured :: "serve_config \<Rightarrow> bool" where
  "well_configured cfg \<longleftrightarrow> 0 < sc_page_size cfg \<and> 0 < sc_kv_layers cfg"

lemma store_ok_graph:
  assumes st: "store_ok full dg cfg nx lg m TS s" and g: "graph_ok dg cfg TS (sv_graph s')"
    "grows (gr_nodes (sv_graph s)) (gr_nodes (sv_graph s'))"
    and same: "sv_cache s' = sv_cache s" "sv_cache_bytes s' = sv_cache_bytes s" "sv_root s' = sv_root s"
  shows "store_ok full dg cfg nx lg m TS s'"
  unfolding store_ok_def same
proof (intro conjI allI impI)
  show "node_at (sv_graph s') (sv_root s) []"
    by (rule node_at_grows [OF g(2)]) (use st in \<open>simp add: store_ok_def\<close>)
  show "entry_ok full nx lg m (sv_graph s') k c" if "hget (sv_cache s) k = Some c" for k c
    by (rule entry_ok_grows [OF _ g(2)]) (use st that in \<open>unfold store_ok_def, blast\<close>)
qed (use st g(1) in \<open>simp_all add: store_ok_def\<close>)

lemma wp_walk_up:
  assumes "\<And>k. cache_only (f k)" "store_ok full dg cfg nx lg m TS s" "node_at (sv_graph s) k ts"
    and "\<And>s'. store_ok full dg cfg nx lg m TS s' \<Longrightarrow> frame s s' \<Longrightarrow> Q () s'"
  shows "wp (walk_up f k) Q E s"
proof -
  have "graph_ok dg cfg TS (sv_graph s)" using assms(2) by (simp add: store_ok_def)
  from path_to_root_returns [OF this assms(3)] obtain ks where "path_to_root (gr_nodes (sv_graph s)) (Some k) = Some ks"
    by blast
  moreover have "store_ok full dg cfg nx lg m TS (fold f ks s) \<and> frame s (fold f ks s)"
    by (rule cache_onlyD [OF cache_only_fold [OF assms(1)] assms(2)])
  ultimately show ?thesis using assms(4) by (simp add: walk_up_def step_simps)
qed

lemma wp_extend_or_follow:
  assumes st: "store_ok full dg cfg nx lg m TS s" and cf: "collision_free dg (served_ids cfg TS)"
    and p: "node_at (sv_graph s) p us" and ts: "us @ [t] \<in> TS" and i: "i = identity_for cfg (us @ [t])"
    and Q: "\<And>k s'. store_ok full dg cfg nx lg m TS s' \<Longrightarrow> frame s s' \<Longrightarrow> node_at (sv_graph s') k (us @ [t]) \<Longrightarrow> Q (k, False) s'"
      "\<And>k s'. store_ok full dg cfg nx lg m TS s' \<Longrightarrow> frame s s' \<Longrightarrow> node_at (sv_graph s') k (us @ [t]) \<Longrightarrow>
        hget (sv_cache s') k = None \<Longrightarrow> Q (k, True) s'"
  shows "wp (extend_or_follow dg p t i) Q E s"
proof -
  have ok: "graph_ok dg cfg TS (sv_graph s)" using st by (simp add: store_ok_def)
  obtain n where n: "gr_nodes (sv_graph s) p = Some n" and us: "node_tokens n = us" using p by (auto simp: node_at_def)
  from extend_spec [OF ok cf n, of t i] ts i us
  consider (follow) c where "graph_extend dg p t i (sv_graph s) = (sv_graph s, Inl DuplicateEdge)" "pn_children n t = Some c"
    | (new) g' k e where "graph_extend dg p t i (sv_graph s) = (g', Inr (k, e))" "gr_nodes (sv_graph s) k = None"
        "graph_ok dg cfg TS g'" "grows (gr_nodes (sv_graph s)) (gr_nodes g')" "node_at g' k (us @ [t])"
    by auto
  then show ?thesis
  proof cases
    case follow
    have "Q (c, False) s"
      by (rule Q(1) [OF st frame_refl]) (use node_at_child [OF ok n follow(2)] us in simp)
    then show ?thesis using follow n by (simp add: extend_or_follow_def wp_def)
  next
    case new
    let ?s = "s\<lparr> sv_graph := g' \<rparr>"
    have "frame s ?s" using new(4) by (simp add: frame_def)
    have st': "store_ok full dg cfg nx lg m TS ?s"
      by (rule store_ok_graph [OF st]) (use new(3,4) in simp_all)
    have "hget (sv_cache s) k = None"
      using new(2) store_ok_entry [OF st, of k]
      by (cases "hget (sv_cache s) k") (auto simp: entry_ok_def node_at_def)
    then have "Q (k, True) ?s"
      using Q(2) [OF st' \<open>frame s ?s\<close>] new(5) by simp
    then show ?thesis using new(1) by (simp add: extend_or_follow_def wp_def)
  qed
qed

lemma wp_attach:
  assumes st: "store_ok full dg cfg nx lg m TS s" and at: "node_at (sv_graph s) k ts"
    and Q: "\<And>s'. store_ok full dg cfg nx lg m TS s' \<Longrightarrow> frame s s' \<Longrightarrow> Q () s'"
    and E: "\<And>e s'. \<not> well_configured cfg \<Longrightarrow> E e s'"
  shows "wp (attach_page_if_boundary cfg (identity_for cfg ts) k (length ts)) Q E s"
proof -
  let ?ps = "sc_page_size cfg"
  let ?page = "boundary_page cfg (identity_for cfg ts) k (length ts) (gr_generation (sv_graph s))"
  consider (zero) "?ps = 0" | (inside) "?ps \<noteq> 0" "length ts mod ?ps \<noteq> 0 \<or> length ts < ?ps"
    | (boundary) "?ps \<noteq> 0" "length ts mod ?ps = 0" "?ps \<le> length ts" by linarith
  then show ?thesis
  proof cases
    case zero
    then show ?thesis using E by (simp add: attach_page_if_boundary_def wp_def well_configured_def)
  next
    case inside
    then show ?thesis using Q [OF st frame_refl] by (auto simp: attach_page_if_boundary_def wp_def)
  next
    case boundary
    show ?thesis
    proof (cases "0 < sc_kv_layers cfg")
      case True
      have ok: "graph_ok dg cfg TS (sv_graph s)" using st by (simp add: store_ok_def)
      obtain g' where g': "attach_page ?page (sv_graph s) = (g', Inr ())" "graph_ok dg cfg TS g'"
          "grows (gr_nodes (sv_graph s)) (gr_nodes g')"
        using attach_spec [OF ok at refl _ boundary(3) True] boundary(1) by auto
      let ?s = "s\<lparr> sv_graph := g', sv_kv_pages := sv_kv_pages s + 1 \<rparr>"
      have "frame s ?s" using g'(3) by (simp add: frame_def)
      have "store_ok full dg cfg nx lg m TS ?s"
        by (rule store_ok_graph [OF st]) (use g'(2,3) in simp_all)
      then have "Q () ?s" using Q \<open>frame s ?s\<close> by simp
      then show ?thesis using boundary g'(1) by (simp add: attach_page_if_boundary_def wp_def)
    next
      case False
      then have "sc_kv_layers cfg = 0" by (simp add: word_gt_0)
      then have "attach_page ?page (sv_graph s) = (sv_graph s, Inl InvalidPage)"
        by (simp add: attach_page_def page_valid_def boundary_page_def page_new_def Let_def)
      then show ?thesis using boundary E False
        by (simp add: attach_page_if_boundary_def wp_def well_configured_def)
    qed
  qed
qed

lemma insert_state_ok:
  assumes "store_ok full dg cfg nx lg m TS s" "hget (sv_cache s) k = None" "entry_ok full nx lg m (sv_graph s) k c"
  shows "store_ok full dg cfg nx lg m TS (insert_state k c s) \<and> frame s (insert_state k c s)"
  using assms cached_bytes_hput_new [OF assms(2), of c]
  by (simp add: insert_state_def store_ok_def frame_def)

lemma wp_consume_edge:
  assumes st: "store_ok full dg cfg nx lg m TS s" and cf: "collision_free dg (served_ids cfg TS)"
    and p: "node_at (sv_graph s) p us" and ts: "us @ [t] \<in> TS"
    and l: "l \<in> {None, Some (predict nx lg m (us @ [t]))}" "full \<longrightarrow> l \<noteq> None"
    and Q: "\<And>k s'. store_ok full dg cfg nx lg m TS s' \<Longrightarrow> frame s s' \<Longrightarrow> node_at (sv_graph s') k (us @ [t]) \<Longrightarrow> Q k s'"
    and E: "\<And>e s'. \<not> well_configured cfg \<Longrightarrow> E e s'"
  shows "wp (consume_edge dg cfg p t (identity_for cfg (us @ [t])) (Some (state_after nx m (us @ [t]))) l
    (length us + 1)) Q E s"
proof -
  have len: "length us + 1 = length (us @ [t])" by simp
  have tail: "wp (thenR (attach_page_if_boundary cfg (identity_for cfg (us @ [t])) k (length us + 1))
      (thenR (if sc_pin_live_nodes cfg then modR (pin_node k) else okR ()) (okR k))) Q E s'"
    if "store_ok full dg cfg nx lg m TS s'" "frame s s'" "node_at (sv_graph s') k (us @ [t])" for k s'
    unfolding len wp_thenR
  proof (rule wp_attach [OF that(1,3)])
    fix s'' assume s'': "store_ok full dg cfg nx lg m TS s''" "frame s' s''"
    have fr: "frame s s''" by (rule frame_trans [OF that(2) s''(2)])
    have at: "node_at (sv_graph s'') k (us @ [t])" by (rule frame_node_at [OF s''(2) that(3)])
    have pin: "store_ok full dg cfg nx lg m TS (pin_node k s'') \<and> frame s'' (pin_node k s'')"
      by (rule cache_onlyD [OF cache_only_pins(1) s''(1)])
    show "wp (if sc_pin_live_nodes cfg then modR (pin_node k) else okR ()) (\<lambda>_. wp (okR k) Q E) E s''"
      using Q [OF s''(1) fr at] Q [of "pin_node k s''" k] pin frame_trans [OF fr] frame_node_at [OF _ at]
      by (simp add: step_simps)
  qed (rule E)
  show ?thesis
    unfolding consume_edge_def wp_bindR
    apply (rule wp_extend_or_follow [OF st cf p ts refl])
    subgoal for k s'
      using tail by (simp add: wp_thenR wp_okR)
    subgoal premises s' for k s'
    proof -
      let ?c = "\<lparr> cs_hidden = state_after nx m (us @ [t]), cs_logits = l, cs_last_access = sv_step_index s', cs_pinned = 0 \<rparr>"
      have "entry_ok full nx lg m (sv_graph s') k ?c"
        unfolding entry_ok_def using s'(3) l by (intro exI [of _ "us @ [t]"]) simp
      from insert_state_ok [OF s'(1,4) this]
      have "store_ok full dg cfg nx lg m TS (insert_state k ?c s')" "frame s' (insert_state k ?c s')" by simp_all
      from tail [OF this(1) frame_trans [OF s'(2) this(2)] frame_node_at [OF this(2) s'(3)]]
      show ?thesis by (simp add: wp_thenR wp_modR)
    qed
    done
qed

end
