(* ===== verification/Serve_Rows.thy ===== *)
theory Serve_Rows
  imports Serve_State
begin

text \<open>
  One sequence in one step: where a sequence may be between steps, and what a prefill chunk, a decode
  row, sampling at admission and admission itself do to it.  A request is a prompt and the number of
  tokens wanted; its reference stream is the greedy decoding of that prompt alone.
\<close>

subsection \<open>Where a sequence may be\<close>

type_synonym request = "token list \<times> nat"

text \<open>\<open>stream_ok\<close>: the stream is on the way to the reference, or the reference itself when finished.\<close>

definition stream_ok ::
  "(hidden \<Rightarrow> token \<Rightarrow> hidden) \<Rightarrow> (hidden \<Rightarrow> token \<Rightarrow> logits) \<Rightarrow> serve_model \<Rightarrow> request \<Rightarrow> sequence \<Rightarrow> bool" where
  "stream_ok nx lg m r q \<longleftrightarrow> sq_max_new q = snd r \<and>
     (if sq_finished q then sq_stream q = reference nx lg m r
      else sq_generated q \<le> snd r \<and> length (sq_stream q) = length (fst r) + sq_generated q
         \<and> take (length (fst r)) (sq_stream q) = fst r
         \<and> greedy nx lg m (snd r - sq_generated q) (sq_stream q) = reference nx lg m r)"

text \<open>
  \<open>place_ok full admitted r q\<close> for a running sequence: it is prefilling, or all but the last token of its
  stream is consumed, or it has just been admitted with its whole prompt cached.  In the last case its
  pending logits are those of the prompt, unless the state was cached without logits.
\<close>

definition place_ok ::
  "bool \<Rightarrow> bool \<Rightarrow> (hidden \<Rightarrow> token \<Rightarrow> hidden) \<Rightarrow> (hidden \<Rightarrow> token \<Rightarrow> logits) \<Rightarrow> serve_model \<Rightarrow> request \<Rightarrow> sequence \<Rightarrow> bool" where
  "place_ok hit bare nx lg m r q \<longleftrightarrow>
     sq_consumed q < length (fst r) \<and> sq_generated q = 0 \<and> sq_pending_logits q = None
   \<or> 0 < sq_generated q \<and> sq_consumed q + 1 = length (sq_stream q) \<and> sq_pending_logits q = None
   \<or> hit \<and> sq_generated q = 0 \<and> sq_consumed q = length (fst r) \<and> sq_pending_logits q = Some (predict nx lg m (fst r))
   \<or> bare \<and> sq_generated q = 0 \<and> sq_consumed q = length (fst r) \<and> sq_pending_logits q = None"

definition sequence_ok ::
  "bool \<Rightarrow> bool \<Rightarrow> (hidden \<Rightarrow> token \<Rightarrow> hidden) \<Rightarrow> (hidden \<Rightarrow> token \<Rightarrow> logits) \<Rightarrow> serve_model \<Rightarrow> prefix_graph
     \<Rightarrow> request \<Rightarrow> sequence \<Rightarrow> bool" where
  "sequence_ok hit bare nx lg m g r q \<longleftrightarrow> stream_ok nx lg m r q
     \<and> (\<exists>k ts. sq_node q = Some k \<and> node_at g k ts \<and>
         (\<not> sq_finished q \<longrightarrow> ts = take (sq_consumed q) (sq_stream q) \<and> place_ok hit bare nx lg m r q
            \<and> sq_hidden q = state_after nx m (take (sq_consumed q) (sq_stream q))))"

lemma sequence_ok_grows:
  "sequence_ok hit bare nx lg m g r q \<Longrightarrow> grows (gr_nodes g) (gr_nodes g') \<Longrightarrow> sequence_ok hit bare nx lg m g' r q"
  unfolding sequence_ok_def by (blast intro: node_at_grows)

lemma place_ok_weaken:
  "place_ok hit bare nx lg m r q \<Longrightarrow> (hit \<longrightarrow> hit') \<Longrightarrow> (bare \<longrightarrow> bare') \<Longrightarrow> place_ok hit' bare' nx lg m r q"
  unfolding place_ok_def by blast

lemma sequence_ok_weaken:
  "sequence_ok hit bare nx lg m g r q \<Longrightarrow> (hit \<longrightarrow> hit') \<Longrightarrow> (bare \<longrightarrow> bare') \<Longrightarrow> sequence_ok hit' bare' nx lg m g r q"
  unfolding sequence_ok_def by (blast intro: place_ok_weaken)

lemma stream_ok_prompt:
  "stream_ok nx lg m r q \<Longrightarrow> \<not> sq_finished q \<Longrightarrow> sq_prompt q = fst r \<and> sq_prompt_len q = length (fst r)"
  by (auto simp: stream_ok_def sq_prompt_def sq_prompt_len_def)

lemma stream_ok_prefix: "stream_ok nx lg m r q \<Longrightarrow> prefix (sq_stream q) (reference nx lg m r)"
  unfolding stream_ok_def using prefix_greedy by (metis prefix_order.refl)

subsection \<open>Sampling\<close>

text \<open>
  Sampling from the logits of the whole stream, while tokens are still wanted, advances the stream by
  the next token of the reference or finishes it with the reference.
\<close>

lemma sample_greedy_ok:
  assumes q: "stream_ok nx lg m r q" "\<not> sq_finished q" "sq_generated q < snd r"
    and s: "sample_greedy (sm_eos m) (predict nx lg m (sq_stream q)) q = (sampled, q')"
  shows "stream_ok nx lg m r q' \<and> sq_consumed q' = sq_consumed q \<and> sq_node q' = sq_node q \<and> sq_hidden q' = sq_hidden q
     \<and> sq_pending_logits q' = sq_pending_logits q \<and> sq_id q' = sq_id q
     \<and> (sq_finished q' \<or> \<not> sq_finished q' \<and> sq_generated q' = sq_generated q + 1
          \<and> (\<exists>t. sq_stream q' = sq_stream q @ [t]))
     \<and> (sq_finished q' \<longleftrightarrow> sampled = None)"
proof -
  obtain n where n: "snd r - sq_generated q = Suc n" using q(3) by (metis Suc_diff_Suc)
  then have n': "snd r - Suc (sq_generated q) = n" by simp
  let ?t = "argmax (predict nx lg m (sq_stream q))"
  show ?thesis
  proof (cases "?t = sm_eos m")
    case True
    then have "greedy nx lg m (Suc n) (sq_stream q) = sq_stream q" by simp
    with True s q n show ?thesis
      by (auto simp: sample_greedy_def stream_ok_def sq_finished_def Let_def)
  next
    case False
    then have "greedy nx lg m (Suc n) (sq_stream q) = greedy nx lg m n (sq_stream q @ [?t])" by (simp add: Let_def)
    with False s q n n' show ?thesis
      by (auto simp: sample_greedy_def stream_ok_def sq_finished_def Let_def)
  qed
qed

subsection \<open>The edges of a prefill chunk\<close>

fun chunk_items ::
  "serve_config \<Rightarrow> (hidden \<Rightarrow> token \<Rightarrow> hidden) \<Rightarrow> serve_model \<Rightarrow> token list \<Rightarrow> token list
     \<Rightarrow> (token \<times> prefix_identity \<times> hidden option) list" where
  "chunk_items cfg nx m us [] = []"
| "chunk_items cfg nx m us (t # ts) =
     (t, identity_for cfg (us @ [t]), Some (state_after nx m (us @ [t]))) # chunk_items cfg nx m (us @ [t]) ts"

lemma chunk_items_nth:
  "j < length ts \<Longrightarrow> chunk_items cfg nx m us ts ! j
     = (ts ! j, identity_for cfg (us @ take (Suc j) ts), Some (state_after nx m (us @ take (Suc j) ts)))"
proof (induction ts arbitrary: us j)
  case (Cons t ts)
  show ?case
  proof (cases j)
    case (Suc i)
    with Cons show ?thesis by (simp del: state_after_snoc)
  qed simp
qed simp

lemma length_chunk_items [simp]: "length (chunk_items cfg nx m us ts) = length ts"
  by (induction ts arbitrary: us) simp_all

lemma wp_prefill_edges:
  assumes cf: "collision_free dg (served_ids cfg TS)" and full: "full \<longrightarrow> length ts \<le> 1"
    and E: "\<And>e s'. \<not> well_configured cfg \<Longrightarrow> E e s'"
  shows "store_ok full dg cfg nx lg m TS s \<Longrightarrow> node_at (sv_graph s) k us \<Longrightarrow>
    (\<forall>n. 0 < n \<longrightarrow> n \<le> length ts \<longrightarrow> us @ take n ts \<in> TS) \<Longrightarrow>
    (\<And>k' s'. store_ok full dg cfg nx lg m TS s' \<Longrightarrow> frame s s' \<Longrightarrow> node_at (sv_graph s') k' (us @ ts) \<Longrightarrow> Q k' s') \<Longrightarrow>
    wp (prefill_edges dg cfg k (length us) (chunk_items cfg nx m us ts) (predict nx lg m (us @ ts))) Q E s"
  using full
proof (induction ts arbitrary: s k us)
  case Nil
  then show ?case using Nil.prems(4) [OF Nil.prems(1) frame_refl] by (simp add: step_simps)
next
  case (Cons t ts)
  have TS: "us @ [t] \<in> TS" using Cons.prems(3) by (auto dest: spec [of _ 1])
  have more: "\<forall>n. 0 < n \<longrightarrow> n \<le> length ts \<longrightarrow> (us @ [t]) @ take n ts \<in> TS"
    using Cons.prems(3) by (auto dest: spec [of _ "Suc _"])
  let ?l = "if chunk_items cfg nx m (us @ [t]) ts = [] then Some (predict nx lg m (us @ t # ts)) else None"
  have last: "chunk_items cfg nx m (us @ [t]) ts = [] \<longleftrightarrow> ts = []"
    by (metis length_0_conv length_chunk_items)
  have l: "?l \<in> {None, Some (predict nx lg m (us @ [t]))}" "full \<longrightarrow> ?l \<noteq> None"
    using last Cons.prems(5) by auto
  have len: "length us + 1 = length (us @ [t])" by simp
  have "wp (consume_edge dg cfg k t (identity_for cfg (us @ [t])) (Some (state_after nx m (us @ [t]))) ?l (length us + 1))
      (\<lambda>k'. wp (prefill_edges dg cfg k' (length us + 1) (chunk_items cfg nx m (us @ [t]) ts)
         (predict nx lg m (us @ t # ts))) Q E) E s"
  proof (rule wp_consume_edge [OF Cons.prems(1) cf Cons.prems(2) TS l])
    fix k' s' assume s': "store_ok full dg cfg nx lg m TS s'" "frame s s'" "node_at (sv_graph s') k' (us @ [t])"
    have "wp (prefill_edges dg cfg k' (length (us @ [t])) (chunk_items cfg nx m (us @ [t]) ts)
         (predict nx lg m ((us @ [t]) @ ts))) Q E s'"
      by (rule Cons.IH [OF s'(1,3) more])
        (use Cons.prems(4,5) frame_trans [OF s'(2)] in auto)
    then show "wp (prefill_edges dg cfg k' (length us + 1) (chunk_items cfg nx m (us @ [t]) ts)
         (predict nx lg m (us @ t # ts))) Q E s'" by simp
  qed (rule E)
  then show ?case by (simp add: wp_bindR del: state_after_snoc)
qed

subsection \<open>A prefill row\<close>

lemma prefill_input_eq:
  assumes "stream_ok nx lg m r q" "\<not> sq_finished q" "sq_consumed q < length (fst r)"
  shows "\<exists>n. prefill_input cfg q = (sq_hidden q, take n (drop (sq_consumed q) (fst r))) \<and> 0 < n
    \<and> sq_consumed q + n \<le> length (fst r) \<and> n \<le> max (sc_prefill_chunk cfg) 1"
  using stream_ok_prompt [OF assms(1,2)] assms(3)
  by (intro exI [of _ "min (sq_consumed q + max (sc_prefill_chunk cfg) 1) (length (fst r)) - sq_consumed q"])
    (auto simp: prefill_input_def Let_def)

lemma finish_prefill_ok:
  assumes q: "stream_ok nx lg m r q" "\<not> sq_finished q" "sq_generated q = 0" "sq_pending_logits q = None"
    and n: "0 < n" "sq_consumed q + n \<le> length (fst r)"
    and at: "node_at g k (take (sq_consumed q + n) (fst r))"
    and f: "finish_prefill (sm_eos m) k (state_after nx m (take (sq_consumed q + n) (fst r)))
       (predict nx lg m (take (sq_consumed q + n) (fst r))) n q = (sampled, fin, q')"
  shows "sequence_ok False False nx lg m g r q' \<and> sq_id q' = sq_id q \<and> (sq_finished q' \<or> sq_consumed q < sq_consumed q')"
proof -
  have stream: "sq_stream q = fst r" "sq_max_new q = snd r" "greedy nx lg m (snd r) (fst r) = reference nx lg m r"
    using q(1-3) by (auto simp: stream_ok_def)
  define q1 where "q1 = q\<lparr> sq_hidden := state_after nx m (take (sq_consumed q + n) (fst r)),
     sq_work_rows := sq_work_rows q + n, sq_node := Some k, sq_consumed := sq_consumed q + n \<rparr>"
  have q1: "stream_ok nx lg m r q1" "\<not> sq_finished q1" "sq_stream q1 = fst r" "sq_consumed q1 = sq_consumed q + n"
    "sq_generated q1 = 0" "sq_max_new q1 = snd r" "sq_pending_logits q1 = None" "sq_node q1 = Some k" "sq_id q1 = sq_id q"
    "sq_hidden q1 = state_after nx m (take (sq_consumed q + n) (fst r))"
    using q stream by (simp_all add: q1_def stream_ok_def sq_finished_def)
  have fp: "finish_prefill (sm_eos m) k (state_after nx m (take (sq_consumed q + n) (fst r)))
       (predict nx lg m (take (sq_consumed q + n) (fst r))) n q =
      (if sq_consumed q1 = length (sq_stream q1)
       then if sq_generated q1 < sq_max_new q1
            then let (sampled, q2) = sample_greedy (sm_eos m) (predict nx lg m (take (sq_consumed q + n) (fst r))) q1
                 in (sampled, False, q2)
            else (None, True, q1\<lparr> sq_state := Finished \<rparr>)
       else (None, False, q1))"
    by (simp only: finish_prefill_def Let_def q1_def)
  consider (inside) "sq_consumed q + n < length (fst r)"
    | (sample) "sq_consumed q + n = length (fst r)" "0 < snd r" | (none) "sq_consumed q + n = length (fst r)" "snd r = 0"
    using n(2) by linarith
  then show ?thesis
  proof cases
    case inside
    then have "q' = q1" using f q1 unfolding fp by simp
    then show ?thesis using q1 at n inside by (auto simp: sequence_ok_def place_ok_def)
  next
    case sample
    then have s: "sample_greedy (sm_eos m) (predict nx lg m (sq_stream q1)) q1 = (sampled, q')"
      using f q1 unfolding fp by (auto split: prod.splits)
    have "sq_generated q1 < snd r" using sample q1 by simp
    from sample_greedy_ok [OF q1(1,2) this s] show ?thesis
      using q1 at n sample by (auto simp: sequence_ok_def place_ok_def)
  next
    case none
    then have "q' = q1\<lparr> sq_state := Finished \<rparr>" using f q1 unfolding fp by simp
    then show ?thesis using q1 at none stream(3) by (auto simp: sequence_ok_def stream_ok_def sq_finished_def)
  qed
qed

subsection \<open>A decode row\<close>

lemma finish_decode_ok:
  assumes q: "stream_ok nx lg m r q" "\<not> sq_finished q" "0 < sq_generated q" "sq_pending_logits q = None"
    and h: "sq_hidden q = state_after nx m (sq_stream q)"
    and at: "node_at g k (sq_stream q)"
    and f: "finish_decode (sm_eos m) (predict nx lg m (sq_stream q)) False k (length (sq_stream q)) q = (sampled, fin, q')"
  shows "sequence_ok False False nx lg m g r q' \<and> sq_id q' = sq_id q
    \<and> (sq_finished q' \<or> sq_consumed q' = length (sq_stream q))"
proof -
  define q1 where "q1 = q\<lparr> sq_node := Some k, sq_consumed := length (sq_stream q) \<rparr>"
  have q1: "stream_ok nx lg m r q1" "\<not> sq_finished q1" "sq_stream q1 = sq_stream q" "sq_consumed q1 = length (sq_stream q)"
    "sq_generated q1 = sq_generated q" "sq_max_new q1 = snd r" "sq_pending_logits q1 = None" "sq_node q1 = Some k"
    "sq_id q1 = sq_id q" "sq_hidden q1 = state_after nx m (sq_stream q)"
    using q h by (simp_all add: q1_def stream_ok_def sq_finished_def)
  show ?thesis
  proof (cases "sq_generated q < snd r")
    case True
    then have s: "sample_greedy (sm_eos m) (predict nx lg m (sq_stream q1)) q1 = (sampled, q')"
      using f q1 by (auto simp: finish_decode_def Let_def split: prod.splits simp flip: q1_def)
    have "sq_generated q1 < snd r" using True q1 by simp
    from sample_greedy_ok [OF q1(1,2) this s] show ?thesis
      using q1 at by (auto simp: sequence_ok_def place_ok_def)
  next
    case False
    then have "q' = q1\<lparr> sq_state := Finished \<rparr>" "sq_generated q = snd r"
      using f q1 q by (auto simp: finish_decode_def Let_def stream_ok_def simp flip: q1_def)
    moreover have "sq_stream q = reference nx lg m r"
      using q(1,2) \<open>sq_generated q = snd r\<close> by (auto simp: stream_ok_def)
    ultimately show ?thesis using q1 at by (auto simp: sequence_ok_def stream_ok_def sq_finished_def)
  qed
qed

end
