(* ===== verification/Serve_Step.thy ===== *)
theory Serve_Step
  imports Serve_Rows
begin

text \<open>
  The step of the scheduler, row by row: while rows are processed, those done hold a sequence that
  may rest between steps and has finished or advanced, and those still to do are untouched.
\<close>

subsection \<open>The state while rows are processed\<close>

definition advanced :: "sequence \<Rightarrow> sequence \<Rightarrow> bool" where
  "advanced q q' \<longleftrightarrow> sq_id q' = sq_id q \<and> (sq_finished q' \<or> \<not> sq_finished q \<and> sq_consumed q < sq_consumed q')"

definition rows_ok ::
  "bool \<Rightarrow> (byte list list \<Rightarrow> digest) \<Rightarrow> serve_config \<Rightarrow> (hidden \<Rightarrow> token \<Rightarrow> hidden) \<Rightarrow> (hidden \<Rightarrow> token \<Rightarrow> logits)
     \<Rightarrow> serve_model \<Rightarrow> token list set \<Rightarrow> request list \<Rightarrow> sequence list \<Rightarrow> nat set \<Rightarrow> serve \<Rightarrow> bool" where
  "rows_ok full dg cfg nx lg m TS rs qs todo s \<longleftrightarrow> store_ok full dg cfg nx lg m TS s
     \<and> length (sv_sequences s) = length qs
     \<and> (\<forall>i<length qs. if i \<in> todo then sv_sequences s ! i = qs ! i
          \<and> sequence_ok False (\<not> full) nx lg m (sv_graph s) (rs ! i) (qs ! i)
        else sequence_ok False False nx lg m (sv_graph s) (rs ! i) (sv_sequences s ! i)
          \<and> advanced (qs ! i) (sv_sequences s ! i))"

text \<open>What processing rows leaves alone.\<close>

definition kept :: "serve \<Rightarrow> serve \<Rightarrow> bool" where
  "kept s s' \<longleftrightarrow> sv_queue s' = sv_queue s \<and> sv_next_id s' = sv_next_id s \<and> sv_root s' = sv_root s"

lemma kept_refl [simp]: "kept s s"
  by (simp add: kept_def)

lemma kept_trans: "kept s s' \<Longrightarrow> kept s' s'' \<Longrightarrow> kept s s''"
  by (simp add: kept_def)

lemma frame_kept: "frame s s' \<Longrightarrow> kept s s'"
  by (simp add: frame_def kept_def)

lemma rows_ok_frame:
  assumes "rows_ok full dg cfg nx lg m TS rs qs todo s" "frame s s'" "store_ok full dg cfg nx lg m TS s'"
  shows "rows_ok full dg cfg nx lg m TS rs qs todo s'"
proof -
  have seqs: "sv_sequences s' = sv_sequences s" and gr: "grows (gr_nodes (sv_graph s)) (gr_nodes (sv_graph s'))"
    using assms(2) by (simp_all add: frame_def)
  show ?thesis
    using assms(1,3) unfolding rows_ok_def seqs by (auto intro: sequence_ok_grows [OF _ gr])
qed

text \<open>Storing the outcome of a row.\<close>

lemma rows_ok_store:
  assumes "rows_ok full dg cfg nx lg m TS rs qs todo s" "i < length qs"
    and "sequence_ok False False nx lg m (sv_graph s) (rs ! i) q'" "advanced (qs ! i) q'"
  shows "rows_ok full dg cfg nx lg m TS rs qs (todo - {i}) (on_seq i (\<lambda>_. q') s)"
  using assms by (auto simp: rows_ok_def on_seq_def store_ok_def nth_list_update)

lemma rows_ok_row:
  assumes "rows_ok full dg cfg nx lg m TS rs qs todo s" "i < length qs" "i \<in> todo"
  shows "sv_sequences s ! i = qs ! i" "sequence_ok False (\<not> full) nx lg m (sv_graph s) (rs ! i) (qs ! i)"
    "store_ok full dg cfg nx lg m TS s"
  using assms by (auto simp: rows_ok_def)

definition closed_under ::
  "(hidden \<Rightarrow> token \<Rightarrow> hidden) \<Rightarrow> (hidden \<Rightarrow> token \<Rightarrow> logits) \<Rightarrow> serve_model \<Rightarrow> token list set \<Rightarrow> request list \<Rightarrow> bool" where
  "closed_under nx lg m TS rs \<longleftrightarrow> [] \<in> TS \<and> (\<forall>r\<in>set rs. fst r \<noteq> [] \<and> (\<forall>ts. prefix ts (reference nx lg m r) \<longrightarrow> ts \<in> TS))"

lemma closed_prefix:
  "closed_under nx lg m TS rs \<Longrightarrow> r \<in> set rs \<Longrightarrow> stream_ok nx lg m r q \<Longrightarrow> take n (sq_stream q) \<in> TS"
  unfolding closed_under_def using stream_ok_prefix take_is_prefix prefix_order.trans by meson

subsection \<open>A prefill row\<close>

lemma wp_prefill_sequence:
  assumes rows: "rows_ok full dg cfg nx lg m TS rs qs todo s" and i: "i < length qs" "i \<in> todo" "length qs \<le> length rs"
    and cf: "collision_free dg (served_ids cfg TS)" and cl: "closed_under nx lg m TS rs"
    and q: "\<not> sq_finished (qs ! i)" "sq_consumed (qs ! i) < sq_prompt_len (qs ! i)"
    and out: "row < length outputs" "outputs ! row = chunk_row nx lg (fst (prefill_input cfg (qs ! i))) (snd (prefill_input cfg (qs ! i)))"
    and full: "full \<longrightarrow> sc_prefill_chunk cfg \<le> 1"
    and Q: "\<And>x s'. rows_ok full dg cfg nx lg m TS rs qs (todo - {i}) s' \<Longrightarrow> kept s s' \<Longrightarrow> Q x s'"
    and E: "\<And>e s'. \<not> well_configured cfg \<Longrightarrow> E e s'"
  shows "wp (prefill_sequence dg m cfg (snd (prefill_input cfg (qs ! i))) outputs (row, i)) Q E s"
proof -
  define q r us where "q = qs ! i" and "r = rs ! i" and "us = take (sq_consumed q) (fst r)"
  note row = rows_ok_row [OF rows i(1,2), folded q_def r_def]
  have r: "r \<in> set rs" using i by (simp add: r_def)
  have st: "stream_ok nx lg m r q" and run: "\<not> sq_finished q" using row(2) q by (simp_all add: sequence_ok_def q_def)
  have less: "sq_consumed q < length (fst r)" using q(2) stream_ok_prompt [OF st run] by (simp add: q_def)
  then obtain k where k: "sq_node q = Some k" "node_at (sv_graph s) k (take (sq_consumed q) (sq_stream q))"
      and h: "sq_hidden q = state_after nx m (take (sq_consumed q) (sq_stream q))"
      and gen: "sq_generated q = 0" "sq_pending_logits q = None"
    using row(2) run less by (auto simp: sequence_ok_def place_ok_def stream_ok_def)
  have stream: "sq_stream q = fst r" using st run gen by (auto simp: stream_ok_def)
  obtain n where pin: "prefill_input cfg q = (sq_hidden q, take n (drop (sq_consumed q) (fst r)))"
      and n: "0 < n" "sq_consumed q + n \<le> length (fst r)" "n \<le> max (sc_prefill_chunk cfg) 1"
    using prefill_input_eq [OF st run less] by blast
  define ts where "ts = take n (drop (sq_consumed q) (fst r))"
  have ts: "length ts = n" "ts \<noteq> []" "us @ ts = take (sq_consumed q + n) (fst r)"
    using n by (auto simp: ts_def us_def take_add)
  have us: "length us = sq_consumed q" using less by (simp add: us_def)
  have hus: "sq_hidden q = state_after nx m us" and at: "node_at (sv_graph s) k us"
    using h k stream by (simp_all add: us_def)
  have outs: "outputs ! row = chunk_row nx lg (state_after nx m us) ts"
    using out(2) pin hus by (simp add: ts_def flip: q_def)
  have lasts: "last (fst (chunk_row nx lg (state_after nx m us) ts)) = state_after nx m (us @ ts)"
    "last (snd (chunk_row nx lg (state_after nx m us) ts)) = predict nx lg m (us @ ts)"
    using last_chunk_row [OF ts(2)] by blast+
  have ne: "fst (chunk_row nx lg (state_after nx m us) ts) \<noteq> []" "snd (chunk_row nx lg (state_after nx m us) ts) \<noteq> []"
    using length_chunk_row [of nx lg "state_after nx m us" ts] ts(2) by (metis length_0_conv)+
  have items: "map (\<lambda>j. (ts ! j, identity_for cfg (take (sq_consumed q + j + 1) (sq_stream q)),
        nth_opt (fst (chunk_row nx lg (state_after nx m us) ts)) j)) [0..<length ts] = chunk_items cfg nx m us ts"
  proof (rule nth_equalityI)
    fix j assume "j < length (map (\<lambda>j. (ts ! j, identity_for cfg (take (sq_consumed q + j + 1) (sq_stream q)),
        nth_opt (fst (chunk_row nx lg (state_after nx m us) ts)) j)) [0..<length ts])"
    then have j: "j < length ts" by simp
    have "us @ take (Suc j) ts = take (sq_consumed q + j + 1) (sq_stream q)"
      using j ts(1) n stream by (simp add: us_def ts_def min_def flip: take_add)
    then show "map (\<lambda>j. (ts ! j, identity_for cfg (take (sq_consumed q + j + 1) (sq_stream q)),
        nth_opt (fst (chunk_row nx lg (state_after nx m us) ts)) j)) [0..<length ts] ! j = chunk_items cfg nx m us ts ! j"
      using j chunk_items_nth [OF j] chunk_row_nth(1) [OF j] by (simp add: nth_opt_def)
  qed simp
  have TS: "\<forall>l. 0 < l \<longrightarrow> l \<le> length ts \<longrightarrow> us @ take l ts \<in> TS"
  proof (intro allI impI)
    fix l assume "l \<le> length ts"
    then have "us @ take l ts = take (sq_consumed q + l) (sq_stream q)"
      using ts(1) stream by (simp add: us_def ts_def min_def flip: take_add)
    then show "us @ take l ts \<in> TS" using closed_prefix [OF cl r st] by simp
  qed
  have one: "full \<longrightarrow> length ts \<le> 1" using full n(3) ts(1) by auto
  have edges: "wp (prefill_edges dg cfg k (length us) (chunk_items cfg nx m us ts) (predict nx lg m (us @ ts)))
      (\<lambda>k'. wp (if fst (chunk_row nx lg (state_after nx m us) ts) = [] then errR (Panic ''non-empty chunk'')
        else (let (sampled, fin, q') = finish_prefill (sm_eos m) k' (state_after nx m (us @ ts)) (predict nx lg m (us @ ts)) n q in
          thenR (modR (on_seq i (\<lambda>_. q')))
            (okR (\<lparr> ss_id = sq_id q, ss_phase = Prefill, ss_token_consumed = last ts, ss_tokens_consumed = n,
                    ss_token_sampled = sampled, ss_finished = sq_finished q' \<rparr>, fin)))) Q E) E s"
  proof (rule wp_prefill_edges [OF cf one E row(3) at TS])
    fix k' s' assume s': "store_ok full dg cfg nx lg m TS s'" "frame s s'" "node_at (sv_graph s') k' (us @ ts)"
    obtain sampled fin q' where fp: "finish_prefill (sm_eos m) k' (state_after nx m (us @ ts))
        (predict nx lg m (us @ ts)) n q = (sampled, fin, q')" by (cases "finish_prefill (sm_eos m) k'
        (state_after nx m (us @ ts)) (predict nx lg m (us @ ts)) n q")
    from finish_prefill_ok [OF st run gen n(1,2), where g = "sv_graph s'" and k = k'] s'(3) fp
    have q': "sequence_ok False False nx lg m (sv_graph s') r q'" "advanced q q'" by (simp_all add: ts(3) advanced_def run)
    have "rows_ok full dg cfg nx lg m TS rs qs todo s'" by (rule rows_ok_frame [OF rows s'(2,1)])
    from rows_ok_store [OF this i(1)] q'
    have "rows_ok full dg cfg nx lg m TS rs qs (todo - {i}) (on_seq i (\<lambda>_. q') s')" by (simp add: q_def r_def)
    moreover have "kept s (on_seq i (\<lambda>_. q') s')" using frame_kept [OF s'(2)] by (simp add: kept_def on_seq_def)
    ultimately show "wp (if fst (chunk_row nx lg (state_after nx m us) ts) = [] then errR (Panic ''non-empty chunk'')
        else (let (sampled, fin, q') = finish_prefill (sm_eos m) k' (state_after nx m (us @ ts)) (predict nx lg m (us @ ts)) n q in
          thenR (modR (on_seq i (\<lambda>_. q')))
            (okR (\<lparr> ss_id = sq_id q, ss_phase = Prefill, ss_token_consumed = last ts, ss_tokens_consumed = n,
                    ss_token_sampled = sampled, ss_finished = sq_finished q' \<rparr>, fin)))) Q E s'"
      using ne fp Q by (simp add: step_simps)
  qed
  have "snd (prefill_input cfg (qs ! i)) = ts" using pin by (simp add: ts_def q_def)
  then show ?thesis
    using edges row(1) out(1) outs k(1) ne items lasts ts(1) us
    by (simp add: prefill_sequence_def step_simps indexR_def nth_opt_def split_beta)
qed

subsection \<open>A decode row\<close>

lemma bindR_okR: "bindR (okR x) f = f x"
  by (rule ext) (simp add: bindR_def okR_def)

lemma wp_decode_sequence:
  assumes rows: "rows_ok full dg cfg nx lg m TS rs qs todo s" and i: "i < length qs" "i \<in> todo" "length qs \<le> length rs"
    and cf: "collision_free dg (served_ids cfg TS)" and cl: "closed_under nx lg m TS rs"
    and q: "\<not> sq_finished (qs ! i)" "\<not> sq_consumed (qs ! i) < sq_prompt_len (qs ! i)"
    and out: "row < length outputs" "outputs ! row = plain_outcome (nx (sq_hidden (qs ! i)) (last (sq_stream (qs ! i))))
      (lg (sq_hidden (qs ! i)) (last (sq_stream (qs ! i))))"
    and Q: "\<And>x s'. rows_ok full dg cfg nx lg m TS rs qs (todo - {i}) s' \<Longrightarrow> kept s s' \<Longrightarrow> Q x s'"
    and E: "\<And>e s'. \<not> (full \<and> well_configured cfg) \<Longrightarrow> E e s'"
  shows "wp (decode_sequence dg m cfg (last (sq_stream (qs ! i))) outputs (row, i)) Q E s"
proof -
  define q r where "q = qs ! i" and "r = rs ! i"
  note row = rows_ok_row [OF rows i(1,2), folded q_def r_def]
  have r: "r \<in> set rs" using i by (simp add: r_def)
  have st: "stream_ok nx lg m r q" and run: "\<not> sq_finished q" using row(2) q by (simp_all add: sequence_ok_def q_def)
  have nless: "\<not> sq_consumed q < length (fst r)" using q(2) stream_ok_prompt [OF st run] by (simp add: q_def)
  obtain k where k: "sq_node q = Some k" "node_at (sv_graph s) k (take (sq_consumed q) (sq_stream q))"
      and h: "sq_hidden q = state_after nx m (take (sq_consumed q) (sq_stream q))"
      and place: "place_ok False (\<not> full) nx lg m r q"
    using row(2) run by (auto simp: sequence_ok_def)
  define out0 where "out0 = plain_outcome (nx (sq_hidden q) (last (sq_stream q))) (lg (sq_hidden q) (last (sq_stream q)))"
  define s1 where "s1 = on_seq i (\<lambda>q. q\<lparr> sq_hidden := so_next out0, sq_work_rows := sq_work_rows q + 1 \<rparr>) s"
  have o: "outputs ! row = out0" using out(2) by (simp add: out0_def q_def)
  show ?thesis
  proof (cases "0 < sq_generated q")
    case False
    then have "sq_consumed q = length (sq_stream q)" "\<not> full"
      using place nless st run by (auto simp: place_ok_def stream_ok_def)
    then show ?thesis
      using row(1) k(1) out(1) E
      by (simp add: decode_sequence_def step_simps indexR_def nth_opt_def sliceR_def q_def)
  next
    case True
    then have c: "sq_consumed q + 1 = length (sq_stream q)" "sq_pending_logits q = None"
      using place by (auto simp: place_ok_def)
    define us t where "us = butlast (sq_stream q)" and "t = last (sq_stream q)"
    have stream: "us @ [t] = sq_stream q" "length us = sq_consumed q" "take (sq_consumed q) (sq_stream q) = us"
    proof -
      have "sq_stream q \<noteq> []" using c by auto
      then show "us @ [t] = sq_stream q" by (simp add: us_def t_def)
      show "length us = sq_consumed q" using c by (simp add: us_def)
      have "sq_consumed q = length (sq_stream q) - 1" using c by simp
      then show "take (sq_consumed q) (sq_stream q) = us" by (simp only: us_def butlast_conv_take)
    qed
    have hus: "sq_hidden q = state_after nx m us" and at: "node_at (sv_graph s) k us" using h k stream by simp_all
    have out1: "so_consumed_state out0 = state_after nx m (us @ [t])" "so_logits out0 = predict nx lg m (us @ [t])"
      "so_next out0 = state_after nx m (us @ [t])" "so_drafts out0 = []"
      by (simp_all add: out0_def plain_outcome_def hus t_def)
    have st1: "store_ok full dg cfg nx lg m TS s1" "frame s1 s1" "node_at (sv_graph s1) k us"
      using row(3) at by (simp_all add: s1_def on_seq_def store_ok_def)
    have TS: "us @ [t] \<in> TS" using closed_prefix [OF cl r st, of "length (sq_stream q)"] stream by simp
    define q1 where "q1 = q\<lparr> sq_hidden := so_next out0, sq_work_rows := sq_work_rows q + 1 \<rparr>"
    have q1: "stream_ok nx lg m r q1" "\<not> sq_finished q1" "0 < sq_generated q1" "sq_pending_logits q1 = None"
      "sq_hidden q1 = state_after nx m (sq_stream q1)" "sq_stream q1 = sq_stream q" "sq_id q1 = sq_id q"
      using st run True c out1 stream by (simp_all add: q1_def stream_ok_def sq_finished_def)
    have seq1: "sv_sequences s1 ! i = q1" "length (sv_sequences s1) = length qs"
      using rows row(1) i by (simp_all add: s1_def on_seq_def q1_def rows_ok_def)
    have edge: "wp (consume_edge dg cfg k t (identity_for cfg (us @ [t])) (Some (state_after nx m (us @ [t])))
        (Some (predict nx lg m (us @ [t]))) (length us + 1))
       (\<lambda>k'. wp (bindR (getsR (\<lambda>s. finish_decode (sm_eos m) (predict nx lg m (us @ [t])) False k' (length us + 1)
             (sv_sequences s ! i))) (\<lambda>(sampled, fin, q'). thenR (modR (on_seq i (\<lambda>_. q')))
           (okR (\<lparr> ss_id = sq_id q, ss_phase = Decode, ss_token_consumed = t, ss_tokens_consumed = 1,
                 ss_token_sampled = sampled, ss_finished = sq_finished q' \<rparr>, fin)))) Q E) E s1"
    proof (rule wp_consume_edge [OF st1(1) cf st1(3) TS])
      fix k' s' assume s': "store_ok full dg cfg nx lg m TS s'" "frame s1 s'" "node_at (sv_graph s') k' (us @ [t])"
      have seq': "sv_sequences s' ! i = q1" using s'(2) seq1 by (simp add: frame_def)
      obtain sampled fin q' where fd: "finish_decode (sm_eos m) (predict nx lg m (us @ [t])) False k' (length us + 1) q1
          = (sampled, fin, q')"
        by (cases "finish_decode (sm_eos m) (predict nx lg m (us @ [t])) False k' (length us + 1) q1")
      have len: "length us + 1 = length (sq_stream q1)" "us @ [t] = sq_stream q1" using stream q1(6) c by simp_all
      have "finish_decode (sm_eos m) (predict nx lg m (sq_stream q1)) False k' (length (sq_stream q1)) q1 = (sampled, fin, q')"
        using fd by (simp only: len)
      moreover have "node_at (sv_graph s') k' (sq_stream q1)" using s'(3) by (simp only: len(2))
      ultimately have fdo: "sequence_ok False False nx lg m (sv_graph s') r q' \<and> sq_id q' = sq_id q1
          \<and> (sq_finished q' \<or> sq_consumed q' = length (sq_stream q1))"
        using finish_decode_ok [OF q1(1-5)] by blast
      then have q': "sequence_ok False False nx lg m (sv_graph s') r q'" by blast
      have "sq_consumed q < length (sq_stream q1)" using c(1) q1(6) by simp
      with fdo q1(7) run have adv: "advanced q q'" unfolding advanced_def by metis
      have s'1: "length (sv_sequences s') = length qs"
        "\<And>j. j < length qs \<Longrightarrow> j \<noteq> i \<Longrightarrow> sv_sequences s' ! j = sv_sequences s ! j"
        "grows (gr_nodes (sv_graph s)) (gr_nodes (sv_graph s'))"
        using s'(2) seq1(2) by (auto simp: frame_def s1_def on_seq_def)
      have "rows_ok full dg cfg nx lg m TS rs qs (todo - {i}) (on_seq i (\<lambda>_. q') s')"
        unfolding rows_ok_def
      proof (intro conjI allI impI)
        show "store_ok full dg cfg nx lg m TS (on_seq i (\<lambda>_. q') s')"
          using s'(1) by (simp add: store_ok_def on_seq_def)
        show "length (sv_sequences (on_seq i (\<lambda>_. q') s')) = length qs" using s'1(1) by (simp add: on_seq_def)
        fix j assume j: "j < length qs"
        show "if j \<in> todo - {i}
           then sv_sequences (on_seq i (\<lambda>_. q') s') ! j = qs ! j \<and>
             sequence_ok False (\<not> full) nx lg m (sv_graph (on_seq i (\<lambda>_. q') s')) (rs ! j) (qs ! j)
           else sequence_ok False False nx lg m (sv_graph (on_seq i (\<lambda>_. q') s')) (rs ! j)
               (sv_sequences (on_seq i (\<lambda>_. q') s') ! j) \<and> advanced (qs ! j) (sv_sequences (on_seq i (\<lambda>_. q') s') ! j)"
        proof (cases "j = i")
          case True
          then show ?thesis using q' adv s'1(1) j by (simp add: on_seq_def q_def r_def)
        next
          case False
          then have "sv_sequences (on_seq i (\<lambda>_. q') s') ! j = sv_sequences s ! j"
            using s'1(2) j by (simp add: on_seq_def)
          then show ?thesis
            using rows j False sequence_ok_grows [OF _ s'1(3)] by (auto simp: rows_ok_def on_seq_def)
        qed
      qed
      moreover have "kept s (on_seq i (\<lambda>_. q') s')"
        using frame_kept [OF s'(2)] by (simp add: kept_def on_seq_def s1_def)
      ultimately show "wp (bindR (getsR (\<lambda>s. finish_decode (sm_eos m) (predict nx lg m (us @ [t])) False k' (length us + 1)
             (sv_sequences s ! i))) (\<lambda>(sampled, fin, q'). thenR (modR (on_seq i (\<lambda>_. q')))
           (okR (\<lparr> ss_id = sq_id q, ss_phase = Decode, ss_token_consumed = t, ss_tokens_consumed = 1,
                 ss_token_sampled = sampled, ss_finished = sq_finished q' \<rparr>, fin)))) Q E s'"
        using Q fd seq' by (simp add: step_simps)
    qed (use E in auto)
    show ?thesis
      using edge row(1) k(1) out(1) o out1 c stream(1,2)
      by (simp add: decode_sequence_def step_simps indexR_def nth_opt_def sliceR_def split_beta bindR_okR s1_def
          flip: q_def t_def)
  qed
qed

subsection \<open>All rows\<close>

lemma wp_for_each:
  assumes step: "\<And>x ys zs s. xs = zs @ x # ys \<Longrightarrow> I (x # ys) s \<Longrightarrow> wp (f x) (\<lambda>_. I ys) E s"
    and "I xs s" "\<And>vs s'. I [] s' \<Longrightarrow> Q vs s'"
  shows "wp (for_each f xs) Q E s"
proof -
  have "zs @ ys = xs \<Longrightarrow> I ys s \<Longrightarrow> (\<And>vs s'. I [] s' \<Longrightarrow> Q vs s') \<Longrightarrow> wp (for_each f ys) Q E s" for zs ys s Q
  proof (induction ys arbitrary: zs s Q)
    case (Cons x ys)
    have "wp (f x) (\<lambda>_. I ys) E s" using step [of zs x ys s] Cons.prems(1,2) by simp
    then have "wp (f x) (\<lambda>y. wp (bindR (for_each f ys) (\<lambda>ys. okR (y # ys))) Q E) E s"
    proof (rule wp_mono)
      fix y s' assume "I ys s'"
      then show "wp (bindR (for_each f ys) (\<lambda>ys. okR (y # ys))) Q E s'"
        unfolding wp_bindR wp_okR using Cons.prems(1,3) by (intro Cons.IH [of "zs @ [x]"]) auto
    qed
    then show ?case by (simp add: wp_bindR)
  qed (simp add: step_simps)
  from this [of "[]" xs s Q] assms(2,3) show ?thesis by simp
qed

text \<open>
  The two passes over the running sequences.  \<open>pre\<close> and \<open>dec\<close> are the indices of the sequences that
  prefill and of those that decode.
\<close>

lemma row_of_enumerate:
  assumes "List.enumerate 0 xs = zs @ (row, i) # ys"
  shows "row < length xs" "xs ! row = i" "set (map snd ys) \<subseteq> set xs" "distinct xs \<Longrightarrow> i \<notin> set (map snd ys)"
proof -
  have "(row, i) \<in> set (List.enumerate 0 xs)" by (simp add: assms)
  then show "row < length xs" "xs ! row = i" by (auto simp: in_set_enumerate_eq)
  have eq: "xs = map snd zs @ i # map snd ys" using arg_cong [OF assms, of "map snd"] by simp
  then show "set (map snd ys) \<subseteq> set xs" "distinct xs \<Longrightarrow> i \<notin> set (map snd ys)" by auto
qed

lemma wp_run_rows:
  assumes model: "plain_model nx lg m" and cf: "collision_free dg (served_ids cfg TS)" and cl: "closed_under nx lg m TS rs"
    and len: "length qs \<le> length rs" and full: "full \<longrightarrow> sc_prefill_chunk cfg \<le> 1"
    and rows: "rows_ok full dg cfg nx lg m TS rs qs (set pre \<union> set dec) s"
    and dist: "distinct pre" "distinct dec" "set pre \<inter> set dec = {}"
    and pre: "\<forall>i\<in>set pre. i < length qs \<and> \<not> sq_finished (qs ! i) \<and> sq_consumed (qs ! i) < sq_prompt_len (qs ! i)"
    and dec: "\<forall>i\<in>set dec. i < length qs \<and> \<not> sq_finished (qs ! i) \<and> \<not> sq_consumed (qs ! i) < sq_prompt_len (qs ! i)"
    and Q: "\<And>x s'. rows_ok full dg cfg nx lg m TS rs qs {} s' \<Longrightarrow> kept s s' \<Longrightarrow> Q x s'"
    and E: "\<And>e s'. \<not> (full \<and> well_configured cfg) \<Longrightarrow> E e s'"
  shows "wp (run_rows dg m cfg pre dec (map (\<lambda>i. prefill_input cfg (qs ! i)) pre)
     (map (\<lambda>i. (sq_hidden (qs ! i), last (sq_stream (qs ! i)))) dec)) Q E s"
proof -
  define pins dins where "pins = map (\<lambda>i. prefill_input cfg (qs ! i)) pre"
    and "dins = map (\<lambda>i. (sq_hidden (qs ! i), last (sq_stream (qs ! i)))) dec"
  define pouts douts where "pouts = sm_prefill_batch m pins"
    and "douts = (if dins = [] then [] else sm_batch_step m dins)"
  have pouts: "pouts = map (\<lambda>(h, ts). chunk_row nx lg h ts) pins"
    and douts: "douts = map (\<lambda>(h, t). plain_outcome (nx h t) (lg h t)) dins"
    using model by (simp_all add: pouts_def douts_def plain_model_def)
  define I where "I T ys s' \<longleftrightarrow> rows_ok full dg cfg nx lg m TS rs qs (set (map snd ys) \<union> T) s' \<and> kept s s'"
    for T :: "nat set" and ys :: "(nat \<times> nat) list" and s' :: serve
  have P: "wp (prefill_sequence dg m cfg (snd (pins ! row)) pouts (row, i)) (\<lambda>_. I (set dec) ys) E s1"
    if e: "List.enumerate 0 pre = zs @ (row, i) # ys" and inv: "I (set dec) ((row, i) # ys) s1" for row i ys zs s1
  proof -
    note r = row_of_enumerate [OF e]
    have i: "i \<in> set pre" using r(1,2) by auto
    have diff: "set (map snd ((row, i) # ys)) \<union> set dec - {i} = set (map snd ys) \<union> set dec"
      using r(4) [OF dist(1)] i dist(3) by auto
    have row: "pins ! row = prefill_input cfg (qs ! i)" using r(1,2) by (simp add: pins_def)
    have inv': "rows_ok full dg cfg nx lg m TS rs qs (set (map snd ((row, i) # ys)) \<union> set dec) s1" "kept s s1"
      using inv by (simp_all add: I_def)
    show ?thesis
      unfolding row
    proof (rule wp_prefill_sequence [OF inv'(1)])
      show "row < length pouts" "pouts ! row = chunk_row nx lg (fst (prefill_input cfg (qs ! i))) (snd (prefill_input cfg (qs ! i)))"
        using r(1) row by (simp_all add: pouts case_prod_unfold) (simp_all add: pins_def case_prod_unfold)
      show "I (set dec) ys s'" if "rows_ok full dg cfg nx lg m TS rs qs (set (map snd ((row, i) # ys)) \<union> set dec - {i}) s'"
          "kept s1 s'" for s'
        using that kept_trans [OF inv'(2)] unfolding diff by (simp add: I_def)
    qed (use i pre len cf cl full E in auto)
  qed
  have D: "wp (decode_sequence dg m cfg (snd (dins ! row)) douts (row, i)) (\<lambda>_. I {} ys) E s1"
    if e: "List.enumerate 0 dec = zs @ (row, i) # ys" and inv: "I {} ((row, i) # ys) s1" for row i ys zs s1
  proof -
    note r = row_of_enumerate [OF e]
    have i: "i \<in> set dec" using r(1,2) by auto
    have diff: "set (map snd ((row, i) # ys)) \<union> {} - {i} = set (map snd ys) \<union> {}"
      using r(4) [OF dist(2)] by auto
    have row: "dins ! row = (sq_hidden (qs ! i), last (sq_stream (qs ! i)))" using r(1,2) by (simp add: dins_def)
    have inv': "rows_ok full dg cfg nx lg m TS rs qs (set (map snd ((row, i) # ys)) \<union> {}) s1" "kept s s1"
      using inv by (simp_all add: I_def)
    show ?thesis
      unfolding row snd_conv
    proof (rule wp_decode_sequence [OF inv'(1)])
      show "row < length douts" using r(1) by (simp add: douts dins_def)
      show "douts ! row = plain_outcome (nx (sq_hidden (qs ! i)) (last (sq_stream (qs ! i))))
          (lg (sq_hidden (qs ! i)) (last (sq_stream (qs ! i))))"
        using r(1,2) by (simp add: douts dins_def)
      show "I {} ys s'" if "rows_ok full dg cfg nx lg m TS rs qs (set (map snd ((row, i) # ys)) \<union> {} - {i}) s'"
          "kept s1 s'" for s'
        using that kept_trans [OF inv'(2)] unfolding diff by (simp add: I_def)
    qed (use i dec len cf cl E in auto)
  qed
  have run: "run_rows dg m cfg pre dec pins dins =
      bindR (for_each (\<lambda>(row, i). prefill_sequence dg m cfg (snd (pins ! row)) pouts (row, i)) (List.enumerate 0 pre)) (\<lambda>a.
      bindR (for_each (\<lambda>(row, i). decode_sequence dg m cfg (snd (dins ! row)) douts (row, i)) (List.enumerate 0 dec)) (\<lambda>b.
      okR (a @ b)))"
    by (simp add: run_rows_def pouts_def douts_def)
  have "wp (run_rows dg m cfg pre dec pins dins) Q E s"
    unfolding run wp_bindR wp_okR
  proof (rule wp_for_each [where I = "I (set dec)"])
    show "I (set dec) (List.enumerate 0 pre) s" using rows by (simp add: I_def)
    show "wp (case x of (row, i) \<Rightarrow> prefill_sequence dg m cfg (snd (pins ! row)) pouts (row, i)) (\<lambda>_. I (set dec) ys) E s1"
      if "List.enumerate 0 pre = zs @ x # ys" "I (set dec) (x # ys) s1" for x ys zs s1
      using P that by (cases x) auto
  next
    fix a s2 assume "I (set dec) [] s2"
    then have 2: "I {} (List.enumerate 0 dec) s2" by (simp add: I_def)
    show "wp (for_each (\<lambda>(row, i). decode_sequence dg m cfg (snd (dins ! row)) douts (row, i)) (List.enumerate 0 dec))
        (\<lambda>b. Q (a @ b)) E s2"
    proof (rule wp_for_each [where I = "I {}", OF _ 2])
      show "wp (case x of (row, i) \<Rightarrow> decode_sequence dg m cfg (snd (dins ! row)) douts (row, i)) (\<lambda>_. I {} ys) E s1"
        if "List.enumerate 0 dec = zs @ x # ys" "I {} (x # ys) s1" for x ys zs s1
        using D that by (cases x) auto
      show "Q (a @ b) s'" if "I {} [] s'" for b s' using that Q by (simp add: I_def)
    qed
  qed
  then show ?thesis by (simp only: pins_def dins_def)
qed

end
