(* ===== verification/Serve_Admit.thy ===== *)
theory Serve_Admit
  imports Serve_Step
begin

text \<open>
  Admission, sampling at admission and the invariant of the scheduler: the requests it was given are
  those of its sequences followed by those of its queue, and every sequence is where its request
  allows.  The work left over all requests decreases with every step that runs the model.
\<close>

subsection \<open>The walk along resident prefixes\<close>

lemma resident_walk_spec:
  assumes "graph_ok dg cfg TS g" "node_at g k us" "resident_walk (gr_nodes g) cache k depth ts = (k', depth')"
  shows "\<exists>n\<le>length ts. depth' = depth + n \<and> node_at g k' (us @ take n ts)"
  using assms(2,3)
proof (induction ts arbitrary: k us depth)
  case (Cons t ts)
  obtain n where n: "gr_nodes g k = Some n" "node_tokens n = us" using Cons.prems(1) by (auto simp: node_at_def)
  show ?case
  proof (cases "\<exists>c. pn_children n t = Some c \<and> hget cache c \<noteq> None")
    case True
    then obtain c where c: "pn_children n t = Some c" "hget cache c \<noteq> None" by blast
    have at: "node_at g c (us @ [t])" using node_at_child [OF assms(1) n(1) c(1)] n(2) by simp
    have "resident_walk (gr_nodes g) cache c (depth + 1) ts = (k', depth')"
      using Cons.prems(2) n c by simp
    from Cons.IH [OF at this] obtain j where j: "j \<le> length ts" "depth' = depth + 1 + j" "node_at g k' ((us @ [t]) @ take j ts)"
      by blast
    show ?thesis by (rule exI [of _ "Suc j"]) (use j in simp)
  next
    case False
    then have "(k', depth') = (k, depth)" using Cons.prems(2) n by (auto split: option.splits)
    then show ?thesis using Cons.prems(1) by (intro exI [of _ 0]) simp
  qed
qed (simp add: exI [of _ 0])

lemma node_at_tokens: "node_at g k ts \<Longrightarrow> node_at g k us \<Longrightarrow> ts = us"
  by (auto simp: node_at_def)

subsection \<open>The invariant\<close>

text \<open>A queued sequence is as \<open>submit\<close> built it.\<close>

definition fresh :: "serve_model \<Rightarrow> nat \<Rightarrow> request \<Rightarrow> sequence \<Rightarrow> bool" where
  "fresh m i r q \<longleftrightarrow> sq_id q = i \<and> sq_stream q = fst r \<and> sq_max_new q = snd r \<and> sq_consumed q = 0 \<and> sq_state q = Running
     \<and> sq_hidden q = sm_initial_hidden m \<and> sq_pending_logits q = None \<and> sq_generated q = 0"

definition sequences_ok ::
  "bool \<Rightarrow> bool \<Rightarrow> (hidden \<Rightarrow> token \<Rightarrow> hidden) \<Rightarrow> (hidden \<Rightarrow> token \<Rightarrow> logits) \<Rightarrow> serve_model \<Rightarrow> request list \<Rightarrow> serve \<Rightarrow> bool" where
  "sequences_ok hit bare nx lg m rs s \<longleftrightarrow> length (sv_sequences s) + length (sv_queue s) = length rs
     \<and> (\<forall>i<length (sv_sequences s). sq_id (sv_sequences s ! i) = i
          \<and> sequence_ok hit bare nx lg m (sv_graph s) (rs ! i) (sv_sequences s ! i))
     \<and> (\<forall>j<length (sv_queue s). fresh m (length (sv_sequences s) + j) (rs ! (length (sv_sequences s) + j)) (sv_queue s ! j))"

definition serve_inv ::
  "bool \<Rightarrow> bool \<Rightarrow> bool \<Rightarrow> (byte list list \<Rightarrow> digest) \<Rightarrow> serve_config \<Rightarrow> (hidden \<Rightarrow> token \<Rightarrow> hidden) \<Rightarrow> (hidden \<Rightarrow> token \<Rightarrow> logits)
     \<Rightarrow> serve_model \<Rightarrow> token list set \<Rightarrow> request list \<Rightarrow> serve \<Rightarrow> bool" where
  "serve_inv hit bare full dg cfg nx lg m TS rs s \<longleftrightarrow> store_ok full dg cfg nx lg m TS s \<and> closed_under nx lg m TS rs
     \<and> sv_next_id s = length rs \<and> sequences_ok hit bare nx lg m rs s"

lemma sequences_ok_frame:
  "sequences_ok hit bare nx lg m rs s \<Longrightarrow> frame s s' \<Longrightarrow> sequences_ok hit bare nx lg m rs s'"
  unfolding sequences_ok_def frame_def by (auto intro: sequence_ok_grows)

lemma serve_inv_frame:
  "serve_inv hit bare full dg cfg nx lg m TS rs s \<Longrightarrow> frame s s' \<Longrightarrow> store_ok full dg cfg nx lg m TS s' \<Longrightarrow>
   serve_inv hit bare full dg cfg nx lg m TS rs s'"
  unfolding serve_inv_def using sequences_ok_frame [of hit bare nx lg m rs s s'] by (simp add: frame_def)

lemma serve_inv_cache_only:
  "cache_only f \<Longrightarrow> serve_inv hit bare full dg cfg nx lg m TS rs s \<Longrightarrow> serve_inv hit bare full dg cfg nx lg m TS rs (f s)"
  using serve_inv_frame cache_onlyD unfolding serve_inv_def by metis

lemma serve_inv_weaken:
  assumes "serve_inv hit bare full dg cfg nx lg m TS rs s" "hit \<longrightarrow> hit'" "bare \<longrightarrow> bare'"
  shows "serve_inv hit' bare' full dg cfg nx lg m TS rs s"
proof -
  have "sequence_ok hit' bare' nx lg m g r q" if "sequence_ok hit bare nx lg m g r q" for g r q
    by (rule sequence_ok_weaken [OF that assms(2,3)])
  then show ?thesis using assms(1) by (simp add: serve_inv_def sequences_ok_def)
qed

subsection \<open>The work left\<close>

definition seq_work :: "sequence \<Rightarrow> nat" where
  "seq_work q = (if sq_finished q then 0 else Suc (sq_prompt_len q + sq_max_new q) - sq_consumed q)"

definition remaining :: "serve \<Rightarrow> nat" where
  "remaining s = sum_list (map seq_work (sv_sequences s)) + sum_list (map seq_work (sv_queue s)) + length (sv_queue s)"

lemma stream_ok_work:
  "stream_ok nx lg m r q \<Longrightarrow> \<not> sq_finished q \<Longrightarrow> seq_work q = Suc (length (fst r) + snd r) - sq_consumed q"
  using stream_ok_prompt [of nx lg m r q] by (simp add: seq_work_def stream_ok_def)

lemma sequence_ok_bound:
  "sequence_ok hit bare nx lg m g r q \<Longrightarrow> \<not> sq_finished q \<Longrightarrow> sq_consumed q \<le> length (fst r) + snd r"
  by (auto simp: sequence_ok_def place_ok_def stream_ok_def)

lemma sequence_ok_work_pos: "sequence_ok hit bare nx lg m g r q \<Longrightarrow> \<not> sq_finished q \<Longrightarrow> 0 < seq_work q"
  using sequence_ok_bound [of hit bare nx lg m g r q] stream_ok_work [of nx lg m r q] by (simp add: sequence_ok_def)

lemma advanced_work:
  assumes "sequence_ok hit bare nx lg m g r q" "sequence_ok hit' bare' nx lg m g' r q'" "advanced q q'"
  shows "\<not> sq_finished q \<Longrightarrow> seq_work q' < seq_work q"
proof -
  assume run: "\<not> sq_finished q"
  have w: "seq_work q = Suc (length (fst r) + snd r) - sq_consumed q" "0 < seq_work q"
    using stream_ok_work [OF _ run] sequence_ok_work_pos [OF assms(1) run] assms(1) by (auto simp: sequence_ok_def)
  show "seq_work q' < seq_work q"
  proof (cases "sq_finished q'")
    case True
    then show ?thesis using w by (simp add: seq_work_def)
  next
    case False
    then have "seq_work q' = Suc (length (fst r) + snd r) - sq_consumed q'" "sq_consumed q < sq_consumed q'"
      using stream_ok_work [OF _ False] assms(2,3) by (auto simp: sequence_ok_def advanced_def)
    then show ?thesis using w by linarith
  qed
qed

subsection \<open>Admitting one sequence\<close>

lemma fresh_prompt: "fresh m i r q \<Longrightarrow> sq_prompt q = fst r \<and> sq_prompt_len q = length (fst r)"
  by (simp add: fresh_def sq_prompt_def sq_prompt_len_def)

lemma fresh_stream: "fresh m i r q \<Longrightarrow> stream_ok nx lg m r q"
  by (simp add: fresh_def stream_ok_def sq_finished_def reference_def)

lemma restart_ok:
  assumes "fresh m i r q" "node_at g root []" "fst r \<noteq> []"
  shows "sequence_ok hit bare nx lg m g r (restart_sequence root (sm_initial_hidden m) q)"
    "sq_id (restart_sequence root (sm_initial_hidden m) q) = i"
    "seq_work (restart_sequence root (sm_initial_hidden m) q) = seq_work q"
  using assms by (auto simp: sequence_ok_def place_ok_def stream_ok_def restart_sequence_def fresh_def sq_finished_def
      reference_def seq_work_def sq_prompt_len_def sq_prompt_def)

lemma resume_ok:
  assumes f: "fresh m i r q" and at: "node_at g k (take d (fst r))" and d: "d \<le> length (fst r)"
    and c: "entry_ok full nx lg m g k c"
  shows "sequence_ok True (\<not> full) nx lg m g r (resume_sequence k d c q)"
    "sq_id (resume_sequence k d c q) = i" "seq_work (resume_sequence k d c q) \<le> seq_work q"
proof -
  have p: "sq_prompt_len q = length (fst r)" using fresh_prompt [OF f] by simp
  obtain ts where ts: "node_at g k ts" "cs_hidden c = state_after nx m ts"
      "cs_logits c \<in> {None, Some (predict nx lg m ts)}" "full \<longrightarrow> cs_logits c \<noteq> None"
    using c by (auto simp: entry_ok_def)
  have eq: "ts = take d (fst r)" by (rule node_at_tokens [OF ts(1) at])
  show "sequence_ok True (\<not> full) nx lg m g r (resume_sequence k d c q)"
  proof (cases "d < length (fst r)")
    case True
    with f at ts(2) eq p show ?thesis
      by (auto simp: sequence_ok_def place_ok_def stream_ok_def resume_sequence_def fresh_def sq_finished_def reference_def)
  next
    case False
    with d have "d = length (fst r)" by simp
    with f at ts eq p show ?thesis
      by (auto simp: sequence_ok_def place_ok_def stream_ok_def resume_sequence_def fresh_def sq_finished_def reference_def)
  qed
  show "sq_id (resume_sequence k d c q) = i" "seq_work (resume_sequence k d c q) \<le> seq_work q"
    using f by (auto simp: resume_sequence_def fresh_def seq_work_def sq_finished_def sq_prompt_len_def sq_prompt_def)
qed

lemma sequences_ok_push:
  assumes "sequences_ok hit bare nx lg m rs s" "sv_queue s = q # qs" "frame (s\<lparr> sv_queue := qs \<rparr>) s'"
    and "sequence_ok hit bare nx lg m (sv_graph s') (rs ! length (sv_sequences s)) q'" "sq_id q' = length (sv_sequences s)"
  shows "sequences_ok hit bare nx lg m rs (push_sequence q' s')"
proof -
  have s': "sv_sequences s' = sv_sequences s" "sv_queue s' = qs" "grows (gr_nodes (sv_graph s)) (gr_nodes (sv_graph s'))"
    using assms(3) by (simp_all add: frame_def)
  have queue: "fresh m (Suc (length (sv_sequences s) + j)) (rs ! Suc (length (sv_sequences s) + j)) (qs ! j)"
    if "j < length qs" for j
    using assms(1,2) that by (auto simp: sequences_ok_def dest: spec [of _ "Suc j"])
  have seqs: "sq_id (sv_sequences s ! i) = i \<and> sequence_ok hit bare nx lg m (sv_graph s') (rs ! i) (sv_sequences s ! i)"
    if "i < length (sv_sequences s)" for i
    using assms(1) that s'(3) by (auto simp: sequences_ok_def intro: sequence_ok_grows)
  show ?thesis
    using assms(1,2,4,5) queue seqs by (auto simp: sequences_ok_def push_sequence_def s' nth_append less_Suc_eq)
qed

lemma wp_admit_sequence:
  assumes inv: "serve_inv True (\<not> full) full dg cfg nx lg m TS rs s" and q: "sv_queue s = q # qs"
    and Q: "\<And>s' q'. serve_inv True (\<not> full) full dg cfg nx lg m TS rs s' \<Longrightarrow> sv_queue s' = qs \<Longrightarrow>
       sv_sequences s' = sv_sequences s @ [q'] \<Longrightarrow> seq_work q' \<le> seq_work q \<Longrightarrow> Q () s'"
  shows "wp (admit_sequence m cfg q) Q E (s\<lparr> sv_queue := qs \<rparr>)"
proof -
  define s0 n r where "s0 = s\<lparr> sv_queue := qs \<rparr>" and "n = length (sv_sequences s)" and "r = rs ! n"
  have st: "store_ok full dg cfg nx lg m TS s0" using inv by (simp add: s0_def serve_inv_def store_ok_def)
  have f: "fresh m n r q" and n: "n < length rs"
    using inv q by (auto simp: serve_inv_def sequences_ok_def n_def r_def dest: spec [of _ 0])
  have ne: "fst r \<noteq> []" using inv n by (auto simp: serve_inv_def closed_under_def r_def)
  obtain k d where w: "longest_prefix (sq_prompt q) s0 = (k, d)" by (cases "longest_prefix (sq_prompt q) s0")
  have ok: "graph_ok dg cfg TS (sv_graph s0)" "node_at (sv_graph s0) (sv_root s0) []" using st by (simp_all add: store_ok_def)
  have d: "d \<le> length (fst r)" "node_at (sv_graph s0) k (take d (fst r))"
  proof -
    have "resident_walk (gr_nodes (sv_graph s0)) (sv_cache s0) (sv_root s0) 0 (fst r) = (k, d)"
      using w fresh_prompt [OF f] by (simp add: longest_prefix_def)
    from resident_walk_spec [OF ok this] obtain n where "n \<le> length (fst r)" "d = 0 + n"
        "node_at (sv_graph s0) k ([] @ take n (fst r))" by blast
    then show "d \<le> length (fst r)" "node_at (sv_graph s0) k (take d (fst r))" by simp_all
  qed
  have seqs: "sequences_ok True (\<not> full) nx lg m rs s" using inv by (simp add: serve_inv_def)
  have final: "Q () (push_sequence q' s')"
    if "store_ok full dg cfg nx lg m TS s'" "frame s0 s'" "sequence_ok True (\<not> full) nx lg m (sv_graph s') r q'"
      "sq_id q' = n" "seq_work q' \<le> seq_work q" for q' s'
  proof (rule Q [OF _ _ _ that(5)])
    have "sequences_ok True (\<not> full) nx lg m rs (push_sequence q' s')"
      by (rule sequences_ok_push [OF seqs q]) (use that in \<open>simp_all add: s0_def n_def r_def\<close>)
    then show "serve_inv True (\<not> full) full dg cfg nx lg m TS rs (push_sequence q' s')"
      using that(1,2) inv by (simp add: serve_inv_def push_sequence_def store_ok_def frame_def s0_def)
  qed (use that(2) in \<open>simp_all add: frame_def s0_def push_sequence_def\<close>)
  show ?thesis
    unfolding s0_def [symmetric]
  proof (cases "hget (sv_cache s0) k")
    case None
    have 1: "store_ok full dg cfg nx lg m TS (note_miss s0) \<and> frame s0 (note_miss s0)"
      by (rule cache_onlyD [OF cache_only_telemetry(2) st])
    have same: "sv_root (note_miss s0) = sv_root s0" using 1 by (simp add: frame_def)
    have at: "node_at (sv_graph (note_miss s0)) (sv_root s0) []" using frame_node_at ok(2) 1 by blast
    have "Q () (push_sequence (restart_sequence (sv_root s0) (sm_initial_hidden m) q) (note_miss s0))"
      by (rule final) (use 1 restart_ok [OF f at ne] in simp_all)
    then show "wp (admit_sequence m cfg q) Q E s0" using None w by (simp add: admit_sequence_def step_simps)
  next
    case (Some c)
    let ?s1 = "note_hit d (sq_prompt_len q) s0" and ?q = "resume_sequence k d c q"
    let ?s2 = "touch_cached k ?s1"
    have 1: "store_ok full dg cfg nx lg m TS ?s1 \<and> frame s0 ?s1"
      by (rule cache_onlyD [OF cache_only_telemetry(1) st])
    have 2: "store_ok full dg cfg nx lg m TS ?s2 \<and> frame ?s1 ?s2"
      by (rule cache_onlyD [OF cache_only_pins(3)]) (use 1 in blast)
    have fr: "frame s0 ?s2" using 1 2 frame_trans by blast
    have c: "entry_ok full nx lg m (sv_graph s0) k c" by (rule store_ok_entry [OF st Some])
    have push: "Q () (push_sequence ?q s')" if "store_ok full dg cfg nx lg m TS s'" "frame ?s2 s'" for s'
    proof -
      have f': "frame s0 s'" by (rule frame_trans [OF fr that(2)])
      then have g: "grows (gr_nodes (sv_graph s0)) (gr_nodes (sv_graph s'))" by (simp add: frame_def)
      show ?thesis
        by (rule final [OF that(1) f']) (use resume_ok [OF f node_at_grows [OF g d(2)] d(1) entry_ok_grows [OF c g]] in simp_all)
    qed
    have "wp (if sc_pin_live_nodes cfg then pin_path k else okR ()) (\<lambda>_. wp (modR (push_sequence ?q)) Q E) E ?s2"
    proof (cases "sc_pin_live_nodes cfg")
      case True
      have "wp (walk_up pin_node k) (\<lambda>_. wp (modR (push_sequence ?q)) Q E) E ?s2"
        by (rule wp_walk_up [OF cache_only_pins(1)]) (use 2 frame_node_at [OF fr d(2)] push in \<open>auto simp: step_simps\<close>)
      with True show ?thesis by (simp add: pin_path_def)
    next
      case False
      then show ?thesis using push 2 by (simp add: step_simps)
    qed
    then show "wp (admit_sequence m cfg q) Q E s0" using Some w by (simp add: admit_sequence_def step_simps)
  qed
qed

end
