(* ===== verification/Serve_Correct.thy ===== *)
theory Serve_Correct
  imports Serve_Admit
begin

text \<open>
  The scheduler as a whole: what one step does, and what follows for every run of the scheduler.
\<close>

subsection \<open>Admission\<close>

lemma remaining_frame: "frame s s' \<Longrightarrow> remaining s' = remaining s"
  by (simp add: frame_def remaining_def)

lemma wp_admit_from:
  assumes "serve_inv True (\<not> full) full dg cfg nx lg m TS rs s" "sv_queue s = qs"
    and "\<And>s'. serve_inv True (\<not> full) full dg cfg nx lg m TS rs s' \<Longrightarrow> \<exists>new. sv_sequences s' = sv_sequences s @ new \<Longrightarrow>
       remaining s' \<le> remaining s \<Longrightarrow> (admission_open m cfg s \<and> qs \<noteq> [] \<longrightarrow> remaining s' < remaining s) \<Longrightarrow> Q () s'"
  shows "wp (admit_from m cfg qs) Q E s"
  using assms
proof (induction qs arbitrary: s Q)
  case Nil
  then show ?case by (simp add: step_simps)
next
  case (Cons q qs)
  show ?case
  proof (cases "admission_open m cfg s")
    case False
    then show ?thesis using Cons.prems by (simp add: step_simps)
  next
    case True
    have "wp (admit_sequence m cfg q) (\<lambda>_. wp (admit_from m cfg qs) Q E) E (s\<lparr> sv_queue := qs \<rparr>)"
    proof (rule wp_admit_sequence [OF Cons.prems(1,2)])
      fix s' q' assume s': "serve_inv True (\<not> full) full dg cfg nx lg m TS rs s'" "sv_queue s' = qs"
        "sv_sequences s' = sv_sequences s @ [q']" "seq_work q' \<le> seq_work q"
      have less: "remaining s' < remaining s" using s' Cons.prems(2) by (simp add: remaining_def)
      show "wp (admit_from m cfg qs) Q E s'"
      proof (rule Cons.IH [OF s'(1,2)])
        fix t assume t: "serve_inv True (\<not> full) full dg cfg nx lg m TS rs t" "\<exists>new. sv_sequences t = sv_sequences s' @ new"
          "remaining t \<le> remaining s'"
        show "Q () t" by (rule Cons.prems(3) [OF t(1)]) (use t less s'(3) in auto)
      qed
    qed
    with True show ?thesis by (simp add: step_simps)
  qed
qed

subsection \<open>Sampling at admission\<close>

lemma sample_pending_ok:
  assumes ok: "sequence_ok True bare nx lg m g r q" and s: "sample_pending (sm_eos m) q = (q', a, b)"
  shows "sequence_ok False bare nx lg m g r q' \<and> sq_id q' = sq_id q \<and> seq_work q' \<le> seq_work q"
proof (cases "sq_finished q \<or> sq_pending_logits q = None")
  case True
  then have "q' = q" using s by (auto simp: sample_pending_def split: if_splits)
  moreover have "sequence_ok False bare nx lg m g r q"
    using ok True by (auto simp: sequence_ok_def place_ok_def)
  ultimately show ?thesis by simp
next
  case False
  then have run: "\<not> sq_finished q" and st: "stream_ok nx lg m r q" using ok by (simp_all add: sequence_ok_def)
  obtain k ts where at: "sq_node q = Some k" "node_at g k ts" "ts = take (sq_consumed q) (sq_stream q)"
      and h: "sq_hidden q = state_after nx m (take (sq_consumed q) (sq_stream q))" and p: "place_ok True bare nx lg m r q"
    using ok run by (auto simp: sequence_ok_def)
  have hit: "sq_generated q = 0" "sq_consumed q = length (fst r)" "sq_pending_logits q = Some (predict nx lg m (fst r))"
    using p False by (auto simp: place_ok_def)
  have stream: "sq_stream q = fst r" "sq_max_new q = snd r" "reference nx lg m r = greedy nx lg m (snd r) (fst r)"
    "sq_prompt_len q = length (fst r)"
    using st run hit(1) stream_ok_prompt [OF st run] by (auto simp: stream_ok_def)
  show ?thesis
  proof (cases "0 < snd r")
    case True
    define q1 where "q1 = q\<lparr> sq_pending_logits := None \<rparr>"
    have q1: "stream_ok nx lg m r q1" "\<not> sq_finished q1" "sq_generated q1 < snd r" "sq_stream q1 = fst r"
      "sq_consumed q1 = length (fst r)" "sq_node q1 = Some k" "sq_hidden q1 = sq_hidden q" "sq_pending_logits q1 = None"
      "sq_id q1 = sq_id q" "seq_work q1 = seq_work q" "sq_max_new q1 = snd r" "sq_prompt_len q1 = length (fst r)"
      using st run True hit at stream
      by (simp_all add: q1_def stream_ok_def sq_finished_def seq_work_def sq_prompt_len_def sq_prompt_def)
    obtain sampled where sg: "sample_greedy (sm_eos m) (predict nx lg m (sq_stream q1)) q1 = (sampled, q')"
      using s run hit stream True by (auto simp: sample_pending_def q1_def split: prod.splits)
    note post = sample_greedy_ok [OF q1(1,2,3) sg]
    have "sequence_ok False bare nx lg m g r q'"
      using post q1 at h stream(1) hit(1,2) st True by (auto simp: sequence_ok_def place_ok_def stream_ok_def)
    moreover have "seq_work q' \<le> seq_work q"
    proof (cases "sq_finished q'")
      case False
      then have "seq_work q' = Suc (length (fst r) + snd r) - sq_consumed q'"
        using stream_ok_work post by blast
      moreover have "seq_work q = Suc (length (fst r) + snd r) - sq_consumed q" by (rule stream_ok_work [OF st run])
      ultimately show ?thesis using post q1(5) hit(2) by simp
    qed (simp add: seq_work_def)
    ultimately show ?thesis using post q1(9) by simp
  next
    case none: False
    then have "q' = q\<lparr> sq_state := Finished \<rparr>" using s run hit stream by (simp add: sample_pending_def)
    then show ?thesis using at stream none by (auto simp: sequence_ok_def stream_ok_def sq_finished_def seq_work_def)
  qed
qed

lemma sample_pending_none: "sq_pending_logits q = None \<Longrightarrow> sample_pending eos q = (q, False, False)"
  by (simp add: sample_pending_def)

lemma sum_list_le:
  assumes "length ys = length xs" "\<And>i. i < length xs \<Longrightarrow> f (ys ! i) \<le> (f (xs ! i) :: nat)"
  shows "sum_list (map f ys) \<le> sum_list (map f xs)"
  using assms by (auto simp: sum_list_sum_nth intro: sum_mono)

lemma sum_list_less:
  assumes "length ys = length xs" "\<And>i. i < length xs \<Longrightarrow> f (ys ! i) \<le> (f (xs ! i) :: nat)"
    and "j < length xs" "f (ys ! j) < f (xs ! j)"
  shows "sum_list (map f ys) < sum_list (map f xs)"
proof -
  have "(\<Sum>i = 0..<length xs. f (ys ! i)) < (\<Sum>i = 0..<length xs. f (xs ! i))"
    by (rule sum_strict_mono_ex1) (use assms in auto)
  then show ?thesis by (simp add: sum_list_sum_nth assms(1))
qed

lemma wp_sample_admitted:
  assumes inv: "serve_inv True (\<not> full) full dg cfg nx lg m TS rs s"
    and Q: "\<And>x s'. serve_inv False (\<not> full) full dg cfg nx lg m TS rs s' \<Longrightarrow> remaining s' \<le> remaining s \<Longrightarrow>
       \<forall>i\<in>set (snd x). i < length (sv_sequences s') \<Longrightarrow> sv_queue s' = sv_queue s \<Longrightarrow>
       (\<forall>i<length (sv_sequences s). sq_pending_logits (sv_sequences s ! i) = None \<longrightarrow>
          i < length (sv_sequences s') \<and> sv_sequences s' ! i = sv_sequences s ! i) \<Longrightarrow> Q x s'"
  shows "wp (sample_admitted m) Q E s"
proof -
  define xs where "xs = map (sample_pending (sm_eos m)) (sv_sequences s)"
  define s' where "s' = s\<lparr> sv_sequences := map fst xs \<rparr>"
  have len: "length xs = length (sv_sequences s)" by (simp add: xs_def)
  have seq: "sequence_ok False (\<not> full) nx lg m (sv_graph s) (rs ! i) (sv_sequences s' ! i)
      \<and> sq_id (sv_sequences s' ! i) = sq_id (sv_sequences s ! i) \<and> seq_work (sv_sequences s' ! i) \<le> seq_work (sv_sequences s ! i)"
    if i: "i < length (sv_sequences s)" for i
  proof -
    have "sequence_ok True (\<not> full) nx lg m (sv_graph s) (rs ! i) (sv_sequences s ! i)"
      using inv i by (simp add: serve_inv_def sequences_ok_def)
    moreover obtain q' a b where "sample_pending (sm_eos m) (sv_sequences s ! i) = (q', a, b)"
      by (cases "sample_pending (sm_eos m) (sv_sequences s ! i)")
    moreover from this have "sv_sequences s' ! i = q'" using i by (simp add: s'_def xs_def)
    ultimately show ?thesis using sample_pending_ok by blast
  qed
  have inv': "serve_inv False (\<not> full) full dg cfg nx lg m TS rs s'"
    using inv seq len by (simp add: serve_inv_def sequences_ok_def store_ok_def s'_def)
  have "sum_list (map seq_work (sv_sequences s')) \<le> sum_list (map seq_work (sv_sequences s))"
    by (rule sum_list_le) (use seq len in \<open>simp_all add: s'_def\<close>)
  then have rem: "remaining s' \<le> remaining s" by (simp add: remaining_def s'_def)
  have "Q (length (filter (\<lambda>(_, sampled, _). sampled) xs), indices_where (\<lambda>(_, _, fin). fin) xs) s'"
    by (rule Q [OF inv' rem]) (auto simp: indices_where_def s'_def xs_def sample_pending_none)
  then show ?thesis by (simp add: sample_admitted_def step_simps xs_def s'_def)
qed

subsection \<open>The end of a step\<close>

definition all_finished :: "serve \<Rightarrow> bool" where
  "all_finished s \<longleftrightarrow> (\<forall>q\<in>set (sv_sequences s). sq_finished q)"

definition swept :: "serve_config \<Rightarrow> serve \<Rightarrow> bool" where
  "swept cfg s \<longleftrightarrow> (case sc_max_cache_bytes cfg of None \<Rightarrow> True
     | Some budget \<Rightarrow> sv_cache_bytes s \<le> budget \<or> (\<forall>(k, c)\<in>set (sv_cache s). cs_pinned c \<noteq> 0))"

lemma swept_evict: "swept cfg (evict_to_budget rk cfg s)"
  using evict_loop_result by (simp add: swept_def evict_to_budget_def split: option.splits)

lemma wp_unpin_all:
  assumes "serve_inv False False full dg cfg nx lg m TS rs s" "\<forall>i\<in>set idx. i < length (sv_sequences s)"
    and "\<And>x s'. store_ok full dg cfg nx lg m TS s' \<Longrightarrow> frame s s' \<Longrightarrow> Q x s'"
  shows "wp (for_each unpin_sequence idx) Q E s"
proof (rule wp_for_each [where I = "\<lambda>_ s'. store_ok full dg cfg nx lg m TS s' \<and> frame s s'"])
  show "store_ok full dg cfg nx lg m TS s \<and> frame s s" using assms(1) by (simp add: serve_inv_def)
  fix i zs ys s1 assume i: "idx = zs @ i # ys" and s1: "store_ok full dg cfg nx lg m TS s1 \<and> frame s s1"
  have "i < length (sv_sequences s)" using assms(2) i by simp
  then have "sequence_ok False False nx lg m (sv_graph s) (rs ! i) (sv_sequences s ! i)"
    using assms(1) by (simp add: serve_inv_def sequences_ok_def)
  then obtain k ts where k: "sq_node (sv_sequences s ! i) = Some k" "node_at (sv_graph s) k ts"
    by (auto simp: sequence_ok_def)
  have same: "sv_sequences s1 = sv_sequences s" using s1 by (simp add: frame_def)
  have "wp (walk_up unpin_node k) (\<lambda>_ s'. store_ok full dg cfg nx lg m TS s' \<and> frame s s') E s1"
    by (rule wp_walk_up [OF cache_only_pins(2)]) (use s1 frame_node_at [OF _ k(2)] frame_trans in blast)+
  then show "wp (unpin_sequence i) (\<lambda>_ s'. store_ok full dg cfg nx lg m TS s' \<and> frame s s') E s1"
    using k(1) same by (simp add: unpin_sequence_def step_simps unpin_path_def)
qed (use assms(3) in auto)

lemma wp_release_and_sweep:
  assumes inv: "serve_inv False False full dg cfg nx lg m TS rs s" and idx: "\<forall>i\<in>set idx. i < length (sv_sequences s)"
    and Q: "\<And>s'. serve_inv False False full dg cfg nx lg m TS rs s' \<Longrightarrow> frame s s' \<Longrightarrow> swept cfg s' \<Longrightarrow> Q () s'"
  shows "wp (release_and_sweep rk cfg idx) Q E s"
  unfolding release_and_sweep_def wp_thenR wp_modR
proof (rule wp_unpin_all [OF inv idx])
  fix x s1 assume s1: "store_ok full dg cfg nx lg m TS s1" "frame s s1"
  have 2: "store_ok full dg cfg nx lg m TS (evict_to_budget rk cfg s1) \<and> frame s1 (evict_to_budget rk cfg s1)"
    by (rule cache_onlyD [OF cache_only_evict s1(1)])
  have fr: "frame s (evict_to_budget rk cfg s1)" using frame_trans [OF s1(2)] 2 by blast
  show "Q () (evict_to_budget rk cfg s1)"
    by (rule Q [OF serve_inv_frame [OF inv fr] fr swept_evict]) (use 2 in blast)
qed

text \<open>The rows of a step: the running sequences prefill or decode, the finished ones stay.\<close>

lemma rows_ok_start:
  assumes inv: "serve_inv False (\<not> full) full dg cfg nx lg m TS rs s"
    and T: "\<forall>i<length (sv_sequences s). i \<in> T \<longleftrightarrow> \<not> sq_finished (sv_sequences s ! i)"
  shows "rows_ok full dg cfg nx lg m TS rs (sv_sequences s) T s"
  unfolding rows_ok_def
proof (intro conjI allI impI refl)
  show "store_ok full dg cfg nx lg m TS s" using inv by (simp add: serve_inv_def)
  fix i assume i: "i < length (sv_sequences s)"
  then have "sequence_ok False (\<not> full) nx lg m (sv_graph s) (rs ! i) (sv_sequences s ! i)"
    using inv by (simp add: serve_inv_def sequences_ok_def)
  then show "if i \<in> T then sv_sequences s ! i = sv_sequences s ! i
      \<and> sequence_ok False (\<not> full) nx lg m (sv_graph s) (rs ! i) (sv_sequences s ! i)
     else sequence_ok False False nx lg m (sv_graph s) (rs ! i) (sv_sequences s ! i)
      \<and> advanced (sv_sequences s ! i) (sv_sequences s ! i)"
    using T i by (auto simp: sequence_ok_def advanced_def)
qed

lemma rows_ok_end:
  assumes inv: "serve_inv False (\<not> full) full dg cfg nx lg m TS rs s"
    and rows: "rows_ok full dg cfg nx lg m TS rs (sv_sequences s) {} s'" and kept: "kept s s'"
  shows "serve_inv False False full dg cfg nx lg m TS rs s'" "remaining s' \<le> remaining s"
    "\<not> all_finished s \<Longrightarrow> remaining s' < remaining s"
proof -
  let ?qs = "sv_sequences s" and ?qs' = "sv_sequences s'"
  have len: "length ?qs' = length ?qs" using rows by (simp add: rows_ok_def)
  have old: "sequence_ok False (\<not> full) nx lg m (sv_graph s) (rs ! i) (?qs ! i)" "sq_id (?qs ! i) = i" if "i < length ?qs" for i
    using inv that by (simp_all add: serve_inv_def sequences_ok_def)
  have new: "sequence_ok False False nx lg m (sv_graph s') (rs ! i) (?qs' ! i)" "advanced (?qs ! i) (?qs' ! i)"
    if "i < length ?qs" for i
    using rows that by (simp_all add: rows_ok_def)
  have same: "sv_queue s' = sv_queue s" "sv_next_id s' = sv_next_id s" using kept by (simp_all add: kept_def)
  show "serve_inv False False full dg cfg nx lg m TS rs s'"
    using inv rows new old(2) unfolding serve_inv_def sequences_ok_def same len by (simp add: rows_ok_def advanced_def)
  have less: "seq_work (?qs' ! i) < seq_work (?qs ! i)" if "i < length ?qs" "\<not> sq_finished (?qs ! i)" for i
    by (rule advanced_work [OF old(1) [OF that(1)] new(1) [OF that(1)] new(2) [OF that(1)] that(2)])
  have stays: "seq_work (?qs' ! i) \<le> seq_work (?qs ! i)" if "i < length ?qs" for i
  proof (cases "sq_finished (?qs ! i)")
    case True
    then have "sq_finished (?qs' ! i)" using new(2) [OF that] by (simp add: advanced_def)
    then show ?thesis by (simp add: seq_work_def)
  next
    case False
    with less that show ?thesis by (simp add: less_imp_le)
  qed
  have sum: "sum_list (map seq_work ?qs') \<le> sum_list (map seq_work ?qs)" by (rule sum_list_le [OF len stays])
  then show "remaining s' \<le> remaining s" by (simp add: remaining_def same)
  assume "\<not> all_finished s"
  then obtain i where "i < length ?qs" "\<not> sq_finished (?qs ! i)"
    by (auto simp: all_finished_def in_set_conv_nth)
  with less have "sum_list (map seq_work ?qs') < sum_list (map seq_work ?qs)"
    using sum_list_less [OF len stays] by blast
  then show "remaining s' < remaining s" by (simp add: remaining_def same)
qed

lemma all_finished_inv:
  assumes "serve_inv False bare full dg cfg nx lg m TS rs s" "all_finished s"
  shows "serve_inv False False full dg cfg nx lg m TS rs s"
proof -
  have "sequence_ok False False nx lg m (sv_graph s) (rs ! i) (sv_sequences s ! i)" if "i < length (sv_sequences s)" for i
  proof -
    have "sequence_ok False bare nx lg m (sv_graph s) (rs ! i) (sv_sequences s ! i)" "sq_finished (sv_sequences s ! i)"
      using assms that by (simp_all add: serve_inv_def sequences_ok_def all_finished_def)
    then show ?thesis by (simp add: sequence_ok_def)
  qed
  then show ?thesis using assms(1) by (simp add: serve_inv_def sequences_ok_def)
qed

subsection \<open>One step\<close>

text \<open>Admission is possible when nothing is running.\<close>

definition roomy :: "serve_model \<Rightarrow> serve_config \<Rightarrow> bool" where
  "roomy m cfg \<longleftrightarrow> 0 < sc_max_batch cfg \<and> (case sc_max_live_state_bytes cfg of None \<Rightarrow> True
     | Some budget \<Rightarrow> length (sm_initial_hidden m) * 4 \<le> budget)"

lemma roomy_open: "roomy m cfg \<Longrightarrow> all_finished s \<Longrightarrow> admission_open m cfg s"
proof -
  assume "roomy m cfg" "all_finished s"
  moreover from this have "serve_live s = 0" by (simp add: serve_live_def all_finished_def)
  ultimately show ?thesis by (simp add: roomy_def admission_open_def split: option.splits)
qed

text \<open>A step that has sequences to run, and one that has none.\<close>

lemma subset_append_less:
  "set xs \<subseteq> set ys \<Longrightarrow> \<forall>i\<in>set ys. i < (n :: nat) \<Longrightarrow> \<forall>i\<in>set zs. i < n \<Longrightarrow> \<forall>i\<in>set (xs @ zs). i < n"
  by auto

lemma wp_busy_step:
  assumes model: "plain_model nx lg m" and cf: "collision_free dg (served_ids cfg TS)"
    and full: "full \<longrightarrow> sc_prefill_chunk cfg \<le> 1" and inv: "serve_inv False (\<not> full) full dg cfg nx lg m TS rs s"
    and fin: "\<forall>i\<in>set fin0. i < length (sv_sequences s)" and busy: "\<not> all_finished s"
    and Q: "\<And>rep s'. serve_inv False False full dg cfg nx lg m TS rs s' \<Longrightarrow> remaining s' < remaining s \<Longrightarrow>
       sr_kind rep \<noteq> StepIdle \<Longrightarrow> swept cfg s' \<Longrightarrow> Q rep s'"
    and E: "\<And>e s'. \<not> (full \<and> well_configured cfg) \<Longrightarrow> E e s'"
  shows "wp (busy_step dg rk m cfg sampled fin0 (sv_sequences s)) Q E s"
proof -
  let ?qs = "sv_sequences s"
  define running where "running = indices_where (\<lambda>q. \<not> sq_finished q) ?qs"
  define pre where "pre = filter (\<lambda>i. sq_consumed (?qs ! i) < sq_prompt_len (?qs ! i)) running"
  define dec where "dec = filter (\<lambda>i. \<not> sq_consumed (?qs ! i) < sq_prompt_len (?qs ! i)) running"
  define pins where "pins = map (\<lambda>i. prefill_input cfg (?qs ! i)) pre"
  define dins where "dins = map (\<lambda>i. (sq_hidden (?qs ! i), last (sq_stream (?qs ! i)))) dec"
  have rset: "i \<in> set running \<longleftrightarrow> i < length ?qs \<and> \<not> sq_finished (?qs ! i)" for i
    by (auto simp: running_def indices_where_def)
  have dist: "distinct pre" "distinct dec" "set pre \<inter> set dec = {}"
    by (auto simp: pre_def dec_def running_def indices_where_def)
  have union: "i \<in> set pre \<union> set dec \<longleftrightarrow> i \<in> set running" for i by (auto simp: pre_def dec_def)
  have rows: "rows_ok full dg cfg nx lg m TS rs ?qs (set pre \<union> set dec) s"
    by (rule rows_ok_start [OF inv]) (use union rset in blast)
  have cl: "closed_under nx lg m TS rs" and len: "length ?qs \<le> length rs"
    using inv by (auto simp: serve_inv_def sequences_ok_def)
  have "wp (run_rows dg m cfg pre dec pins dins)
     (\<lambda>rows. wp (thenR (release_and_sweep rk cfg (map snd (filter fst (zip (map snd rows) (pre @ dec))) @ fin0))
        (getsR (busy_report m sampled pins dins rows))) Q E) E s"
    unfolding pins_def dins_def
  proof (rule wp_run_rows [OF model cf cl len full rows dist], fold pins_def dins_def)
    show "\<forall>i\<in>set pre. i < length ?qs \<and> \<not> sq_finished (?qs ! i) \<and> sq_consumed (?qs ! i) < sq_prompt_len (?qs ! i)"
      "\<forall>i\<in>set dec. i < length ?qs \<and> \<not> sq_finished (?qs ! i) \<and> \<not> sq_consumed (?qs ! i) < sq_prompt_len (?qs ! i)"
      using rset by (auto simp: pre_def dec_def)
    fix rows :: "row_result list" and s3 assume s3: "rows_ok full dg cfg nx lg m TS rs ?qs {} s3" "kept s s3"
    note post = rows_ok_end [OF inv s3]
    have len3: "length (sv_sequences s3) = length ?qs" using s3(1) by (simp add: rows_ok_def)
    have "set (map snd (filter fst (zip (map snd rows) (pre @ dec)))) \<subseteq> set (pre @ dec)" by (auto dest: set_zip_rightD)
    from this have idx: "\<forall>i\<in>set (map snd (filter fst (zip (map snd rows) (pre @ dec))) @ fin0). i < length (sv_sequences s3)"
    proof (rule subset_append_less)
      show "\<forall>i\<in>set (pre @ dec). i < length (sv_sequences s3)"
        using union rset len3 unfolding set_append by metis
      show "\<forall>i\<in>set fin0. i < length (sv_sequences s3)" using fin len3 by simp
    qed
    show "wp (thenR (release_and_sweep rk cfg (map snd (filter fst (zip (map snd rows) (pre @ dec))) @ fin0))
        (getsR (busy_report m sampled pins dins rows))) Q E s3"
      unfolding wp_thenR wp_getsR
    proof (rule wp_release_and_sweep [OF post(1) idx])
      fix s4 assume s4: "serve_inv False False full dg cfg nx lg m TS rs s4" "frame s3 s4" "swept cfg s4"
      show "Q (busy_report m sampled pins dins rows s4) s4"
        by (rule Q [OF s4(1) _ _ s4(3)])
          (use remaining_frame [OF s4(2)] post(3) [OF busy] in \<open>simp_all add: busy_report_def\<close>)
    qed
  qed (rule E)
  then show ?thesis
    by (simp add: busy_step_def wp_bindR Let_def flip: running_def pre_def dec_def pins_def dins_def)
qed

lemma wp_run_admitted:
  assumes model: "plain_model nx lg m" and cf: "collision_free dg (served_ids cfg TS)"
    and full: "full \<longrightarrow> sc_prefill_chunk cfg \<le> 1" and inv: "serve_inv False (\<not> full) full dg cfg nx lg m TS rs s"
    and fin: "\<forall>i\<in>set fin0. i < length (sv_sequences s)"
    and Q: "\<And>rep s'. serve_inv False False full dg cfg nx lg m TS rs s' \<Longrightarrow> remaining s' \<le> remaining s \<Longrightarrow>
       (sr_kind rep = StepIdle \<longrightarrow> all_finished s \<and> all_finished s') \<Longrightarrow>
       (sr_kind rep \<noteq> StepIdle \<longrightarrow> remaining s' < remaining s) \<Longrightarrow> swept cfg s' \<Longrightarrow> Q rep s'"
    and E: "\<And>e s'. \<not> (full \<and> well_configured cfg) \<Longrightarrow> E e s'"
  shows "wp (run_admitted dg rk m cfg s0 sampled fin0) Q E s"
proof (cases "all_finished s")
  case True
  then have none: "indices_where (\<lambda>q. \<not> sq_finished q) (sv_sequences s) = []"
    by (auto simp: indices_where_def filter_empty_conv all_finished_def)
  have "wp (release_and_sweep rk cfg fin0) (\<lambda>_. wp (getsR (idle_report sampled s0)) Q E) E s"
    unfolding wp_getsR
  proof (rule wp_release_and_sweep [OF all_finished_inv [OF inv True] fin])
    fix s3 assume s3: "serve_inv False False full dg cfg nx lg m TS rs s3" "frame s s3" "swept cfg s3"
    show "Q (idle_report sampled s0 s3) s3"
      by (rule Q [OF s3(1) _ _ _ s3(3)])
        (use True remaining_frame [OF s3(2)] s3(2) in \<open>simp_all add: idle_report_def all_finished_def frame_def\<close>)
  qed
  with none show ?thesis by (simp add: run_admitted_def step_simps)
next
  case False
  then obtain i where "i < length (sv_sequences s)" "\<not> sq_finished (sv_sequences s ! i)"
    by (auto simp: all_finished_def in_set_conv_nth)
  then have "i \<in> set (indices_where (\<lambda>q. \<not> sq_finished q) (sv_sequences s))" by (simp add: indices_where_def)
  then have some: "indices_where (\<lambda>q. \<not> sq_finished q) (sv_sequences s) \<noteq> []" by auto
  have "wp (busy_step dg rk m cfg sampled fin0 (sv_sequences s)) Q E s"
    by (rule wp_busy_step [OF model cf full inv fin False]) (use Q E in \<open>simp_all add: less_imp_le\<close>)
  with some show ?thesis by (simp add: run_admitted_def step_simps)
qed

lemma wp_serve_step:
  assumes model: "plain_model nx lg m" and cf: "collision_free dg (served_ids cfg TS)"
    and full: "full \<longrightarrow> sc_prefill_chunk cfg \<le> 1" and inv: "serve_inv False False full dg cfg nx lg m TS rs s"
    and Q: "\<And>rep s'. serve_inv False False full dg cfg nx lg m TS rs s' \<Longrightarrow> remaining s' \<le> remaining s \<Longrightarrow>
       (sr_kind rep = StepIdle \<longrightarrow> all_finished s \<and> all_finished s') \<Longrightarrow>
       (sr_kind rep \<noteq> StepIdle \<or> roomy m cfg \<and> sv_queue s \<noteq> [] \<longrightarrow> remaining s' < remaining s) \<Longrightarrow> swept cfg s' \<Longrightarrow> Q rep s'"
    and E: "\<And>e s'. \<not> (full \<and> well_configured cfg) \<Longrightarrow> E e s'"
  shows "wp (serve_step dg rk m cfg) Q E s"
proof -
  define s0 where "s0 = s\<lparr> sv_step_index := sv_step_index s + 1 \<rparr>"
  have "serve_inv False False full dg cfg nx lg m TS rs s0"
    using inv by (simp add: s0_def serve_inv_def store_ok_def sequences_ok_def)
  then have inv0: "serve_inv True (\<not> full) full dg cfg nx lg m TS rs s0" by (rule serve_inv_weaken) simp_all
  have same0: "sv_sequences s0 = sv_sequences s" "sv_queue s0 = sv_queue s" "remaining s0 = remaining s"
    by (simp_all add: s0_def remaining_def)
  have open0: "admission_open m cfg s0" if "roomy m cfg" "all_finished s"
    using roomy_open [OF that(1), of s0] that(2) by (simp add: all_finished_def same0)
  have quiet: "sq_pending_logits (sv_sequences s ! i) = None"
    if "i < length (sv_sequences s)" "\<not> sq_finished (sv_sequences s ! i)" for i
    using inv that by (auto simp: serve_inv_def sequences_ok_def sequence_ok_def place_ok_def)
  have "wp (admit m cfg) (\<lambda>_. wp (bindR (getsR id) (\<lambda>s0.
     bindR (sample_admitted m) (\<lambda>(sampled, fin0). run_admitted dg rk m cfg s0 sampled fin0))) Q E) E s0"
    unfolding admit_def wp_bindR wp_getsR id_apply
  proof (rule wp_admit_from [OF inv0 refl], rule wp_sample_admitted)
    fix s1 s2 and x :: "nat \<times> nat list" assume inv1: "serve_inv True (\<not> full) full dg cfg nx lg m TS rs s1"
      and seqs1: "\<exists>new. sv_sequences s1 = sv_sequences s0 @ new" and rem1: "remaining s1 \<le> remaining s0"
      and adm: "admission_open m cfg s0 \<and> sv_queue s0 \<noteq> [] \<longrightarrow> remaining s1 < remaining s0"
      and inv2: "serve_inv False (\<not> full) full dg cfg nx lg m TS rs s2" and rem2: "remaining s2 \<le> remaining s1"
      and fin: "\<forall>i\<in>set (snd x). i < length (sv_sequences s2)"
      and kept2: "\<forall>i<length (sv_sequences s1). sq_pending_logits (sv_sequences s1 ! i) = None \<longrightarrow>
          i < length (sv_sequences s2) \<and> sv_sequences s2 ! i = sv_sequences s1 ! i"
    obtain sampled fin0 where x: "x = (sampled, fin0)" by (cases x)
    have before: "all_finished s" if "all_finished s2"
    proof -
      have "sq_finished (sv_sequences s ! i)" if i: "i < length (sv_sequences s)" for i
      proof (rule ccontr)
        assume run: "\<not> sq_finished (sv_sequences s ! i)"
        have at: "sv_sequences s1 ! i = sv_sequences s ! i" "i < length (sv_sequences s1)"
          using seqs1 i same0 by (auto simp: nth_append)
        then have "i < length (sv_sequences s2)" "sv_sequences s2 ! i = sv_sequences s ! i"
          using kept2 quiet [OF i run] by auto
        with run \<open>all_finished s2\<close> show False by (metis all_finished_def nth_mem)
      qed
      then show ?thesis by (auto simp: all_finished_def in_set_conv_nth)
    qed
    have fin': "\<forall>i\<in>set fin0. i < length (sv_sequences s2)" using fin x by simp
    have "wp (run_admitted dg rk m cfg s1 sampled fin0) Q E s2"
    proof (rule wp_run_admitted [OF model cf full inv2 fin'])
      fix rep :: step_report and s3 assume s3: "serve_inv False False full dg cfg nx lg m TS rs s3" "remaining s3 \<le> remaining s2"
        "sr_kind rep = StepIdle \<longrightarrow> all_finished s2 \<and> all_finished s3"
        "sr_kind rep \<noteq> StepIdle \<longrightarrow> remaining s3 < remaining s2" "swept cfg s3"
      have le: "remaining s3 \<le> remaining s" using s3(2) rem1 rem2 same0 by linarith
      have less: "remaining s3 < remaining s" if "sr_kind rep \<noteq> StepIdle \<or> roomy m cfg \<and> sv_queue s \<noteq> []"
      proof (cases "sr_kind rep = StepIdle")
        case True
        then have "admission_open m cfg s0 \<and> sv_queue s0 \<noteq> []" using that s3(3) before open0 same0 by auto
        with adm s3(2) rem2 same0 show ?thesis by linarith
      next
        case False
        with s3(4) rem1 rem2 same0 show ?thesis by linarith
      qed
      show "Q rep s3" by (rule Q [OF s3(1) le _ _ s3(5)]) (use s3(3) before less in blast)+
    qed (rule E)
    then show "wp (case x of (sampled, fin0) \<Rightarrow> run_admitted dg rk m cfg s1 sampled fin0) Q E s2" by (simp add: x)
  qed
  then show ?thesis by (simp add: serve_step_def wp_thenR wp_modR s0_def)
qed

end
