(* ===== verification/Serve_Runs.thy ===== *)
theory Serve_Runs
  imports Serve_Correct
begin

text \<open>
  Runs of the scheduler: any sequence of \<open>submit\<close> and \<open>step\<close> calls on a new one.  The properties here
  are what a client sees: the streams are those of greedy decoding, no call panics or hangs under the
  conditions stated, everything submitted is finished after a known number of steps, \<open>run_to_idle\<close>
  returns, and the cache is accounted for and swept.
\<close>

subsection \<open>Calls\<close>

datatype serve_call = Submit "token list" nat | Step

definition serve_call_op ::
  "(byte list list \<Rightarrow> digest) \<Rightarrow> cache_rank \<Rightarrow> serve_model \<Rightarrow> serve_config \<Rightarrow> serve_call \<Rightarrow> unit serve_op" where
  "serve_call_op dg rk m cfg c = (case c of
     Submit p n \<Rightarrow> modR (\<lambda>s. snd (serve_submit m p n s))
   | Step \<Rightarrow> thenR (serve_step dg rk m cfg) (okR ()))"

primrec run_calls ::
  "(byte list list \<Rightarrow> digest) \<Rightarrow> cache_rank \<Rightarrow> serve_model \<Rightarrow> serve_config \<Rightarrow> serve_call list \<Rightarrow> unit serve_op" where
  "run_calls dg rk m cfg [] = okR ()"
| "run_calls dg rk m cfg (c # cs) = thenR (serve_call_op dg rk m cfg c) (run_calls dg rk m cfg cs)"

text \<open>The requests that \<open>submit\<close> accepts, and the tokens every one of them may bring into the graph.\<close>

fun accepted :: "serve_call list \<Rightarrow> request list" where
  "accepted [] = []"
| "accepted (Submit p n # cs) = (if p = [] then accepted cs else (p, n) # accepted cs)"
| "accepted (Step # cs) = accepted cs"

definition served_prefixes ::
  "(hidden \<Rightarrow> token \<Rightarrow> hidden) \<Rightarrow> (hidden \<Rightarrow> token \<Rightarrow> logits) \<Rightarrow> serve_model \<Rightarrow> request list \<Rightarrow> token list set" where
  "served_prefixes nx lg m rs = insert [] (\<Union>r\<in>set rs. set (prefixes (reference nx lg m r)))"

definition request_work :: "request list \<Rightarrow> nat" where
  "request_work rs = sum_list (map (\<lambda>(p, n). length p + n + 2) rs)"

lemma accepted_append: "accepted (cs @ ds) = accepted cs @ accepted ds"
  by (induction cs rule: accepted.induct) simp_all

lemma accepted_steps [simp]: "accepted (replicate n Step) = []"
  by (induction n) simp_all

lemma accepted_nonempty: "r \<in> set (accepted cs) \<Longrightarrow> fst r \<noteq> []"
  by (induction cs rule: accepted.induct) (auto split: if_splits)

lemma request_work_simps [simp]:
  "request_work [] = 0" "request_work (r # rs) = length (fst r) + snd r + 2 + request_work rs"
  "request_work (rs @ rs') = request_work rs + request_work rs'"
  by (simp_all add: request_work_def split_beta)

lemma served_closed: "closed_under nx lg m (served_prefixes nx lg m (accepted cs)) (accepted cs)"
  unfolding closed_under_def served_prefixes_def using accepted_nonempty by (auto simp: in_set_prefixes)

lemma closed_under_less: "closed_under nx lg m TS (rs @ rs') \<Longrightarrow> closed_under nx lg m TS rs"
  by (auto simp: closed_under_def)

subsection \<open>The invariant along a run\<close>

lemma new_inv:
  assumes "[] \<in> TS" "collision_free dg (served_ids cfg TS)"
  shows "\<exists>s. serve_new dg cfg = Inr s \<and> serve_inv False False full dg cfg nx lg m TS [] s \<and> remaining s = 0"
proof -
  have i: "identity_for cfg [] \<in> served_ids cfg TS" using assms(1) by (simp add: served_ids_def)
  have empty: "tree_ok dg (served_ids cfg TS) graph_new" by (simp add: tree_ok_def graph_new_def)
  obtain g r where ins: "insert_root dg (identity_for cfg []) graph_new = (g, Inr r)"
    by (simp add: insert_root_def graph_new_def Let_def)
  have g: "gr_nodes g = [node_id_of dg (identity_for cfg []) \<mapsto> root_node dg (identity_for cfg []) 1]"
    "gr_generation g = 1" "pr_id r = node_id_of dg (identity_for cfg [])"
    using ins by (auto simp: insert_root_def graph_new_def Let_def)
  have cf: "collision_free dg (insert (identity_for cfg []) (served_ids cfg TS))"
    using assms(2) i by (simp add: insert_absorb)
  have "tree_ok dg (insert (identity_for cfg []) (served_ids cfg TS)) g"
    using insert_root_tree_ok [OF empty cf] ins by simp
  then have "tree_ok dg (served_ids cfg TS) g" using i by (simp add: insert_absorb)
  then have ok: "graph_ok dg cfg TS g" by (auto simp: graph_ok_def linked_def g root_node_def)
  show ?thesis
    using ok g assms(1) ins
    by (simp add: serve_new_def serve_inv_def store_ok_def sequences_ok_def closed_under_def node_at_def
        root_node_def cached_bytes_def remaining_def)
qed

lemma submit_inv:
  assumes "serve_inv False False full dg cfg nx lg m TS rs s" "closed_under nx lg m TS (rs @ [(p, n)])" "p \<noteq> []"
    and s': "s' = snd (serve_submit m p n s)"
  shows "serve_inv False False full dg cfg nx lg m TS (rs @ [(p, n)]) s'"
    "remaining s' = remaining s + length p + n + 2"
proof -
  define q where "q = \<lparr> sq_id = sv_next_id s, sq_stream = p, sq_consumed = 0, sq_prefix_depth = 0,
          sq_max_new = n, sq_state = Running, sq_hidden = sm_initial_hidden m, sq_pending_logits = None,
          sq_node = None, sq_work_rows = 0, sq_generated = 0 \<rparr>"
  have eq: "s' = s\<lparr> sv_next_id := sv_next_id s + 1, sv_queue := sv_queue s @ [q] \<rparr>"
    using assms(3) s' by (simp add: serve_submit_def q_def)
  have len: "length (sv_sequences s) + length (sv_queue s) = length rs" "sv_next_id s = length rs"
    using assms(1) by (simp_all add: serve_inv_def sequences_ok_def)
  have "fresh m (length rs) (p, n) q" using len by (simp add: fresh_def q_def)
  then show "serve_inv False False full dg cfg nx lg m TS (rs @ [(p, n)]) s'"
    using assms(1,2) len unfolding eq
    by (auto simp: serve_inv_def sequences_ok_def store_ok_def nth_append less_Suc_eq)
  show "remaining s' = remaining s + length p + n + 2"
    unfolding eq by (simp add: remaining_def q_def seq_work_def sq_finished_def sq_prompt_len_def sq_prompt_def)
qed

lemma wp_run_calls:
  assumes model: "plain_model nx lg m" and cf: "collision_free dg (served_ids cfg TS)"
    and full: "full \<longrightarrow> sc_prefill_chunk cfg \<le> 1"
    and E: "\<And>e s'. \<not> (full \<and> well_configured cfg) \<Longrightarrow> E e s'"
  shows "serve_inv False False full dg cfg nx lg m TS rs s \<Longrightarrow> closed_under nx lg m TS (rs @ accepted cs) \<Longrightarrow>
    (\<And>s'. serve_inv False False full dg cfg nx lg m TS (rs @ accepted cs) s' \<Longrightarrow>
       remaining s' \<le> remaining s + request_work (accepted cs) \<Longrightarrow> Q () s') \<Longrightarrow>
    wp (run_calls dg rk m cfg cs) Q E s"
proof (induction cs arbitrary: rs s)
  case Nil
  then show ?case by (simp add: step_simps)
next
  case (Cons c cs)
  show ?case
  proof (cases c)
    case (Submit p n)
    define s1 where "s1 = snd (serve_submit m p n s)"
    have "wp (run_calls dg rk m cfg cs) Q E s1"
    proof (cases "p = []")
      case True
      then have "s1 = s" by (simp add: s1_def serve_submit_def)
      then show ?thesis using Cons Submit True by simp
    next
      case False
      have cl: "closed_under nx lg m TS ((rs @ [(p, n)]) @ accepted cs)" using Cons.prems(2) Submit False by simp
      note sub = submit_inv [OF Cons.prems(1) closed_under_less [OF cl] False s1_def]
      show ?thesis
        by (rule Cons.IH [OF sub(1) cl]) (use Cons.prems(3) sub(2) Submit False in simp)
    qed
    then show ?thesis by (simp add: Submit serve_call_op_def step_simps s1_def)
  next
    case Step
    have cl: "closed_under nx lg m TS (rs @ accepted cs)" using Cons.prems(2) Step by simp
    have "wp (serve_step dg rk m cfg) (\<lambda>_. wp (run_calls dg rk m cfg cs) Q E) E s"
    proof (rule wp_serve_step [OF model cf full Cons.prems(1) _ E])
      fix rep :: step_report and s' assume s': "serve_inv False False full dg cfg nx lg m TS rs s'" "remaining s' \<le> remaining s"
      show "wp (run_calls dg rk m cfg cs) Q E s'"
        by (rule Cons.IH [OF s'(1) cl]) (use Cons.prems(3) s'(2) Step in simp)
    qed
    moreover have "wp (okR ()) P E = P ()" for P :: "unit \<Rightarrow> serve \<Rightarrow> bool" by (rule ext) (simp add: wp_okR)
    ultimately show ?thesis by (simp add: Step serve_call_op_def wp_thenR)
  qed
qed

text \<open>What a run from a new scheduler ends in.\<close>

lemma run_inv:
  assumes "plain_model nx lg m" "collision_free dg (served_ids cfg (served_prefixes nx lg m (accepted cs)))"
    and "full \<longrightarrow> sc_prefill_chunk cfg \<le> 1" "serve_new dg cfg = Inr s0"
  shows "wp (run_calls dg rk m cfg cs) (\<lambda>_ s. remaining s \<le> request_work (accepted cs) \<and>
      serve_inv False False full dg cfg nx lg m (served_prefixes nx lg m (accepted cs)) (accepted cs) s)
    (\<lambda>_ _. \<not> (full \<and> well_configured cfg)) s0"
proof -
  let ?TS = "served_prefixes nx lg m (accepted cs)"
  have "[] \<in> ?TS" by (simp add: served_prefixes_def)
  from new_inv [OF this assms(2)] assms(4)
  have s0: "serve_inv False False full dg cfg nx lg m ?TS [] s0" "remaining s0 = 0" by auto
  show ?thesis
    by (rule wp_run_calls [OF assms(1-3) _ s0(1)]) (use served_closed s0(2) in auto)
qed

lemma inv_streams:
  assumes "serve_inv False False full dg cfg nx lg m TS rs s"
  shows "length (sv_sequences s) + length (sv_queue s) = length rs"
    "i < length (sv_sequences s) \<Longrightarrow> prefix (sq_stream (sv_sequences s ! i)) (reference nx lg m (rs ! i))"
    "i < length (sv_sequences s) \<Longrightarrow> sq_finished (sv_sequences s ! i) \<Longrightarrow> sq_stream (sv_sequences s ! i) = reference nx lg m (rs ! i)"
    "i < length (sv_sequences s) \<Longrightarrow> serve_stream_of i s = Inr (sq_stream (sv_sequences s ! i))"
    "map (\<lambda>q. (sq_stream q, sq_max_new q)) (sv_queue s) = drop (length (sv_sequences s)) rs"
proof -
  have ids: "sq_id (sv_sequences s ! j) = j" "stream_ok nx lg m (rs ! j) (sv_sequences s ! j)"
    if "j < length (sv_sequences s)" for j
    using assms that by (simp_all add: serve_inv_def sequences_ok_def sequence_ok_def)
  show len: "length (sv_sequences s) + length (sv_queue s) = length rs"
    using assms by (simp add: serve_inv_def sequences_ok_def)
  {
    assume i: "i < length (sv_sequences s)"
    show "prefix (sq_stream (sv_sequences s ! i)) (reference nx lg m (rs ! i))"
      by (rule stream_ok_prefix [OF ids(2) [OF i]])
    have "find (\<lambda>q. sq_id q = i) (sv_sequences s) = Some (sv_sequences s ! i)"
      unfolding find_Some_iff by (rule exI [of _ i]) (use i ids(1) in auto)
    then show "serve_stream_of i s = Inr (sq_stream (sv_sequences s ! i))" by (simp add: serve_stream_of_def)
  }
  show "sq_stream (sv_sequences s ! i) = reference nx lg m (rs ! i)"
    if "i < length (sv_sequences s)" "sq_finished (sv_sequences s ! i)"
    using ids(2) that by (simp add: stream_ok_def)
  have "fresh m (length (sv_sequences s) + j) (rs ! (length (sv_sequences s) + j)) (sv_queue s ! j)"
    if "j < length (sv_queue s)" for j
    using assms that by (simp add: serve_inv_def sequences_ok_def)
  then show "map (\<lambda>q. (sq_stream q, sq_max_new q)) (sv_queue s) = drop (length (sv_sequences s)) rs"
    using len by (intro nth_equalityI) (auto simp: fresh_def)
qed

lemma wp_Inr: "wp m Q E s \<Longrightarrow> m s = (Inr x, s') \<Longrightarrow> Q x s'"
  by (simp add: wp_def)

lemma wp_no_error: "wp m Q (\<lambda>_ _. False) s \<Longrightarrow> \<exists>x s'. m s = (Inr x, s') \<and> Q x s'"
  by (auto simp: wp_def split: prod.splits sum.splits)

subsection \<open>The properties of a run\<close>


text \<open>
  C6: for a model that works row by row and returns no drafts, and as long as the
  digest gives the prefixes served distinct ids: with a positive page size, at least one layer, and
  prefill one token at a time, no call ever panics and no walk to the root runs forever.  None of the
  four can be dropped: a state cached for a draft, or inside a chunk, has no logits, and a prompt that
  ends there makes \<open>step\<close> panic (\<open>prompt_inside_chunk_panics\<close> below).
\<close>

theorem serving_never_faults:
  assumes "plain_model nx lg m" "collision_free dg (served_ids cfg (served_prefixes nx lg m (accepted calls)))"
    and "well_configured cfg" "sc_prefill_chunk cfg \<le> 1"
  shows "\<exists>s0 s. serve_new dg cfg = Inr s0 \<and> run_calls dg rk m cfg calls s0 = (Inr (), s)"
proof -
  have "[] \<in> served_prefixes nx lg m (accepted calls)" by (simp add: served_prefixes_def)
  from new_inv [OF this assms(2)] obtain s0 where s0: "serve_new dg cfg = Inr s0" by blast
  have "wp (run_calls dg rk m cfg calls) (\<lambda>_ _. True) (\<lambda>_ _. False) s0"
    by (rule wp_mono [OF run_inv [OF assms(1,2) _ s0, of True]]) (use assms(3,4) in auto)
  from wp_no_error [OF this] s0 show ?thesis by auto
qed

text \<open>
  C14: after a step the byte count of the cache is the sum over the states
  it holds, and it is within the budget unless every state left is pinned.
\<close>

theorem cache_is_accounted_and_swept:
  assumes "plain_model nx lg m" "collision_free dg (served_ids cfg (served_prefixes nx lg m (accepted calls)))"
    and "serve_new dg cfg = Inr s0" "run_calls dg rk m cfg calls s0 = (Inr (), s)"
    and "serve_step dg rk m cfg s = (Inr rep, s')"
  shows "sv_cache_bytes s' = sum_list (map (\<lambda>(k, c). cs_bytes c) (sv_cache s')) \<and> swept cfg s'"
proof -
  have inv: "serve_inv False False False dg cfg nx lg m (served_prefixes nx lg m (accepted calls)) (accepted calls) s"
    using wp_Inr [OF run_inv [OF assms(1,2) _ assms(3), of False] assms(4)] by simp
  have "wp (serve_step dg rk m cfg) (\<lambda>_ s'. serve_inv False False False dg cfg nx lg m
      (served_prefixes nx lg m (accepted calls)) (accepted calls) s' \<and> swept cfg s') (\<lambda>_ _. True) s"
    by (rule wp_serve_step [OF assms(1,2) _ inv]) auto
  from wp_Inr [OF this assms(5)] show ?thesis
    by (simp add: serve_inv_def store_ok_def cached_bytes_def o_def case_prod_unfold)
qed

subsection \<open>Progress\<close>

lemma remaining_zero:
  assumes "serve_inv False False full dg cfg nx lg m TS rs s"
  shows "remaining s = 0 \<longleftrightarrow> sv_queue s = [] \<and> all_finished s"
proof
  assume zero: "remaining s = 0"
  have "sq_finished (sv_sequences s ! i)" if i: "i < length (sv_sequences s)" for i
  proof (rule ccontr)
    assume "\<not> sq_finished (sv_sequences s ! i)"
    moreover have "sequence_ok False False nx lg m (sv_graph s) (rs ! i) (sv_sequences s ! i)"
      using assms i by (simp add: serve_inv_def sequences_ok_def)
    ultimately have "0 < seq_work (sv_sequences s ! i)" using sequence_ok_work_pos by blast
    moreover have "seq_work (sv_sequences s ! i) = 0" using zero i by (simp add: remaining_def)
    ultimately show False by simp
  qed
  then show "sv_queue s = [] \<and> all_finished s"
    using zero by (auto simp: remaining_def all_finished_def in_set_conv_nth)
qed (auto simp: remaining_def all_finished_def seq_work_def)

lemma wp_steps_drain:
  assumes model: "plain_model nx lg m" and cf: "collision_free dg (served_ids cfg TS)"
    and cfg: "well_configured cfg" "sc_prefill_chunk cfg \<le> 1" "roomy m cfg"
  shows "serve_inv False False True dg cfg nx lg m TS rs s \<Longrightarrow> remaining s \<le> n \<Longrightarrow>
    wp (run_calls dg rk m cfg (replicate n Step)) (\<lambda>_ s'. serve_inv False False True dg cfg nx lg m TS rs s'
      \<and> remaining s' = 0) (\<lambda>_ _. False) s"
proof (induction n arbitrary: s)
  case 0
  then show ?case by (simp add: step_simps)
next
  case (Suc n)
  let ?post = "\<lambda>_ s'. serve_inv False False True dg cfg nx lg m TS rs s' \<and> remaining s' = 0"
  have "wp (serve_step dg rk m cfg) (\<lambda>_. wp (run_calls dg rk m cfg (replicate n Step)) ?post (\<lambda>_ _. False)) (\<lambda>_ _. False) s"
  proof (rule wp_serve_step [OF model cf _ Suc.prems(1)])
    fix rep :: step_report and s' assume s': "serve_inv False False True dg cfg nx lg m TS rs s'" "remaining s' \<le> remaining s"
      "sr_kind rep = StepIdle \<longrightarrow> all_finished s \<and> all_finished s'"
      "sr_kind rep \<noteq> StepIdle \<or> roomy m cfg \<and> sv_queue s \<noteq> [] \<longrightarrow> remaining s' < remaining s"
    have "remaining s' \<le> n"
    proof (cases "remaining s = 0")
      case False
      then have "\<not> (sv_queue s = [] \<and> all_finished s)" using remaining_zero [OF Suc.prems(1)] by simp
      then have "remaining s' < remaining s" using s'(3,4) cfg(3) by blast
      then show ?thesis using Suc.prems(2) by linarith
    qed (use s'(2) in simp)
    then show "wp (run_calls dg rk m cfg (replicate n Step)) ?post (\<lambda>_ _. False) s'" by (rule Suc.IH [OF s'(1)])
  qed (use cfg in auto)
  moreover have "wp (okR ()) P E = P ()" for P :: "unit \<Rightarrow> serve \<Rightarrow> bool" and E :: "serve_fault \<Rightarrow> serve \<Rightarrow> bool"
    by (rule ext) (simp add: wp_okR)
  ultimately show ?case by (simp add: serve_call_op_def wp_thenR)
qed

lemma wp_run_append:
  "wp (run_calls dg rk m cfg (cs @ ds)) Q E s = wp (run_calls dg rk m cfg cs) (\<lambda>_. wp (run_calls dg rk m cfg ds) Q E) E s"
proof (induction cs arbitrary: s)
  case Nil
  then show ?case by (simp add: wp_okR)
next
  case (Cons c cs)
  have "wp (run_calls dg rk m cfg (cs @ ds)) Q E = wp (run_calls dg rk m cfg cs) (\<lambda>_. wp (run_calls dg rk m cfg ds) Q E) E"
    using Cons by (rule ext)
  then show ?case by (simp add: wp_thenR)
qed

text \<open>
  C3: let the model work row by row and return no drafts, let the ids of the
  prefixes served be distinct, let the page size and the number of layers be positive, prefill take one
  token at a time, and the batch have room for one sequence.  Then no call panics, and after as many
  further steps as the accepted requests have tokens to consume, and two for each, the queue is empty
  and all of them are finished, with the greedy streams in the order of submission.
\<close>

theorem every_request_is_served:
  assumes "plain_model nx lg m" "collision_free dg (served_ids cfg (served_prefixes nx lg m (accepted calls)))"
    and "well_configured cfg" "sc_prefill_chunk cfg \<le> 1" "roomy m cfg" "request_work (accepted calls) \<le> n"
  shows "\<exists>s0 s. serve_new dg cfg = Inr s0 \<and> run_calls dg rk m cfg (calls @ replicate n Step) s0 = (Inr (), s)
    \<and> sv_queue s = [] \<and> all_finished s \<and> map sq_stream (sv_sequences s) = map (reference nx lg m) (accepted calls)"
proof -
  let ?inv = "serve_inv False False True dg cfg nx lg m (served_prefixes nx lg m (accepted calls)) (accepted calls)"
  have "[] \<in> served_prefixes nx lg m (accepted calls)" by (simp add: served_prefixes_def)
  from new_inv [OF this assms(2)] obtain s0 where s0: "serve_new dg cfg = Inr s0" by blast
  have "wp (run_calls dg rk m cfg (calls @ replicate n Step)) (\<lambda>_ s. ?inv s \<and> remaining s = 0) (\<lambda>_ _. False) s0"
    unfolding wp_run_append
  proof (rule wp_mono [OF run_inv [OF assms(1,2) _ s0, of True]])
    fix s assume "remaining s \<le> request_work (accepted calls) \<and> ?inv s"
    then show "wp (run_calls dg rk m cfg (replicate n Step)) (\<lambda>_ s. ?inv s \<and> remaining s = 0) (\<lambda>_ _. False) s"
      using wp_steps_drain [OF assms(1,2,3,4,5), where s = s and n = n] assms(6) by simp
  qed (use assms(3,4) in auto)
  then obtain s where s: "run_calls dg rk m cfg (calls @ replicate n Step) s0 = (Inr (), s)" "?inv s" "remaining s = 0"
    using wp_no_error by fastforce
  then have idle: "sv_queue s = []" "all_finished s" using remaining_zero by blast+
  note streams = inv_streams [OF s(2)]
  have "map sq_stream (sv_sequences s) = map (reference nx lg m) (accepted calls)"
    by (rule nth_equalityI) (use streams(1,3) idle in \<open>simp_all add: all_finished_def\<close>)
  with s0 s(1) idle show ?thesis by blast
qed

subsection \<open>Running until idle\<close>

lemma run_to_idle_ends:
  assumes model: "plain_model nx lg m" and cf: "collision_free dg (served_ids cfg TS)"
    and full: "full \<longrightarrow> sc_prefill_chunk cfg \<le> 1"
  shows "serve_inv False False full dg cfg nx lg m TS rs s \<Longrightarrow>
    \<exists>r s'. run_to_idle dg rk m cfg reports s = Some (r, s') \<and> (case r of Inl _ \<Rightarrow> \<not> (full \<and> well_configured cfg)
      | Inr out \<Rightarrow> all_finished s' \<and> length out \<le> length reports + remaining s)"
proof (induction "remaining s" arbitrary: s reports rule: less_induct)
  case less
  have step: "wp (serve_step dg rk m cfg) (\<lambda>rep s'. serve_inv False False full dg cfg nx lg m TS rs s'
      \<and> (sr_kind rep = StepIdle \<longrightarrow> all_finished s') \<and> (sr_kind rep \<noteq> StepIdle \<longrightarrow> remaining s' < remaining s))
     (\<lambda>_ _. \<not> (full \<and> well_configured cfg)) s"
    by (rule wp_serve_step [OF model cf full less.prems]) auto
  show ?case
  proof (cases "serve_step dg rk m cfg s")
    case (Pair r s')
    show ?thesis
    proof (cases r)
      case (Inl e)
      then show ?thesis using step Pair by (subst run_to_idle.simps) (simp add: wp_def)
    next
      case (Inr rep)
      have run: "serve_step dg rk m cfg s = (Inr rep, s')" using Pair Inr by simp
      have post: "serve_inv False False full dg cfg nx lg m TS rs s' \<and> (sr_kind rep = StepIdle \<longrightarrow> all_finished s')
          \<and> (sr_kind rep \<noteq> StepIdle \<longrightarrow> remaining s' < remaining s)"
        using step unfolding wp_def run by simp
      show ?thesis
      proof (cases "sr_kind rep = StepIdle")
        case True
        then show ?thesis using post run by (subst run_to_idle.simps) simp
      next
        case False
        have "run_to_idle dg rk m cfg reports s = run_to_idle dg rk m cfg (reports @ [rep]) s'"
          using False run by (subst run_to_idle.simps) simp
        moreover obtain r' t where "run_to_idle dg rk m cfg (reports @ [rep]) s' = Some (r', t)"
            "case r' of Inl _ \<Rightarrow> \<not> (full \<and> well_configured cfg)
              | Inr out \<Rightarrow> all_finished t \<and> length out \<le> length (reports @ [rep]) + remaining s'"
          using less.hyps [of s' "reports @ [rep]"] post False by blast
        ultimately show ?thesis using post False by (auto split: sum.splits)
      qed
    qed
  qed
qed

text \<open>
  C15: for a model that works row by row and returns no drafts, and a digest that
  separates the prefixes served, \<open>run_to_idle\<close> returns from every state that calls reach.  Either it
  returns reports, at most as many as the accepted requests have tokens to consume and two for each
  request, and every admitted sequence is finished; or it ends in a panic, which is only possible when
  the page size or the number of layers is zero or prefill takes more than one token at a time.
\<close>

theorem run_to_idle_returns:
  assumes "plain_model nx lg m" "collision_free dg (served_ids cfg (served_prefixes nx lg m (accepted calls)))"
    and "serve_new dg cfg = Inr s0" "run_calls dg rk m cfg calls s0 = (Inr (), s)"
  shows "\<exists>r s'. run_to_idle dg rk m cfg [] s = Some (r, s') \<and> (case r of
      Inl _ \<Rightarrow> \<not> (well_configured cfg \<and> sc_prefill_chunk cfg \<le> 1)
    | Inr reports \<Rightarrow> all_finished s' \<and> length reports \<le> request_work (accepted calls))"
proof -
  let ?full = "sc_prefill_chunk cfg \<le> 1"
  have inv: "serve_inv False False ?full dg cfg nx lg m (served_prefixes nx lg m (accepted calls)) (accepted calls) s"
    and rem: "remaining s \<le> request_work (accepted calls)"
    using wp_Inr [OF run_inv [OF assms(1,2) _ assms(3), of ?full] assms(4)] by simp_all
  from run_to_idle_ends [OF assms(1,2) _ inv, of rk "[]"] rem show ?thesis
    by (fastforce split: sum.splits)
qed

subsection \<open>Concrete runs\<close>

text \<open>
  A model whose state is the last token and whose logits always favour token 0, and a digest that
  tells the three prefixes in use apart by the first character of the token sequence root.
\<close>

definition serve_demo_next :: "hidden \<Rightarrow> token \<Rightarrow> hidden" where
  "serve_demo_next h t = [t]"

definition serve_demo_logits :: "hidden \<Rightarrow> token \<Rightarrow> logits" where
  "serve_demo_logits h t = [0x3f800000, 0]"

definition serve_demo_batch :: "(hidden \<times> token) list \<Rightarrow> step_outcome list" where
  "serve_demo_batch ins = map (\<lambda>(h, t). plain_outcome (serve_demo_next h t) (serve_demo_logits h t)) ins"

definition serve_demo_model :: serve_model where
  "serve_demo_model = \<lparr> sm_batch_step = serve_demo_batch, sm_prefill_batch = default_prefill serve_demo_batch,
     sm_initial_hidden = [], sm_eos = 9, sm_weight_bytes_per_row = 1 \<rparr>"

definition serve_demo_digest :: "byte list list \<Rightarrow> digest" where
  "serve_demo_digest parts = map (\<lambda>b. char_of (unat b)) (take 1 (parts ! 2))"

definition serve_demo_rank :: cache_rank where
  "serve_demo_rank m k = 0"

lemma serve_demo_plain: "plain_model serve_demo_next serve_demo_logits serve_demo_model"
  by (simp add: plain_model_def serve_demo_model_def serve_demo_batch_def default_prefill_plain)

lemma serve_demo_reference:
  "reference serve_demo_next serve_demo_logits serve_demo_model ([7], 1) = [7, 0]"
  "reference serve_demo_next serve_demo_logits serve_demo_model ([7, 0], 0) = [7, 0]"
  by code_simp+

lemma serve_demo_roots:
  "stable_digest [[]] = ''a9d84332e67a233089f4f04799e01332d36736dd96f188b8382747518123bebe''"
  "stable_digest [le32 7] = ''0bfb441432bd2080a6420b32dd0fcd29bca10334144bc18fc9ee24cdbf9521d7''"
  "stable_digest [le32 7 @ le32 0] = ''99a13b9910db40636630e736b433c7d82b7230993d3919a396ca082ebab7fc14''"
  by code_simp+

lemma serve_demo_ids:
  "node_id_of serve_demo_digest (identity_for cfg []) = ''a''"
  "node_id_of serve_demo_digest (identity_for cfg [7]) = ''0''"
  "node_id_of serve_demo_digest (identity_for cfg [7, 0]) = ''9''"
  by (simp_all add: node_id_of_def serve_demo_digest_def identity_for_def token_sequence_root_def str_bytes_def serve_demo_roots
      char_of_eq_iff)

lemma serve_demo_collision_free: "collision_free serve_demo_digest (served_ids cfg {[], [7], [7, 0]})"
  by (simp add: collision_free_def served_ids_def serve_demo_ids)

definition chunk_config :: serve_config where
  "chunk_config = serve_config_default\<lparr> sc_prefill_chunk := 2 \<rparr>"

lemma serve_demo_configs:
  "sc_prefill_chunk chunk_config = 2" "sc_page_size chunk_config = 8" "sc_max_batch chunk_config = 4"
  "sc_max_live_state_bytes chunk_config = None" "sc_pin_live_nodes chunk_config = True" "sc_max_cache_bytes chunk_config = None"
  "sc_prefill_chunk serve_config_default = 1" "sc_page_size serve_config_default = 8" "sc_max_batch serve_config_default = 4"
  "sc_max_live_state_bytes serve_config_default = None" "sc_pin_live_nodes serve_config_default = True"
  "sc_max_cache_bytes serve_config_default = None"
  by (simp_all add: chunk_config_def serve_config_default_def)

text \<open>Symbolic execution of a run: the rules that step through the calls on a concrete state.\<close>

lemma wp_op_cong: "m = m' \<Longrightarrow> s = s' \<Longrightarrow> wp m Q E s = wp m' Q E s'"
  by simp

lemma path_to_root_eqs:
  "path_to_root N None = Some []"
  "path_to_root N (Some k) = Option.bind (path_to_root N (Option.bind (N k) pn_parent)) (\<lambda>ks. Some (k # ks))"
  by (subst path_to_root.simps, simp)+

lemma wp_graph_ops:
  "wp (extend_or_follow dg p t i) Q E s = (case extend_or_follow dg p t i s of (Inl e, s') \<Rightarrow> E e s' | (Inr x, s') \<Rightarrow> Q x s')"
  "wp (attach_page_if_boundary cfg i k n) Q' E s
     = (case attach_page_if_boundary cfg i k n s of (Inl e, s') \<Rightarrow> E e s' | (Inr x, s') \<Rightarrow> Q' x s')"
  by (simp_all add: wp_def)

lemmas serve_run_simps = step_simps wp_graph_ops path_to_root_eqs Let_def serve_call_op_def serve_submit_def serve_step_def
  serve_new_def insert_root_def graph_new_def root_node_def serve_demo_ids serve_demo_configs
  admit_def admission_open_def serve_live_def admit_sequence_def longest_prefix_def note_miss_def note_hit_def depth_bucket_def
  push_sequence_def restart_sequence_def resume_sequence_def touch_cached_def pin_path_def walk_up_def pin_node_def on_cached_def
  sample_admitted_def sample_pending_def sq_finished_def sq_prompt_len_def sq_prompt_def indices_where_def
  run_admitted_def busy_step_def run_rows_def prefill_sequence_def prefill_input_def indexR_def nth_opt_def sliceR_def
  consume_edge_def extend_or_follow_def graph_extend_def child_node_def add_child_def attach_page_if_boundary_def insert_state_def
  finish_prefill_def sample_greedy_def decode_sequence_def on_seq_def
  release_and_sweep_def unpin_sequence_def unpin_path_def unpin_node_def evict_to_budget_def
  serve_demo_model_def default_prefill_def serve_demo_batch_def plain_outcome_def serve_demo_next_def serve_demo_logits_def

lemma wp_result: "wp m (\<lambda>_ _. False) (\<lambda>e _. e = f) s \<Longrightarrow> \<exists>s'. m s = (Inl f, s')"
  by (auto simp: wp_def split: prod.splits sum.splits)

lemma serve_new_projr: "serve_new dg cfg = Inr (projr (serve_new dg cfg))"
  by (simp add: serve_new_def insert_root_def graph_new_def Let_def)

text \<open>
  With prefill chunks of two tokens the state inside a chunk is
  cached without logits.  A second request whose prompt is the first one up to there is taken for fully
  prefilled, and \<open>step\<close> panics slicing the stream one past its end.
\<close>

lemma prompt_inside_chunk_panics:
  "\<exists>s0 s. serve_new serve_demo_digest chunk_config = Inr s0
     \<and> run_calls serve_demo_digest serve_demo_rank serve_demo_model chunk_config
         [Submit [7, 0] 0, Step, Submit [7] 1, Step] s0 = (Inl (Panic ''range end index out of range''), s)"
proof -
  have "wp (run_calls serve_demo_digest serve_demo_rank serve_demo_model chunk_config
      [Submit [7, 0] 0, Step, Submit [7] 1, Step]) (\<lambda>_ _. False) (\<lambda>e _. e = Panic ''range end index out of range'')
      (projr (serve_new serve_demo_digest chunk_config))"
    by (simp add: wp_thenR serve_call_op_def) (simp add: serve_run_simps numeral_2_eq_2 cong: wp_op_cong)
  from wp_result [OF this] obtain s where s: "run_calls serve_demo_digest serve_demo_rank serve_demo_model chunk_config
      [Submit [7, 0] 0, Step, Submit [7] 1, Step] (projr (serve_new serve_demo_digest chunk_config))
      = (Inl (Panic ''range end index out of range''), s)" by blast
  show ?thesis by (rule exI, rule exI, intro conjI, rule serve_new_projr, rule s)
qed

text \<open>
  A sequence finished because prefill sampled the end token is not
  unpinned: nothing runs any more, and its states stay pinned, out of reach of eviction.
\<close>

lemma eos_in_prefill_leaks_pins:
  "\<exists>s0 s. serve_new serve_demo_digest serve_config_default = Inr s0
     \<and> run_calls serve_demo_digest serve_demo_rank (serve_demo_model\<lparr> sm_eos := 0 \<rparr>) serve_config_default
         [Submit [7] 1, Step, Step] s0 = (Inr (), s)
     \<and> all_finished s \<and> map (cs_pinned \<circ> snd) (sv_cache s) = [1]"
proof -
  have argmax: "argmax [0x3f800000, 0] = 0" by code_simp
  have "wp (run_calls serve_demo_digest serve_demo_rank (serve_demo_model\<lparr> sm_eos := 0 \<rparr>) serve_config_default
      [Submit [7] 1, Step, Step]) (\<lambda>_ s. all_finished s \<and> map (cs_pinned \<circ> snd) (sv_cache s) = [1]) (\<lambda>_ _. False)
      (projr (serve_new serve_demo_digest serve_config_default))"
    by (simp add: serve_run_simps argmax all_finished_def cong: wp_op_cong)
  from wp_no_error [OF this] obtain s where s: "run_calls serve_demo_digest serve_demo_rank (serve_demo_model\<lparr> sm_eos := 0 \<rparr>)
      serve_config_default [Submit [7] 1, Step, Step] (projr (serve_new serve_demo_digest serve_config_default)) = (Inr (), s)"
      "all_finished s" "map (cs_pinned \<circ> snd) (sv_cache s) = [1]" by auto
  show ?thesis by (rule exI, rule exI, intro conjI, rule serve_new_projr, (rule s)+)
qed


text \<open>Two requests for the same prompt; the second one arrives while the first one is decoding.\<close>

definition serve_demo_calls :: "serve_call list" where
  "serve_demo_calls = [Submit [7] 1, Step, Submit [7] 1, Step]"

definition serve_demo_start :: serve where
  "serve_demo_start = projr (serve_new serve_demo_digest serve_config_default)"

lemma serve_demo_start: "serve_new serve_demo_digest serve_config_default = Inr serve_demo_start"
  unfolding serve_demo_start_def by (rule serve_new_projr)

lemma serve_demo_accepted: "accepted serve_demo_calls = [([7], 1), ([7], 1)]"
  by (simp add: serve_demo_calls_def)

lemma serve_demo_served:
  "collision_free serve_demo_digest (served_ids serve_config_default
     (served_prefixes serve_demo_next serve_demo_logits serve_demo_model (accepted serve_demo_calls)))"
proof -
  have "served_prefixes serve_demo_next serve_demo_logits serve_demo_model (accepted serve_demo_calls) = {[], [7], [7, 0]}"
    by (auto simp: served_prefixes_def serve_demo_accepted serve_demo_reference [unfolded One_nat_def] prefix_Cons)
  then show ?thesis by (simp add: serve_demo_collision_free)
qed

lemma serve_demo_ready:
  "well_configured serve_config_default" "sc_prefill_chunk serve_config_default \<le> 1" "roomy serve_demo_model serve_config_default"
  by (simp_all add: well_configured_def roomy_def serve_config_default_def)

lemma serve_demo_run:
  "\<exists>s. run_calls serve_demo_digest serve_demo_rank serve_demo_model serve_config_default serve_demo_calls serve_demo_start
     = (Inr (), s) \<and> (\<exists>rep s'. serve_step serve_demo_digest serve_demo_rank serve_demo_model serve_config_default s = (Inr rep, s'))"
proof -
  let ?TS = "served_prefixes serve_demo_next serve_demo_logits serve_demo_model (accepted serve_demo_calls)"
  let ?inv = "serve_inv False False True serve_demo_digest serve_config_default serve_demo_next serve_demo_logits
      serve_demo_model ?TS (accepted serve_demo_calls)"
  have "wp (run_calls serve_demo_digest serve_demo_rank serve_demo_model serve_config_default serve_demo_calls)
      (\<lambda>_ s. ?inv s) (\<lambda>_ _. False) serve_demo_start"
    by (rule wp_mono [OF run_inv [OF serve_demo_plain serve_demo_served _ serve_demo_start, of True]])
      (use serve_demo_ready in auto)
  from wp_no_error [OF this] obtain s where s: "run_calls serve_demo_digest serve_demo_rank serve_demo_model
      serve_config_default serve_demo_calls serve_demo_start = (Inr (), s)" "?inv s" by auto
  have "wp (serve_step serve_demo_digest serve_demo_rank serve_demo_model serve_config_default) (\<lambda>_ _. True) (\<lambda>_ _. False) s"
    by (rule wp_serve_step [OF serve_demo_plain serve_demo_served _ s(2)]) (use serve_demo_ready in auto)
  from wp_no_error [OF this] s(1) show ?thesis by blast
qed


lemma serving_never_faults_witness:
  "\<exists>s0 s. serve_new serve_demo_digest serve_config_default = Inr s0
    \<and> run_calls serve_demo_digest serve_demo_rank serve_demo_model serve_config_default serve_demo_calls s0 = (Inr (), s)"
  by (rule serving_never_faults [OF serve_demo_plain serve_demo_served serve_demo_ready(1,2)])

lemma cache_is_accounted_and_swept_witness:
  "\<exists>s rep s'. run_calls serve_demo_digest serve_demo_rank serve_demo_model serve_config_default serve_demo_calls
      serve_demo_start = (Inr (), s)
    \<and> serve_step serve_demo_digest serve_demo_rank serve_demo_model serve_config_default s = (Inr rep, s')
    \<and> sv_cache_bytes s' = sum_list (map (\<lambda>(k, c). cs_bytes c) (sv_cache s'))"
proof -
  obtain s rep s' where s: "run_calls serve_demo_digest serve_demo_rank serve_demo_model serve_config_default serve_demo_calls
      serve_demo_start = (Inr (), s)"
    "serve_step serve_demo_digest serve_demo_rank serve_demo_model serve_config_default s = (Inr rep, s')"
    using serve_demo_run by blast
  with cache_is_accounted_and_swept [OF serve_demo_plain serve_demo_served serve_demo_start s]
  show ?thesis by blast
qed

lemma every_request_is_served_witness:
  "\<exists>s0 s. serve_new serve_demo_digest serve_config_default = Inr s0
    \<and> run_calls serve_demo_digest serve_demo_rank serve_demo_model serve_config_default
        (serve_demo_calls @ replicate 8 Step) s0 = (Inr (), s)
    \<and> map sq_stream (sv_sequences s) = [[7, 0], [7, 0]]"
proof -
  have "request_work (accepted serve_demo_calls) \<le> 8" by (simp add: serve_demo_accepted)
  from every_request_is_served [OF serve_demo_plain serve_demo_served serve_demo_ready this, of serve_demo_rank]
  show ?thesis by (auto simp: serve_demo_accepted serve_demo_reference [unfolded One_nat_def])
qed

lemma run_to_idle_returns_witness:
  "\<exists>s r s'. run_calls serve_demo_digest serve_demo_rank serve_demo_model serve_config_default serve_demo_calls
      serve_demo_start = (Inr (), s)
    \<and> run_to_idle serve_demo_digest serve_demo_rank serve_demo_model serve_config_default [] s = Some (r, s')"
proof -
  obtain s where s: "run_calls serve_demo_digest serve_demo_rank serve_demo_model serve_config_default serve_demo_calls
      serve_demo_start = (Inr (), s)" using serve_demo_run by blast
  with run_to_idle_returns [OF serve_demo_plain serve_demo_served serve_demo_start s]
  show ?thesis by blast
qed

end
