(* ===== verification/Lang_Lexer.thy ===== *)
theory Lang_Lexer
  imports Prelude
begin

text \<open>
  \<open>har-lang-diagnostics\<close>, \<open>har-lang-ast\<close> and \<open>har-lang-lexer\<close>: diagnostics with source spans, the syntax
  tree of the configuration language, and the lexer.

  A Rust string is modelled by its UTF-8 bytes, a \<open>char list\<close> with 8-bit characters.  Where the code
  pushes \<open>byte as char\<close> it appends the UTF-8 form of the code point with that number (\<open>latin1\<close>).
\<close>

subsection \<open>Diagnostics\<close>

record span =
  sp_start :: nat
  sp_end :: nat
  sp_line :: nat
  sp_column :: nat

definition span_point :: "nat \<Rightarrow> nat \<Rightarrow> nat \<Rightarrow> span" where
  "span_point start line column = \<lparr> sp_start = start, sp_end = start, sp_line = line, sp_column = column \<rparr>"

datatype severity = SevError | SevWarning | SevNote

record diagnostic =
  di_severity :: severity
  di_code :: string
  di_message :: string
  di_span :: "span option"
  di_notes :: "string list"

definition diag_error :: "string \<Rightarrow> string \<Rightarrow> span option \<Rightarrow> diagnostic" where
  "diag_error code message sp = \<lparr> di_severity = SevError, di_code = code, di_message = message, di_span = sp, di_notes = [] \<rparr>"

definition diag_warning :: "string \<Rightarrow> string \<Rightarrow> span option \<Rightarrow> diagnostic" where
  "diag_warning code message sp = \<lparr> di_severity = SevWarning, di_code = code, di_message = message, di_span = sp, di_notes = [] \<rparr>"

definition diag_note :: "string \<Rightarrow> string \<Rightarrow> span option \<Rightarrow> diagnostic" where
  "diag_note code message sp = \<lparr> di_severity = SevNote, di_code = code, di_message = message, di_span = sp, di_notes = [] \<rparr>"

definition with_note :: "string \<Rightarrow> diagnostic \<Rightarrow> diagnostic" where
  "with_note note d = d\<lparr> di_notes := di_notes d @ [note] \<rparr>"

definition severity_name :: "severity \<Rightarrow> string" where
  "severity_name s = (case s of SevError \<Rightarrow> ''error'' | SevWarning \<Rightarrow> ''warning'' | SevNote \<Rightarrow> ''note'')"

definition diag_render :: "string \<Rightarrow> diagnostic \<Rightarrow> string" where
  "diag_render source_name d =
     (case di_span d of
        None \<Rightarrow> source_name
      | Some sp \<Rightarrow> source_name @ '':'' @ dec_digits (sp_line sp) @ '':'' @ dec_digits (sp_column sp))
     @ '': '' @ severity_name (di_severity d) @ ''['' @ di_code d @ '']: '' @ di_message d
     @ concat (map (\<lambda>n. CHR 0x0A # ''  note: '' @ n) (di_notes d))"

definition has_errors :: "diagnostic list \<Rightarrow> bool" where
  "has_errors ds \<longleftrightarrow> (\<exists>d\<in>set ds. di_severity d = SevError)"

definition diag_result :: "'a \<Rightarrow> diagnostic list \<Rightarrow> diagnostic list + 'a" where
  "diag_result x ds = (if has_errors ds then Inl ds else Inr x)"

lemma has_errors_simps [simp]:
  "has_errors [] = False" "has_errors (d # ds) = (di_severity d = SevError \<or> has_errors ds)"
  "has_errors (ds @ es) = (has_errors ds \<or> has_errors es)"
  by (auto simp: has_errors_def)

lemma diag_error_severity [simp]: "di_severity (diag_error c t sp) = SevError"
  by (simp add: diag_error_def)

subsection \<open>Tokens and syntax tree\<close>

datatype symbol = LBrace | RBrace | LBracket | RBracket | LParen | RParen | Semicolon | Comma | Colon | DotDot

datatype token_kind = TIdent string | TString string | TNumber string | TSymbol symbol | TEof

record lexeme =
  lx_kind :: token_kind
  lx_span :: span

datatype har_value =
    VIdent string
  | VString string
  | VNumber string
  | VQuantity (quantity_number: string) (quantity_unit: string)
  | VRange (range_start: string) (range_end: string)
  | VList "har_value list"

record field =
  fd_key :: string
  fd_value :: har_value
  fd_span :: span

record block =
  bl_kind :: string
  bl_name :: string
  bl_fields :: "field list"
  bl_span :: span

record program =
  pg_source_name :: string
  pg_declarations :: "block list"

definition as_atom :: "har_value \<Rightarrow> string option" where
  "as_atom v = (case v of VIdent s \<Rightarrow> Some s | VString s \<Rightarrow> Some s | VNumber s \<Rightarrow> Some s | _ \<Rightarrow> None)"

definition as_ident :: "har_value \<Rightarrow> string option" where
  "as_ident v = (case v of VIdent s \<Rightarrow> Some s | _ \<Rightarrow> None)"

definition as_string :: "har_value \<Rightarrow> string option" where
  "as_string v = (case v of VString s \<Rightarrow> Some s | _ \<Rightarrow> None)"

definition is_identifier :: "token_kind \<Rightarrow> bool" where
  "is_identifier k \<longleftrightarrow> (case k of TIdent _ \<Rightarrow> True | _ \<Rightarrow> False)"

subsection \<open>Characters\<close>

definition char_code :: "char \<Rightarrow> nat" where
  "char_code c = of_char c"

definition is_ascii :: "char \<Rightarrow> bool" where
  "is_ascii c \<longleftrightarrow> char_code c < 128"

definition is_space :: "char \<Rightarrow> bool" where
  "is_space c \<longleftrightarrow> char_code c \<in> {32, 9, 10, 12, 13}"

definition is_digit :: "char \<Rightarrow> bool" where
  "is_digit c \<longleftrightarrow> 48 \<le> char_code c \<and> char_code c \<le> 57"

definition is_alpha :: "char \<Rightarrow> bool" where
  "is_alpha c \<longleftrightarrow> 65 \<le> char_code c \<and> char_code c \<le> 90 \<or> 97 \<le> char_code c \<and> char_code c \<le> 122"

definition is_ident_start :: "char \<Rightarrow> bool" where
  "is_ident_start c \<longleftrightarrow> is_alpha c \<or> c = CHR ''_''"

definition is_ident_char :: "char \<Rightarrow> bool" where
  "is_ident_char c \<longleftrightarrow> is_alpha c \<or> is_digit c \<or> c = CHR ''_'' \<or> c = CHR ''-''"

text \<open>\<open>byte as char\<close>, in UTF-8.\<close>

definition latin1 :: "char \<Rightarrow> string" where
  "latin1 c = (let n = char_code c in
     if n < 128 then [c] else [char_of (192 + n div 64), char_of (128 + n mod 64)])"

definition escaped :: "char \<Rightarrow> string" where
  "escaped c = (if c = CHR ''n'' then [CHR 0x0A] else if c = CHR ''r'' then [CHR 0x0D]
     else if c = CHR ''t'' then [CHR 0x09] else latin1 c)"

subsection \<open>Scanning one token\<close>

definition symbol_of :: "char \<Rightarrow> char option \<Rightarrow> (symbol \<times> nat) option" where
  "symbol_of c next =
     (if c = CHR ''{'' then Some (LBrace, 1) else if c = CHR ''}'' then Some (RBrace, 1)
      else if c = CHR ''['' then Some (LBracket, 1) else if c = CHR '']'' then Some (RBracket, 1)
      else if c = CHR ''('' then Some (LParen, 1) else if c = CHR '')'' then Some (RParen, 1)
      else if c = CHR '';'' then Some (Semicolon, 1) else if c = CHR '','' then Some (Comma, 1)
      else if c = CHR '':'' then Some (Colon, 1)
      else if c = CHR ''.'' \<and> next = Some (CHR ''.'') then Some (DotDot, 2) else None)"

definition head_is :: "(char \<Rightarrow> bool) \<Rightarrow> string \<Rightarrow> bool" where
  "head_is P s \<longleftrightarrow> (case s of [] \<Rightarrow> False | c # _ \<Rightarrow> P c)"

text \<open>
  The inside of a string literal, from byte index \<open>i\<close>: its value, whether it is terminated, the indices
  just after the newlines in it, and what follows.
\<close>

definition string_byte :: "nat \<Rightarrow> char \<Rightarrow> string \<times> bool \<times> nat list \<times> string \<Rightarrow> string \<times> bool \<times> nat list \<times> string" where
  "string_byte i c = (\<lambda>(v, t, ns, rest). if c = CHR 0x0A then (v, t, (i + 1) # ns, rest) else (latin1 c @ v, t, ns, rest))"

fun scan_string :: "nat \<Rightarrow> string \<Rightarrow> string \<times> bool \<times> nat list \<times> string" where
  "scan_string i [] = ([], False, [], [])"
| "scan_string i [c] = (if c = CHR 0x22 then ([], True, [], []) else string_byte i c ([], False, [], []))"
| "scan_string i (c # e # cs) =
     (if c = CHR 0x22 then ([], True, [], e # cs)
      else if c = CHR 0x5C
      then let (v, t, ns, rest) = scan_string (i + 2) cs in (escaped e @ v, t, ns, rest)
      else string_byte i c (scan_string (i + 1) (e # cs)))"

definition scan_digits :: "string \<Rightarrow> string \<times> string" where
  "scan_digits s = (takeWhile is_digit s, dropWhile is_digit s)"

definition scan_fraction :: "string \<Rightarrow> string \<times> string" where
  "scan_fraction s =
     (if head_is (\<lambda>c. c = CHR ''.'') s \<and> \<not> head_is (\<lambda>c. c = CHR ''.'') (tl s)
      then let (ds, rest) = scan_digits (tl s) in (CHR ''.'' # ds, rest) else ([], s))"

definition scan_exponent :: "string \<Rightarrow> string \<times> string" where
  "scan_exponent s =
     (if head_is (\<lambda>c. c = CHR ''e'' \<or> c = CHR ''E'') s
      then let s1 = tl s;
               sign = (if head_is (\<lambda>c. c = CHR ''+'' \<or> c = CHR ''-'') s1 then [hd s1] else []);
               (ds, rest) = scan_digits (drop (length sign) s1)
           in (hd s # sign @ ds, rest)
      else ([], s))"

definition scan_number :: "string \<Rightarrow> string \<times> string" where
  "scan_number s =
     (let (ds, s1) = scan_digits (tl s); (fs, s2) = scan_fraction s1; (es, s3) = scan_exponent s2
      in (hd s # ds @ fs @ es, s3))"

definition scan_ident :: "string \<Rightarrow> string \<times> string" where
  "scan_ident s = (hd s # takeWhile is_ident_char (tl s), dropWhile is_ident_char (tl s))"

definition starts_number :: "string \<Rightarrow> bool" where
  "starts_number s \<longleftrightarrow> head_is is_digit s \<or> head_is (\<lambda>c. c = CHR ''.'') s \<and> head_is is_digit (tl s)"

subsection \<open>The lexer\<close>

record cursor =
  cu_index :: nat
  cu_line :: nat
  cu_column :: nat

definition cursor_start :: cursor where
  "cursor_start = \<lparr> cu_index = 0, cu_line = 1, cu_column = 1 \<rparr>"

definition bump :: "char \<Rightarrow> cursor \<Rightarrow> cursor" where
  "bump c cu = (if c = CHR 0x0A then \<lparr> cu_index = cu_index cu + 1, cu_line = cu_line cu + 1, cu_column = 1 \<rparr>
     else cu\<lparr> cu_index := cu_index cu + 1, cu_column := cu_column cu + 1 \<rparr>)"

definition advance :: "string \<Rightarrow> cursor \<Rightarrow> cursor" where
  "advance cs cu = fold bump cs cu"

definition span_to :: "cursor \<Rightarrow> nat \<Rightarrow> span" where
  "span_to cu stop = \<lparr> sp_start = cu_index cu, sp_end = stop, sp_line = cu_line cu, sp_column = cu_column cu \<rparr>"

definition lex_string :: "string \<Rightarrow> cursor \<Rightarrow> token_kind option \<times> diagnostic list \<times> string" where
  "lex_string s cu =
     (let (v, terminated, newlines, rest) = scan_string (cu_index cu + 1) (tl s);
          errs = map (\<lambda>n. diag_error ''L0003'' ''newline is not allowed inside a string'' (Some (span_to cu n))) newlines
      in if terminated then (Some (TString v), errs, rest)
         else (None, errs @ [diag_error ''L0004'' ''unterminated string literal''
                 (Some (span_to cu (cu_index cu + length s)))], rest))"

definition unexpected :: "char \<Rightarrow> cursor \<Rightarrow> diagnostic" where
  "unexpected c cu = diag_error ''L0001'' (''unexpected character `'' @ latin1 c @ ''`'')
     (Some (span_to cu (cu_index cu + 1)))"

text \<open>One round of the loop: the token if there is one, the errors, and the bytes left.\<close>

definition lex_one :: "string \<Rightarrow> cursor \<Rightarrow> token_kind option \<times> diagnostic list \<times> string" where
  "lex_one s cu =
     (let c = hd s; next = (if tl s = [] then None else Some (hd (tl s))) in
      if is_space c then (None, [], tl s)
      else if c = CHR ''/'' \<and> next = Some (CHR ''/'') then (None, [], dropWhile (\<lambda>c. c \<noteq> CHR 0x0A) s)
      else case symbol_of c next of
        Some (y, width) \<Rightarrow> (Some (TSymbol y), [], drop width s)
      | None \<Rightarrow>
        if c = CHR 0x22 then lex_string s cu
        else if starts_number s then (Some (TNumber (fst (scan_number s))), [], snd (scan_number s))
        else if is_ident_start c then (Some (TIdent (fst (scan_ident s))), [], snd (scan_ident s))
        else (None, [unexpected c cu], tl s))"

lemma lex_string_rest: "snd (snd (lex_string s cu)) = snd (snd (snd (scan_string (cu_index cu + 1) (tl s))))"
  by (simp add: lex_string_def Let_def split_beta)

lemma lex_string_kind: "fst (lex_string s cu) = None \<or> (\<exists>v. fst (lex_string s cu) = Some (TString v))"
  by (simp add: lex_string_def Let_def split_beta)

lemma scan_string_length: "length (snd (snd (snd (scan_string i s)))) \<le> length s"
  by (induction i s rule: scan_string.induct) (auto simp: Let_def split_beta string_byte_def)

lemma scan_number_length: "s \<noteq> [] \<Longrightarrow> length (snd (scan_number s)) < length s"
proof -
  assume "s \<noteq> []"
  have d: "length (snd (scan_digits t)) \<le> length t" for t
    by (simp add: scan_digits_def length_dropWhile_le)
  have f: "length (snd (scan_fraction t)) \<le> length t" for t
    using d [of "tl t"] by (auto simp: scan_fraction_def split_beta intro: le_trans)
  have d': "length (snd (scan_digits (drop n (tl t)))) \<le> length t" for n t
    using d [of "drop n (tl t)"] by (rule le_trans) simp
  have e: "length (snd (scan_exponent t)) \<le> length t" for t
    using d' [of 0 t] d' [of "Suc 0" t] by (auto simp: scan_exponent_def Let_def split_beta)
  show ?thesis
    using \<open>s \<noteq> []\<close> d [of "tl s"] f [of "snd (scan_digits (tl s))"] e [of "snd (scan_fraction (snd (scan_digits (tl s))))"]
    by (cases s) (auto simp: scan_number_def Let_def split_beta)
qed

lemma lex_one_shorter: "s \<noteq> [] \<Longrightarrow> length (snd (snd (lex_one s cu))) < length s"
proof -
  assume ne: "s \<noteq> []"
  then obtain c cs where s: "s = c # cs" by (cases s) auto
  have str: "length (snd (snd (snd (scan_string i cs)))) < Suc (length cs)" for i
    using scan_string_length [of i cs] by simp
  have num: "length (snd (scan_number (c # cs))) < Suc (length cs)" using scan_number_length [of "c # cs"] by simp
  have "length (dropWhile P cs) < Suc (length cs)" for P by (simp add: length_dropWhile_le less_Suc_eq_le)
  then show ?thesis
    using str num unfolding s
    by (auto simp: lex_one_def Let_def lex_string_rest scan_ident_def symbol_of_def split: option.splits if_splits)
qed

function lex_from :: "string \<Rightarrow> cursor \<Rightarrow> lexeme list \<times> diagnostic list" where
  "lex_from s cu =
     (if s = [] then ([\<lparr> lx_kind = TEof, lx_span = span_point (cu_index cu) (cu_line cu) (cu_column cu) \<rparr>], [])
      else let (kind, errs, rest) = lex_one s cu;
               cu' = advance (take (length s - length rest) s) cu;
               (ts, es) = lex_from rest cu'
           in (case kind of None \<Rightarrow> ts | Some k \<Rightarrow> \<lparr> lx_kind = k, lx_span = span_to cu (cu_index cu') \<rparr> # ts, errs @ es))"
  by pat_completeness auto
termination
proof (relation "measure (\<lambda>(s, _). length s)")
  fix s :: string and cu cu' :: cursor and x y kind errs rest
  assume "s \<noteq> []" "x = lex_one s cu" "(kind, y) = x" "(errs, rest) = y"
  then show "((rest, cu'), s, cu) \<in> measure (\<lambda>(s, _). length s)"
    using lex_one_shorter [of s cu] by (metis case_prod_conv in_measure snd_conv)
qed simp

declare lex_from.simps [simp del]

definition lex :: "string \<Rightarrow> diagnostic list + lexeme list" where
  "lex source = (case lex_from source cursor_start of (ts, es) \<Rightarrow> if es = [] then Inr ts else Inl es)"

subsection \<open>What a scanned token covers\<close>

lemma string_byte_rest: "snd (snd (snd (string_byte i c p))) = snd (snd (snd p))"
  by (cases p) (simp add: string_byte_def)

lemma scan_string_suffix: "\<exists>w. s = w @ snd (snd (snd (scan_string i s)))"
proof (induction i s rule: scan_string.induct)
  case (3 i c e cs)
  consider (quote) "c = CHR 0x22" | (escape) "c \<noteq> CHR 0x22" "c = CHR 0x5C" | (plain) "c \<noteq> CHR 0x22" "c \<noteq> CHR 0x5C" by blast
  then show ?case
  proof cases
    case quote
    then show ?thesis by (intro exI [of _ "[c]"]) simp
  next
    case escape
    with "3.IH"(1) obtain w where w: "cs = w @ snd (snd (snd (scan_string (i + 2) cs)))" by blast
    have "scan_string i (c # e # cs) = (let (v, t, ns, rest) = scan_string (i + 2) cs in (escaped e @ v, t, ns, rest))"
      using escape by simp
    then have "snd (snd (snd (scan_string i (c # e # cs)))) = snd (snd (snd (scan_string (i + 2) cs)))"
      by (simp only: Let_def split_beta snd_conv)
    then show ?thesis using w by (intro exI [of _ "c # e # w"]) (metis append_Cons)
  next
    case plain
    with "3.IH"(2) obtain w where w: "e # cs = w @ snd (snd (snd (scan_string (i + 1) (e # cs))))" by blast
    have "scan_string i (c # e # cs) = string_byte i c (scan_string (i + 1) (e # cs))"
      using plain by simp
    then have "snd (snd (snd (scan_string i (c # e # cs)))) = snd (snd (snd (scan_string (i + 1) (e # cs))))"
      by (simp only: string_byte_rest)
    then show ?thesis using w by (intro exI [of _ "c # w"]) (metis append_Cons)
  qed
qed (auto simp: string_byte_def)

lemma scan_digits_split: "fst (scan_digits s) @ snd (scan_digits s) = s"
  by (simp add: scan_digits_def)

lemma scan_fraction_split: "fst (scan_fraction s) @ snd (scan_fraction s) = s"
  using scan_digits_split [of "tl s"]
  by (cases s) (auto simp: scan_fraction_def split_beta head_is_def)

lemma scan_exponent_split: "fst (scan_exponent s) @ snd (scan_exponent s) = s"
proof (cases "head_is (\<lambda>c. c = CHR ''e'' \<or> c = CHR ''E'') s")
  case True
  then obtain c cs where s: "s = c # cs" by (cases s) (auto simp: head_is_def)
  show ?thesis
  proof (cases "head_is (\<lambda>c. c = CHR ''+'' \<or> c = CHR ''-'') cs")
    case sign: True
    then obtain d ds where "cs = d # ds" by (cases cs) (auto simp: head_is_def)
    then show ?thesis using True sign s scan_digits_split [of ds] by (simp add: scan_exponent_def Let_def split_beta)
  next
    case False
    then show ?thesis using True s scan_digits_split [of cs] by (simp add: scan_exponent_def Let_def split_beta)
  qed
qed (simp add: scan_exponent_def)

lemma scan_number_split: "s \<noteq> [] \<Longrightarrow> fst (scan_number s) @ snd (scan_number s) = s"
proof -
  assume "s \<noteq> []"
  let ?s1 = "snd (scan_digits (tl s))"
  have "fst (scan_number s) @ snd (scan_number s) = hd s # fst (scan_digits (tl s)) @
      fst (scan_fraction ?s1) @ fst (scan_exponent (snd (scan_fraction ?s1))) @ snd (scan_exponent (snd (scan_fraction ?s1)))"
    by (simp add: scan_number_def Let_def split_beta)
  also have "\<dots> = hd s # tl s" by (simp add: scan_exponent_split scan_fraction_split scan_digits_split)
  finally show ?thesis using \<open>s \<noteq> []\<close> by simp
qed

definition symbol_text :: "symbol \<Rightarrow> string" where
  "symbol_text y = (case y of LBrace \<Rightarrow> ''{'' | RBrace \<Rightarrow> ''}'' | LBracket \<Rightarrow> ''['' | RBracket \<Rightarrow> '']''
     | LParen \<Rightarrow> ''('' | RParen \<Rightarrow> '')'' | Semicolon \<Rightarrow> '';'' | Comma \<Rightarrow> '','' | Colon \<Rightarrow> '':'' | DotDot \<Rightarrow> ''..'')"

lemma symbol_of_text:
  "symbol_of c (if cs = [] then None else Some (hd cs)) = Some (y, n) \<Longrightarrow> c # cs = symbol_text y @ drop n (c # cs)"
  by (cases cs) (auto simp: symbol_of_def symbol_text_def split: if_splits)

text \<open>\<open>covers k w\<close>: the token \<open>k\<close> was read from the bytes \<open>w\<close>.\<close>

definition covers :: "token_kind \<Rightarrow> string \<Rightarrow> bool" where
  "covers k w \<longleftrightarrow> (case k of TIdent n \<Rightarrow> n = w | TNumber n \<Rightarrow> n = w | TSymbol y \<Rightarrow> symbol_text y = w
     | TString _ \<Rightarrow> head_is (\<lambda>c. c = CHR 0x22) w | TEof \<Rightarrow> False)"

lemma lex_one_covers:
  assumes "s \<noteq> []" "lex_one s cu = (k, errs, rest)"
  shows "\<exists>w. s = w @ rest \<and> w \<noteq> [] \<and> (\<forall>t. k = Some t \<longrightarrow> covers t w)"
proof -
  obtain c cs where s: "s = c # cs" using assms(1) by (cases s) auto
  have short: "length rest < length s" using lex_one_shorter [OF assms(1), of cu] assms(2) by simp
  have "\<exists>w. s = w @ rest \<and> (\<forall>t. k = Some t \<longrightarrow> covers t w)"
  proof (cases "symbol_of c (if cs = [] then None else Some (hd cs))")
    case (Some p)
    obtain y n where p: "p = (y, n)" by (cases p)
    have sym: "s = symbol_text y @ drop n s" using symbol_of_text Some p s by auto
    consider (skip) "k = None" "rest = cs" | (comment) "k = None" "rest = dropWhile (\<lambda>c. c \<noteq> CHR 0x0A) s"
      | (symbol) "k = Some (TSymbol y)" "rest = drop n s"
      using assms(2) Some p s by (auto simp: lex_one_def Let_def split: if_splits)
    then show ?thesis
    proof cases
      case skip
      then show ?thesis using s by (intro exI [of _ "[c]"]) simp
    next
      case comment
      then show ?thesis by (intro exI [of _ "takeWhile (\<lambda>c. c \<noteq> CHR 0x0A) s"]) simp
    next
      case symbol
      then show ?thesis using sym by (intro exI [of _ "symbol_text y"]) (simp add: covers_def)
    qed
  next
    case None
    obtain w where str: "cs = w @ snd (snd (snd (scan_string (cu_index cu + 1) cs)))" using scan_string_suffix by blast
    have num: "s = fst (scan_number s) @ snd (scan_number s)" using scan_number_split [OF assms(1)] by simp
    have ident: "s = fst (scan_ident s) @ snd (scan_ident s)" using s by (simp add: scan_ident_def)
    have e: "lex_one s cu = (k, errs, rest)" and hd: "hd s = c" "tl s = cs" using assms(2) s by simp_all
    consider (skip) "k = None" "rest = cs" | (comment) "k = None" "rest = dropWhile (\<lambda>c. c \<noteq> CHR 0x0A) s"
      | (str) "c = CHR 0x22" "rest = snd (snd (snd (scan_string (cu_index cu + 1) cs)))" "k = None \<or> (\<exists>v. k = Some (TString v))"
      | (num) "k = Some (TNumber (fst (scan_number s)))" "rest = snd (scan_number s)"
      | (ident) "k = Some (TIdent (fst (scan_ident s)))" "rest = snd (scan_ident s)"
    proof (cases "is_space c \<or> c = CHR ''/'' \<and> (if cs = [] then None else Some (hd cs)) = Some (CHR ''/'')")
      case True
      then show ?thesis using e skip comment unfolding lex_one_def Let_def hd by (simp split: if_splits)
    next
      case plain: False
      show ?thesis
      proof (cases "c = CHR 0x22")
        case True
        then have "lex_string s cu = (k, errs, rest)" using e plain None unfolding lex_one_def Let_def hd by simp
        then show ?thesis using str [OF True] lex_string_rest [of s cu] lex_string_kind [of s cu] hd by simp
      next
        case False
        then show ?thesis using e plain None skip num ident unfolding lex_one_def Let_def hd
          by (simp split: if_splits)
      qed
    qed
    then show ?thesis
    proof cases
      case skip
      then show ?thesis using s by (intro exI [of _ "[c]"]) simp
    next
      case comment
      then show ?thesis by (intro exI [of _ "takeWhile (\<lambda>c. c \<noteq> CHR 0x0A) s"]) simp
    next
      case str': str
      then show ?thesis using s str by (intro exI [of _ "c # w"]) (auto simp: covers_def head_is_def)
    next
      case num': num
      then show ?thesis using num by (intro exI [of _ "fst (scan_number s)"]) (simp add: covers_def)
    next
      case ident': ident
      then show ?thesis using ident by (intro exI [of _ "fst (scan_ident s)"]) (simp add: covers_def)
    qed
  qed
  then show ?thesis using short by auto
qed

subsection \<open>Spans\<close>

text \<open>Where a reader is after \<open>pre\<close>: byte index, line and column, both counted from one.\<close>

definition position_of :: "string \<Rightarrow> cursor" where
  "position_of pre = \<lparr> cu_index = length pre, cu_line = Suc (count_list pre (CHR 0x0A)),
     cu_column = Suc (length (takeWhile (\<lambda>c. c \<noteq> CHR 0x0A) (rev pre))) \<rparr>"

lemma index_position_of [simp]: "cu_index (position_of pre) = length pre"
  by (simp add: position_of_def)

lemma position_of_start: "cursor_start = position_of []"
  by (simp add: cursor_start_def position_of_def)

lemma advance_position: "advance w (position_of pre) = position_of (pre @ w)"
proof (induction w arbitrary: pre)
  case (Cons c w)
  have "bump c (position_of pre) = position_of (pre @ [c])" by (simp add: bump_def position_of_def)
  then show ?case using Cons [of "pre @ [c]"] by (simp add: advance_def)
qed (simp add: advance_def)

definition token_in :: "string \<Rightarrow> lexeme \<Rightarrow> bool" where
  "token_in src t \<longleftrightarrow> (let sp = lx_span t in sp_start sp < sp_end sp \<and> sp_end sp \<le> length src
     \<and> position_of (take (sp_start sp) src) = \<lparr> cu_index = sp_start sp, cu_line = sp_line sp, cu_column = sp_column sp \<rparr>
     \<and> covers (lx_kind t) (take (sp_end sp - sp_start sp) (drop (sp_start sp) src)))"

definition eof_at :: "string \<Rightarrow> lexeme" where
  "eof_at src = \<lparr> lx_kind = TEof, lx_span = (let cu = position_of src in
     span_point (cu_index cu) (cu_line cu) (cu_column cu)) \<rparr>"

lemma lex_from_tokens:
  "lex_from s (position_of pre) = (ts, es) \<Longrightarrow> \<exists>us. ts = us @ [eof_at (pre @ s)]
     \<and> (\<forall>t\<in>set us. token_in (pre @ s) t \<and> length pre \<le> sp_start (lx_span t))
     \<and> sorted_wrt (\<lambda>t u. sp_end (lx_span t) \<le> sp_start (lx_span u)) us"
proof (induction "length s" arbitrary: s pre ts es rule: less_induct)
  case less
  show ?case
  proof (cases "s = []")
    case True
    then show ?thesis using less.prems by (auto simp: lex_from.simps eof_at_def Let_def)
  next
    case False
    obtain k errs rest where one: "lex_one s (position_of pre) = (k, errs, rest)" by (metis prod_cases3)
    obtain w where w: "s = w @ rest" "w \<noteq> []" "\<forall>t. k = Some t \<longrightarrow> covers t w"
      using lex_one_covers [OF False one] by blast
    have bytes: "take (length s - length rest) s = w" using w(1) by simp
    obtain ts' es' where rec: "lex_from rest (position_of (pre @ w)) = (ts', es')"
      by (cases "lex_from rest (position_of (pre @ w))")
    have "lex_from s (position_of pre) = (case k of None \<Rightarrow> ts'
        | Some k \<Rightarrow> \<lparr> lx_kind = k, lx_span = span_to (position_of pre) (length pre + length w) \<rparr> # ts', errs @ es')"
      by (subst lex_from.simps) (simp add: False one rec bytes advance_position Let_def split: option.splits)
    then have ts: "ts = (case k of None \<Rightarrow> ts'
        | Some k \<Rightarrow> \<lparr> lx_kind = k, lx_span = span_to (position_of pre) (length pre + length w) \<rparr> # ts')"
      using less.prems by simp
    have "length rest < length s" using w by simp
    from less.hyps [OF this rec] obtain us where us: "ts' = us @ [eof_at (pre @ s)]"
        "\<forall>t\<in>set us. token_in (pre @ s) t \<and> length (pre @ w) \<le> sp_start (lx_span t)"
        "sorted_wrt (\<lambda>t u. sp_end (lx_span t) \<le> sp_start (lx_span u)) us"
      using w(1) by auto
    show ?thesis
    proof (cases k)
      case None
      then show ?thesis using ts us by auto
    next
      case (Some k')
      let ?t = "\<lparr> lx_kind = k', lx_span = span_to (position_of pre) (length pre + length w) \<rparr>"
      have t: "token_in (pre @ s) ?t" "length pre \<le> sp_start (lx_span ?t)"
        using w Some by (auto simp: token_in_def span_to_def position_of_def Let_def)
      have "\<forall>u\<in>set us. sp_end (lx_span ?t) \<le> sp_start (lx_span u)" using us(2) by (auto simp: span_to_def)
      then show ?thesis using ts us t Some by (intro exI [of _ "?t # us"]) auto
    qed
  qed
qed

text \<open>
  C31: the tokens of an accepted source come in the order of the text without
  overlap, each with the line, column and bytes it was read from, and end with the end of file.
\<close>

theorem tokens_cover_source:
  assumes "lex source = Inr ts"
  shows "\<exists>us. ts = us @ [eof_at source] \<and> (\<forall>t\<in>set us. token_in source t)
    \<and> sorted_wrt (\<lambda>t u. sp_end (lx_span t) \<le> sp_start (lx_span u)) us"
proof -
  obtain es where "lex_from source (position_of []) = (ts, es)"
    using assms by (auto simp: lex_def position_of_start split: prod.splits if_splits)
  from lex_from_tokens [OF this] show ?thesis by auto
qed

lemma tokens_cover_source_witness:
  "\<exists>ts us. lex ''wave 32;'' = Inr ts \<and> ts = us @ [eof_at ''wave 32;''] \<and> (\<forall>t\<in>set us. token_in ''wave 32;'' t)"
proof -
  have "case lex ''wave 32;'' of Inl _ \<Rightarrow> False | Inr _ \<Rightarrow> True" by code_simp
  then obtain ts where ts: "lex ''wave 32;'' = Inr ts" by (auto split: sum.splits)
  from tokens_cover_source [OF ts] ts show ?thesis by blast
qed

end
