(* ===== verification/Lang_Parser.thy ===== *)
theory Lang_Parser
  imports Lang_Lexer
begin

text \<open>
  \<open>har-lang-parser\<close>: the recursive-descent parser with its error recovery.  The index into the tokens is
  modelled by the tokens left; the code never moves past the last token, and neither does \<open>step_token\<close>.
  Every loop is a partial function, because on tokens that do not end with an end of file the code
  loops for ever; that \<open>parse\<close> returns on all tokens that do is a theorem below.
\<close>

subsection \<open>Tokens\<close>

record parser =
  ps_rest :: "lexeme list"
  ps_errors :: "diagnostic list"

definition current :: "parser \<Rightarrow> lexeme" where
  "current s = hd (ps_rest s)"

definition kind :: "parser \<Rightarrow> token_kind" where
  "kind s = lx_kind (current s)"

definition step_token :: "parser \<Rightarrow> parser" where
  "step_token s = (if kind s = TEof \<or> tl (ps_rest s) = [] then s else s\<lparr> ps_rest := tl (ps_rest s) \<rparr>)"

definition take_symbol :: "symbol \<Rightarrow> parser \<Rightarrow> bool \<times> parser" where
  "take_symbol y s = (if kind s = TSymbol y then (True, step_token s) else (False, s))"

definition complain :: "string \<Rightarrow> string \<Rightarrow> parser \<Rightarrow> parser" where
  "complain code message s =
     s\<lparr> ps_errors := ps_errors s @ [diag_error code message (Some (lx_span (current s)))] \<rparr>"

definition expect_ident :: "string \<Rightarrow> string \<Rightarrow> parser \<Rightarrow> string option \<times> parser" where
  "expect_ident code message s =
     (case kind s of TIdent v \<Rightarrow> (Some v, step_token s) | _ \<Rightarrow> (None, complain code message s))"

definition expect_number :: "string \<Rightarrow> string \<Rightarrow> parser \<Rightarrow> string option \<times> parser" where
  "expect_number code message s =
     (case kind s of TNumber v \<Rightarrow> (Some v, step_token s) | _ \<Rightarrow> (None, complain code message s))"

subsection \<open>Recovery\<close>

definition stops :: "symbol list \<Rightarrow> parser \<Rightarrow> bool" where
  "stops ys s \<longleftrightarrow> kind s = TEof \<or> kind s \<in> TSymbol ` set ys"

partial_function (option) skip_to :: "symbol list \<Rightarrow> parser \<Rightarrow> parser option" where
  "skip_to ys s = (if stops ys s then Some s else skip_to ys (step_token s))"

declare skip_to.simps [code]

definition recover :: "symbol list \<Rightarrow> symbol \<Rightarrow> parser \<Rightarrow> parser option" where
  "recover ys y s = map_option (\<lambda>s. snd (take_symbol y s)) (skip_to ys s)"

definition recover_top_level :: "parser \<Rightarrow> parser option" where
  "recover_top_level = recover [RBrace] RBrace"

definition recover_field :: "parser \<Rightarrow> parser option" where
  "recover_field = recover [Semicolon, RBrace] Semicolon"

definition recover_list :: "parser \<Rightarrow> parser option" where
  "recover_list = recover [Comma, RBracket] Comma"

subsection \<open>Values\<close>

definition scalar :: "token_kind \<Rightarrow> har_value option" where
  "scalar k = (case k of TNumber n \<Rightarrow> Some (VNumber n) | TIdent v \<Rightarrow> Some (VIdent v) | TString v \<Rightarrow> Some (VString v)
     | _ \<Rightarrow> None)"

partial_function (option) list_loop :: "har_value list \<Rightarrow> parser \<Rightarrow> (har_value list \<times> parser) option" where
  "list_loop vs s =
     (if stops [RBracket] s then Some (vs, s)
      else case scalar (kind s) of
        None \<Rightarrow> Option.bind (recover_list (complain ''P0008'' ''list elements must be scalar values'' s)) (list_loop vs)
      | Some v \<Rightarrow>
          (let (comma, s1) = take_symbol Comma (step_token s) in
           if \<not> comma \<and> kind s1 \<noteq> TSymbol RBracket
           then Option.bind (recover_list (complain ''P0009'' ''expected `,` or `]` in list'' s1)) (list_loop (vs @ [v]))
           else list_loop (vs @ [v]) s1))"

declare list_loop.simps [code]

definition parse_list :: "parser \<Rightarrow> (har_value \<times> parser) option" where
  "parse_list s = map_option (\<lambda>(vs, s1). let (closed, s2) = take_symbol RBracket s1 in
     (VList vs, if closed then s2 else complain ''P0012'' ''unterminated list; expected `]`'' s2))
     (list_loop [] (step_token s))"

definition range_to :: "string \<Rightarrow> string \<Rightarrow> parser \<Rightarrow> har_value option \<times> parser" where
  "range_to code start s =
     (case expect_number code ''expected range end'' s of
        (None, s1) \<Rightarrow> (None, s1) | (Some stop, s1) \<Rightarrow> (Some (VRange start stop), s1))"

definition parse_value :: "parser \<Rightarrow> (har_value option \<times> parser) option" where
  "parse_value s =
     (case kind s of
        TString v \<Rightarrow> Some (Some (VString v), step_token s)
      | TNumber n \<Rightarrow>
          (let (dots, s1) = take_symbol DotDot (step_token s) in
           if dots then Some (range_to ''P0010'' n s1)
           else case kind s1 of
             TIdent u \<Rightarrow> Some (Some (VQuantity n u), step_token s1)
           | _ \<Rightarrow> Some (Some (VNumber n), s1))
      | TIdent v \<Rightarrow>
          (let (dots, s1) = take_symbol DotDot (step_token s) in
           if dots then Some (range_to ''P0011'' v s1) else Some (Some (VIdent v), s1))
      | TSymbol LBracket \<Rightarrow> map_option (\<lambda>(v, s1). (Some v, s1)) (parse_list s)
      | _ \<Rightarrow> Some (None, complain ''P0007'' ''expected a string, identifier, number, range, or list'' s))"

subsection \<open>Fields, declarations, programs\<close>

definition span_until :: "span \<Rightarrow> parser \<Rightarrow> span" where
  "span_until start s = \<lparr> sp_start = sp_start start, sp_end = sp_end (lx_span (current s)),
     sp_line = sp_line start, sp_column = sp_column start \<rparr>"

partial_function (option) fields_loop :: "field list \<Rightarrow> parser \<Rightarrow> (field list \<times> parser) option" where
  "fields_loop fs s =
     (if stops [RBrace] s then Some (fs, s)
      else let start = lx_span (current s) in
        case expect_ident ''P0004'' ''expected a field name'' s of
          (None, s1) \<Rightarrow> Option.bind (recover_field s1) (fields_loop fs)
        | (Some key, s1) \<Rightarrow>
            Option.bind (parse_value s1) (\<lambda>(v, s2). case v of
              None \<Rightarrow> Option.bind (recover_field s2) (fields_loop fs)
            | Some v \<Rightarrow>
                (let (semi, s3) = take_symbol Semicolon s2 in
                 Option.bind (if semi then Some s3 else recover_field (complain ''P0005'' ''expected `;` after field'' s3))
                   (\<lambda>s4. fields_loop (fs @ [\<lparr> fd_key = key, fd_value = v, fd_span = span_until start s4 \<rparr>]) s4))))"

declare fields_loop.simps [code]

definition parse_block :: "parser \<Rightarrow> (block option \<times> parser) option" where
  "parse_block s =
     (let start = lx_span (current s) in
      case expect_ident ''P0001'' ''expected a declaration kind'' s of
        (None, s1) \<Rightarrow> Some (None, s1)
      | (Some k, s1) \<Rightarrow>
         (case expect_ident ''P0002'' ''expected a declaration name'' s1 of
            (None, s2) \<Rightarrow> Some (None, s2)
          | (Some name, s2) \<Rightarrow>
             (let (opened, s3) = take_symbol LBrace s2 in
              if \<not> opened then Some (None, complain ''P0003'' ''expected `{` after declaration name'' s3)
              else map_option (\<lambda>(fs, s4). let (closed, s5) = take_symbol RBrace s4;
                       s6 = (if closed then s5 else complain ''P0006'' ''unterminated declaration; expected `}`'' s5)
                     in (Some \<lparr> bl_kind = k, bl_name = name, bl_fields = fs, bl_span = span_until start s6 \<rparr>, s6))
                   (fields_loop [] s3))))"

partial_function (option) program_loop :: "block list \<Rightarrow> parser \<Rightarrow> (block list \<times> parser) option" where
  "program_loop bs s =
     (if kind s = TEof then Some (bs, s)
      else Option.bind (parse_block s) (\<lambda>(b, s1). case b of
          Some b \<Rightarrow> program_loop (bs @ [b]) s1
        | None \<Rightarrow> Option.bind (recover_top_level s1) (program_loop bs)))"

declare program_loop.simps [code]

text \<open>No result for an empty slice, on which the code panics, and none when it never returns.\<close>

definition parse :: "lexeme list \<Rightarrow> string \<Rightarrow> (diagnostic list + program) option" where
  "parse tokens source_name =
     (if tokens = [] then None
      else map_option (\<lambda>(bs, s). if ps_errors s = [] then Inr \<lparr> pg_source_name = source_name, pg_declarations = bs \<rparr>
                                 else Inl (ps_errors s))
             (program_loop [] \<lparr> ps_rest = tokens, ps_errors = [] \<rparr>))"

subsection \<open>The parser returns\<close>

definition ends :: "parser \<Rightarrow> bool" where
  "ends s \<longleftrightarrow> ps_rest s \<noteq> [] \<and> lx_kind (last (ps_rest s)) = TEof"

definition size_of :: "parser \<Rightarrow> nat" where
  "size_of s = length (ps_rest s)"

lemma step_token_ends:
  assumes "ends s"
  shows "ends (step_token s)" "size_of (step_token s) \<le> size_of s" "kind s \<noteq> TEof \<Longrightarrow> size_of (step_token s) < size_of s"
proof -
  obtain t ts where s: "ps_rest s = t # ts" using assms by (cases "ps_rest s") (auto simp: ends_def)
  show "ends (step_token s)" "size_of (step_token s) \<le> size_of s"
    using assms s by (auto simp: ends_def step_token_def size_of_def)
  show "size_of (step_token s) < size_of s" if "kind s \<noteq> TEof"
    using assms s that by (auto simp: ends_def step_token_def size_of_def kind_def current_def)
qed

lemma complain_simps [simp]:
  "ends (complain c t s) = ends s" "size_of (complain c t s) = size_of s" "kind (complain c t s) = kind s"
  "ps_rest (complain c t s) = ps_rest s" "stops ys (complain c t s) = stops ys s"
  by (simp_all add: complain_def ends_def size_of_def kind_def current_def stops_def)

lemma take_symbol_ends:
  assumes "ends s" "take_symbol y s = (b, s')"
  shows "ends s'" "size_of s' \<le> size_of s" "b \<Longrightarrow> size_of s' < size_of s" "\<not> b \<Longrightarrow> s' = s \<and> kind s \<noteq> TSymbol y"
  using assms step_token_ends [OF assms(1)] by (auto simp: take_symbol_def split: if_splits)

lemma skip_to_returns:
  "ends s \<Longrightarrow> \<exists>s'. skip_to ys s = Some s' \<and> ends s' \<and> size_of s' \<le> size_of s \<and> stops ys s'
     \<and> (s' = s \<or> size_of s' < size_of s)"
proof (induction "size_of s" arbitrary: s rule: less_induct)
  case less
  show ?case
  proof (cases "stops ys s")
    case True
    then show ?thesis using less.prems by (subst skip_to.simps) simp
  next
    case False
    then have k: "kind s \<noteq> TEof" by (simp add: stops_def)
    note step = step_token_ends [OF less.prems]
    from less.hyps [OF step(3) [OF k] step(1)] step(3) [OF k] False show ?thesis
      by (subst skip_to.simps) auto
  qed
qed

text \<open>After recovery something has been consumed, unless it stopped at once and not at its own symbol.\<close>

lemma recover_returns:
  assumes "ends s"
  shows "\<exists>s'. recover ys y s = Some s' \<and> ends s' \<and> size_of s' \<le> size_of s
     \<and> (size_of s' < size_of s \<or> stops ys s \<and> kind s \<noteq> TSymbol y)"
proof -
  obtain s1 where s1: "skip_to ys s = Some s1" "ends s1" "size_of s1 \<le> size_of s" "stops ys s1"
      "s1 = s \<or> size_of s1 < size_of s"
    using skip_to_returns [OF assms] by blast
  obtain b s2 where t: "take_symbol y s1 = (b, s2)" by (cases "take_symbol y s1")
  note take = take_symbol_ends [OF s1(2) t]
  have "recover ys y s = Some s2" using s1(1) t by (simp add: recover_def)
  moreover have "size_of s2 < size_of s \<or> stops ys s \<and> kind s \<noteq> TSymbol y"
    using s1 take by (cases b) auto
  ultimately show ?thesis using s1(3) take(1,2) by auto
qed

lemma expect_ident_ends:
  assumes "ends s" "expect_ident c t s = (r, s')"
  shows "ends s'" "size_of s' \<le> size_of s" "r \<noteq> None \<Longrightarrow> size_of s' < size_of s"
    "r = None \<Longrightarrow> s' = complain c t s \<and> (\<forall>v. kind s \<noteq> TIdent v)"
  using assms step_token_ends [OF assms(1)] by (auto simp: expect_ident_def split: token_kind.splits)

lemma list_loop_returns:
  "ends s \<Longrightarrow> \<exists>vs' s'. list_loop vs s = Some (vs', s') \<and> ends s' \<and> size_of s' \<le> size_of s"
proof (induction "size_of s" arbitrary: s vs rule: less_induct)
  case less
  show ?case
  proof (cases "stops [RBracket] s")
    case True
    then show ?thesis using less.prems by (subst list_loop.simps) simp
  next
    case False
    then have k: "kind s \<noteq> TEof" "kind s \<noteq> TSymbol RBracket" by (auto simp: stops_def)
    note step = step_token_ends [OF less.prems]
    show ?thesis
    proof (cases "scalar (kind s)")
      case None
      let ?s = "complain ''P0008'' ''list elements must be scalar values'' s"
      obtain s1 where s1: "recover_list ?s = Some s1" "ends s1"
          "size_of s1 < size_of s \<or> stops [Comma, RBracket] s \<and> kind s \<noteq> TSymbol Comma"
        using recover_returns [of ?s "[Comma, RBracket]" Comma] less.prems by (auto simp: recover_list_def)
      then have "size_of s1 < size_of s" using k by (auto simp: stops_def)
      with less.hyps [of s1 vs] s1 False None show ?thesis by (subst list_loop.simps) fastforce
    next
      case (Some v)
      obtain b s1 where t: "take_symbol Comma (step_token s) = (b, s1)" by (cases "take_symbol Comma (step_token s)")
      note take = take_symbol_ends [OF step(1) t]
      have less1: "size_of s1 < size_of s" using take(2) step(3) [OF k(1)] by simp
      show ?thesis
      proof (cases "\<not> b \<and> kind s1 \<noteq> TSymbol RBracket")
        case True
        let ?s = "complain ''P0009'' ''expected `,` or `]` in list'' s1"
        obtain s2 where s2: "recover_list ?s = Some s2" "ends s2" "size_of s2 \<le> size_of s1"
          using recover_returns [of ?s "[Comma, RBracket]" Comma] take(1) by (auto simp: recover_list_def)
        then have "size_of s2 < size_of s" using less1 by simp
        with less.hyps [of s2 "vs @ [v]"] s2 False Some t True show ?thesis by (subst list_loop.simps) fastforce
      next
        case False': False
        from less.hyps [OF less1 take(1), of "vs @ [v]"] less1 False Some t False' show ?thesis
          by (subst list_loop.simps) fastforce
      qed
    qed
  qed
qed

lemma parse_value_returns:
  assumes "ends s"
  shows "\<exists>v s'. parse_value s = Some (v, s') \<and> ends s' \<and> size_of s' \<le> size_of s"
proof -
  note step = step_token_ends [OF assms]
  have range: "\<exists>v s'. Some (range_to c n s1) = Some (v, s') \<and> ends s' \<and> size_of s' \<le> size_of s"
    if "ends s1" "size_of s1 \<le> size_of s" for c n s1
    using that step_token_ends [OF that(1)] by (auto simp: range_to_def expect_number_def split: token_kind.splits)
  have dots: "\<exists>b s1. take_symbol DotDot (step_token s) = (b, s1) \<and> ends s1 \<and> size_of s1 \<le> size_of s"
    using take_symbol_ends [OF step(1)] step(2) by (metis le_trans prod.exhaust)
  then obtain b s1 where t: "take_symbol DotDot (step_token s) = (b, s1)" "ends s1" "size_of s1 \<le> size_of s" by blast
  note step1 = step_token_ends [OF t(2)]
  show ?thesis
  proof (cases "kind s")
    case (TNumber n)
    have "\<exists>v s'. (case kind s1 of TIdent u \<Rightarrow> Some (Some (VQuantity n u), step_token s1) | _ \<Rightarrow> Some (Some (VNumber n), s1))
        = Some (v, s') \<and> ends s' \<and> size_of s' \<le> size_of s"
      using t(2,3) step1 by (cases "kind s1") auto
    then show ?thesis using range [OF t(2,3)] t(1) TNumber by (cases b) (simp_all add: parse_value_def)
  next
    case (TIdent v)
    then show ?thesis using range [OF t(2,3)] t by (cases b) (simp_all add: parse_value_def)
  next
    case (TSymbol y)
    show ?thesis
    proof (cases "y = LBracket")
      case True
      obtain vs s2 where l: "list_loop [] (step_token s) = Some (vs, s2)" "ends s2" "size_of s2 \<le> size_of s"
        using list_loop_returns [OF step(1)] step(2) by (meson le_trans)
      obtain c s3 where c: "take_symbol RBracket s2 = (c, s3)" by (cases "take_symbol RBracket s2")
      note take = take_symbol_ends [OF l(2) c]
      show ?thesis using l c take True TSymbol by (simp add: parse_value_def parse_list_def)
    next
      case False
      then show ?thesis using TSymbol assms by (cases y) (simp_all add: parse_value_def)
    qed
  qed (use assms step in \<open>simp_all add: parse_value_def\<close>)
qed

lemma fields_loop_returns:
  "ends s \<Longrightarrow> \<exists>fs' s'. fields_loop fs s = Some (fs', s') \<and> ends s' \<and> size_of s' \<le> size_of s"
proof (induction "size_of s" arbitrary: s fs rule: less_induct)
  case less
  show ?case
  proof (cases "stops [RBrace] s")
    case True
    then show ?thesis using less.prems by (subst fields_loop.simps) simp
  next
    case False
    then have k: "kind s \<noteq> TEof" "kind s \<noteq> TSymbol RBrace" by (auto simp: stops_def)
    obtain key s1 where e: "expect_ident ''P0004'' ''expected a field name'' s = (key, s1)"
      by (cases "expect_ident ''P0004'' ''expected a field name'' s")
    note ident = expect_ident_ends [OF less.prems e]
    have again: "\<exists>fs' s'. fields_loop gs t = Some (fs', s') \<and> ends s' \<and> size_of s' \<le> size_of s"
      if "ends t" "size_of t < size_of s" for t gs
      using less.hyps [OF that(2,1), of gs] that(2) by fastforce
    show ?thesis
    proof (cases key)
      case None
      obtain s2 where s2: "recover_field s1 = Some s2" "ends s2"
          "size_of s2 < size_of s1 \<or> stops [Semicolon, RBrace] s1 \<and> kind s1 \<noteq> TSymbol Semicolon"
        using recover_returns [OF ident(1), of "[Semicolon, RBrace]" Semicolon] by (auto simp: recover_field_def)
      moreover have "kind s1 = kind s" using ident(4) [OF None] by simp
      ultimately have "size_of s2 < size_of s" using k ident(2) by (auto simp: stops_def)
      with again s2 False e None show ?thesis by (subst fields_loop.simps) simp
    next
      case (Some name)
      then have less1: "size_of s1 < size_of s" using ident(3) by simp
      obtain v s2 where v: "parse_value s1 = Some (v, s2)" "ends s2" "size_of s2 \<le> size_of s1"
        using parse_value_returns [OF ident(1)] by blast
      have rec: "\<exists>s3. recover_field t = Some s3 \<and> ends s3 \<and> size_of s3 < size_of s"
        if "ends t" "size_of t < size_of s" for t
        using recover_returns [OF that(1), of "[Semicolon, RBrace]" Semicolon] that(2)
        by (auto simp: recover_field_def intro: le_less_trans)
      have less2: "size_of s2 < size_of s" using v(3) less1 by simp
      show ?thesis
      proof (cases v)
        case None
        obtain s3 where "recover_field s2 = Some s3" "ends s3" "size_of s3 < size_of s" using rec [OF v(2) less2] by blast
        with again v(1) False e Some None show ?thesis by (subst fields_loop.simps) simp
      next
        case (Some val)
        obtain b s3 where t: "take_symbol Semicolon s2 = (b, s3)" by (cases "take_symbol Semicolon s2")
        note take = take_symbol_ends [OF v(2) t]
        let ?c = "complain ''P0005'' ''expected `;` after field'' s3"
        obtain s4 where s4: "(if b then Some s3 else recover_field ?c) = Some s4" "ends s4" "size_of s4 < size_of s"
          using rec [of ?c] take(1,2) less2 by (cases b) auto
        with again v(1) False e \<open>key = Some name\<close> Some t show ?thesis
          by (subst fields_loop.simps) (simp add: Let_def)
      qed
    qed
  qed
qed

lemma parse_block_returns:
  assumes "ends s"
  shows "\<exists>b s'. parse_block s = Some (b, s') \<and> ends s' \<and> size_of s' \<le> size_of s \<and> (b \<noteq> None \<longrightarrow> size_of s' < size_of s)"
proof -
  obtain k s1 where e1: "expect_ident ''P0001'' ''expected a declaration kind'' s = (k, s1)"
    by (cases "expect_ident ''P0001'' ''expected a declaration kind'' s")
  note i1 = expect_ident_ends [OF assms e1]
  obtain n s2 where e2: "expect_ident ''P0002'' ''expected a declaration name'' s1 = (n, s2)"
    by (cases "expect_ident ''P0002'' ''expected a declaration name'' s1")
  note i2 = expect_ident_ends [OF i1(1) e2]
  obtain b s3 where t: "take_symbol LBrace s2 = (b, s3)" by (cases "take_symbol LBrace s2")
  note take = take_symbol_ends [OF i2(1) t]
  obtain fs s4 where f: "fields_loop [] s3 = Some (fs, s4)" "ends s4" "size_of s4 \<le> size_of s3"
    using fields_loop_returns [OF take(1)] by blast
  obtain c s5 where u: "take_symbol RBrace s4 = (c, s5)" by (cases "take_symbol RBrace s4")
  note take' = take_symbol_ends [OF f(2) u]
  consider (k) "k = None" | (n) x where "k = Some x" "n = None" | (b) x y where "k = Some x" "n = Some y" "\<not> b"
    | (all) x y where "k = Some x" "n = Some y" b by (cases k; cases n) blast+
  then show ?thesis
  proof cases
    case k
    then show ?thesis using e1 i1(1,2) by (simp add: parse_block_def)
  next
    case n
    then show ?thesis using e1 e2 i1(2) i2(1,2) by (simp add: parse_block_def)
  next
    case b
    then show ?thesis using e1 e2 t i1(2) i2(2) take(1,2) by (simp add: parse_block_def)
  next
    case all
    then have "size_of s5 < size_of s" using i1(3) i2(2) take(2) f(3) take'(2) by simp
    with all e1 e2 t f(1) u take'(1) show ?thesis by (simp add: parse_block_def Let_def)
  qed
qed

lemma program_loop_returns: "ends s \<Longrightarrow> \<exists>bs' s'. program_loop bs s = Some (bs', s')"
proof (induction "size_of s" arbitrary: s bs rule: less_induct)
  case less
  show ?case
  proof (cases "kind s = TEof")
    case True
    then show ?thesis by (subst program_loop.simps) simp
  next
    case False
    obtain b s1 where b: "parse_block s = Some (b, s1)" "ends s1" "size_of s1 \<le> size_of s" "b \<noteq> None \<longrightarrow> size_of s1 < size_of s"
      using parse_block_returns [OF less.prems] by blast
    show ?thesis
    proof (cases b)
      case None
      obtain s2 where s2: "recover_top_level s1 = Some s2" "ends s2" "size_of s2 \<le> size_of s1"
          "size_of s2 < size_of s1 \<or> stops [RBrace] s1 \<and> kind s1 \<noteq> TSymbol RBrace"
        using recover_returns [OF b(2), of "[RBrace]" RBrace] by (auto simp: recover_top_level_def)
      have "\<exists>bs' s'. program_loop bs s2 = Some (bs', s')"
      proof (cases "size_of s2 < size_of s")
        case True
        from less.hyps [OF this s2(2)] show ?thesis .
      next
        case same: False
        then have "kind s1 = TEof" using s2(3,4) b(3) by (auto simp: stops_def)
        then have "s2 = s1" using s2(1)
          by (auto simp: recover_top_level_def recover_def take_symbol_def skip_to.simps stops_def split: if_splits)
        with \<open>kind s1 = TEof\<close> show ?thesis by (subst program_loop.simps) simp
      qed
      with False b None s2(1) show ?thesis by (subst program_loop.simps) simp
    next
      case (Some x)
      then have "size_of s1 < size_of s" using b(4) by simp
      from less.hyps [OF this b(2)] show ?thesis
        using False b Some by (subst program_loop.simps) simp
    qed
  qed
qed

text \<open>
  On every token list that ends with an end of file the parser returns, whatever
  errors it has to recover from; the tokens of every source the lexer accepts are such a list.
\<close>

lemma parser_returns:
  assumes "lex source = Inr tokens"
  shows "\<exists>result. parse tokens source_name = Some result"
proof -
  have "tokens \<noteq> []" "lx_kind (last tokens) = TEof"
  proof -
    obtain es where "lex_from source (position_of []) = (tokens, es)"
      using assms by (auto simp: lex_def position_of_start split: prod.splits if_splits)
    from lex_from_tokens [OF this] show "tokens \<noteq> []" "lx_kind (last tokens) = TEof"
      by (auto simp: eof_at_def)
  qed
  then have "ends \<lparr> ps_rest = tokens, ps_errors = [] \<rparr>" by (simp add: ends_def)
  from program_loop_returns [OF this] \<open>tokens \<noteq> []\<close> show ?thesis by (fastforce simp: parse_def)
qed

end
