(* ===== verification/Lang_Format.thy ===== *)
theory Lang_Format
  imports Lang_Parser
begin

text \<open>
  \<open>har-lang-format\<close>: the formatter, and that what it prints is read back as the same program, spans
  apart.
\<close>

subsection \<open>The formatter\<close>

definition format_char :: "char \<Rightarrow> string" where
  "format_char c = (if c = CHR 0x22 then [CHR 0x5C, CHR 0x22] else if c = CHR 0x0A then [CHR 0x5C, CHR ''n'']
     else if c = CHR 0x5C then [CHR 0x5C, CHR 0x5C] else [c])"

fun format_value :: "har_value \<Rightarrow> string" and format_values :: "har_value list \<Rightarrow> string" where
  "format_value (VIdent v) = v"
| "format_value (VNumber v) = v"
| "format_value (VString v) = CHR 0x22 # concat (map format_char v) @ [CHR 0x22]"
| "format_value (VQuantity n u) = n @ '' '' @ u"
| "format_value (VRange a b) = a @ ''..'' @ b"
| "format_value (VList vs) = ''['' @ format_values vs @ '']''"
| "format_values [] = []"
| "format_values [v] = format_value v"
| "format_values (v # w # vs) = format_value v @ '', '' @ format_values (w # vs)"

definition format_field :: "field \<Rightarrow> string" where
  "format_field f = ''    '' @ fd_key f @ '' '' @ format_value (fd_value f) @ '';'' @ [CHR 0x0A]"

definition format_block :: "block \<Rightarrow> string" where
  "format_block b = bl_kind b @ '' '' @ bl_name b @ '' {'' @ [CHR 0x0A] @ concat (map format_field (bl_fields b))
     @ ''}'' @ [CHR 0x0A]"

definition format_program :: "program \<Rightarrow> string" where
  "format_program p = concat (map (\<lambda>b. format_block b @ [CHR 0x0A]) (pg_declarations p))"

subsection \<open>Printable programs\<close>

definition ident_ok :: "string \<Rightarrow> bool" where
  "ident_ok s \<longleftrightarrow> head_is is_ident_start s \<and> list_all is_ident_char (tl s)"

definition number_ok :: "string \<Rightarrow> bool" where
  "number_ok s \<longleftrightarrow> starts_number s \<and> snd (scan_number s) = []"

definition text_ok :: "string \<Rightarrow> bool" where
  "text_ok s \<longleftrightarrow> list_all is_ascii s"

fun scalar_ok :: "har_value \<Rightarrow> bool" where
  "scalar_ok (VIdent v) = ident_ok v"
| "scalar_ok (VNumber v) = number_ok v"
| "scalar_ok (VString v) = text_ok v"
| "scalar_ok _ = False"

fun value_ok :: "har_value \<Rightarrow> bool" where
  "value_ok (VQuantity n u) = (number_ok n \<and> ident_ok u)"
| "value_ok (VRange a b) = ((ident_ok a \<or> number_ok a \<and> last a \<noteq> CHR ''.'') \<and> number_ok b)"
| "value_ok (VList vs) = list_all scalar_ok vs"
| "value_ok v = scalar_ok v"

definition block_ok :: "block \<Rightarrow> bool" where
  "block_ok b \<longleftrightarrow> ident_ok (bl_kind b) \<and> ident_ok (bl_name b)
     \<and> list_all (\<lambda>f. ident_ok (fd_key f) \<and> value_ok (fd_value f)) (bl_fields b)"

definition program_ok :: "program \<Rightarrow> bool" where
  "program_ok p \<longleftrightarrow> list_all block_ok (pg_declarations p)"

text \<open>A program without its spans and file name.\<close>

definition bare_block :: "block \<Rightarrow> string \<times> string \<times> (string \<times> har_value) list" where
  "bare_block b = (bl_kind b, bl_name b, map (\<lambda>f. (fd_key f, fd_value f)) (bl_fields b))"

definition bare :: "program \<Rightarrow> (string \<times> string \<times> (string \<times> har_value) list) list" where
  "bare p = map bare_block (pg_declarations p)"

subsection \<open>The tokens of a program\<close>

fun scalar_kind :: "har_value \<Rightarrow> token_kind" where
  "scalar_kind (VIdent v) = TIdent v"
| "scalar_kind (VNumber v) = TNumber v"
| "scalar_kind (VString v) = TString v"
| "scalar_kind _ = TEof"

fun list_kinds :: "har_value list \<Rightarrow> token_kind list" where
  "list_kinds [] = []"
| "list_kinds [v] = [scalar_kind v]"
| "list_kinds (v # w # vs) = scalar_kind v # TSymbol Comma # list_kinds (w # vs)"

fun value_kinds :: "har_value \<Rightarrow> token_kind list" where
  "value_kinds (VQuantity n u) = [TNumber n, TIdent u]"
| "value_kinds (VRange a b) = [if ident_ok a then TIdent a else TNumber a, TSymbol DotDot, TNumber b]"
| "value_kinds (VList vs) = TSymbol LBracket # list_kinds vs @ [TSymbol RBracket]"
| "value_kinds v = [scalar_kind v]"

definition field_kinds :: "field \<Rightarrow> token_kind list" where
  "field_kinds f = TIdent (fd_key f) # value_kinds (fd_value f) @ [TSymbol Semicolon]"

definition block_kinds :: "block \<Rightarrow> token_kind list" where
  "block_kinds b = TIdent (bl_kind b) # TIdent (bl_name b) # TSymbol LBrace
     # concat (map field_kinds (bl_fields b)) @ [TSymbol RBrace]"

subsection \<open>Lexing what was printed\<close>

text \<open>\<open>yields w ks r\<close>: in front of \<open>r\<close> the text \<open>w\<close> lexes to tokens of the kinds \<open>ks\<close>, without errors.\<close>

definition yields :: "string \<Rightarrow> token_kind list \<Rightarrow> string \<Rightarrow> bool" where
  "yields w ks r \<longleftrightarrow> (\<forall>cu. \<exists>us. map lx_kind us = ks
     \<and> lex_from (w @ r) cu = (us @ fst (lex_from r (advance w cu)), snd (lex_from r (advance w cu))))"

lemma advance_append: "advance (v @ w) cu = advance w (advance v cu)"
  by (simp add: advance_def)

lemma yields_append:
  assumes "yields v ks (w @ r)" "yields w js r"
  shows "yields (v @ w) (ks @ js) r"
  unfolding yields_def
proof
  fix cu
  obtain us where us: "map lx_kind us = ks" "lex_from (v @ w @ r) cu
      = (us @ fst (lex_from (w @ r) (advance v cu)), snd (lex_from (w @ r) (advance v cu)))"
    using assms(1) unfolding yields_def by blast
  obtain xs where xs: "map lx_kind xs = js" "lex_from (w @ r) (advance v cu)
      = (xs @ fst (lex_from r (advance w (advance v cu))), snd (lex_from r (advance w (advance v cu))))"
    using assms(2) unfolding yields_def by blast
  show "\<exists>us. map lx_kind us = ks @ js \<and> lex_from ((v @ w) @ r) cu
      = (us @ fst (lex_from r (advance (v @ w) cu)), snd (lex_from r (advance (v @ w) cu)))"
    by (rule exI [of _ "us @ xs"]) (simp add: us xs advance_append)
qed

lemma yields_Nil: "yields [] [] r"
  by (simp add: yields_def advance_def)

lemma yields_one:
  assumes "w \<noteq> []" "\<And>cu. lex_one (w @ r) cu = (k, [], r)"
  shows "yields w (case k of None \<Rightarrow> [] | Some k \<Rightarrow> [k]) r"
  unfolding yields_def
proof
  fix cu
  let ?cu' = "advance w cu"
  have w: "take (length (w @ r) - length r) (w @ r) = w" by simp
  have "w @ r \<noteq> []" using assms(1) by simp
  then have "lex_from (w @ r) cu = (case k of None \<Rightarrow> fst (lex_from r ?cu')
      | Some k \<Rightarrow> \<lparr> lx_kind = k, lx_span = span_to cu (cu_index ?cu') \<rparr> # fst (lex_from r ?cu'), snd (lex_from r ?cu'))"
    by (subst lex_from.simps) (simp only: assms(2) Let_def split_beta prod.case fst_conv snd_conv w if_False append_Nil)
  then show "\<exists>us. map lx_kind us = (case k of None \<Rightarrow> [] | Some k \<Rightarrow> [k])
      \<and> lex_from (w @ r) cu = (us @ fst (lex_from r ?cu'), snd (lex_from r ?cu'))"
    by (cases k) (auto intro: exI [of _ "[x]" for x])
qed

lemma yields_token: "w \<noteq> [] \<Longrightarrow> (\<And>cu. lex_one (w @ r) cu = (Some k, [], r)) \<Longrightarrow> yields w [k] r"
  using yields_one [of w r "Some k"] by simp

lemma yields_skip: "w \<noteq> [] \<Longrightarrow> (\<And>cu. lex_one (w @ r) cu = (None, [], r)) \<Longrightarrow> yields w [] r"
  using yields_one [of w r None] by simp

lemma yields_space: "is_space c \<Longrightarrow> yields [c] [] r"
  by (rule yields_skip) (simp_all add: lex_one_def)

lemma is_space_char: "is_space c \<longleftrightarrow> c \<in> {CHR 0x20, CHR 0x09, CHR 0x0A, CHR 0x0C, CHR 0x0D}"
proof -
  have "c = d \<longleftrightarrow> char_code c = char_code d" for d by (simp add: char_code_def)
  from this [of "CHR 0x20"] this [of "CHR 0x09"] this [of "CHR 0x0A"] this [of "CHR 0x0C"] this [of "CHR 0x0D"]
  show ?thesis by (simp add: is_space_def char_code_def)
qed

lemma lex_one_symbol:
  assumes "symbol_of c (if cs = [] then None else Some (hd cs)) = Some (y, n)"
  shows "lex_one (c # cs) cu = (Some (TSymbol y), [], drop n (c # cs))"
proof -
  have "c \<in> set ''{}[]();,:.''" using assms by (auto simp: symbol_of_def split: if_splits)
  then have "\<not> is_space c" "c \<noteq> CHR ''/''" by (auto simp: is_space_char)
  then show ?thesis using assms unfolding lex_one_def Let_def list.sel by simp
qed

lemma yields_symbol:
  assumes "y \<noteq> DotDot"
  shows "yields (symbol_text y) [TSymbol y] r"
proof -
  let ?c = "hd (symbol_text y)"
  have c: "symbol_text y = [?c]" using assms by (cases y) (simp_all add: symbol_text_def)
  have s: "symbol_of ?c n = Some (y, 1)" for n using assms by (cases y) (simp_all add: symbol_text_def symbol_of_def)
  have "lex_one ([?c] @ r) cu = (Some (TSymbol y), [], r)" for cu
    using lex_one_symbol [OF s] by simp
  then have "yields [?c] [TSymbol y] r" by (rule yields_token [rotated]) simp
  then show ?thesis using c by simp
qed

lemma yields_dots: "yields ''..'' [TSymbol DotDot] r"
  by (rule yields_token) (simp_all add: lex_one_symbol [of _ _ DotDot 2] symbol_of_def)

lemma ident_start_facts:
  assumes "is_ident_start c"
  shows "\<not> is_space c" "\<not> is_digit c" "symbol_of c n = None" "c \<noteq> CHR ''/''" "c \<noteq> CHR 0x22" "c \<noteq> CHR ''.''"
proof -
  have "c \<notin> set (''{}[]();,:./'' @ [CHR 0x22, CHR 0x20, CHR 0x09, CHR 0x0A, CHR 0x0C, CHR 0x0D])"
  proof
    assume "c \<in> set (''{}[]();,:./'' @ [CHR 0x22, CHR 0x20, CHR 0x09, CHR 0x0A, CHR 0x0C, CHR 0x0D])"
    then have "\<not> is_ident_start c" by (auto simp: is_ident_start_def is_alpha_def char_code_def)
    with assms show False by blast
  qed
  then show "\<not> is_space c" "c \<noteq> CHR ''/''" "c \<noteq> CHR 0x22" "c \<noteq> CHR ''.''" "symbol_of c n = None"
    by (simp_all add: is_space_char symbol_of_def)
  show "\<not> is_digit c"
  proof
    assume "is_digit c"
    then have "\<not> is_alpha c" "c \<noteq> CHR ''_''" by (auto simp: is_digit_def is_alpha_def char_code_def)
    with assms show False by (simp add: is_ident_start_def)
  qed
qed

lemma yields_ident:
  assumes "ident_ok w" "\<not> head_is is_ident_char r"
  shows "yields w [TIdent w] r"
proof -
  obtain c cs where w: "w = c # cs" "is_ident_start c" "list_all is_ident_char cs"
    using assms(1) by (cases w) (auto simp: ident_ok_def head_is_def)
  have all: "\<forall>x\<in>set cs. is_ident_char x" using w(3) by (simp add: list_all_iff)
  have "takeWhile is_ident_char (cs @ r) = cs" "dropWhile is_ident_char (cs @ r) = r"
    using all assms(2) by (cases r; simp add: takeWhile_append dropWhile_append head_is_def)+
  then show ?thesis
    by (intro yields_token) (simp_all add: w(1) lex_one_def Let_def ident_start_facts [OF w(2)] w(2) starts_number_def
        head_is_def scan_ident_def)
qed

text \<open>What may follow a number: nothing that would belong to it.\<close>

definition terminator :: "string \<Rightarrow> bool" where
  "terminator r \<longleftrightarrow> head_is (\<lambda>c. c \<in> set '';,] '') r \<or> (\<exists>r'. r = ''..'' @ r')"

lemma terminator_head:
  assumes "terminator r"
  shows "\<not> head_is is_digit r" "\<not> head_is (\<lambda>c. c = CHR ''e'' \<or> c = CHR ''E'') r"
    "\<not> head_is (\<lambda>c. c = CHR ''+'' \<or> c = CHR ''-'') r" "\<not> head_is is_ident_char r"
    "head_is (\<lambda>c. c = CHR ''.'') r \<longrightarrow> head_is (\<lambda>c. c = CHR ''.'') (tl r)" "r \<noteq> []"
  using assms by (auto simp: terminator_def head_is_def is_digit_def is_ident_char_def is_alpha_def char_code_def
      split: list.splits)

lemma scan_digits_before: "\<not> head_is is_digit r \<Longrightarrow> scan_digits (s @ r) = (fst (scan_digits s), snd (scan_digits s) @ r)"
proof -
  assume r: "\<not> head_is is_digit r"
  have "takeWhile is_digit r = []" "dropWhile is_digit r = r" using r by (cases r; simp add: head_is_def)+
  moreover have "takeWhile is_digit s = s \<and> dropWhile is_digit s = []" if "\<forall>x\<in>set s. is_digit x"
    using that by (metis takeWhile_eq_all_conv dropWhile_eq_Nil_conv)
  ultimately show ?thesis
    by (cases "\<forall>x\<in>set s. is_digit x") (auto simp: scan_digits_def takeWhile_append dropWhile_append simp del: takeWhile_eq_all_conv)
qed

lemma scan_fraction_before:
  assumes r: "terminator r" and s: "s = ''.'' \<longrightarrow> \<not> head_is (\<lambda>c. c = CHR ''.'') r"
  shows "scan_fraction (s @ r) = (fst (scan_fraction s), snd (scan_fraction s) @ r)"
proof (cases s)
  case Nil
  then show ?thesis using terminator_head(5) [OF r] by (auto simp: scan_fraction_def head_is_def)
next
  case (Cons c cs)
  have "head_is (\<lambda>c. c = CHR ''.'') (cs @ r) = head_is (\<lambda>c. c = CHR ''.'') cs" if "c = CHR ''.''"
    using s that Cons by (cases cs) (auto simp: head_is_def)
  then show ?thesis
    using Cons scan_digits_before [OF terminator_head(1) [OF r], of cs]
    by (auto simp: scan_fraction_def head_is_def split_beta)
qed

lemma scan_exponent_before:
  assumes r: "terminator r"
  shows "scan_exponent (s @ r) = (fst (scan_exponent s), snd (scan_exponent s) @ r)"
proof (cases s)
  case Nil
  then show ?thesis using terminator_head(2) [OF r] by (auto simp: scan_exponent_def head_is_def)
next
  case (Cons c cs)
  note digits = scan_digits_before [OF terminator_head(1) [OF r]]
  show ?thesis
  proof (cases cs)
    case Nil
    then show ?thesis using Cons digits [of "[]"] terminator_head(3) [OF r]
      by (auto simp: scan_exponent_def head_is_def Let_def split_beta scan_digits_def split: list.splits)
  next
    case (Cons d ds)
    then show ?thesis using \<open>s = c # cs\<close> digits [of ds] digits [of "d # ds"]
      by (auto simp: scan_exponent_def head_is_def Let_def split_beta)
  qed
qed

lemma scan_number_before:
  assumes r: "terminator r" and n: "number_ok n" "head_is (\<lambda>c. c = CHR ''.'') r \<longrightarrow> last n \<noteq> CHR ''.''"
  shows "scan_number (n @ r) = (n, r)"
proof -
  have ne: "n \<noteq> []" using n(1) by (auto simp: number_ok_def starts_number_def head_is_def)
  have dot: "\<not> head_is (\<lambda>c. c = CHR ''.'') r" if "snd (scan_digits (tl n)) = ''.''"
  proof -
    have "tl n = fst (scan_digits (tl n)) @ ''.''" using scan_digits_split [of "tl n"] that by simp
    then have "last n = CHR ''.''" using ne by (metis last_snoc last_tl snoc_eq_iff_butlast)
    with n(2) show ?thesis by blast
  qed
  let ?d = "scan_digits (tl n)" let ?f = "scan_fraction (snd ?d)"
  have "scan_number (n @ r) = (fst (scan_number n), snd (scan_number n) @ r)"
    using ne scan_digits_before [OF terminator_head(1) [OF r], of "tl n"]
      scan_fraction_before [OF r, of "snd ?d"] dot scan_exponent_before [OF r, of "snd ?f"]
    by (simp add: scan_number_def Let_def split_beta)
  moreover have "fst (scan_number n) = n" using scan_number_split [OF ne] n(1) by (simp add: number_ok_def)
  ultimately show ?thesis using n(1) by (simp add: number_ok_def)
qed

lemma digit_facts:
  assumes "is_digit c"
  shows "\<not> is_space c" "c \<noteq> CHR ''/''" "c \<noteq> CHR 0x22" "c \<noteq> CHR ''.''" "symbol_of c n = None"
proof -
  have "c \<notin> set (''{}[]();,:./'' @ [CHR 0x22, CHR 0x20, CHR 0x09, CHR 0x0A, CHR 0x0C, CHR 0x0D])"
  proof
    assume "c \<in> set (''{}[]();,:./'' @ [CHR 0x22, CHR 0x20, CHR 0x09, CHR 0x0A, CHR 0x0C, CHR 0x0D])"
    then have "\<not> is_digit c" by (auto simp: is_digit_def char_code_def)
    with assms show False by blast
  qed
  then show "\<not> is_space c" "c \<noteq> CHR ''/''" "c \<noteq> CHR 0x22" "c \<noteq> CHR ''.''" "symbol_of c n = None"
    by (simp_all add: is_space_char symbol_of_def)
qed

lemma starts_number_facts:
  assumes "starts_number s"
  shows "s \<noteq> []" "\<not> is_space (hd s)" "hd s \<noteq> CHR ''/''" "hd s \<noteq> CHR 0x22"
    "symbol_of (hd s) (if tl s = [] then None else Some (hd (tl s))) = None"
proof -
  consider c cs where "s = c # cs" "is_digit c" | d ds where "s = CHR ''.'' # d # ds" "is_digit d"
    using assms by (cases s; cases "tl s"; auto simp: starts_number_def head_is_def)
  then have "s \<noteq> [] \<and> \<not> is_space (hd s) \<and> hd s \<noteq> CHR ''/'' \<and> hd s \<noteq> CHR 0x22
    \<and> symbol_of (hd s) (if tl s = [] then None else Some (hd (tl s))) = None"
  proof cases
    case 1
    then show ?thesis by (simp add: digit_facts)
  next
    case 2
    then show ?thesis using digit_facts(4) [of d] by (simp add: is_space_char symbol_of_def)
  qed
  then show "s \<noteq> []" "\<not> is_space (hd s)" "hd s \<noteq> CHR ''/''" "hd s \<noteq> CHR 0x22"
    "symbol_of (hd s) (if tl s = [] then None else Some (hd (tl s))) = None" by blast+
qed

lemma starts_number_append: "starts_number n \<Longrightarrow> starts_number (n @ r)"
  by (cases n; cases "tl n") (auto simp: starts_number_def head_is_def)

lemma yields_number:
  assumes "number_ok n" "terminator r" "head_is (\<lambda>c. c = CHR ''.'') r \<longrightarrow> last n \<noteq> CHR ''.''"
  shows "yields n [TNumber n] r"
proof (rule yields_token)
  have s: "starts_number (n @ r)" using assms(1) by (simp add: number_ok_def starts_number_append)
  show "n \<noteq> []" using assms(1) by (auto simp: number_ok_def starts_number_def head_is_def)
  show "lex_one (n @ r) cu = (Some (TNumber n), [], r)" for cu
    using s starts_number_facts [OF s] scan_number_before [OF assms(2,1,3)] by (simp add: lex_one_def Let_def)
qed

lemma ascii_latin1: "is_ascii c \<Longrightarrow> latin1 c = [c]"
  by (simp add: is_ascii_def latin1_def)

lemma scan_string_text:
  "text_ok v \<Longrightarrow> scan_string i (concat (map format_char v) @ CHR 0x22 # r) = (v, True, [], r)"
proof (induction v arbitrary: i)
  case Nil
  then show ?case by (cases r) simp_all
next
  case (Cons c v)
  have c: "latin1 c = [c]" and v: "text_ok v" using Cons.prems by (simp_all add: text_ok_def ascii_latin1)
  define rest where "rest = concat (map format_char v) @ CHR 0x22 # r"
  have ih: "scan_string j rest = (v, True, [], r)" for j using Cons.IH [OF v] by (simp add: rest_def)
  have "rest \<noteq> []" by (simp add: rest_def)
  then obtain e es where e: "rest = e # es" by (cases rest) auto
  have esc: "escaped (CHR 0x22) = [CHR 0x22]" "escaped (CHR ''n'') = [CHR 0x0A]" "escaped (CHR 0x5C) = [CHR 0x5C]"
    by (simp_all add: escaped_def latin1_def char_code_def)
  have "scan_string i (format_char c @ rest) = (c # v, True, [], r)"
  proof (cases "c \<in> {CHR 0x22, CHR 0x0A, CHR 0x5C}")
    case True
    then show ?thesis using ih [of "i + 2"] esc by (auto simp: format_char_def)
  next
    case False
    then show ?thesis using ih [of "Suc i"] c by (simp add: format_char_def string_byte_def e)
  qed
  then show ?case by (simp add: rest_def)
qed

lemma yields_string: "text_ok v \<Longrightarrow> yields (CHR 0x22 # concat (map format_char v) @ [CHR 0x22]) [TString v] r"
proof (rule yields_token)
  fix cu assume "text_ok v"
  then show "lex_one ((CHR 0x22 # concat (map format_char v) @ [CHR 0x22]) @ r) cu = (Some (TString v), [], r)"
    by (simp add: lex_one_def Let_def is_space_def char_code_def symbol_of_def lex_string_def scan_string_text)
qed simp

end
