(* ===== verification/Lang_Roundtrip.thy ===== *)
theory Lang_Roundtrip
  imports Lang_Format
begin

text \<open>
  What the formatter prints is accepted by the lexer and the parser and read back as the same program,
  spans apart.
\<close>

subsection \<open>The tokens of a printed program\<close>

lemma yields_scalar:
  assumes "scalar_ok v" "terminator r" "\<not> head_is (\<lambda>c. c = CHR ''.'') r"
  shows "yields (format_value v) [scalar_kind v] r"
  using assms terminator_head(4) [OF assms(2)]
  by (cases v) (simp_all add: yields_ident yields_number yields_string del: append_Cons)

lemma terminator_char: "c \<in> set '';,] '' \<Longrightarrow> terminator (c # r) \<and> \<not> head_is (\<lambda>c. c = CHR ''.'') (c # r)"
  by (auto simp: terminator_def head_is_def)

lemma yields_char:
  assumes "yields v ks (c # r)" "yields [c] js r"
  shows "yields (v @ [c]) (ks @ js) r"
  using yields_append [of v ks "[c]" r js] assms by simp

lemma yields_values:
  "list_all scalar_ok vs \<Longrightarrow> yields (format_values vs) (list_kinds vs) (CHR '']'' # r)"
proof (induction vs rule: list_kinds.induct)
  case 1
  show ?case by (simp add: yields_Nil)
next
  case (2 v)
  then show ?case using yields_scalar [of v] terminator_char [of "CHR '']''" r] by simp
next
  case (3 v w vs)
  let ?r = "format_values (w # vs) @ CHR '']'' # r"
  have "yields (format_value v) [scalar_kind v] (CHR '','' # CHR '' '' # ?r)"
    using 3 yields_scalar [of v] terminator_char [of "CHR '',''"] by simp
  from yields_char [OF this, of "[TSymbol Comma]"] yields_symbol [of Comma]
  have "yields (format_value v @ '','') [scalar_kind v, TSymbol Comma] (CHR '' '' # ?r)"
    by (simp add: symbol_text_def)
  from yields_char [OF this, of "[]"] yields_space [of "CHR '' ''"]
  have "yields (format_value v @ '', '') [scalar_kind v, TSymbol Comma] ?r"
    by (simp add: is_space_char)
  from yields_append [OF this "3.IH"] 3 show ?case by simp
qed

lemma yields_value:
  assumes "value_ok v"
  shows "yields (format_value v) (value_kinds v) (CHR '';'' # r)"
proof -
  have t: "terminator (CHR '';'' # r)" "\<not> head_is (\<lambda>c. c = CHR ''.'') (CHR '';'' # r)"
    using terminator_char [of "CHR '';''" r] by simp_all
  show ?thesis
  proof (cases v)
    case (VQuantity n u)
    have "yields n [TNumber n] (CHR '' '' # u @ CHR '';'' # r)"
      using assms VQuantity terminator_char [of "CHR '' ''"] by (intro yields_number) auto
    from yields_char [OF this, of "[]"] yields_space [of "CHR '' ''"]
    have "yields (n @ '' '') [TNumber n] (u @ CHR '';'' # r)" by (simp add: is_space_char)
    from yields_append [OF this yields_ident] assms VQuantity t(1) show ?thesis
      by (simp add: terminator_head)
  next
    case (VRange a b)
    have b: "yields b [TNumber b] (CHR '';'' # r)" using assms VRange t by (intro yields_number) auto
    have d: "terminator (''..'' @ b @ CHR '';'' # r)" unfolding terminator_def by blast
    have "yields a [if ident_ok a then TIdent a else TNumber a] (''..'' @ b @ CHR '';'' # r)"
    proof (cases "ident_ok a")
      case True
      then show ?thesis using yields_ident terminator_head(4) [OF d] by simp
    next
      case False
      then show ?thesis using assms VRange yields_number [OF _ d, of a] by simp
    qed
    moreover have "yields (''..'' @ b) ([TSymbol DotDot] @ [TNumber b]) (CHR '';'' # r)"
      by (rule yields_append [OF yields_dots b])
    ultimately show ?thesis
      using yields_append [of a _ "''..'' @ b" "CHR '';'' # r"] VRange by fastforce
  next
    case (VList vs)
    have "yields ''['' [TSymbol LBracket] (format_values vs @ CHR '']'' # CHR '';'' # r)"
      using yields_symbol [of LBracket] by (simp add: symbol_text_def)
    from yields_append [OF this yields_values] assms VList
    have "yields (''['' @ format_values vs) (TSymbol LBracket # list_kinds vs) (CHR '']'' # CHR '';'' # r)" by simp
    from yields_char [OF this, of "[TSymbol RBracket]"] yields_symbol [of RBracket] VList
    show ?thesis by (simp add: symbol_text_def)
  qed (use assms t yields_scalar [of v] in \<open>simp_all del: format_value.simps\<close>)
qed

lemma yields_spaces: "list_all is_space w \<Longrightarrow> yields w [] r"
proof (induction w)
  case (Cons c w)
  then show ?case using yields_append [of "[c]" "[]" w r "[]"] yields_space by simp
qed (simp add: yields_Nil)

lemma yields_word:
  assumes "ident_ok w" "list_all is_space v" "v \<noteq> []"
  shows "yields (w @ v) [TIdent w] r"
proof -
  have "\<not> head_is is_ident_char (v @ r)"
  proof -
    obtain c cs where v: "v = c # cs" "is_space c" using assms(2,3) by (cases v) auto
    then have "\<not> is_ident_char c" by (auto simp: is_space_char is_ident_char_def is_alpha_def is_digit_def char_code_def)
    then show ?thesis by (simp add: v head_is_def)
  qed
  from yields_append [OF yields_ident [OF assms(1) this] yields_spaces [OF assms(2)]] show ?thesis by simp
qed

lemma yields_field:
  assumes "ident_ok (fd_key f)" "value_ok (fd_value f)"
  shows "yields (format_field f) (field_kinds f) r"
proof -
  let ?s = "''    ''"
  have sp: "list_all is_space ?s" "list_all is_space '' ''" "list_all is_space [CHR 0x0A]" by (simp_all add: is_space_char)
  have semi: "yields '';'' [TSymbol Semicolon] ([CHR 0x0A] @ r)" using yields_symbol [of Semicolon] by (simp add: symbol_text_def)
  have tail: "yields ('';'' @ [CHR 0x0A]) ([TSymbol Semicolon] @ []) r"
    by (rule yields_append [OF semi yields_spaces [OF sp(3)]])
  have "yields (format_value (fd_value f)) (value_kinds (fd_value f)) (('';'' @ [CHR 0x0A]) @ r)"
    using yields_value [OF assms(2)] by simp
  from yields_append [OF this tail]
  have "yields (format_value (fd_value f) @ '';'' @ [CHR 0x0A]) (value_kinds (fd_value f) @ [TSymbol Semicolon]) r" by simp
  from yields_append [OF yields_word [OF assms(1) sp(2)] this]
  have "yields (fd_key f @ '' '' @ format_value (fd_value f) @ '';'' @ [CHR 0x0A]) (field_kinds f) r"
    by (simp add: field_kinds_def)
  from yields_append [OF yields_spaces [OF sp(1)] this] show ?thesis by (simp add: format_field_def)
qed

lemma yields_concat:
  assumes "\<And>x r. x \<in> set xs \<Longrightarrow> yields (f x) (g x) r"
  shows "yields (concat (map f xs)) (concat (map g xs)) r"
  using assms
proof (induction xs)
  case (Cons x xs)
  then show ?case using yields_append [of "f x" "g x" "concat (map f xs)" r "concat (map g xs)"] by simp
qed (simp add: yields_Nil)

lemma yields_block:
  assumes "block_ok b"
  shows "yields (format_block b @ [CHR 0x0A]) (block_kinds b) r"
proof -
  have sp: "list_all is_space '' ''" "list_all is_space [CHR 0x0A]" "list_all is_space [CHR 0x0A, CHR 0x0A]"
    by (simp_all add: is_space_char)
  have ok: "ident_ok (bl_kind b)" "ident_ok (bl_name b)" "\<And>f. f \<in> set (bl_fields b) \<Longrightarrow> ident_ok (fd_key f) \<and> value_ok (fd_value f)"
    using assms by (auto simp: block_ok_def list_all_iff)
  let ?fs = "concat (map format_field (bl_fields b))" let ?ks = "concat (map field_kinds (bl_fields b))"
  have close: "yields ''}'' [TSymbol RBrace] ([CHR 0x0A, CHR 0x0A] @ r)" using yields_symbol [of RBrace] by (simp add: symbol_text_def)
  have "yields ?fs ?ks ((''}'' @ [CHR 0x0A, CHR 0x0A]) @ r)" 
    by (rule yields_concat) (use yields_field ok(3) in blast)
  from yields_append [OF this yields_append [OF close yields_spaces [OF sp(3)]]]
  have body: "yields (?fs @ ''}'' @ [CHR 0x0A, CHR 0x0A]) (?ks @ [TSymbol RBrace]) r" by simp
  have "yields ''{'' [TSymbol LBrace] ([CHR 0x0A] @ (?fs @ ''}'' @ [CHR 0x0A, CHR 0x0A]) @ r)"
    using yields_symbol [of LBrace] by (simp add: symbol_text_def)
  from yields_append [OF this yields_spaces [OF sp(2)]]
  have "yields (''{'' @ [CHR 0x0A]) [TSymbol LBrace] ((?fs @ ''}'' @ [CHR 0x0A, CHR 0x0A]) @ r)" by simp
  from yields_append [OF this body]
  have open': "yields (''{'' @ [CHR 0x0A] @ ?fs @ ''}'' @ [CHR 0x0A, CHR 0x0A]) (TSymbol LBrace # ?ks @ [TSymbol RBrace]) r" by simp
  from yields_append [OF yields_word [OF ok(1) sp(1)] yields_append [OF yields_word [OF ok(2) sp(1)] open']]
  show ?thesis by (simp add: format_block_def block_kinds_def)
qed

definition program_kinds :: "program \<Rightarrow> token_kind list" where
  "program_kinds p = concat (map block_kinds (pg_declarations p))"

lemma lex_format:
  assumes "program_ok p"
  shows "\<exists>ts. lex (format_program p) = Inr ts \<and> map lx_kind ts = program_kinds p @ [TEof]"
proof -
  have "yields (format_program p) (program_kinds p) []"
    unfolding format_program_def program_kinds_def
    using assms by (intro yields_concat yields_block) (simp add: program_ok_def list_all_iff)
  then obtain us where us: "map lx_kind us = program_kinds p"
      "lex_from (format_program p) cursor_start = (us @ fst (lex_from [] (advance (format_program p) cursor_start)),
         snd (lex_from [] (advance (format_program p) cursor_start)))"
    unfolding yields_def append_Nil2 by blast
  then show ?thesis by (simp add: lex_def lex_from.simps [of "[]"])
qed

subsection \<open>Parsing them\<close>

text \<open>The parser is about to read tokens of the kinds \<open>ks\<close> and then the end of file, without errors so far.\<close>

definition reads :: "parser \<Rightarrow> token_kind list \<Rightarrow> bool" where
  "reads s ks \<longleftrightarrow> map lx_kind (ps_rest s) = ks @ [TEof] \<and> ps_errors s = []"

lemma reads_kind:
  "reads s (k # ks) \<Longrightarrow> kind s = k" "reads s [] \<Longrightarrow> kind s = TEof"
  by (auto simp: reads_def kind_def current_def)

lemma reads_step: "reads s (k # ks) \<Longrightarrow> k \<noteq> TEof \<Longrightarrow> reads (step_token s) ks"
  by (auto simp: reads_def step_token_def kind_def current_def)

lemma reads_take: "reads s (TSymbol y # ks) \<Longrightarrow> \<exists>s'. take_symbol y s = (True, s') \<and> reads s' ks"
  using reads_step [of s "TSymbol y" ks] reads_kind by (simp add: take_symbol_def)

lemma no_take: "kind s \<noteq> TSymbol y \<Longrightarrow> take_symbol y s = (False, s)"
  by (simp add: take_symbol_def)

lemma reads_ident: "reads s (TIdent n # ks) \<Longrightarrow> \<exists>s'. expect_ident c t s = (Some n, s') \<and> reads s' ks"
  using reads_step [of s "TIdent n" ks] reads_kind by (simp add: expect_ident_def)

lemma scalar_kind_facts:
  assumes "scalar_ok v"
  shows "scalar (scalar_kind v) = Some v" "scalar_kind v \<noteq> TEof" "scalar_kind v \<noteq> TSymbol y"
  using assms by (cases v; simp add: scalar_def)+

lemma list_loop_reads:
  "reads s (list_kinds vs @ TSymbol RBracket # ks) \<Longrightarrow> list_all scalar_ok vs
     \<Longrightarrow> \<exists>s'. list_loop us s = Some (us @ vs, s') \<and> reads s' (TSymbol RBracket # ks)"
proof (induction vs arbitrary: us s rule: list_kinds.induct)
  case 1
  then show ?case using reads_kind by (subst list_loop.simps) (fastforce simp: stops_def)
next
  case (2 v)
  have v: "scalar (kind s) = Some v" "\<not> stops [RBracket] s"
    using 2 reads_kind(1) [of s "scalar_kind v"] scalar_kind_facts [of v] by (auto simp: stops_def)
  have r: "reads (step_token s) (TSymbol RBracket # ks)"
    using 2 reads_step [of s "scalar_kind v"] scalar_kind_facts(2) [of v] by simp
  then have k: "kind (step_token s) = TSymbol RBracket" using reads_kind by simp
  then have "list_loop (us @ [v]) (step_token s) = Some (us @ [v], step_token s)"
    by (subst list_loop.simps) (simp add: stops_def)
  then show ?case using v r k by (subst list_loop.simps) (simp add: no_take)
next
  case (3 v w vs)
  have v: "scalar (kind s) = Some v" "\<not> stops [RBracket] s"
    using 3 reads_kind(1) [of s "scalar_kind v"] scalar_kind_facts [of v] by (auto simp: stops_def)
  have "reads (step_token s) (TSymbol Comma # list_kinds (w # vs) @ TSymbol RBracket # ks)"
    using 3 reads_step [of s "scalar_kind v"] scalar_kind_facts(2) [of v] by simp
  from reads_take [OF this] obtain s1 where s1: "take_symbol Comma (step_token s) = (True, s1)"
      "reads s1 (list_kinds (w # vs) @ TSymbol RBracket # ks)" by blast
  from "3.IH" [OF s1(2), of "us @ [v]"] "3.prems" show ?case
    using v s1(1) by (subst list_loop.simps) simp
qed

lemma parse_value_reads:
  assumes "reads s (value_kinds v @ TSymbol Semicolon # ks)" "value_ok v"
  shows "\<exists>s'. parse_value s = Some (Some v, s') \<and> reads s' (TSymbol Semicolon # ks)"
proof -
  have sc: "\<exists>s'. parse_value s = Some (Some v, s') \<and> reads s' (TSymbol Semicolon # ks)" if v: "scalar_ok v"
  proof -
    have r: "reads s (scalar_kind v # TSymbol Semicolon # ks)" using assms(1) v by (cases v) simp_all
    have r': "reads (step_token s) (TSymbol Semicolon # ks)" using reads_step [OF r] scalar_kind_facts(2) [OF v] by simp
    show ?thesis using reads_kind(1) [OF r] r' reads_kind(1) [OF r'] v
      by (cases v) (simp_all add: parse_value_def no_take)
  qed
  show ?thesis
  proof (cases v)
    case (VQuantity n u)
    then have r: "reads s (TNumber n # TIdent u # TSymbol Semicolon # ks)" using assms(1) by simp
    have r1: "reads (step_token s) (TIdent u # TSymbol Semicolon # ks)" using reads_step [OF r] by simp
    have "reads (step_token (step_token s)) (TSymbol Semicolon # ks)" using reads_step [OF r1] by simp
    then show ?thesis using reads_kind(1) [OF r] reads_kind(1) [OF r1] VQuantity by (simp add: parse_value_def no_take)
  next
    case (VRange a b)
    let ?k = "if ident_ok a then TIdent a else TNumber a"
    have r: "reads s (?k # TSymbol DotDot # TNumber b # TSymbol Semicolon # ks)" using assms(1) VRange by simp
    have r1: "reads (step_token s) (TSymbol DotDot # TNumber b # TSymbol Semicolon # ks)" using reads_step [OF r] by simp
    then obtain s2 where s2: "take_symbol DotDot (step_token s) = (True, s2)" "reads s2 (TNumber b # TSymbol Semicolon # ks)"
      using reads_take by blast
    have "range_to c a s2 = (Some (VRange a b), step_token s2)" for c
      using reads_kind(1) [OF s2(2)] by (simp add: range_to_def expect_number_def)
    moreover have "reads (step_token s2) (TSymbol Semicolon # ks)" using reads_step [OF s2(2)] by simp
    ultimately show ?thesis using reads_kind(1) [OF r] s2(1) VRange by (simp add: parse_value_def)
  next
    case (VList vs)
    then have r: "reads s (TSymbol LBracket # list_kinds vs @ TSymbol RBracket # TSymbol Semicolon # ks)"
      using assms(1) by simp
    have "reads (step_token s) (list_kinds vs @ TSymbol RBracket # TSymbol Semicolon # ks)" using reads_step [OF r] by simp
    from list_loop_reads [OF this, of "[]"] assms(2) VList obtain s1 where s1: "list_loop [] (step_token s) = Some (vs, s1)"
        "reads s1 (TSymbol RBracket # TSymbol Semicolon # ks)" by auto
    from reads_take [OF s1(2)] obtain s2 where s2: "take_symbol RBracket s1 = (True, s2)" "reads s2 (TSymbol Semicolon # ks)" by blast
    show ?thesis using reads_kind(1) [OF r] s1(1) s2 VList by (simp add: parse_value_def parse_list_def)
  qed (use sc assms(2) in simp_all)
qed

lemma fields_loop_reads:
  "reads s (concat (map field_kinds fs) @ TSymbol RBrace # ks)
     \<Longrightarrow> list_all (\<lambda>f. ident_ok (fd_key f) \<and> value_ok (fd_value f)) fs
     \<Longrightarrow> \<exists>gs s'. fields_loop hs s = Some (hs @ gs, s') \<and> reads s' (TSymbol RBrace # ks)
       \<and> map (\<lambda>f. (fd_key f, fd_value f)) gs = map (\<lambda>f. (fd_key f, fd_value f)) fs"
proof (induction fs arbitrary: s hs)
  case Nil
  then show ?case using reads_kind by (subst fields_loop.simps) (fastforce simp: stops_def)
next
  case (Cons f fs)
  let ?r = "concat (map field_kinds fs) @ TSymbol RBrace # ks"
  have r: "reads s (TIdent (fd_key f) # value_kinds (fd_value f) @ TSymbol Semicolon # ?r)"
    using Cons.prems(1) field_kinds_def [of f] by simp
  have go: "\<not> stops [RBrace] s" using reads_kind(1) [OF r] by (simp add: stops_def)
  obtain s1 where s1: "expect_ident ''P0004'' ''expected a field name'' s = (Some (fd_key f), s1)"
      "reads s1 (value_kinds (fd_value f) @ TSymbol Semicolon # ?r)" using reads_ident [OF r] by blast
  obtain s2 where s2: "parse_value s1 = Some (Some (fd_value f), s2)" "reads s2 (TSymbol Semicolon # ?r)"
    using parse_value_reads [OF s1(2)] Cons.prems(2) by auto
  obtain s3 where s3: "take_symbol Semicolon s2 = (True, s3)" "reads s3 ?r" using reads_take [OF s2(2)] by blast
  let ?f = "\<lparr> fd_key = fd_key f, fd_value = fd_value f, fd_span = span_until (lx_span (current s)) s3 \<rparr>"
  have step: "fields_loop hs s = fields_loop (hs @ [?f]) s3"
    using go s1(1) s2(1) s3(1) by (subst fields_loop.simps) (simp add: Let_def)
  obtain gs s' where "fields_loop (hs @ [?f]) s3 = Some ((hs @ [?f]) @ gs, s')" "reads s' (TSymbol RBrace # ks)"
      "map (\<lambda>f. (fd_key f, fd_value f)) gs = map (\<lambda>f. (fd_key f, fd_value f)) fs"
    using Cons.IH [OF s3(2)] Cons.prems(2) by fastforce
  then show ?case unfolding step by (intro exI [of _ "?f # gs"] exI [of _ s']) simp
qed

lemma parse_block_reads:
  assumes "reads s (block_kinds b @ ks)" "block_ok b"
  shows "\<exists>c s'. parse_block s = Some (Some c, s') \<and> reads s' ks \<and> bare_block c = bare_block b"
proof -
  let ?fs = "concat (map field_kinds (bl_fields b))"
  have r: "reads s (TIdent (bl_kind b) # TIdent (bl_name b) # TSymbol LBrace # ?fs @ TSymbol RBrace # ks)"
    using assms(1) by (simp add: block_kinds_def)
  obtain s1 where s1: "expect_ident ''P0001'' ''expected a declaration kind'' s = (Some (bl_kind b), s1)"
      "reads s1 (TIdent (bl_name b) # TSymbol LBrace # ?fs @ TSymbol RBrace # ks)" using reads_ident [OF r] by blast
  obtain s2 where s2: "expect_ident ''P0002'' ''expected a declaration name'' s1 = (Some (bl_name b), s2)"
      "reads s2 (TSymbol LBrace # ?fs @ TSymbol RBrace # ks)" using reads_ident [OF s1(2)] by blast
  obtain s3 where s3: "take_symbol LBrace s2 = (True, s3)" "reads s3 (?fs @ TSymbol RBrace # ks)"
    using reads_take [OF s2(2)] by blast
  obtain gs s4 where s4: "fields_loop [] s3 = Some (gs, s4)" "reads s4 (TSymbol RBrace # ks)"
      "map (\<lambda>f. (fd_key f, fd_value f)) gs = map (\<lambda>f. (fd_key f, fd_value f)) (bl_fields b)"
    using fields_loop_reads [OF s3(2), of "[]"] assms(2) by (auto simp: block_ok_def)
  obtain s5 where s5: "take_symbol RBrace s4 = (True, s5)" "reads s5 ks" using reads_take [OF s4(2)] by blast
  show ?thesis using s1(1) s2(1) s3(1) s4(1,3) s5 by (simp add: parse_block_def bare_block_def Let_def)
qed

lemma program_loop_reads:
  "reads s (concat (map block_kinds bs)) \<Longrightarrow> list_all block_ok bs
     \<Longrightarrow> \<exists>ds s'. program_loop cs s = Some (cs @ ds, s') \<and> ps_errors s' = [] \<and> map bare_block ds = map bare_block bs"
proof (induction bs arbitrary: s cs)
  case Nil
  then show ?case using reads_kind(2) [of s] by (subst program_loop.simps) (simp add: reads_def)
next
  case (Cons b bs)
  from Cons.prems(1) have r: "reads s (block_kinds b @ concat (map block_kinds bs))" by simp
  then have go: "kind s \<noteq> TEof" using reads_kind(1) by (fastforce simp: block_kinds_def)
  obtain c s1 where s1: "parse_block s = Some (Some c, s1)" "reads s1 (concat (map block_kinds bs))" "bare_block c = bare_block b"
    using parse_block_reads [OF r] Cons.prems(2) by auto
  have step: "program_loop cs s = program_loop (cs @ [c]) s1" using go s1(1) by (subst program_loop.simps) simp
  obtain ds s' where "program_loop (cs @ [c]) s1 = Some ((cs @ [c]) @ ds, s')" "ps_errors s' = []"
      "map bare_block ds = map bare_block bs"
    using Cons.IH [OF s1(2)] Cons.prems(2) by fastforce
  then show ?case unfolding step using s1(3) by (intro exI [of _ "c # ds"] exI [of _ s']) simp
qed

subsection \<open>The round trip\<close>

text \<open>
  C10: what the formatter prints for a program is accepted by the lexer and by
  the parser, without an error, and gives back every declaration with its kind, name and fields.
  \<open>program_ok\<close> asks that words and numbers are ones the lexer can produce, that strings are ASCII and
  that no range starts with a number ending in a dot; the code does not print the others faithfully.
\<close>

theorem formatting_is_parseable:
  assumes "program_ok p"
  shows "\<exists>ts q. lex (format_program p) = Inr ts \<and> parse ts source_name = Some (Inr q) \<and> bare q = bare p
    \<and> pg_source_name q = source_name"
proof -
  obtain ts where ts: "lex (format_program p) = Inr ts" "map lx_kind ts = program_kinds p @ [TEof]"
    using lex_format [OF assms] by blast
  have "reads \<lparr> ps_rest = ts, ps_errors = [] \<rparr> (concat (map block_kinds (pg_declarations p)))"
    using ts(2) by (simp add: reads_def program_kinds_def)
  from program_loop_reads [OF this, of "[]"] obtain ds s' where
    "program_loop [] \<lparr> ps_rest = ts, ps_errors = [] \<rparr> = Some (ds, s')" "ps_errors s' = []"
    "map bare_block ds = map bare_block (pg_declarations p)"
    using assms by (auto simp: program_ok_def)
  moreover have "ts \<noteq> []" using ts(2) by auto
  ultimately show ?thesis using ts(1) by (simp add: parse_def bare_def)
qed

definition sample_span :: span where
  "sample_span = span_point 0 1 1"

definition sample_field :: "string \<Rightarrow> har_value \<Rightarrow> field" where
  "sample_field k v = \<lparr> fd_key = k, fd_value = v, fd_span = sample_span \<rparr>"

definition sample_program :: program where
  "sample_program = \<lparr> pg_source_name = ''a.har'', pg_declarations = [\<lparr> bl_kind = ''target'', bl_name = ''local'',
     bl_fields = [sample_field ''gpu'' (VString [CHR ''a'', CHR 0x22, CHR ''b'']), sample_field ''horizon'' (VRange ''0'' ''3''),
       sample_field ''vram'' (VQuantity ''1.5e3'' ''GiB''), sample_field ''kinds'' (VList [VIdent ''q4'', VNumber ''7'', VString []])],
     bl_span = sample_span \<rparr>] \<rparr>"

lemma formatting_is_parseable_witness:
  "\<exists>ts q. lex (format_program sample_program) = Inr ts \<and> parse ts ''b.har'' = Some (Inr q) \<and> bare q = bare sample_program"
proof -
  have "program_ok sample_program" by code_simp
  from formatting_is_parseable [OF this, of "''b.har''"] show ?thesis by blast
qed

end
