(* ===== verification/Float64.thy ===== *)
theory Float64
  imports Complex_Main "HOL-Library.Code_Target_Nat" Prelude
begin

text \<open>
  \<open>f64\<close>: values, rounding, the arithmetic and the casts the code uses.

  A finite \<open>f64\<close> is its exact value, a rational.  Every operation is the exact one followed by rounding
  to the nearest binary64 number, ties to the even one, which is what the hardware does.  The two zeros
  are one value here: the modelled code compares and adds them, which does not tell them apart, and never
  divides by a zero.
\<close>

subsection \<open>Rounding to binary64\<close>

fun bit_length :: "nat \<Rightarrow> nat" where
  "bit_length n = (if n = 0 then 0 else Suc (bit_length (n div 2)))"

declare bit_length.simps [simp del]

definition half_even :: "nat \<Rightarrow> nat \<Rightarrow> nat" where
  "half_even n d = (let q = n div d; r = n mod d in if 2 * r < d \<or> 2 * r = d \<and> even q then q else q + 1)"

text \<open>The weight of the last bit of the significand of \<open>n / d\<close>, as a power of two.\<close>

definition ulp_exponent :: "nat \<Rightarrow> nat \<Rightarrow> int" where
  "ulp_exponent n d =
     (let e = int (bit_length n) - int (bit_length d) - 53;
          big = (if 0 \<le> e + 53 then d * 2 ^ nat (e + 53) \<le> n else d \<le> n * 2 ^ nat (- (e + 53)))
      in max (- 1074) (if big then e + 1 else e))"

datatype real64 = NotANumber | Infinite bool | Finite rat

definition round64 :: "nat \<Rightarrow> nat \<Rightarrow> real64" where
  "round64 n d =
     (if n = 0 then Finite 0
      else let e = ulp_exponent n d;
               m = (if 0 \<le> e then half_even n (d * 2 ^ nat e) else half_even (n * 2 ^ nat (- e)) d)
           in if 0 \<le> e
              then if 2 ^ 1024 \<le> m * 2 ^ nat e then Infinite False else Finite (of_nat (m * 2 ^ nat e))
              else Finite (of_nat m / 2 ^ nat (- e)))"

definition negate64 :: "real64 \<Rightarrow> real64" where
  "negate64 x = (case x of NotANumber \<Rightarrow> NotANumber | Infinite s \<Rightarrow> Infinite (\<not> s) | Finite q \<Rightarrow> Finite (- q))"

definition round_rat :: "rat \<Rightarrow> real64" where
  "round_rat q = (let (n, d) = quotient_of q in
     if n < 0 then negate64 (round64 (nat (- n)) (nat d)) else round64 (nat n) (nat d))"

subsection \<open>Arithmetic and comparisons\<close>

fun plus64 :: "real64 \<Rightarrow> real64 \<Rightarrow> real64" where
  "plus64 (Finite p) (Finite q) = round_rat (p + q)"
| "plus64 (Infinite s) (Infinite t) = (if s = t then Infinite s else NotANumber)"
| "plus64 (Infinite s) (Finite q) = Infinite s"
| "plus64 (Finite p) (Infinite t) = Infinite t"
| "plus64 _ _ = NotANumber"

fun times64 :: "real64 \<Rightarrow> real64 \<Rightarrow> real64" where
  "times64 (Finite p) (Finite q) = round_rat (p * q)"
| "times64 (Infinite s) (Infinite t) = Infinite (s \<noteq> t)"
| "times64 (Infinite s) (Finite q) = (if q = 0 then NotANumber else Infinite (s \<noteq> (q < 0)))"
| "times64 (Finite p) (Infinite t) = (if p = 0 then NotANumber else Infinite (t \<noteq> (p < 0)))"
| "times64 _ _ = NotANumber"

fun divide64 :: "real64 \<Rightarrow> real64 \<Rightarrow> real64" where
  "divide64 (Finite p) (Finite q) =
     (if q = 0 then if p = 0 then NotANumber else Infinite (p < 0) else round_rat (p / q))"
| "divide64 (Infinite s) (Finite q) = Infinite (s \<noteq> (q < 0))"
| "divide64 (Finite p) (Infinite t) = Finite 0"
| "divide64 _ _ = NotANumber"

fun less64 :: "real64 \<Rightarrow> real64 \<Rightarrow> bool" where
  "less64 (Finite p) (Finite q) = (p < q)"
| "less64 (Infinite s) (Infinite t) = (s \<and> \<not> t)"
| "less64 (Infinite s) (Finite q) = s"
| "less64 (Finite p) (Infinite t) = (\<not> t)"
| "less64 _ _ = False"

definition leq64 :: "real64 \<Rightarrow> real64 \<Rightarrow> bool" where
  "leq64 x y \<longleftrightarrow> x \<noteq> NotANumber \<and> y \<noteq> NotANumber \<and> \<not> less64 y x"

text \<open>\<open>f64::max\<close>, which returns the other operand for a NaN.\<close>

definition max64 :: "real64 \<Rightarrow> real64 \<Rightarrow> real64" where
  "max64 x y = (if x = NotANumber then y else if y = NotANumber then x else if less64 x y then y else x)"

definition min64 :: "real64 \<Rightarrow> real64 \<Rightarrow> real64" where
  "min64 x y = (if x = NotANumber then y else if y = NotANumber then x else if less64 y x then y else x)"

definition is_finite64 :: "real64 \<Rightarrow> bool" where
  "is_finite64 x \<longleftrightarrow> (case x of Finite _ \<Rightarrow> True | _ \<Rightarrow> False)"

text \<open>\<open>n as f64\<close>, and \<open>f64::MIN_POSITIVE\<close>.\<close>

definition of_u64 :: "nat \<Rightarrow> real64" where
  "of_u64 n = round64 n 1"

definition min_positive :: real64 where
  "min_positive = Finite (1 / 2 ^ 1022)"

subsection \<open>Casts\<close>

text \<open>\<open>number as u64\<close> on a finite number, which saturates, and \<open>as u32\<close> on a \<open>u64\<close>, which truncates.\<close>

definition cast_u64 :: "rat \<Rightarrow> nat" where
  "cast_u64 q = min u64_max (nat \<lfloor>q\<rfloor>)"

definition cast_u32 :: "nat \<Rightarrow> nat" where
  "cast_u32 n = n mod 2 ^ 32"

definition two64 :: rat where
  "two64 = 2 ^ 64"

text \<open>\<open>f64::round\<close>: halves away from zero; the argument is not negative.\<close>

definition round_half_up :: "rat \<Rightarrow> rat" where
  "round_half_up q = of_int \<lfloor>q + 1 / 2\<rfloor>"

lemma less64_trans: "less64 x y \<Longrightarrow> less64 y z \<Longrightarrow> less64 x z"
  by (cases x; cases y; cases z) auto

lemma less64_irrefl: "\<not> less64 x x"
  by (cases x) auto

lemma cast_u64_le: "cast_u64 q \<le> u64_max"
  by (simp add: cast_u64_def)

lemma cast_u64_less: "cast_u64 q < 2 ^ 64"
  using cast_u64_le [of q] by (simp add: u64_max_def)

lemma cast_u32_less: "cast_u32 n < 2 ^ 32"
  by (simp add: cast_u32_def)

subsection \<open>Small integers are exact\<close>

lemma bit_length_bounds: "0 < n \<Longrightarrow> 2 ^ (bit_length n - 1) \<le> n \<and> n < 2 ^ bit_length n \<and> 0 < bit_length n"
proof (induction n rule: bit_length.induct)
  case (1 n)
  show ?case
  proof (cases "n div 2 = 0")
    case True
    then have "n = 1" using "1.prems" by simp
    then show ?thesis by (simp add: bit_length.simps)
  next
    case False
    then obtain k where k: "bit_length (n div 2) = Suc k" using 1 by (metis Suc_pred' gr0I)
    have "2 ^ k \<le> n div 2 \<and> n div 2 < 2 ^ Suc k" using 1 False k by simp
    moreover have "bit_length n = Suc (Suc k)" using "1.prems" k by (subst bit_length.simps) simp
    ultimately show ?thesis by auto
  qed
qed

lemma half_even_exact: "half_even n 1 = n"
  by (simp add: half_even_def)

lemma round64_integer:
  assumes "n < 2 ^ 53"
  shows "round64 n 1 = Finite (of_nat n)"
proof (cases "n = 0")
  case False
  define k where "k = bit_length n"
  have k: "2 ^ (k - 1) \<le> n" "n < 2 ^ k" "0 < k" using bit_length_bounds [of n] False by (simp_all add: k_def)
  have "k \<le> 53"
  proof (rule ccontr)
    assume "\<not> k \<le> 53"
    then have "(2::nat) ^ 53 \<le> 2 ^ (k - 1)" by (intro power_increasing) auto
    with k(1) assms show False by simp
  qed
  have one: "bit_length 1 = 1" by (simp add: bit_length.simps)
  have "nat (int k - 1) = k - 1" by simp
  then have e: "ulp_exponent n 1 = int k - 53" using k one
    by (simp add: ulp_exponent_def Let_def k_def [symmetric])
  show ?thesis
  proof (cases "k = 53")
    case True
    then show ?thesis using False e assms half_even_exact by (simp add: round64_def Let_def)
  next
    case less: False
    then have neg: "\<not> 0 \<le> ulp_exponent n 1" using e \<open>k \<le> 53\<close> by simp
    then show ?thesis using False by (simp add: round64_def Let_def half_even_exact [simplified])
  qed
qed (simp add: round64_def)

end
