(* ===== verification/Lang_Numbers.thy ===== *)
theory Lang_Numbers
  imports Float64 Lang_Lexer
begin

text \<open>
  Reading numbers from source text: \<open>str::parse::<f64>\<close> and \<open>str::parse::<u8>\<close>.
\<close>

subsection \<open>\<open>str::parse\<close>\<close>

definition digit_value :: "char \<Rightarrow> nat" where
  "digit_value c = char_code c - 48"

definition decimal :: "string \<Rightarrow> nat" where
  "decimal ds = fold (\<lambda>c n. 10 * n + digit_value c) ds 0"

text \<open>The exponent, which the standard library stops accumulating at 65536.\<close>

definition exponent_value :: "string \<Rightarrow> nat" where
  "exponent_value ds = fold (\<lambda>c n. if n < 65536 then 10 * n + digit_value c else n) ds 0"

text \<open>The exponent part: \<open>None\<close> if it is malformed or something follows.\<close>

definition parse_exponent :: "string \<Rightarrow> int option" where
  "parse_exponent s =
     (if s = [] then Some 0
      else if hd s \<in> set ''eE''
      then let t = tl s; signed = t \<noteq> [] \<and> hd t \<in> set ''+-''; ds = (if signed then tl t else t) in
           if ds = [] \<or> \<not> list_all is_digit ds then None
           else Some (if signed \<and> hd t = CHR ''-'' then - int (exponent_value ds) else int (exponent_value ds))
      else None)"

definition parse_magnitude :: "string \<Rightarrow> real64 option" where
  "parse_magnitude s =
     (let (whole, s1) = scan_digits s;
          (fraction, s2) = (if s1 \<noteq> [] \<and> hd s1 = CHR ''.'' then scan_digits (tl s1) else ([], s1))
      in if whole @ fraction = [] then None
         else map_option (\<lambda>e. let k = e - int (length fraction); n = decimal (whole @ fraction)
                in round64 (n * 10 ^ nat k) (10 ^ nat (- k))) (parse_exponent s2))"

definition parse_special :: "string \<Rightarrow> real64 option" where
  "parse_special s = (let t = ascii_lower s in
     if t = ''nan'' then Some NotANumber else if t = ''inf'' \<or> t = ''infinity'' then Some (Infinite False) else None)"

definition parse_f64 :: "string \<Rightarrow> real64 option" where
  "parse_f64 s =
     (let signed = s \<noteq> [] \<and> hd s \<in> set ''+-''; t = (if signed then tl s else s);
          r = (case parse_magnitude t of Some x \<Rightarrow> Some x | None \<Rightarrow> parse_special t)
      in if t = [] then None else if signed \<and> hd s = CHR ''-'' then map_option negate64 r else r)"

definition parse_u8 :: "string \<Rightarrow> nat option" where
  "parse_u8 s = (let t = (if s \<noteq> [] \<and> hd s = CHR ''+'' then tl s else s) in
     if t = [] \<or> \<not> list_all is_digit t \<or> 255 < decimal t then None else Some (decimal t))"

lemma parse_u8_le: "parse_u8 s = Some n \<Longrightarrow> n \<le> 255"
  by (auto simp: parse_u8_def Let_def split: if_splits)

end
