(* ===== verification/Lang_Semantics.thy ===== *)
theory Lang_Semantics
  imports Lang_Numbers
begin

text \<open>
  \<open>har-lang-semantics/src/v0.rs\<close>, first half: the typed program and the functions that read one
  declaration each.  A function that takes \<open>&mut Diagnostics\<close> returns the value and the diagnostics it
  adds, in order; \<open>bindW\<close> runs one after the other.
\<close>

subsection \<open>Collecting diagnostics\<close>

type_synonym 'a reported = "'a \<times> diagnostic list"

definition pureW :: "'a \<Rightarrow> 'a reported" where
  "pureW x = (x, [])"

definition bindW :: "'a reported \<Rightarrow> ('a \<Rightarrow> 'b reported) \<Rightarrow> 'b reported" where
  "bindW m f = (case m of (x, ds) \<Rightarrow> case f x of (y, es) \<Rightarrow> (y, ds @ es))"

definition errW :: "bool \<Rightarrow> string \<Rightarrow> string \<Rightarrow> span option \<Rightarrow> unit reported" where
  "errW failed code message sp = ((), if failed then [diag_error code message sp] else [])"

definition failW :: "'a \<Rightarrow> string \<Rightarrow> string \<Rightarrow> span option \<Rightarrow> 'a reported" where
  "failW x code message sp = (x, [diag_error code message sp])"

fun mapW :: "('a \<Rightarrow> 'b reported) \<Rightarrow> 'a list \<Rightarrow> 'b list reported" where
  "mapW f [] = pureW []"
| "mapW f (x # xs) = bindW (f x) (\<lambda>y. bindW (mapW f xs) (\<lambda>ys. pureW (y # ys)))"

text \<open>No error was reported.\<close>

definition cleanW :: "'a reported \<Rightarrow> bool" where
  "cleanW m \<longleftrightarrow> \<not> has_errors (snd m)"

lemma fst_W [simp]:
  "fst (pureW x) = x" "fst (bindW m f) = fst (f (fst m))" "fst (failW x c t sp) = x"
  by (simp_all add: pureW_def bindW_def failW_def split_beta)

lemma cleanW_simps [simp]:
  "cleanW (pureW x)" "cleanW (bindW m f) \<longleftrightarrow> cleanW m \<and> cleanW (f (fst m))"
  "cleanW (errW b c t sp) \<longleftrightarrow> \<not> b" "cleanW (failW x c t sp) \<longleftrightarrow> False"
  by (simp_all add: cleanW_def pureW_def bindW_def errW_def failW_def split_beta)

lemma cleanW_mapW [simp]: "cleanW (mapW f xs) \<longleftrightarrow> (\<forall>x\<in>set xs. cleanW (f x))"
  by (induction xs) auto

lemma fst_mapW [simp]: "fst (mapW f xs) = map (\<lambda>x. fst (f x)) xs"
  by (induction xs) auto

lemma fst_if [simp]: "fst (if b then x else y) = (if b then fst x else fst y)"
  by simp

lemma cleanW_if [simp]: "cleanW (if b then x else y) = (if b then cleanW x else cleanW y)"
  by simp

subsection \<open>The typed program\<close>

datatype lang_format = LQ4KS | LQ4KM | LQ8_0 | LF16 | LF32

datatype lang_tier = LDirectNvme | LRamMapped | LPinnedRam | LVram | LVramSlot | LScratch

datatype lang_kernel = KCpu | KVulkan | KMtpVerify | KSampling | KQ4KMatVec | KQuantizedMulMat | KAttention | KEmbeddingLookup

datatype lang_authority = AuthExact | AuthApproximate

record lang_model =
  lm_name :: string
  lm_identity :: string
  lm_model_sha256 :: string
  lm_build_hash :: string
  lm_config_hash :: string
  lm_epoch :: nat
  lm_size_gib :: rat
  lm_context_length :: nat
  lm_batch :: nat
  lm_kv_cache_type :: string
  lm_nextn_predict_layers :: nat

record lang_target =
  lt_name :: string
  lt_gpu :: string
  lt_gpu_arch :: string
  lt_wave :: nat
  lt_vram_budget_bytes :: nat
  lt_host_ram_budget_bytes :: nat
  lt_storage :: lang_tier
  lt_capabilities :: "string list"

record lang_tensor =
  ln_name :: string
  ln_format :: lang_format
  ln_shape :: "nat list"
  ln_tier :: lang_tier
  ln_tier_name :: string
  ln_authority :: lang_authority
  ln_kernel :: lang_kernel
  ln_required_vram_bytes :: nat
  ln_generation :: nat
  ln_model_root :: string

record lang_tier_spec =
  lr_name :: string
  lr_hot :: lang_tier
  lr_warm :: lang_tier
  lr_cold :: lang_tier

record lang_quality =
  lq_name :: string
  lq_authority :: string
  lq_exact :: bool
  lq_fallback_required :: bool

record lang_cost =
  lc_required_nvme_bytes :: nat
  lc_ram_to_vram_bytes :: nat
  lc_vram_bytes :: nat
  lc_verification_compute :: rat
  lc_queue_slots :: nat

record lang_decode =
  ld_name :: string
  ld_min_horizon :: nat
  ld_max_horizon :: nat
  ld_objective :: string
  ld_require_exact_acceptance :: bool
  ld_sampling_location :: string
  ld_sampling_policy :: string
  ld_placement :: string
  ld_gpu_layers :: nat
  ld_gpu_layers_total :: nat
  ld_topology_matched :: bool
  ld_requires_model :: string
  ld_fallback :: string
  ld_required_epoch :: "nat option"
  ld_cost :: lang_cost

record lang_fact =
  lf_name :: string
  lf_metric :: string
  lf_value :: rat
  lf_evidence :: string

record lang_phase =
  lp_name :: string
  lp_dependencies :: "string list"

record lang_dependency =
  le_from :: string
  le_to :: string
  le_generation :: nat

record lang_telemetry =
  ly_name :: string
  ly_requirements :: "string list"

record lang_operation =
  lo_name :: string
  lo_model_root :: string
  lo_package_root :: string
  lo_payload_entry :: string
  lo_source_tensor :: string
  lo_kernel :: lang_kernel
  lo_quant_format :: lang_format
  lo_rows :: nat
  lo_columns :: nat
  lo_alignment :: nat
  lo_source_tier :: lang_tier
  lo_destination_tier :: lang_tier
  lo_require_exact_checksum :: bool
  lo_reference_tolerance :: rat
  lo_fallback :: string
  lo_generation :: nat

record typed_program =
  tp_target :: lang_target
  tp_model :: lang_model
  tp_tensors :: "lang_tensor list"
  tp_tiers :: "lang_tier_spec list"
  tp_quality :: lang_quality
  tp_decode :: lang_decode
  tp_phases :: "lang_phase list"
  tp_dependencies :: "lang_dependency list"
  tp_telemetry :: "lang_telemetry list"
  tp_facts :: "lang_fact list"
  tp_operations :: "lang_operation list"

subsection \<open>Fields\<close>

definition blocks_of :: "program \<Rightarrow> string \<Rightarrow> block list" where
  "blocks_of p k = filter (\<lambda>b. bl_kind b = k) (pg_declarations p)"

definition field_of :: "block \<Rightarrow> string \<Rightarrow> field option" where
  "field_of b key = find (\<lambda>f. fd_key f = key) (bl_fields b)"

definition fields_of :: "block \<Rightarrow> string \<Rightarrow> field list" where
  "fields_of b key = filter (\<lambda>f. fd_key f = key) (bl_fields b)"

definition string_or_atom :: "har_value \<Rightarrow> string option" where
  "string_or_atom v = (case as_string v of Some s \<Rightarrow> Some s | None \<Rightarrow> as_ident v)"

text \<open>The \<open>field(..).and_then(..).unwrap_or(..)\<close> and \<open>field(..).map(..).unwrap_or(..)\<close> chains.\<close>

definition atom_of :: "block \<Rightarrow> string \<Rightarrow> string option" where
  "atom_of b key = Option.bind (field_of b key) (\<lambda>f. as_atom (fd_value f))"

definition atom_or :: "block \<Rightarrow> string \<Rightarrow> string \<Rightarrow> string" where
  "atom_or b key d = (case atom_of b key of Some s \<Rightarrow> s | None \<Rightarrow> d)"

definition text_or_empty :: "block \<Rightarrow> string \<Rightarrow> string" where
  "text_or_empty b key = (case Option.bind (field_of b key) (\<lambda>f. string_or_atom (fd_value f)) of Some s \<Rightarrow> s | None \<Rightarrow> [])"

definition atoms_of :: "block \<Rightarrow> string \<Rightarrow> string list" where
  "atoms_of b key = List.map_filter (\<lambda>f. as_atom (fd_value f)) (fields_of b key)"

definition read_or :: "'a \<Rightarrow> (string \<Rightarrow> block \<Rightarrow> har_value \<Rightarrow> 'a reported) \<Rightarrow> block \<Rightarrow> string \<Rightarrow> 'a reported" where
  "read_or d reader b key = (case field_of b key of None \<Rightarrow> pureW d | Some f \<Rightarrow> reader key b (fd_value f))"

definition required_atom :: "block \<Rightarrow> string \<Rightarrow> string reported" where
  "required_atom b key = (case atom_of b key of
     Some s \<Rightarrow> pureW s
   | None \<Rightarrow> failW [] ''S1000'' (''`'' @ bl_kind b @ '' '' @ key @ ''` is required'') (Some (bl_span b)))"

definition required_string :: "block \<Rightarrow> string \<Rightarrow> string reported" where
  "required_string b key = (let s = text_or_empty b key in
     if s \<noteq> [] then pureW s
     else failW [] ''S1032'' (''`'' @ key @ ''` requires a non-empty string'') (Some (bl_span b)))"

definition parse_number :: "string \<Rightarrow> block \<Rightarrow> har_value \<Rightarrow> rat reported" where
  "parse_number key b v = (case as_atom v of
     None \<Rightarrow> failW 0 ''S1020'' (''field `'' @ key @ ''` requires a number'') (Some (bl_span b))
   | Some raw \<Rightarrow> (case parse_f64 raw of
       Some (Finite q) \<Rightarrow>
         if 0 \<le> q then pureW q
         else failW 0 ''S1021'' (''invalid non-negative number `'' @ raw @ ''`'') (Some (bl_span b))
     | _ \<Rightarrow> failW 0 ''S1021'' (''invalid non-negative number `'' @ raw @ ''`'') (Some (bl_span b))))"

definition parse_u64 :: "string \<Rightarrow> block \<Rightarrow> har_value \<Rightarrow> nat reported" where
  "parse_u64 key b v = bindW (parse_number key b v) (\<lambda>q.
     if q \<noteq> of_int \<lfloor>q\<rfloor> \<or> two64 < q
     then failW 0 ''S1022'' (''`'' @ key @ ''` must be an integer'') (Some (bl_span b))
     else pureW (cast_u64 q))"

definition parse_u32 :: "string \<Rightarrow> block \<Rightarrow> har_value \<Rightarrow> nat reported" where
  "parse_u32 key b v = bindW (parse_u64 key b v) (\<lambda>n. pureW (cast_u32 n))"

definition unit_multiplier :: "string \<Rightarrow> rat option" where
  "unit_multiplier u = (if u = ''B'' then Some 1 else if u = ''KiB'' then Some 1024 else if u = ''MiB'' then Some (1024 ^ 2)
     else if u = ''GiB'' then Some (1024 ^ 3) else if u = ''TiB'' then Some (1024 ^ 4) else None)"

definition quantity_bytes :: "block \<Rightarrow> rat \<Rightarrow> string \<Rightarrow> nat reported" where
  "quantity_bytes b q u = (case unit_multiplier u of
     None \<Rightarrow> failW 0 ''S1025'' (''unsupported capacity unit `'' @ u @ ''`'') (Some (bl_span b))
   | Some m \<Rightarrow> if two64 < q * m then failW 0 ''S1026'' ''quantity exceeds u64 capacity'' (Some (bl_span b))
              else pureW (cast_u64 (round_half_up (q * m))))"

definition parse_quantity :: "string \<Rightarrow> block \<Rightarrow> har_value \<Rightarrow> nat reported" where
  "parse_quantity key b v = (case v of
     VQuantity number u \<Rightarrow> (case parse_f64 number of
         Some (Finite q) \<Rightarrow>
           if 0 \<le> q then quantity_bytes b q u
           else failW 0 ''S1024'' (''invalid quantity number `'' @ number @ ''`'') (Some (bl_span b))
       | _ \<Rightarrow> failW 0 ''S1024'' (''invalid quantity number `'' @ number @ ''`'') (Some (bl_span b)))
   | _ \<Rightarrow> failW 0 ''S1023'' (''`'' @ key @ ''` requires a quantity such as `15.9 GiB`'') (Some (bl_span b)))"

definition check_known_fields :: "string list \<Rightarrow> block \<Rightarrow> unit reported" where
  "check_known_fields known b = bindW (mapW (\<lambda>f. errW (fd_key f \<notin> set known) ''S1046''
     (''unknown field `'' @ fd_key f @ ''` in '' @ bl_kind b @ '' declaration'') (Some (fd_span f))) (bl_fields b)) (\<lambda>_. pureW ())"

subsection \<open>Declarations\<close>

definition parse_memory_tier :: "block \<Rightarrow> string \<Rightarrow> lang_tier reported" where
  "parse_memory_tier b name =
     (if name \<in> {''direct_nvme'', ''nvme'', ''nvme_cold''} then pureW LDirectNvme
      else if name \<in> {''ram_mapped'', ''ram_pageable''} then pureW LRamMapped
      else if name \<in> {''pinned_ram'', ''ram_pinned''} then pureW LPinnedRam
      else if name \<in> {''vram'', ''vram_page''} then pureW LVram
      else if name = ''vram_slot'' then pureW LVramSlot
      else if name = ''scratch'' then pureW LScratch
      else failW LDirectNvme ''S1044'' (''unknown memory tier `'' @ name @ ''`'') (Some (bl_span b)))"

definition required_tier :: "block \<Rightarrow> string \<Rightarrow> lang_tier reported" where
  "required_tier b key = bindW (required_atom b key) (parse_memory_tier b)"

definition parse_target :: "block \<Rightarrow> lang_target reported" where
  "parse_target b =
     bindW (check_known_fields [''gpu'', ''gpu_arch'', ''wave'', ''vram_budget'', ''host_ram_budget'', ''storage'', ''capability''] b) (\<lambda>_.
     bindW (case field_of b ''wave'' of
              Some f \<Rightarrow> parse_u32 ''wave'' b (fd_value f)
            | None \<Rightarrow> failW 0 ''S1030'' ''target requires `wave`'' (Some (bl_span b))) (\<lambda>wave.
     bindW (read_or 0 parse_quantity b ''vram_budget'') (\<lambda>vram.
     bindW (read_or 0 parse_quantity b ''host_ram_budget'') (\<lambda>host.
     bindW (required_tier b ''storage'') (\<lambda>storage.
     pureW \<lparr> lt_name = bl_name b, lt_gpu = text_or_empty b ''gpu'', lt_gpu_arch = text_or_empty b ''gpu_arch'',
       lt_wave = wave, lt_vram_budget_bytes = vram, lt_host_ram_budget_bytes = host, lt_storage = storage,
       lt_capabilities = atoms_of b ''capability'' \<rparr>)))))"

definition is_hexdigit :: "char \<Rightarrow> bool" where
  "is_hexdigit c \<longleftrightarrow> is_digit c \<or> 65 \<le> char_code c \<and> char_code c \<le> 70 \<or> 97 \<le> char_code c \<and> char_code c \<le> 102"

definition hash_ok :: "string \<Rightarrow> string \<Rightarrow> bool" where
  "hash_ok name hash \<longleftrightarrow>
     (name = ''build_hash'' \<and> (length hash = 40 \<or> length hash = 64) \<or> name \<noteq> ''build_hash'' \<and> length hash = 64)
     \<and> list_all is_hexdigit hash"

definition check_hash :: "block \<Rightarrow> string \<Rightarrow> string \<Rightarrow> unit reported" where
  "check_hash b name hash = errW (\<not> hash_ok name hash) ''S1031''
     (''`'' @ name @ ''` must be a hexadecimal model/config identity (64 chars) or build identity (40/64 chars)'')
     (Some (bl_span b))"

definition parse_model :: "block \<Rightarrow> lang_model reported" where
  "parse_model b =
     bindW (check_known_fields [''identity'', ''model_sha256'', ''build_hash'', ''config_hash'', ''epoch'', ''size_gib'',
              ''context_length'', ''batch'', ''kv_cache_type'', ''nextn_predict_layers''] b) (\<lambda>_.
     bindW (required_string b ''identity'') (\<lambda>ident.
     bindW (required_string b ''model_sha256'') (\<lambda>sha.
     bindW (required_string b ''build_hash'') (\<lambda>build.
     bindW (required_string b ''config_hash'') (\<lambda>config.
     bindW (read_or 0 parse_u64 b ''epoch'') (\<lambda>epoch.
     bindW (check_hash b ''model_sha256'' sha) (\<lambda>_.
     bindW (check_hash b ''build_hash'' build) (\<lambda>_.
     bindW (check_hash b ''config_hash'' config) (\<lambda>_.
     bindW (read_or 0 parse_number b ''size_gib'') (\<lambda>size.
     bindW (read_or 0 parse_u32 b ''context_length'') (\<lambda>context.
     bindW (read_or 0 parse_u32 b ''batch'') (\<lambda>batch.
     let kv = text_or_empty b ''kv_cache_type'' in
     bindW (errW (kv \<notin> {[], ''q8_0'', ''f16''}) ''S1059''
              (''unsupported KV cache type `'' @ kv @ ''`; HAR V0 accepts q8_0 or f16'') (Some (bl_span b))) (\<lambda>_.
     bindW (read_or 0 parse_u32 b ''nextn_predict_layers'') (\<lambda>nextn.
     pureW \<lparr> lm_name = bl_name b, lm_identity = ident, lm_model_sha256 = sha, lm_build_hash = build,
       lm_config_hash = config, lm_epoch = epoch, lm_size_gib = size, lm_context_length = context, lm_batch = batch,
       lm_kv_cache_type = kv, lm_nextn_predict_layers = nextn \<rparr>))))))))))))))"

definition parse_quality :: "block \<Rightarrow> lang_quality reported" where
  "parse_quality b =
     bindW (check_known_fields [''authority'', ''fallback''] b) (\<lambda>_.
     bindW (required_atom b ''authority'') (\<lambda>authority.
     let exact = (bl_name b = ''exact'' \<or> authority = ''full_model'') in
     bindW (required_atom b ''fallback'') (\<lambda>fallback.
     let required = fallback \<in> {''required'', ''depth_zero'', ''exact_target''} in
     bindW (errW (exact \<and> \<not> required) ''S1033'' ''exact quality requires an explicit fallback'' (Some (bl_span b))) (\<lambda>_.
     pureW \<lparr> lq_name = bl_name b, lq_authority = authority, lq_exact = exact, lq_fallback_required = required \<rparr>))))"

definition timing_key :: "string \<Rightarrow> bool" where
  "timing_key key \<longleftrightarrow> (let k = ascii_lower key in
     str_contains ''timing'' k \<or> str_contains ''elapsed'' k \<or> str_contains ''deadline'' k \<or> str_contains ''after_ms'' k)"

definition or_255 :: "nat option \<Rightarrow> nat" where
  "or_255 x = (case x of Some n \<Rightarrow> n | None \<Rightarrow> 255)"

definition parse_horizon :: "block \<Rightarrow> (nat \<times> nat) reported" where
  "parse_horizon b = (case map_option fd_value (field_of b ''horizon'') of
     Some (VRange start stop) \<Rightarrow> pureW (or_255 (parse_u8 start), or_255 (parse_u8 stop))
   | _ \<Rightarrow> failW (0, 0) ''S1034'' ''decode requires a horizon range such as `0..3`'' (Some (bl_span b)))"

definition parse_sampling :: "block \<Rightarrow> string \<Rightarrow> (string \<times> string) reported" where
  "parse_sampling b s =
     (if s = ''cpu'' then pureW (''cpu'', ''greedy'')
      else if s = ''vulkan'' then pureW (''vulkan'', ''greedy'')
      else if s = ''backend'' then pureW (''backend'', ''greedy'')
      else if s = ''deterministic_greedy'' then pureW (''cpu'', ''deterministic_greedy'')
      else if s = ''seeded_stochastic'' then pureW (''cpu'', ''seeded_stochastic'')
      else failW (''cpu'', ''greedy'') ''S1038'' (''unsupported sampling policy `'' @ s @ ''`'') (Some (bl_span b)))"

definition parse_cost :: "block \<Rightarrow> lang_cost reported" where
  "parse_cost b =
     bindW (read_or 0 parse_quantity b ''required_nvme'') (\<lambda>nvme.
     bindW (read_or 0 parse_quantity b ''ram_to_vram'') (\<lambda>ram.
     bindW (read_or 0 parse_quantity b ''vram_reserve'') (\<lambda>vram.
     bindW (read_or 0 parse_number b ''verification_compute'') (\<lambda>compute.
     bindW (read_or 0 parse_u64 b ''queue_slots'') (\<lambda>slots.
     pureW \<lparr> lc_required_nvme_bytes = nvme, lc_ram_to_vram_bytes = ram, lc_vram_bytes = vram,
       lc_verification_compute = compute, lc_queue_slots = slots \<rparr>)))))"

definition decode_fields :: "string list" where
  "decode_fields = [''horizon'', ''optimize'', ''require'', ''sampling'', ''placement'', ''gpu_layers'', ''gpu_layers_total'',
     ''topology_matched'', ''requires_model'', ''fallback'', ''requires_epoch'', ''required_nvme'', ''ram_to_vram'',
     ''vram_reserve'', ''verification_compute'', ''queue_slots'']"

definition parse_decode :: "block \<Rightarrow> lang_decode reported" where
  "parse_decode b =
     bindW (check_known_fields decode_fields b) (\<lambda>_.
     bindW (mapW (\<lambda>f. errW (timing_key (fd_key f)) ''S1056'' (''MTP acceptance must not be controlled by timing: `''
              @ fd_key f @ ''` is not a legal decode policy input'') (Some (fd_span f))) (bl_fields b)) (\<lambda>_.
     bindW (parse_horizon b) (\<lambda>(low, high).
     bindW (errW (high < low \<or> 3 < high) ''S1035'' ''MTP horizon must be an ordered range inside 0..3'' (Some (bl_span b))) (\<lambda>_.
     bindW (required_atom b ''optimize'') (\<lambda>objective.
     bindW (errW (objective \<noteq> ''accepted_tokens_per_complete_cost'' \<and> objective \<noteq> ''expected_accepted_tokens_per_complete_cost'')
              ''S1036'' (''unsupported decode objective `'' @ objective @ ''`'') (Some (bl_span b))) (\<lambda>_.
     let exact = (atom_of b ''require'' = Some ''exact_acceptance'') in
     bindW (errW (\<not> exact) ''S1037'' ''decode requires `require exact_acceptance`'' (Some (bl_span b))) (\<lambda>_.
     bindW (required_atom b ''sampling'') (\<lambda>sampling.
     bindW (parse_sampling b sampling) (\<lambda>(location, policy).
     let placement = atom_or b ''placement'' ''natural'' in
     bindW (errW (placement \<notin> {''natural'', ''topology_matched''}) ''S1060'' (''unsupported placement policy `'' @ placement
              @ ''`; V0 accepts natural or topology_matched'') (Some (bl_span b))) (\<lambda>_.
     bindW (read_or 0 parse_u32 b ''gpu_layers'') (\<lambda>layers.
     bindW (read_or 0 parse_u32 b ''gpu_layers_total'') (\<lambda>total.
     bindW (errW (total \<noteq> 0 \<and> total < layers) ''S1061'' (''gpu_layers '' @ dec_digits layers @ '' exceeds gpu_layers_total ''
              @ dec_digits total) (Some (bl_span b))) (\<lambda>_.
     let topology = (atom_of b ''topology_matched'' = Some ''true''); requires_model = text_or_empty b ''requires_model'' in
     bindW (required_atom b ''fallback'') (\<lambda>fallback.
     bindW (errW (fallback \<notin> {''depth_zero'', ''exact_target'', ''required''}) ''S1039''
              ''decode fallback must be `depth_zero` or `exact_target`'' (Some (bl_span b))) (\<lambda>_.
     bindW (read_or None (\<lambda>key b v. bindW (parse_u64 key b v) (\<lambda>n. pureW (Some n))) b ''requires_epoch'') (\<lambda>epoch.
     bindW (parse_cost b) (\<lambda>cost.
     pureW \<lparr> ld_name = bl_name b, ld_min_horizon = low, ld_max_horizon = high, ld_objective = objective,
       ld_require_exact_acceptance = exact, ld_sampling_location = location, ld_sampling_policy = policy,
       ld_placement = placement, ld_gpu_layers = layers, ld_gpu_layers_total = total, ld_topology_matched = topology,
       ld_requires_model = requires_model, ld_fallback = fallback, ld_required_epoch = epoch, ld_cost = cost \<rparr>)))))))))))))))))"

definition parse_kernel :: "block \<Rightarrow> string \<Rightarrow> lang_kernel reported" where
  "parse_kernel b name =
     (if name = ''cpu'' then pureW KCpu
      else if name = ''vulkan'' then pureW KVulkan
      else if name = ''mtp_verify'' then pureW KMtpVerify
      else if name = ''sampling'' then pureW KSampling
      else if name \<in> {''q4_k_matvec'', ''q4_k_mul_mat''} then pureW KQ4KMatVec
      else if name \<in> {''q8_k_matvec'', ''quantized_mul_mat''} then pureW KQuantizedMulMat
      else if name = ''attention'' then pureW KAttention
      else if name = ''embedding_lookup'' then pureW KEmbeddingLookup
      else failW KCpu ''S1043'' (''unsupported kernel requirement `'' @ name @ ''`'') (Some (bl_span b)))"

definition parse_tensor_format :: "block \<Rightarrow> string \<Rightarrow> lang_format reported" where
  "parse_tensor_format b name =
     (if name = ''Q4_K_S'' then pureW LQ4KS else if name = ''Q4_K_M'' then pureW LQ4KM
      else if name = ''Q8_0'' then pureW LQ8_0 else if name = ''F16'' then pureW LF16
      else if name = ''F32'' then pureW LF32
      else failW LF32 ''S1040'' (''unsupported tensor format `'' @ name @ ''`'') (Some (bl_span b)))"

definition parse_operation_format :: "block \<Rightarrow> string \<Rightarrow> lang_format reported" where
  "parse_operation_format b name =
     (if name \<in> {''Q4_K'', ''Q4_K_S''} then pureW LQ4KS else if name = ''Q4_K_M'' then pureW LQ4KM
      else if name = ''Q8_0'' then pureW LQ8_0 else if name = ''F16'' then pureW LF16
      else if name = ''F32'' then pureW LF32
      else failW LF32 ''S1040'' (''unsupported operation quant format `'' @ name @ ''`'') (Some (bl_span b)))"

definition physical_tiers :: "string list" where
  "physical_tiers = [''direct_nvme'', ''nvme'', ''ram_mapped'', ''pinned_ram'', ''vram'', ''vram_slot'', ''scratch'']"

definition parse_authority :: "block \<Rightarrow> lang_authority reported" where
  "parse_authority b = (let name = atom_or b ''authority'' ''exact'' in
     if name \<in> {''exact'', ''full_model''} then pureW AuthExact
     else if name \<in> {''approximate'', ''predictive''} then pureW AuthApproximate
     else failW AuthExact ''S1042'' (''unknown tensor authority `'' @ name @ ''`'') (Some (bl_span b)))"

definition parse_shape :: "block \<Rightarrow> nat list reported" where
  "parse_shape b = (case map_option fd_value (field_of b ''shape'') of
     Some (VList vs) \<Rightarrow> mapW (parse_u64 ''shape'' b) vs
   | _ \<Rightarrow> failW [] ''S1041'' ''tensor requires a shape list'' (Some (bl_span b)))"

definition parse_tensor :: "block \<Rightarrow> lang_tensor reported" where
  "parse_tensor b =
     bindW (check_known_fields [''format'', ''shape'', ''tier'', ''authority'', ''kernel'', ''vram_required'', ''generation'',
              ''model_root''] b) (\<lambda>_.
     bindW (bindW (required_atom b ''format'') (parse_tensor_format b)) (\<lambda>fmt.
     bindW (parse_shape b) (\<lambda>shape.
     bindW (required_atom b ''tier'') (\<lambda>tier_name.
     bindW (if tier_name \<in> set physical_tiers then parse_memory_tier b tier_name else pureW LDirectNvme) (\<lambda>tier.
     bindW (parse_authority b) (\<lambda>authority.
     bindW (parse_kernel b (atom_or b ''kernel'' ''cpu'')) (\<lambda>kernel.
     bindW (read_or 0 parse_quantity b ''vram_required'') (\<lambda>vram.
     bindW (read_or 0 parse_u64 b ''generation'') (\<lambda>generation.
     pureW \<lparr> ln_name = bl_name b, ln_format = fmt, ln_shape = shape, ln_tier = tier, ln_tier_name = tier_name,
       ln_authority = authority, ln_kernel = kernel, ln_required_vram_bytes = vram, ln_generation = generation,
       ln_model_root = text_or_empty b ''model_root'' \<rparr>)))))))))"

definition parse_tier_decl :: "block \<Rightarrow> lang_tier_spec reported" where
  "parse_tier_decl b =
     bindW (check_known_fields [''hot'', ''warm'', ''cold''] b) (\<lambda>_.
     bindW (required_tier b ''hot'') (\<lambda>hot.
     bindW (required_tier b ''warm'') (\<lambda>warm.
     bindW (required_tier b ''cold'') (\<lambda>cold.
     pureW \<lparr> lr_name = bl_name b, lr_hot = hot, lr_warm = warm, lr_cold = cold \<rparr>))))"

definition parse_phase :: "block \<Rightarrow> lang_phase reported" where
  "parse_phase b =
     bindW (check_known_fields [''depends_on''] b) (\<lambda>_.
     pureW \<lparr> lp_name = bl_name b, lp_dependencies = atoms_of b ''depends_on'' \<rparr>)"

definition parse_telemetry :: "block \<Rightarrow> lang_telemetry reported" where
  "parse_telemetry b =
     bindW (check_known_fields [''require''] b) (\<lambda>_.
     let requirements = atoms_of b ''require'' in
     bindW (errW (requirements = []) ''S1045'' ''telemetry declaration requires at least one `require`'' (Some (bl_span b))) (\<lambda>_.
     pureW \<lparr> ly_name = bl_name b, ly_requirements = requirements \<rparr>))"

definition parse_fact :: "block \<Rightarrow> lang_fact reported" where
  "parse_fact b =
     bindW (check_known_fields [''metric'', ''value'', ''evidence''] b) (\<lambda>_.
     bindW (required_atom b ''metric'') (\<lambda>metric.
     bindW (read_or 0 parse_number b ''value'') (\<lambda>v.
     bindW (required_string b ''evidence'') (\<lambda>evidence.
     pureW \<lparr> lf_name = bl_name b, lf_metric = metric, lf_value = v, lf_evidence = evidence \<rparr>))))"

definition parse_dependency :: "nat \<Rightarrow> block \<Rightarrow> lang_dependency reported" where
  "parse_dependency epoch b =
     bindW (check_known_fields [''from'', ''to'', ''generation''] b) (\<lambda>_.
     bindW (required_atom b ''from'') (\<lambda>frm.
     bindW (required_atom b ''to'') (\<lambda>to.
     bindW (read_or epoch parse_u64 b ''generation'') (\<lambda>generation.
     pureW \<lparr> le_from = frm, le_to = to, le_generation = generation \<rparr>))))"

definition operation_fields :: "string list" where
  "operation_fields = [''model_root'', ''package_root'', ''payload_entry'', ''source_tensor'', ''kernel'', ''quant_format'',
     ''rows'', ''columns'', ''alignment'', ''source'', ''destination'', ''require'', ''reference_tolerance'', ''fallback'',
     ''generation'']"

definition parse_operation :: "block \<Rightarrow> lang_operation reported" where
  "parse_operation b =
     bindW (check_known_fields operation_fields b) (\<lambda>_.
     bindW (required_string b ''model_root'') (\<lambda>model_root.
     bindW (required_string b ''package_root'') (\<lambda>package_root.
     bindW (required_string b ''payload_entry'') (\<lambda>payload.
     bindW (required_string b ''source_tensor'') (\<lambda>tensor.
     bindW (bindW (required_atom b ''kernel'') (parse_kernel b)) (\<lambda>kernel.
     bindW (bindW (required_atom b ''quant_format'') (parse_operation_format b)) (\<lambda>fmt.
     bindW (read_or 0 parse_u32 b ''rows'') (\<lambda>rows.
     bindW (read_or 0 parse_u32 b ''columns'') (\<lambda>columns.
     bindW (errW (rows = 0 \<or> columns = 0) ''S1063'' ''operation shape must declare positive rows and columns''
              (Some (bl_span b))) (\<lambda>_.
     bindW (errW (columns \<noteq> 0 \<and> columns mod 256 \<noteq> 0) ''S1063''
              ''operation columns must be a whole number of 256-element Q4_K super-blocks'' (Some (bl_span b))) (\<lambda>_.
     bindW (read_or 0 parse_u64 b ''alignment'') (\<lambda>alignment.
     bindW (errW (alignment = 0) ''S1068'' ''operation must declare an explicit alignment'' (Some (bl_span b))) (\<lambda>_.
     bindW (required_tier b ''source'') (\<lambda>source.
     bindW (required_tier b ''destination'') (\<lambda>destination.
     bindW (read_or 0 parse_number b ''reference_tolerance'') (\<lambda>tolerance.
     bindW (required_atom b ''fallback'') (\<lambda>fallback.
     bindW (read_or 0 parse_u64 b ''generation'') (\<lambda>generation.
     pureW \<lparr> lo_name = bl_name b, lo_model_root = model_root, lo_package_root = package_root, lo_payload_entry = payload,
       lo_source_tensor = tensor, lo_kernel = kernel, lo_quant_format = fmt, lo_rows = rows, lo_columns = columns,
       lo_alignment = alignment, lo_source_tier = source, lo_destination_tier = destination,
       lo_require_exact_checksum = (''exact_payload_checksum'' \<in> set (atoms_of b ''require'')),
       lo_reference_tolerance = tolerance, lo_fallback = fallback, lo_generation = generation \<rparr>))))))))))))))))))"

end
