(* ===== verification/Lang_Phases.thy ===== *)
theory Lang_Phases
  imports Lang_Semantics
begin

text \<open>
  \<open>check_phase_graph\<close> of \<open>har-lang-semantics/src/v0.rs\<close>: phases may only depend on phases, and the
  dependencies may not be circular.  The search is shown to find a cycle exactly when there is one.
\<close>

subsection \<open>The check\<close>

type_synonym phase_graph = "(string \<times> string list) list"

text \<open>The map from names to dependencies: of two phases of one name the last counts.\<close>

definition graph_of :: "lang_phase list \<Rightarrow> phase_graph" where
  "graph_of ps = rev (map (\<lambda>p. (lp_name p, lp_dependencies p)) ps)"

text \<open>
  \<open>visit\<close>, with the nodes on the current path in \<open>path\<close>.  The code keeps them in a set it inserts the node
  into and removes it from again; a node is only inserted where it was not in the set before, so a
  call leaves the set as it found it.
\<close>

function visit_phase :: "phase_graph \<Rightarrow> string set \<Rightarrow> string \<Rightarrow> string set \<Rightarrow> bool \<times> string set"
  and visit_phases :: "phase_graph \<Rightarrow> string set \<Rightarrow> string list \<Rightarrow> string set \<Rightarrow> bool \<times> string set" where
  "visit_phase g path n seen =
     (if n \<in> seen then (False, seen)
      else if n \<in> path then (True, seen)
      else case map_of g n of
        None \<Rightarrow> (False, insert n seen)
      | Some ds \<Rightarrow> (let (cycle, seen') = visit_phases g (insert n path) ds seen in (cycle, insert n seen')))"
| "visit_phases g path [] seen = (False, seen)"
| "visit_phases g path (d # ds) seen =
     (let (cycle, seen') = visit_phase g path d seen in if cycle then (True, seen') else visit_phases g path ds seen')"
  by pat_completeness auto
termination
proof (relation "measures [\<lambda>x. case x of Inl (g, path, n, seen) \<Rightarrow> 2 * card (fst ` set g - path)
    | Inr (g, path, ds, seen) \<Rightarrow> 2 * card (fst ` set g - path) + 1,
    \<lambda>x. case x of Inl _ \<Rightarrow> 0 | Inr (g, path, ds, seen) \<Rightarrow> length ds]")
  fix g :: phase_graph and path :: "string set" and n :: string and seen :: "string set" and ds
  assume n: "n \<notin> path" "map_of g n = Some ds"
  then have "n \<in> fst ` set g" by (metis domI dom_map_of_conv_image_fst)
  then have "fst ` set g - insert n path \<subset> fst ` set g - path" using n(1) by blast
  then have less: "card (fst ` set g - insert n path) < card (fst ` set g - path)" by (rule psubset_card_mono [rotated]) simp
  then show "(Inr (g, insert n path, ds, seen), Inl (g, path, n, seen)) \<in> measures [\<lambda>x. case x of
      Inl (g, path, n, seen) \<Rightarrow> 2 * card (fst ` set g - path) | Inr (g, path, ds, seen) \<Rightarrow> 2 * card (fst ` set g - path) + 1,
      \<lambda>x. case x of Inl _ \<Rightarrow> 0 | Inr (g, path, ds, seen) \<Rightarrow> length ds]" by simp
qed auto

fun find_cycle :: "phase_graph \<Rightarrow> string list \<Rightarrow> string set \<Rightarrow> bool" where
  "find_cycle g [] seen = False"
| "find_cycle g (n # ns) seen = (let (cycle, seen') = visit_phase g {} n seen in cycle \<or> find_cycle g ns seen')"

definition check_phase_graph :: "lang_phase list \<Rightarrow> unit reported" where
  "check_phase_graph ps =
     bindW (mapW (\<lambda>p. mapW (\<lambda>d. errW (d \<notin> lp_name ` set ps) ''S1047''
         (''phase `'' @ lp_name p @ ''` depends on missing phase `'' @ d @ ''`'') None) (lp_dependencies p)) ps) (\<lambda>_.
     errW (find_cycle (graph_of ps) (map lp_name ps) {}) ''S1048''
       ''execution phase dependency graph contains a cycle'' None)"


subsection \<open>The search is exact\<close>

declare visit_phase.simps [simp del]

definition edges :: "phase_graph \<Rightarrow> (string \<times> string) set" where
  "edges g = {(n, d). \<exists>ds. map_of g n = Some ds \<and> d \<in> set ds}"

lemma visit_finds_cycles:
  "visit_phase g path n seen = (True, seen') \<Longrightarrow> \<forall>v\<in>path. (v, n) \<in> (edges g)\<^sup>+ \<Longrightarrow> \<exists>m. (m, m) \<in> (edges g)\<^sup>+"
  "visit_phases g path ds seen = (True, seen') \<Longrightarrow> \<forall>d\<in>set ds. \<forall>v\<in>path. (v, d) \<in> (edges g)\<^sup>+ \<Longrightarrow> \<exists>m. (m, m) \<in> (edges g)\<^sup>+"
proof (induction g path n seen and g path ds seen arbitrary: seen' and seen' rule: visit_phase_visit_phases.induct)
  case (1 g path n seen)
  show ?case
  proof (cases "n \<in> path")
    case True
    then show ?thesis using "1.prems"(2) by blast
  next
    case False
    have n: "n \<notin> seen" using "1.prems"(1) by (auto simp: visit_phase.simps)
    obtain ds where ds: "map_of g n = Some ds" using "1.prems"(1) False n
      by (auto simp: visit_phase.simps split: option.splits)
    have "\<exists>s. visit_phases g (insert n path) ds seen = (True, s)"
      using "1.prems"(1) False n ds by (auto simp: visit_phase.simps split: prod.splits)
    then obtain s where s: "visit_phases g (insert n path) ds seen = (True, s)" ..
    have e: "(n, d) \<in> edges g" if "d \<in> set ds" for d using that ds by (auto simp: edges_def)
    have "\<forall>d\<in>set ds. \<forall>v\<in>insert n path. (v, d) \<in> (edges g)\<^sup>+"
    proof (intro ballI)
      fix d v assume "d \<in> set ds" "v \<in> insert n path"
      then show "(v, d) \<in> (edges g)\<^sup>+"
        using e [of d] "1.prems"(2) by (cases "v = n") (auto intro: trancl_into_trancl)
    qed
    from "1.IH" [OF n False ds s this] show ?thesis .
  qed
next
  case (3 g path d ds seen)
  obtain c s where v: "visit_phase g path d seen = (c, s)" by (cases "visit_phase g path d seen")
  show ?case
  proof (cases c)
    case True
    then show ?thesis using "3.IH"(1) v "3.prems"(2) by simp
  next
    case False
    then have "visit_phases g path ds s = (True, seen')" using "3.prems"(1) v by simp
    with "3.IH"(2) [OF v [symmetric] refl] False "3.prems"(2) show ?thesis by simp
  qed
qed simp

text \<open>The nodes from which no infinite chain of dependencies starts.\<close>

definition grounded :: "phase_graph \<Rightarrow> string set" where
  "grounded g = Wellfounded.acc ((edges g)\<inverse>)"

lemma groundedI: "(\<And>d. (n, d) \<in> edges g \<Longrightarrow> d \<in> grounded g) \<Longrightarrow> n \<in> grounded g"
  unfolding grounded_def by (rule accI) simp

lemma grounded_no_cycle: "n \<in> grounded g \<Longrightarrow> (n, n) \<notin> (edges g)\<^sup>+"
  unfolding grounded_def
proof (induction rule: acc.induct)
  case (accI n)
  show ?case
  proof
    assume "(n, n) \<in> (edges g)\<^sup>+"
    then obtain d where d: "(n, d) \<in> edges g" "(d, n) \<in> (edges g)\<^sup>*" by (blast dest: tranclD)
    then have "(d, d) \<in> (edges g)\<^sup>+" by simp
    with accI d(1) show False by blast
  qed
qed

lemma visit_grounds:
  "visit_phase g path n seen = (False, seen') \<Longrightarrow> seen \<subseteq> grounded g \<Longrightarrow> seen' \<subseteq> grounded g \<and> seen \<subseteq> seen' \<and> n \<in> seen'"
  "visit_phases g path ds seen = (False, seen') \<Longrightarrow> seen \<subseteq> grounded g \<Longrightarrow> seen' \<subseteq> grounded g \<and> seen \<subseteq> seen' \<and> set ds \<subseteq> seen'"
proof (induction g path n seen and g path ds seen arbitrary: seen' and seen' rule: visit_phase_visit_phases.induct)
  case (1 g path n seen)
  show ?case
  proof (cases "n \<in> seen")
    case True
    then show ?thesis using "1.prems" by (simp add: visit_phase.simps)
  next
    case n: False
    have path: "n \<notin> path" using "1.prems"(1) n by (auto simp: visit_phase.simps)
    show ?thesis
    proof (cases "map_of g n")
      case None
      have "n \<in> grounded g" by (rule groundedI) (use None in \<open>simp add: edges_def\<close>)
      moreover have "visit_phase g path n seen = (False, insert n seen)" using n path None by (subst visit_phase.simps) simp
      ultimately show ?thesis using "1.prems" by auto
    next
      case (Some ds)
      obtain c s where s: "visit_phases g (insert n path) ds seen = (c, s)" by (cases "visit_phases g (insert n path) ds seen")
      then have "visit_phase g path n seen = (c, insert n s)" using n path Some by (subst visit_phase.simps) simp
      then have c: "visit_phases g (insert n path) ds seen = (False, s)" "seen' = insert n s" using "1.prems"(1) s by simp_all
      from "1.IH" [OF n path Some c(1) "1.prems"(2)] have ih: "s \<subseteq> grounded g" "seen \<subseteq> s" "set ds \<subseteq> s" by auto
      have "n \<in> grounded g" by (rule groundedI) (use ih Some in \<open>auto simp: edges_def\<close>)
      then show ?thesis using ih c(2) by auto
    qed
  qed
next
  case (3 g path d ds seen)
  obtain c s where v: "visit_phase g path d seen = (c, s)" by (cases "visit_phase g path d seen")
  then have c: "\<not> c" "visit_phases g path ds s = (False, seen')" using "3.prems"(1) by (auto split: if_splits)
  then have 1: "s \<subseteq> grounded g \<and> seen \<subseteq> s \<and> d \<in> s" using "3.IH"(1) v "3.prems"(2) by simp
  with "3.IH"(2) [OF v [symmetric] refl c] show ?case by auto
qed simp

lemma find_cycle_sound: "find_cycle g ns seen \<Longrightarrow> \<exists>m. (m, m) \<in> (edges g)\<^sup>+"
proof (induction ns arbitrary: seen)
  case (Cons n ns)
  obtain c s where v: "visit_phase g {} n seen = (c, s)" by (cases "visit_phase g {} n seen")
  then show ?case using Cons visit_finds_cycles(1) [of g "{}" n seen s] by (cases c) auto
qed simp

lemma find_cycle_complete: "\<not> find_cycle g ns seen \<Longrightarrow> seen \<subseteq> grounded g \<Longrightarrow> set ns \<subseteq> grounded g"
proof (induction ns arbitrary: seen)
  case (Cons n ns)
  obtain c s where v: "visit_phase g {} n seen = (c, s)" by (cases "visit_phase g {} n seen")
  then have c: "\<not> c" "\<not> find_cycle g ns s" using Cons.prems(1) by auto
  with v visit_grounds(1) [of g "{}" n seen s] Cons.prems(2) have "s \<subseteq> grounded g" "n \<in> s" by auto
  with Cons.IH [OF c(2)] show ?case by auto
qed simp

text \<open>The relation the declarations stand for, the last declaration of a name counting.\<close>

definition phase_depends :: "lang_phase list \<Rightarrow> (string \<times> string) set" where
  "phase_depends ps = edges (graph_of ps)"

lemma find_cycle_exact: "find_cycle (graph_of ps) (map lp_name ps) {} \<longleftrightarrow> (\<exists>n. (n, n) \<in> (phase_depends ps)\<^sup>+)"
proof
  show "find_cycle (graph_of ps) (map lp_name ps) {} \<Longrightarrow> \<exists>n. (n, n) \<in> (phase_depends ps)\<^sup>+"
    unfolding phase_depends_def by (rule find_cycle_sound)
  assume "\<exists>n. (n, n) \<in> (phase_depends ps)\<^sup>+"
  then obtain n where n: "(n, n) \<in> (phase_depends ps)\<^sup>+" ..
  then obtain d where "(n, d) \<in> phase_depends ps" by (blast dest: tranclD)
  then have "map_of (graph_of ps) n \<noteq> None" by (auto simp: phase_depends_def edges_def)
  then have "n \<in> fst ` set (graph_of ps)" by (metis map_of_eq_None_iff)
  then have "n \<in> lp_name ` set ps" by (force simp: graph_of_def)
  with n show "find_cycle (graph_of ps) (map lp_name ps) {}"
    using find_cycle_complete [of "graph_of ps" "map lp_name ps" "{}"] grounded_no_cycle
    by (auto simp: phase_depends_def)
qed

lemma depends_distinct:
  assumes "distinct (map lp_name ps)"
  shows "phase_depends ps = {(lp_name p, d) | p d. p \<in> set ps \<and> d \<in> set (lp_dependencies p)}"
proof -
  have "distinct (map fst (graph_of ps))" using assms by (simp add: graph_of_def comp_def flip: rev_map)
  then have "map_of (graph_of ps) n = Some ds \<longleftrightarrow> (n, ds) \<in> set (graph_of ps)" for n ds by simp
  then show ?thesis by (fastforce simp: phase_depends_def edges_def graph_of_def)
qed

text \<open>
  C29: the check reports nothing if and only if every phase depends on declared phases
  only and no phase depends on itself, directly or through others.
\<close>

theorem phase_graph_exact:
  "snd (check_phase_graph ps) = [] \<longleftrightarrow>
     (\<Union>p\<in>set ps. set (lp_dependencies p)) \<subseteq> lp_name ` set ps \<and> acyclic (phase_depends ps)"
proof -
  have nil: "snd (mapW f xs) = [] \<longleftrightarrow> (\<forall>x\<in>set xs. snd (f x) = [])" for f :: "'a \<Rightarrow> 'b reported" and xs
    by (induction xs) (auto simp: bindW_def pureW_def split_beta)
  have "snd (check_phase_graph ps) = [] \<longleftrightarrow> (\<forall>p\<in>set ps. \<forall>d\<in>set (lp_dependencies p). d \<in> lp_name ` set ps)
      \<and> \<not> find_cycle (graph_of ps) (map lp_name ps) {}"
    by (simp add: check_phase_graph_def bindW_def nil errW_def split_beta)
  then show ?thesis unfolding find_cycle_exact acyclic_def by blast
qed

end
