(* ===== verification/Lang_Analyze.thy ===== *)
theory Lang_Analyze
  imports Lang_Phases
begin

text \<open>
  \<open>analyze\<close> and \<open>check_cross_constraints\<close> of \<open>har-lang-semantics/src/v0.rs\<close>, and what holds of every
  program they accept.
\<close>

subsection \<open>Constraints between declarations\<close>

definition tensor_vram :: "lang_tensor list \<Rightarrow> nat" where
  "tensor_vram ts = fold (\<lambda>t n. wadd64 n (ln_required_vram_bytes t)) ts 0"

definition total_vram :: "lang_decode \<Rightarrow> lang_tensor list \<Rightarrow> nat" where
  "total_vram d ts = sat_add64 (tensor_vram ts) (lc_vram_bytes (ld_cost d))"

definition check_epochs :: "lang_model \<Rightarrow> lang_decode \<Rightarrow> lang_tensor list \<Rightarrow> unit reported" where
  "check_epochs m d ts = (case ld_required_epoch d of
     None \<Rightarrow> pureW ()
   | Some e \<Rightarrow>
       bindW (errW (e \<noteq> lm_epoch m) ''S1053'' (''stale epoch: decode requires '' @ dec_digits e
                @ '' but model identity is '' @ dec_digits (lm_epoch m)) None) (\<lambda>_.
       bindW (mapW (\<lambda>t. errW (ln_generation t \<noteq> 0 \<and> ln_generation t \<noteq> e) ''S1055''
                (''stale generation: tensor `'' @ ln_name t @ ''` has generation '' @ dec_digits (ln_generation t)
                 @ '' but the decode epoch is '' @ dec_digits e) None) ts) (\<lambda>_. pureW ())))"

definition check_roots :: "lang_model \<Rightarrow> lang_decode \<Rightarrow> lang_tensor list \<Rightarrow> unit reported" where
  "check_roots m d ts =
     bindW (mapW (\<lambda>t. errW (ln_model_root t \<noteq> [] \<and> ln_model_root t \<noteq> lm_model_sha256 m) ''S1057''
              (''model-root mismatch: tensor `'' @ ln_name t @ ''` roots to '' @ ln_model_root t
               @ '' but model identity is '' @ lm_model_sha256 m) None) ts) (\<lambda>_.
     errW (ld_requires_model d \<noteq> [] \<and> ld_requires_model d \<noteq> lm_model_sha256 m) ''S1057''
       (''model-root mismatch: decode requires '' @ ld_requires_model d @ '' but model identity is '' @ lm_model_sha256 m) None)"

definition check_cross_constraints ::
  "lang_target \<Rightarrow> lang_model \<Rightarrow> lang_quality \<Rightarrow> lang_decode \<Rightarrow> lang_tensor list \<Rightarrow> unit reported" where
  "check_cross_constraints t m q d ts =
     bindW (errW (lt_gpu t = [] \<or> lt_wave t = 0 \<or> lt_gpu_arch t = []) ''S1058''
              ''physical plan requires a hardware identity: target must declare gpu, gpu_arch, and wave'' None) (\<lambda>_.
     bindW (errW (lt_vram_budget_bytes t = 0 \<or> lt_host_ram_budget_bytes t = 0) ''S1049''
              ''target is missing hard budgets (vram_budget and host_ram_budget)'' None) (\<lambda>_.
     bindW (errW (lt_vram_budget_bytes t < total_vram d ts) ''S1050''
              (''hard VRAM capacity exceeded: required '' @ dec_digits (total_vram d ts) @ '' bytes > budget ''
               @ dec_digits (lt_vram_budget_bytes t) @ '' bytes'') None) (\<lambda>_.
     bindW (errW (lq_exact q \<and> \<not> lq_fallback_required q) ''S1051''
              ''approximation cannot satisfy exact authority without fallback'' None) (\<lambda>_.
     bindW (errW (lq_exact q \<and> (\<exists>t\<in>set ts. ln_authority t = AuthApproximate) \<and> \<not> lq_fallback_required q) ''S1052''
              ''approximate tensor flow cannot terminate at exact authority without fallback'' None) (\<lambda>_.
     bindW (check_epochs m d ts) (\<lambda>_. check_roots m d ts))))))"

subsection \<open>The analysis\<close>

text \<open>Reading the declarations of one kind, of which no two may have the same name.\<close>

fun named :: "string \<Rightarrow> string \<Rightarrow> (block \<Rightarrow> 'a reported) \<Rightarrow> string set \<Rightarrow> block list \<Rightarrow> 'a list reported" where
  "named code what reader seen [] = pureW []"
| "named code what reader seen (b # bs) =
     bindW (errW (bl_name b \<in> seen) code (''duplicate '' @ what @ '' `'' @ bl_name b @ ''`'') (Some (bl_span b))) (\<lambda>_.
     bindW (reader b) (\<lambda>x.
     bindW (named code what reader (insert (bl_name b) seen) bs) (\<lambda>xs. pureW (x # xs))))"

definition exactly_one :: "string \<Rightarrow> string \<Rightarrow> block list \<Rightarrow> unit reported" where
  "exactly_one code what bs = errW (length bs \<noteq> 1) code (''HAR V0 requires exactly one '' @ what @ '' declaration'')
     (case bs of [] \<Rightarrow> None | b # _ \<Rightarrow> Some (bl_span b))"

definition first_or :: "'a \<Rightarrow> (block \<Rightarrow> 'a reported) \<Rightarrow> block list \<Rightarrow> 'a reported" where
  "first_or d reader bs = (case bs of [] \<Rightarrow> pureW d | b # _ \<Rightarrow> reader b)"

definition missing_target :: lang_target where
  "missing_target = \<lparr> lt_name = ''missing'', lt_gpu = [], lt_gpu_arch = [], lt_wave = 0, lt_vram_budget_bytes = 0,
     lt_host_ram_budget_bytes = 0, lt_storage = LDirectNvme, lt_capabilities = [] \<rparr>"

definition missing_model :: lang_model where
  "missing_model = \<lparr> lm_name = ''missing'', lm_identity = [], lm_model_sha256 = [], lm_build_hash = [], lm_config_hash = [],
     lm_epoch = 0, lm_size_gib = 0, lm_context_length = 0, lm_batch = 0, lm_kv_cache_type = [], lm_nextn_predict_layers = 0 \<rparr>"

definition missing_quality :: lang_quality where
  "missing_quality = \<lparr> lq_name = ''missing'', lq_authority = [], lq_exact = False, lq_fallback_required = False \<rparr>"

definition missing_decode :: lang_decode where
  "missing_decode = \<lparr> ld_name = ''missing'', ld_min_horizon = 0, ld_max_horizon = 0, ld_objective = [],
     ld_require_exact_acceptance = False, ld_sampling_location = [], ld_sampling_policy = [], ld_placement = [],
     ld_gpu_layers = 0, ld_gpu_layers_total = 0, ld_topology_matched = False, ld_requires_model = [], ld_fallback = [],
     ld_required_epoch = None, ld_cost = \<lparr> lc_required_nvme_bytes = 0, lc_ram_to_vram_bytes = 0, lc_vram_bytes = 0,
       lc_verification_compute = 0, lc_queue_slots = 0 \<rparr> \<rparr>"

text \<open>A logical tier stands for its hot placement; any other name must be physical.\<close>

definition resolve_tier :: "lang_tier_spec list \<Rightarrow> lang_tensor \<Rightarrow> lang_tensor reported" where
  "resolve_tier tiers t = (case find (\<lambda>r. lr_name r = ln_tier_name t) tiers of
     Some r \<Rightarrow> pureW (t\<lparr> ln_tier := lr_hot r \<rparr>)
   | None \<Rightarrow> bindW (errW (ln_tier_name t \<notin> set physical_tiers) ''S1054''
       (''tensor `'' @ ln_name t @ ''` references missing logical tier `'' @ ln_tier_name t @ ''`'') None) (\<lambda>_. pureW t))"

definition phase_dependencies :: "nat \<Rightarrow> lang_phase list \<Rightarrow> lang_dependency list" where
  "phase_dependencies epoch ps = concat (map (\<lambda>p. map (\<lambda>d. \<lparr> le_from = lp_name p, le_to = d, le_generation = epoch \<rparr>)
     (lp_dependencies p)) ps)"

definition declaration_kinds :: "string list" where
  "declaration_kinds = [''target'', ''model'', ''quality'', ''decode'', ''tensor'', ''tier'', ''phase'', ''telemetry'',
     ''budget'', ''dependency'', ''fact'', ''operation'']"

definition check_kind :: "block \<Rightarrow> unit reported" where
  "check_kind b = errW (bl_kind b \<notin> set declaration_kinds) ''S1018''
     (''unsupported declaration kind `'' @ bl_kind b @ ''`'') (Some (bl_span b))"

definition analyzeW :: "program \<Rightarrow> typed_program reported" where
  "analyzeW p =
     bindW (exactly_one ''S1001'' ''target'' (blocks_of p ''target'')) (\<lambda>_.
     bindW (exactly_one ''S1002'' ''model'' (blocks_of p ''model'')) (\<lambda>_.
     bindW (exactly_one ''S1003'' ''quality'' (blocks_of p ''quality'')) (\<lambda>_.
     bindW (exactly_one ''S1004'' ''decode'' (blocks_of p ''decode'')) (\<lambda>_.
     bindW (first_or missing_target parse_target (blocks_of p ''target'')) (\<lambda>target.
     bindW (first_or missing_model parse_model (blocks_of p ''model'')) (\<lambda>model.
     bindW (first_or missing_quality parse_quality (blocks_of p ''quality'')) (\<lambda>quality.
     bindW (first_or missing_decode parse_decode (blocks_of p ''decode'')) (\<lambda>decode.
     bindW (named ''S1005'' ''tensor'' parse_tensor {} (blocks_of p ''tensor'')) (\<lambda>raw.
     bindW (named ''S1006'' ''tier'' parse_tier_decl {} (blocks_of p ''tier'')) (\<lambda>tiers.
     bindW (mapW (resolve_tier tiers) raw) (\<lambda>tensors.
     bindW (named ''S1007'' ''phase'' parse_phase {} (blocks_of p ''phase'')) (\<lambda>phases.
     bindW (mapW (parse_dependency (lm_epoch model)) (blocks_of p ''dependency'')) (\<lambda>declared.
     bindW (check_phase_graph phases) (\<lambda>_.
     bindW (mapW parse_telemetry (blocks_of p ''telemetry'')) (\<lambda>telemetry.
     bindW (errW (telemetry = []) ''S1017'' ''decode programs must declare telemetry requirements''
              (case blocks_of p ''decode'' of [] \<Rightarrow> None | b # _ \<Rightarrow> Some (bl_span b))) (\<lambda>_.
     bindW (mapW (check_known_fields [''vram'', ''host_ram'', ''nvme'', ''epoch'']) (blocks_of p ''budget'')) (\<lambda>_.
     bindW (named ''S1062'' ''fact'' parse_fact {} (blocks_of p ''fact'')) (\<lambda>facts.
     bindW (named ''S1074'' ''operation'' parse_operation {} (blocks_of p ''operation'')) (\<lambda>operations.
     bindW (mapW check_kind (pg_declarations p)) (\<lambda>_.
     bindW (check_cross_constraints target model quality decode tensors) (\<lambda>_.
     pureW \<lparr> tp_target = target, tp_model = model, tp_tensors = tensors, tp_tiers = tiers, tp_quality = quality,
       tp_decode = decode, tp_phases = phases, tp_dependencies = phase_dependencies (lm_epoch model) phases @ declared,
       tp_telemetry = telemetry, tp_facts = facts, tp_operations = operations \<rparr>)))))))))))))))))))))"

definition analyze :: "program \<Rightarrow> diagnostic list + typed_program" where
  "analyze p = diag_result (fst (analyzeW p)) (snd (analyzeW p))"

lemma analyze_accepts: "analyze p = Inr t \<longleftrightarrow> cleanW (analyzeW p) \<and> t = fst (analyzeW p)"
  by (auto simp: analyze_def diag_result_def cleanW_def)

subsection \<open>What each declaration guarantees\<close>

lemma parse_u64_less: "fst (parse_u64 key b v) < 2 ^ 64"
  using cast_u64_less by (simp add: parse_u64_def)

lemma quantity_less: "fst (parse_quantity key b v) < 2 ^ 64"
  using cast_u64_less by (auto simp: parse_quantity_def quantity_bytes_def split: har_value.splits option.splits real64.splits)

lemma read_or_quantity_less: "fst (read_or 0 parse_quantity b key) < 2 ^ 64"
  using quantity_less by (simp add: read_or_def split: option.splits)

definition decode_ok :: "lang_decode \<Rightarrow> bool" where
  "decode_ok d \<longleftrightarrow> ld_min_horizon d \<le> ld_max_horizon d \<and> ld_max_horizon d \<le> 3 \<and> ld_require_exact_acceptance d
     \<and> ld_objective d \<in> {''accepted_tokens_per_complete_cost'', ''expected_accepted_tokens_per_complete_cost''}
     \<and> ld_sampling_location d \<in> {''cpu'', ''vulkan'', ''backend''}
     \<and> ld_placement d \<in> {''natural'', ''topology_matched''}
     \<and> (ld_gpu_layers_total d = 0 \<or> ld_gpu_layers d \<le> ld_gpu_layers_total d)
     \<and> ld_fallback d \<in> {''depth_zero'', ''exact_target'', ''required''}"

lemma parse_sampling_location: "fst (fst (parse_sampling b s)) \<in> {''cpu'', ''vulkan'', ''backend''}"
  by (simp add: parse_sampling_def)

lemma parse_decode_ok:
  assumes "cleanW (parse_decode b)"
  shows "decode_ok (fst (parse_decode b)) \<and> (\<forall>f\<in>set (bl_fields b). \<not> timing_key (fd_key f) \<and> fd_key f \<in> set decode_fields)"
  using assms parse_sampling_location [of b "fst (required_atom b ''sampling'')"]
  by (simp add: parse_decode_def decode_ok_def Let_def split_beta check_known_fields_def not_less)

definition model_ok :: "lang_model \<Rightarrow> bool" where
  "model_ok m \<longleftrightarrow> lm_identity m \<noteq> [] \<and> hash_ok ''model_sha256'' (lm_model_sha256 m) \<and> hash_ok ''build_hash'' (lm_build_hash m)
     \<and> hash_ok ''config_hash'' (lm_config_hash m) \<and> lm_kv_cache_type m \<in> {[], ''q8_0'', ''f16''}"

lemma required_string_nonempty: "cleanW (required_string b key) \<Longrightarrow> fst (required_string b key) \<noteq> []"
  by (simp add: required_string_def Let_def split: if_splits)

lemma parse_model_ok: "cleanW (parse_model b) \<Longrightarrow> model_ok (fst (parse_model b))"
  using required_string_nonempty [of b "''identity''"]
  by (simp add: parse_model_def model_ok_def Let_def check_hash_def)

lemma parse_quality_ok: "cleanW (parse_quality b) \<Longrightarrow> lq_exact (fst (parse_quality b)) \<longrightarrow> lq_fallback_required (fst (parse_quality b))"
  by (auto simp: parse_quality_def Let_def)

definition operation_ok :: "lang_operation \<Rightarrow> bool" where
  "operation_ok x \<longleftrightarrow> lo_model_root x \<noteq> [] \<and> lo_package_root x \<noteq> [] \<and> lo_payload_entry x \<noteq> [] \<and> lo_source_tensor x \<noteq> []
     \<and> 0 < lo_rows x \<and> 0 < lo_columns x \<and> 256 dvd lo_columns x \<and> 0 < lo_alignment x"

lemma parse_operation_ok: "cleanW (parse_operation b) \<Longrightarrow> operation_ok (fst (parse_operation b))"
  using required_string_nonempty [of b]
  by (auto simp: parse_operation_def operation_ok_def Let_def mod_eq_0_iff_dvd)

lemma parse_telemetry_ok: "cleanW (parse_telemetry b) \<Longrightarrow> ly_requirements (fst (parse_telemetry b)) \<noteq> []"
  by (simp add: parse_telemetry_def Let_def)

subsection \<open>Names\<close>

lemma named_reads: "fst (named code what reader seen bs) = map (\<lambda>b. fst (reader b)) bs"
  by (induction bs arbitrary: seen) auto

lemma named_clean:
  "cleanW (named code what reader seen bs) \<longleftrightarrow>
     (\<forall>b\<in>set bs. cleanW (reader b)) \<and> distinct (map bl_name bs) \<and> bl_name ` set bs \<inter> seen = {}"
  by (induction bs arbitrary: seen) auto

lemma reader_names [simp]:
  "ln_name (fst (parse_tensor b)) = bl_name b" "lr_name (fst (parse_tier_decl b)) = bl_name b"
  "lp_name (fst (parse_phase b)) = bl_name b" "lf_name (fst (parse_fact b)) = bl_name b"
  "lo_name (fst (parse_operation b)) = bl_name b"
  by (simp_all add: parse_tensor_def parse_tier_decl_def parse_phase_def parse_fact_def parse_operation_def Let_def)

lemma resolve_tier_name [simp]: "ln_name (fst (resolve_tier tiers t)) = ln_name t"
  "ln_tier_name (fst (resolve_tier tiers t)) = ln_tier_name t"
  by (simp_all add: resolve_tier_def split: option.splits)

lemma distinct_named:
  assumes "cleanW (named code what reader seen bs)" "\<And>b. nm (fst (reader b)) = bl_name b"
  shows "distinct (map nm (fst (named code what reader seen bs)))"
  using assms by (simp add: named_reads named_clean comp_def)

text \<open>Where a tensor lives: at its logical tier's hot placement, or at the physical tier it names.\<close>

definition tensor_placed :: "lang_tier_spec list \<Rightarrow> lang_tensor \<Rightarrow> bool" where
  "tensor_placed tiers t \<longleftrightarrow>
     (\<exists>r\<in>set tiers. lr_name r = ln_tier_name t \<and> ln_tier t = lr_hot r) \<or> ln_tier_name t \<in> set physical_tiers"

lemma resolve_tier_placed: "cleanW (resolve_tier tiers t) \<Longrightarrow> tensor_placed tiers (fst (resolve_tier tiers t))"
proof (cases "find (\<lambda>r. lr_name r = ln_tier_name t) tiers")
  case (Some r)
  then have "r \<in> set tiers" "lr_name r = ln_tier_name t" by (auto simp: find_Some_iff)
  then show ?thesis using Some by (auto simp: resolve_tier_def tensor_placed_def)
qed (simp add: resolve_tier_def tensor_placed_def)

subsection \<open>Accepted programs\<close>

definition typed_ok :: "typed_program \<Rightarrow> bool" where
  "typed_ok p \<longleftrightarrow>
     lt_gpu (tp_target p) \<noteq> [] \<and> lt_gpu_arch (tp_target p) \<noteq> [] \<and> 0 < lt_wave (tp_target p)
     \<and> 0 < lt_vram_budget_bytes (tp_target p) \<and> 0 < lt_host_ram_budget_bytes (tp_target p)
     \<and> total_vram (tp_decode p) (tp_tensors p) \<le> lt_vram_budget_bytes (tp_target p)
     \<and> model_ok (tp_model p) \<and> decode_ok (tp_decode p)
     \<and> (lq_exact (tp_quality p) \<longrightarrow> lq_fallback_required (tp_quality p))
     \<and> (\<forall>e. ld_required_epoch (tp_decode p) = Some e \<longrightarrow>
          e = lm_epoch (tp_model p) \<and> (\<forall>t\<in>set (tp_tensors p). ln_generation t \<in> {0, e}))
     \<and> (\<forall>r\<in>set (ld_requires_model (tp_decode p) # map ln_model_root (tp_tensors p)). r \<in> {[], lm_model_sha256 (tp_model p)})
     \<and> (\<forall>t\<in>set (tp_tensors p). tensor_placed (tp_tiers p) t)
     \<and> (\<Union>q\<in>set (tp_phases p). set (lp_dependencies q)) \<subseteq> lp_name ` set (tp_phases p) \<and> acyclic (phase_depends (tp_phases p))
     \<and> tp_telemetry p \<noteq> [] \<and> (\<forall>y\<in>set (tp_telemetry p). ly_requirements y \<noteq> [])
     \<and> (\<forall>x\<in>set (tp_operations p). operation_ok x)
     \<and> distinct (map ln_name (tp_tensors p)) \<and> distinct (map lr_name (tp_tiers p)) \<and> distinct (map lp_name (tp_phases p))
     \<and> distinct (map lf_name (tp_facts p)) \<and> distinct (map lo_name (tp_operations p))"

lemma cross_constraints_ok:
  assumes "cleanW (check_cross_constraints t m q d ts)"
  shows "lt_gpu t \<noteq> [] \<and> lt_gpu_arch t \<noteq> [] \<and> 0 < lt_wave t \<and> 0 < lt_vram_budget_bytes t \<and> 0 < lt_host_ram_budget_bytes t
     \<and> total_vram d ts \<le> lt_vram_budget_bytes t"
    and "ld_required_epoch d = Some e \<Longrightarrow> e = lm_epoch m \<and> (\<forall>x\<in>set ts. ln_generation x \<in> {0, e})"
    and "\<forall>r\<in>set (ld_requires_model d # map ln_model_root ts). r \<in> {[], lm_model_sha256 m}"
proof -
  note clean = assms [unfolded check_cross_constraints_def, simplified]
  show "lt_gpu t \<noteq> [] \<and> lt_gpu_arch t \<noteq> [] \<and> 0 < lt_wave t \<and> 0 < lt_vram_budget_bytes t \<and> 0 < lt_host_ram_budget_bytes t
     \<and> total_vram d ts \<le> lt_vram_budget_bytes t"
    using clean by auto
  have "cleanW (check_epochs m d ts)" "cleanW (check_roots m d ts)" using clean by blast+
  then show "ld_required_epoch d = Some e \<Longrightarrow> e = lm_epoch m \<and> (\<forall>x\<in>set ts. ln_generation x \<in> {0, e})"
    and "\<forall>r\<in>set (ld_requires_model d # map ln_model_root ts). r \<in> {[], lm_model_sha256 m}"
    by (auto simp: check_epochs_def check_roots_def)
qed

lemma phase_graph_clean:
  assumes "cleanW (check_phase_graph ps)"
  shows "(\<Union>q\<in>set ps. set (lp_dependencies q)) \<subseteq> lp_name ` set ps \<and> acyclic (phase_depends ps)"
  using assms
  by (simp add: check_phase_graph_def find_cycle_exact acyclic_def) blast

lemma exactly_one_single: "cleanW (exactly_one code what bs) \<Longrightarrow> \<exists>b. bs = [b]"
  by (cases bs) (auto simp: exactly_one_def)

lemma accepted_program_ok:
  assumes "analyze p = Inr t"
  shows "typed_ok t \<and> (\<forall>k\<in>{''target'', ''model'', ''quality'', ''decode''}. length (blocks_of p k) = 1)
    \<and> (\<forall>b\<in>set (pg_declarations p). bl_kind b \<in> set declaration_kinds)"
proof -
  from assms have clean: "cleanW (analyzeW p)" and t: "t = fst (analyzeW p)" by (auto simp: analyze_accepts)
  note c = clean [unfolded analyzeW_def, simplified]
  have one: "cleanW (exactly_one ''S1001'' ''target'' (blocks_of p ''target''))
      \<and> cleanW (exactly_one ''S1002'' ''model'' (blocks_of p ''model''))
      \<and> cleanW (exactly_one ''S1003'' ''quality'' (blocks_of p ''quality''))
      \<and> cleanW (exactly_one ''S1004'' ''decode'' (blocks_of p ''decode''))"
    using c by simp
  obtain bt where bt: "blocks_of p ''target'' = [bt]" using one exactly_one_single by blast
  obtain bm where bm: "blocks_of p ''model'' = [bm]" using one exactly_one_single by blast
  obtain bq where bq: "blocks_of p ''quality'' = [bq]" using one exactly_one_single by blast
  obtain bd where bd: "blocks_of p ''decode'' = [bd]" using one exactly_one_single by blast
  have kinds: "\<forall>b\<in>set (pg_declarations p). bl_kind b \<in> set declaration_kinds"
  proof -
    have "\<forall>b\<in>set (pg_declarations p). cleanW (check_kind b)" using c by simp
    then show ?thesis unfolding check_kind_def cleanW_simps not_not .
  qed
  note blocks = bt bm bq bd first_or_def
  note parts = t [unfolded analyzeW_def, simplified]
  have "decode_ok (tp_decode t)" using c parse_decode_ok [of bd] by (simp add: parts blocks)
  moreover have "model_ok (tp_model t)" using c parse_model_ok [of bm] by (simp add: parts blocks)
  moreover have "lq_exact (tp_quality t) \<longrightarrow> lq_fallback_required (tp_quality t)"
    using c parse_quality_ok [of bq] by (simp add: parts blocks)
  moreover have cross: "cleanW (check_cross_constraints (tp_target t) (tp_model t) (tp_quality t) (tp_decode t) (tp_tensors t))"
    using c by (simp add: parts)
  moreover have "\<forall>x\<in>set (tp_tensors t). tensor_placed (tp_tiers t) x"
    using c resolve_tier_placed by (auto simp: parts)
  moreover have "cleanW (check_phase_graph (tp_phases t))" using c by (simp add: parts)
  moreover have "tp_telemetry t \<noteq> [] \<and> (\<forall>y\<in>set (tp_telemetry t). ly_requirements y \<noteq> [])"
    using c parse_telemetry_ok by (auto simp: parts)
  moreover have "\<forall>x\<in>set (tp_operations t). operation_ok x"
    using c parse_operation_ok by (auto simp: parts named_reads named_clean)
  moreover have "distinct (map ln_name (tp_tensors t))" "distinct (map lr_name (tp_tiers t))" "distinct (map lp_name (tp_phases t))"
      "distinct (map lf_name (tp_facts t))" "distinct (map lo_name (tp_operations t))"
    using c by (simp_all add: parts named_reads named_clean comp_def)
  ultimately have "typed_ok t"
    using cross_constraints_ok [OF cross] phase_graph_clean [of "tp_phases t"] unfolding typed_ok_def by blast
  then show ?thesis using kinds by (simp add: bt bm bq bd)
qed

lemmas accepted_typed_ok = accepted_program_ok [THEN conjunct1]

text \<open>
  C9: a program the analyser accepts declares exactly one target, model, quality
  and decode policy and nothing of an unknown kind, and what it was read as is well formed: hardware and
  budgets present, hashes of their length, horizon ordered and at most three, an exact policy with a
  fallback, every tensor placed, epochs and model roots matching, phases declared and acyclic, names
  distinct, and the summed requirement of VRAM, as the code sums it, within the budget.
\<close>

theorem analysis_is_fail_closed:
  assumes "analyze p = Inr t"
  shows "typed_ok t \<and> (\<forall>k\<in>{''target'', ''model'', ''quality'', ''decode''}. length (blocks_of p k) = 1)
    \<and> (\<forall>b\<in>set (pg_declarations p). bl_kind b \<in> set declaration_kinds)"
  using accepted_program_ok [OF assms] .

end
