(* ===== verification/Decode_Control.thy ===== *)
theory Decode_Control
  imports Float64
begin

text \<open>
  \<open>har-decode-control/src/language.rs\<close>: the immutable decode plan, whose constructors refuse what must not
  run, and the choice of how many tokens to speculate.
\<close>

subsection \<open>Plans\<close>

datatype plan_tier = PDirectNvme | PRamMapped | PPinnedRam | PVram | PVramSlot | PScratch

datatype sampling_location = SampleCpu | SampleVulkan | SampleBackend

datatype fallback_policy = FallDepthZero | FallExactTarget | FallRequired

datatype horizon_mode = HorizonFixed | HorizonElastic | HorizonFailSafe

datatype decode_objective = AcceptedTokensPerCompleteCost

record plan_identity =
  pi_model_sha256 :: string
  pi_build_hash :: string
  pi_config_hash :: string
  pi_epoch :: nat

record resource_cost =
  rc_required_nvme_bytes :: nat
  rc_ram_to_vram_bytes :: nat
  rc_vram_bytes :: nat
  rc_verification_compute :: real64
  rc_queue_slots :: nat

definition zero_cost :: resource_cost where
  "zero_cost = \<lparr> rc_required_nvme_bytes = 0, rc_ram_to_vram_bytes = 0, rc_vram_bytes = 0,
     rc_verification_compute = Finite 0, rc_queue_slots = 0 \<rparr>"

definition complete_scalar :: "resource_cost \<Rightarrow> real64" where
  "complete_scalar c = plus64 (plus64 (plus64 (plus64 (of_u64 (rc_required_nvme_bytes c)) (of_u64 (rc_ram_to_vram_bytes c)))
     (of_u64 (rc_vram_bytes c))) (rc_verification_compute c)) (of_u64 (rc_queue_slots c))"

record expert_union =
  eu_expert_ids :: "nat list"
  eu_union_bytes :: nat
  eu_resident_overlap_bytes :: nat

definition expert_union_new :: "nat list \<Rightarrow> nat \<Rightarrow> nat \<Rightarrow> expert_union option" where
  "expert_union_new ids bytes overlap =
     (if overlap \<le> bytes then Some \<lparr> eu_expert_ids = ids, eu_union_bytes = bytes, eu_resident_overlap_bytes = overlap \<rparr> else None)"

record resource_slack =
  sl_snapshot_id :: string
  sl_available_nvme_bytes :: nat
  sl_available_ram_to_vram_bytes :: nat
  sl_available_vram_bytes :: nat
  sl_available_queue_slots :: nat

definition can_cover :: "resource_slack \<Rightarrow> resource_cost \<Rightarrow> bool" where
  "can_cover s c \<longleftrightarrow> rc_required_nvme_bytes c \<le> sl_available_nvme_bytes s
     \<and> rc_ram_to_vram_bytes c \<le> sl_available_ram_to_vram_bytes s
     \<and> rc_vram_bytes c \<le> sl_available_vram_bytes s \<and> rc_queue_slots c \<le> sl_available_queue_slots s"

record decode_policy =
  dp_name :: string
  dp_min_horizon :: nat
  dp_max_horizon :: nat
  dp_mode :: horizon_mode
  dp_objective :: decode_objective
  dp_require_exact_acceptance :: bool
  dp_sampling_location :: sampling_location
  dp_fallback :: fallback_policy
  dp_required_epoch :: "nat option"
  dp_base_cost :: resource_cost

definition decode_policy_new ::
  "string \<Rightarrow> nat \<Rightarrow> nat \<Rightarrow> decode_objective \<Rightarrow> bool \<Rightarrow> sampling_location \<Rightarrow> fallback_policy \<Rightarrow> nat option \<Rightarrow> resource_cost
     \<Rightarrow> decode_policy option" where
  "decode_policy_new name low high objective exact sampling fallback epoch cost =
     (if low \<le> high \<and> high \<le> 3 \<and> exact
      then Some \<lparr> dp_name = name, dp_min_horizon = low, dp_max_horizon = high,
        dp_mode = (if low = high then HorizonFixed else HorizonElastic), dp_objective = objective,
        dp_require_exact_acceptance = exact, dp_sampling_location = sampling, dp_fallback = fallback,
        dp_required_epoch = epoch, dp_base_cost = cost \<rparr>
      else None)"

record telemetry_requirements =
  tr_requirements :: "string list"

definition telemetry_requirements_new :: "string list \<Rightarrow> telemetry_requirements option" where
  "telemetry_requirements_new rs = (if rs \<noteq> [] then Some \<lparr> tr_requirements = rs \<rparr> else None)"

record decode_plan =
  pl_identity :: plan_identity
  pl_required_memory_tiers :: "plan_tier list"
  pl_decode :: decode_policy
  pl_telemetry :: telemetry_requirements
  pl_exact_authority :: string
  pl_target_vram_budget_bytes :: nat
  pl_target_host_ram_budget_bytes :: nat

definition decode_plan_new ::
  "plan_identity \<Rightarrow> plan_tier list \<Rightarrow> decode_policy \<Rightarrow> telemetry_requirements \<Rightarrow> string \<Rightarrow> nat \<Rightarrow> nat \<Rightarrow> decode_plan option" where
  "decode_plan_new ident tiers decode telemetry authority vram host =
     (if 0 < vram \<and> 0 < host \<and> tiers \<noteq> []
      then Some \<lparr> pl_identity = ident, pl_required_memory_tiers = tiers, pl_decode = decode, pl_telemetry = telemetry,
        pl_exact_authority = authority, pl_target_vram_budget_bytes = vram, pl_target_host_ram_budget_bytes = host \<rparr>
      else None)"

subsection \<open>Choosing the horizon\<close>

record horizon_input =
  hi_candidate_horizon :: nat
  hi_mathematical_permission :: bool
  hi_predicted_acceptance :: real64
  hi_recent_acceptance :: real64
  hi_costs_by_depth :: "resource_cost list"
  hi_resource_slack :: "resource_slack option"
  hi_queue_backlog :: nat

record horizon_decision =
  hd_depth :: nat
  hd_predicted_acceptance :: real64
  hd_expected_accepted_tokens :: real64
  hd_incremental_cost :: real64
  hd_fail_safe :: bool

definition zero_decision :: "horizon_input \<Rightarrow> horizon_decision" where
  "zero_decision inp = \<lparr> hd_depth = 0, hd_predicted_acceptance = hi_predicted_acceptance inp,
     hd_expected_accepted_tokens = Finite 0, hd_incremental_cost = Finite 0, hd_fail_safe = True \<rparr>"

definition decision_at :: "horizon_input \<Rightarrow> nat \<Rightarrow> resource_cost \<Rightarrow> horizon_decision" where
  "decision_at inp depth c = \<lparr> hd_depth = depth, hd_predicted_acceptance = hi_predicted_acceptance inp,
     hd_expected_accepted_tokens = times64 (of_u64 depth) (hi_predicted_acceptance inp),
     hd_incremental_cost = complete_scalar c, hd_fail_safe = False \<rparr>"

definition cost_at :: "horizon_input \<Rightarrow> nat \<Rightarrow> resource_cost option" where
  "cost_at inp depth = (let cs = hi_costs_by_depth inp in if depth < length cs then Some (cs ! depth) else None)"

definition slack_covers :: "horizon_input \<Rightarrow> resource_cost \<Rightarrow> bool" where
  "slack_covers inp c \<longleftrightarrow> (case hi_resource_slack inp of None \<Rightarrow> True | Some s \<Rightarrow> can_cover s c)"

definition depth_score :: "horizon_input \<Rightarrow> nat \<Rightarrow> resource_cost \<Rightarrow> real64" where
  "depth_score inp depth c = divide64 (times64 (of_u64 depth) (hi_predicted_acceptance inp))
     (max64 (complete_scalar c) min_positive)"

fun best_depth :: "horizon_input \<Rightarrow> horizon_decision \<Rightarrow> real64 \<Rightarrow> nat list \<Rightarrow> horizon_decision" where
  "best_depth inp best score [] = best"
| "best_depth inp best score (depth # ds) = (case cost_at inp depth of
     None \<Rightarrow> zero_decision inp
   | Some c \<Rightarrow>
       if \<not> slack_covers inp c then best_depth inp best score ds
       else if less64 score (depth_score inp depth c) then best_depth inp (decision_at inp depth c) (depth_score inp depth c) ds
       else best_depth inp best score ds)"

definition max_depth :: "decode_plan \<Rightarrow> horizon_input \<Rightarrow> nat" where
  "max_depth plan inp = min (min (hi_candidate_horizon inp) (dp_max_horizon (pl_decode plan))) 3"

definition choose_horizon :: "decode_plan \<Rightarrow> horizon_input \<Rightarrow> horizon_decision" where
  "choose_horizon plan inp =
     (if \<not> hi_mathematical_permission inp \<or> hi_candidate_horizon inp = 0 \<or> 1000000 < hi_queue_backlog inp
        \<or> leq64 (hi_predicted_acceptance inp) (Finite 0)
      then zero_decision inp
      else if dp_mode (pl_decode plan) = HorizonFixed \<and> 0 < dp_min_horizon (pl_decode plan)
      then let depth = dp_min_horizon (pl_decode plan) in
        (case cost_at inp depth of
           None \<Rightarrow> zero_decision inp
         | Some c \<Rightarrow> if hi_candidate_horizon inp < depth \<or> \<not> slack_covers inp c then zero_decision inp
                    else decision_at inp depth c)
      else best_depth inp (zero_decision inp) (Finite 0) [1..<Suc (max_depth plan inp)])"

subsection \<open>What is chosen\<close>

text \<open>A decision that may be carried out: within the candidate, at a known cost the slack covers.\<close>

definition feasible :: "horizon_input \<Rightarrow> nat \<Rightarrow> resource_cost \<Rightarrow> bool" where
  "feasible inp depth c \<longleftrightarrow> 0 < depth \<and> depth \<le> hi_candidate_horizon inp \<and> cost_at inp depth = Some c \<and> slack_covers inp c"

definition rightly_decided :: "decode_plan \<Rightarrow> horizon_input \<Rightarrow> horizon_decision \<Rightarrow> bool" where
  "rightly_decided plan inp d \<longleftrightarrow> d = zero_decision inp
     \<or> (\<exists>c. feasible inp (hd_depth d) c \<and> hd_depth d \<le> dp_max_horizon (pl_decode plan)
          \<and> d = decision_at inp (hd_depth d) c \<and> hi_mathematical_permission inp \<and> hi_queue_backlog inp \<le> 1000000)"

lemma decision_at_depth [simp]: "hd_depth (decision_at inp depth c) = depth" "hd_depth (zero_decision inp) = 0"
  "hd_fail_safe (decision_at inp depth c) = False" "hd_fail_safe (zero_decision inp) = True"
  by (simp_all add: decision_at_def zero_decision_def)

lemma best_depth_decides:
  assumes "rightly_decided plan inp best" "set ds \<subseteq> {1..max_depth plan inp}"
    "hi_mathematical_permission inp" "hi_queue_backlog inp \<le> 1000000"
  shows "rightly_decided plan inp (best_depth inp best score ds)"
  using assms(1,2)
proof (induction ds arbitrary: best score)
  case (Cons depth ds)
  show ?case
  proof (cases "cost_at inp depth")
    case None
    then show ?thesis by (simp add: rightly_decided_def)
  next
    case (Some c)
    have "rightly_decided plan inp (decision_at inp depth c)" if "slack_covers inp c"
      using Cons.prems(2) Some that assms(3,4) by (auto simp: rightly_decided_def feasible_def max_depth_def)
    then show ?thesis using Cons Some by simp
  qed
qed simp

text \<open>The score of the best decision so far is never below that of a depth already tried.\<close>

definition scored :: "horizon_input \<Rightarrow> nat set \<Rightarrow> horizon_decision \<Rightarrow> real64 \<Rightarrow> bool" where
  "scored inp tried best score \<longleftrightarrow> (best = zero_decision inp \<and> score = Finite 0)
     \<or> (\<exists>d\<in>tried. \<exists>c. best = decision_at inp d c \<and> cost_at inp d = Some c \<and> score = depth_score inp d c
          \<and> less64 (Finite 0) score)"

definition unbeaten :: "horizon_input \<Rightarrow> nat set \<Rightarrow> real64 \<Rightarrow> bool" where
  "unbeaten inp tried score \<longleftrightarrow>
     (\<forall>e\<in>tried. \<forall>c. cost_at inp e = Some c \<and> slack_covers inp c \<longrightarrow> \<not> less64 score (depth_score inp e c))"

lemma best_depth_maximal:
  assumes "\<forall>e\<in>set ds. cost_at inp e \<noteq> None" "unbeaten inp tried score" "scored inp tried best score"
  shows "\<exists>score'. unbeaten inp (tried \<union> set ds) score' \<and> scored inp (tried \<union> set ds) (best_depth inp best score ds) score'"
  using assms
proof (induction ds arbitrary: tried best score)
  case Nil
  then show ?case by auto
next
  case (Cons depth ds)
  obtain c where c: "cost_at inp depth = Some c" using Cons.prems(1) by auto
  have all: "\<forall>e\<in>set ds. cost_at inp e \<noteq> None" using Cons.prems(1) by simp
  have sets: "tried \<union> set (depth # ds) = insert depth tried \<union> set ds" by simp
  show ?case
  proof (cases "slack_covers inp c \<and> less64 score (depth_score inp depth c)")
    case True
    have "unbeaten inp (insert depth tried) (depth_score inp depth c)"
      using Cons.prems(2) True c less64_trans less64_irrefl by (auto simp: unbeaten_def)
    moreover have "less64 (Finite 0) (depth_score inp depth c)"
      using True Cons.prems(3) by (auto simp: scored_def intro: less64_trans)
    then have "scored inp (insert depth tried) (decision_at inp depth c) (depth_score inp depth c)"
      using c by (auto simp: scored_def)
    moreover have "best_depth inp best score (depth # ds)
        = best_depth inp (decision_at inp depth c) (depth_score inp depth c) ds" using True c by simp
    ultimately show ?thesis using Cons.IH [OF all] unfolding sets by metis
  next
    case False
    have "unbeaten inp (insert depth tried) score" using Cons.prems(2) False c by (auto simp: unbeaten_def)
    moreover have "scored inp (insert depth tried) best score" using Cons.prems(3) by (auto simp: scored_def)
    moreover have "best_depth inp best score (depth # ds) = best_depth inp best score ds" using False c by auto
    ultimately show ?thesis using Cons.IH [OF all] unfolding sets by metis
  qed
qed

text \<open>When the code decides at all, and when it searches for the best depth.\<close>

definition horizon_open :: "horizon_input \<Rightarrow> bool" where
  "horizon_open inp \<longleftrightarrow> hi_mathematical_permission inp \<and> hi_candidate_horizon inp \<noteq> 0 \<and> hi_queue_backlog inp \<le> 1000000
     \<and> \<not> leq64 (hi_predicted_acceptance inp) (Finite 0)"

definition searches :: "decode_plan \<Rightarrow> bool" where
  "searches plan \<longleftrightarrow> \<not> (dp_mode (pl_decode plan) = HorizonFixed \<and> 0 < dp_min_horizon (pl_decode plan))"

text \<open>The score of a decision: that of its depth, and zero for depth zero.\<close>

definition decision_score :: "horizon_input \<Rightarrow> nat \<Rightarrow> real64" where
  "decision_score inp depth = (if depth = 0 then Finite 0 else case cost_at inp depth of
     None \<Rightarrow> NotANumber | Some c \<Rightarrow> depth_score inp depth c)"

lemma best_depth_unknown:
  "\<exists>e\<in>set ds. cost_at inp e = None \<Longrightarrow> best_depth inp best score ds = zero_decision inp"
  by (induction ds arbitrary: best score) (auto split: option.splits)

lemma best_depth_best:
  assumes "\<forall>e\<in>{1..n}. cost_at inp e \<noteq> None"
  defines "d \<equiv> best_depth inp (zero_decision inp) (Finite 0) [1..<Suc n]"
  shows "hd_depth d = 0 \<or> less64 (Finite 0) (decision_score inp (hd_depth d))"
    and "feasible inp e c \<Longrightarrow> e \<le> n \<Longrightarrow> \<not> less64 (decision_score inp (hd_depth d)) (depth_score inp e c)"
proof -
  let ?ds = "[1..<Suc n]"
  have "\<forall>e\<in>set ?ds. cost_at inp e \<noteq> None" using assms(1) by auto
  from best_depth_maximal [OF this, of "{}" "Finite 0" "zero_decision inp"] obtain score where
    score: "unbeaten inp (set ?ds) score" "scored inp (set ?ds) d score"
    by (auto simp: unbeaten_def scored_def d_def simp del: upt_Suc)
  have own: "score = decision_score inp (hd_depth d)" "hd_depth d = 0 \<or> less64 (Finite 0) score"
    using score(2) unfolding scored_def by (auto simp: decision_score_def)
  then show "hd_depth d = 0 \<or> less64 (Finite 0) (decision_score inp (hd_depth d))" by simp
  assume "feasible inp e c" "e \<le> n"
  then have "e \<in> set ?ds" "cost_at inp e = Some c" "slack_covers inp c" by (auto simp: feasible_def)
  then show "\<not> less64 (decision_score inp (hd_depth d)) (depth_score inp e c)"
    using score(1) unfolding unbeaten_def own(1) by blast
qed

text \<open>
  C30: the decision is depth zero, or a depth the code may use: permitted, at most
  the candidate and the plan's maximum, with a known cost the resources cover.  Without permission, candidates
  or positive acceptance, or behind a long queue, it is depth zero.  Otherwise a plan with a fixed horizon
  gets this depth exactly when it is feasible; any other plan gets depth zero when a cost up to the
  maximal depth is unknown, and if all are known, depth zero or one with a positive score, and its score (zero
  for depth zero) is not beaten by that of any feasible depth up to the maximum.
\<close>

theorem horizon_is_feasible_and_best:
  fixes plan :: decode_plan and inp :: horizon_input
  assumes "dp_min_horizon (pl_decode plan) \<le> dp_max_horizon (pl_decode plan)"
  defines "d \<equiv> choose_horizon plan inp" and "m \<equiv> dp_min_horizon (pl_decode plan)" and "n \<equiv> max_depth plan inp"
  shows "rightly_decided plan inp d
    \<and> (\<not> horizon_open inp \<longrightarrow> d = zero_decision inp)
    \<and> (horizon_open inp \<and> \<not> searches plan \<longrightarrow> (hd_depth d = m \<longleftrightarrow> (\<exists>c. feasible inp m c)))
    \<and> (horizon_open inp \<and> searches plan \<longrightarrow>
         ((\<exists>e\<in>{1..n}. cost_at inp e = None) \<longrightarrow> d = zero_decision inp)
       \<and> ((\<forall>e\<in>{1..n}. cost_at inp e \<noteq> None) \<longrightarrow>
            (hd_depth d = 0 \<or> less64 (Finite 0) (decision_score inp (hd_depth d)))
          \<and> (\<forall>e c. feasible inp e c \<and> e \<le> n \<longrightarrow> \<not> less64 (decision_score inp (hd_depth d)) (depth_score inp e c))))"
proof (intro conjI impI)
  have zero: "rightly_decided plan inp (zero_decision inp)" by (simp add: rightly_decided_def)
  have fixed: "rightly_decided plan inp (decision_at inp depth c)"
    if "cost_at inp depth = Some c" "slack_covers inp c" "depth \<le> hi_candidate_horizon inp" "0 < depth"
      "depth \<le> dp_max_horizon (pl_decode plan)" "hi_mathematical_permission inp" "hi_queue_backlog inp \<le> 1000000" for depth c
    using that by (auto simp: rightly_decided_def feasible_def)
  have search: "rightly_decided plan inp (best_depth inp (zero_decision inp) (Finite 0) [1..<Suc (max_depth plan inp)])"
    if "hi_mathematical_permission inp" "hi_queue_backlog inp \<le> 1000000"
    by (rule best_depth_decides [OF zero _ that]) auto
  show "rightly_decided plan inp d"
    using zero fixed [of "dp_min_horizon (pl_decode plan)"] search assms(1)
    by (simp add: d_def choose_horizon_def Let_def not_less del: upt_Suc split: option.splits)
  show "d = zero_decision inp" if "\<not> horizon_open inp"
    using that by (auto simp: d_def choose_horizon_def horizon_open_def not_less simp del: upt_Suc)
  show "hd_depth d = m \<longleftrightarrow> (\<exists>c. feasible inp m c)" if "horizon_open inp \<and> \<not> searches plan"
    using that by (auto simp: d_def m_def choose_horizon_def horizon_open_def searches_def feasible_def not_less Let_def
        split: option.splits if_splits)
next
  assume open_plan: "horizon_open inp \<and> searches plan"
  then have run: "d = best_depth inp (zero_decision inp) (Finite 0) [1..<Suc n]"
    by (auto simp: d_def n_def choose_horizon_def horizon_open_def searches_def)
  show "d = zero_decision inp" if "\<exists>e\<in>{1..n}. cost_at inp e = None"
    unfolding run by (rule best_depth_unknown) (use that in auto)
  show "\<forall>e c. feasible inp e c \<and> e \<le> n \<longrightarrow> \<not> less64 (decision_score inp (hd_depth d)) (depth_score inp e c)"
    if "\<forall>e\<in>{1..n}. cost_at inp e \<noteq> None"
    using best_depth_best(2) [OF that] unfolding run by blast
  show "hd_depth d = 0 \<or> less64 (Finite 0) (decision_score inp (hd_depth d))" if "\<forall>e\<in>{1..n}. cost_at inp e \<noteq> None"
    unfolding run by (rule best_depth_best(1) [OF that])
qed

definition sample_plan :: decode_plan where
  "sample_plan = \<lparr> pl_identity = \<lparr> pi_model_sha256 = ''m'', pi_build_hash = ''b'', pi_config_hash = ''c'', pi_epoch = 1 \<rparr>,
     pl_required_memory_tiers = [PVramSlot], pl_decode = \<lparr> dp_name = ''q'', dp_min_horizon = 0, dp_max_horizon = 3,
       dp_mode = HorizonElastic, dp_objective = AcceptedTokensPerCompleteCost, dp_require_exact_acceptance = True,
       dp_sampling_location = SampleCpu, dp_fallback = FallDepthZero, dp_required_epoch = Some 1, dp_base_cost = zero_cost \<rparr>,
     pl_telemetry = \<lparr> tr_requirements = [''accepted_tokens''] \<rparr>, pl_exact_authority = ''full_model'',
     pl_target_vram_budget_bytes = 1, pl_target_host_ram_budget_bytes = 1 \<rparr>"

definition sample_input :: horizon_input where
  "sample_input = \<lparr> hi_candidate_horizon = 3, hi_mathematical_permission = True, hi_predicted_acceptance = Finite 1,
     hi_recent_acceptance = Finite 1, hi_costs_by_depth = zero_cost # map (\<lambda>d. zero_cost\<lparr> rc_ram_to_vram_bytes := d - 1,
       rc_verification_compute := of_u64 d \<rparr>) [1, 2, 3],
     hi_resource_slack = Some \<lparr> sl_snapshot_id = ''s'', sl_available_nvme_bytes = 0, sl_available_ram_to_vram_bytes = 0,
       sl_available_vram_bytes = 15, sl_available_queue_slots = 2 \<rparr>, hi_queue_backlog = 0 \<rparr>"

text \<open>Depth one is feasible and scores more than nothing, so speculation is not given up.\<close>

lemma sample_score: "less64 (Finite 0) (depth_score sample_input 1 (hi_costs_by_depth sample_input ! 1))"
proof -
  have "round64 0 (Suc 0) = Finite 0" "round64 (Suc 0) (Suc 0) = Finite 1"
    using round64_integer [of 0] round64_integer [of 1] by simp_all
  then have small: "of_u64 0 = Finite 0" "of_u64 (Suc 0) = Finite 1" "round_rat 0 = Finite 0" "round_rat 1 = Finite 1"
    by (simp_all add: of_u64_def round_rat_def)
  show ?thesis
    by (simp add: depth_score_def sample_input_def complete_scalar_def zero_cost_def small max64_def min_positive_def)
qed

lemma sample_feasible: "feasible sample_input 1 (hi_costs_by_depth sample_input ! 1)"
  by (simp add: feasible_def sample_input_def cost_at_def slack_covers_def can_cover_def zero_cost_def)

lemma horizon_is_feasible_and_best_witness: "hd_depth (choose_horizon sample_plan sample_input) \<noteq> 0"
proof
  assume zero: "hd_depth (choose_horizon sample_plan sample_input) = 0"
  have "dp_min_horizon (pl_decode sample_plan) \<le> dp_max_horizon (pl_decode sample_plan)" by (simp add: sample_plan_def)
  note best = horizon_is_feasible_and_best [OF this, of sample_input, THEN conjunct2, THEN conjunct2, THEN conjunct2]
  have "horizon_open sample_input" "searches sample_plan" "max_depth sample_plan sample_input = 3"
    by (simp_all add: horizon_open_def searches_def max_depth_def sample_plan_def sample_input_def leq64_def)
  moreover have "\<forall>e\<in>{1..3}. cost_at sample_input e \<noteq> None"
    by (simp add: sample_input_def cost_at_def)
  ultimately have "\<not> less64 (decision_score sample_input 0) (depth_score sample_input 1 (hi_costs_by_depth sample_input ! 1))"
    using best zero sample_feasible by (metis one_le_numeral)
  then show False using sample_score by (simp add: decision_score_def)
qed

end
