(* ===== verification/Lang_Compile.thy ===== *)
theory Lang_Compile
  imports Lang_Analyze Lang_Parser Decode_Control
begin

text \<open>
  \<open>har-lang-compiler/src/v0.rs\<close>: from source text through the lexer, the parser and the analyser to the
  logical graph and the immutable decode plan.  That every source gets an answer, and that lowering
  never fails on what the analyser accepts, are theorems below.
\<close>

unbundle bit_operations_syntax

subsection \<open>Lowering\<close>

record logical_node =
  no_kind :: string
  no_name :: string
  no_dependencies :: "string list"

record logical_ir =
  ir_schema :: string
  ir_nodes :: "logical_node list"

definition leaf :: "string \<Rightarrow> string \<Rightarrow> logical_node" where
  "leaf k name = \<lparr> no_kind = k, no_name = name, no_dependencies = [] \<rparr>"

definition lower_logical :: "typed_program \<Rightarrow> logical_ir" where
  "lower_logical p = \<lparr> ir_schema = ''har-logical-ir/v1'', ir_nodes =
     [leaf ''target'' (lt_name (tp_target p)), leaf ''model'' (lm_name (tp_model p))]
     @ map (\<lambda>r. leaf ''memory_tier'' (lr_name r)) (tp_tiers p)
     @ map (\<lambda>t. \<lparr> no_kind = ''tensor'', no_name = ln_name t, no_dependencies = [''tier:'' @ ln_tier_name t] \<rparr>) (tp_tensors p)
     @ map (\<lambda>q. \<lparr> no_kind = ''phase'', no_name = lp_name q, no_dependencies = lp_dependencies q \<rparr>) (tp_phases p)
     @ [leaf ''quality'' (lq_name (tp_quality p)),
        \<lparr> no_kind = ''decode_policy'', no_name = ld_name (tp_decode p), no_dependencies = [''quality'', ''model''] \<rparr>] \<rparr>"

definition map_tier :: "lang_tier \<Rightarrow> plan_tier" where
  "map_tier t = (case t of LDirectNvme \<Rightarrow> PDirectNvme | LRamMapped \<Rightarrow> PRamMapped | LPinnedRam \<Rightarrow> PPinnedRam | LVram \<Rightarrow> PVram
     | LVramSlot \<Rightarrow> PVramSlot | LScratch \<Rightarrow> PScratch)"

definition push_new :: "'a list \<Rightarrow> 'a \<Rightarrow> 'a list" where
  "push_new xs x = (if x \<in> set xs then xs else xs @ [x])"

definition required_tiers :: "typed_program \<Rightarrow> plan_tier list" where
  "required_tiers p = push_new (foldl push_new [map_tier (lt_storage (tp_target p))]
     (concat (map (\<lambda>r. [map_tier (lr_hot r), map_tier (lr_warm r), map_tier (lr_cold r)]) (tp_tiers p))
      @ map (\<lambda>t. map_tier (ln_tier t)) (tp_tensors p))) PVramSlot"

definition lower_sampling :: "string \<Rightarrow> string + sampling_location" where
  "lower_sampling s = (if s = ''cpu'' then Inr SampleCpu else if s = ''vulkan'' then Inr SampleVulkan
     else if s = ''backend'' then Inr SampleBackend
     else Inl (''unsupported sampling location `'' @ s @ ''` after semantic validation''))"

definition lower_fallback :: "string \<Rightarrow> string + fallback_policy" where
  "lower_fallback s = (if s = ''depth_zero'' then Inr FallDepthZero else if s = ''exact_target'' then Inr FallExactTarget
     else if s = ''required'' then Inr FallRequired
     else Inl (''unsupported fallback `'' @ s @ ''` after semantic validation''))"

definition lower_cost :: "lang_cost \<Rightarrow> resource_cost" where
  "lower_cost c = \<lparr> rc_required_nvme_bytes = lc_required_nvme_bytes c, rc_ram_to_vram_bytes = lc_ram_to_vram_bytes c,
     rc_vram_bytes = lc_vram_bytes c, rc_verification_compute = Finite (lc_verification_compute c),
     rc_queue_slots = lc_queue_slots c \<rparr>"

definition lower_identity :: "lang_model \<Rightarrow> plan_identity" where
  "lower_identity m = \<lparr> pi_model_sha256 = lm_model_sha256 m, pi_build_hash = lm_build_hash m,
     pi_config_hash = lm_config_hash m, pi_epoch = lm_epoch m \<rparr>"

definition lower_physical :: "typed_program \<Rightarrow> string + decode_plan" where
  "lower_physical p = (case lower_sampling (ld_sampling_location (tp_decode p)) of Inl e \<Rightarrow> Inl e | Inr sampling \<Rightarrow>
     (case lower_fallback (ld_fallback (tp_decode p)) of Inl e \<Rightarrow> Inl e | Inr fallback \<Rightarrow>
     (case decode_policy_new (ld_name (tp_decode p)) (ld_min_horizon (tp_decode p)) (ld_max_horizon (tp_decode p))
             AcceptedTokensPerCompleteCost (ld_require_exact_acceptance (tp_decode p)) sampling fallback
             (ld_required_epoch (tp_decode p)) (lower_cost (ld_cost (tp_decode p))) of
        None \<Rightarrow> Inl ''decode policy cannot be represented as an immutable V0 plan''
      | Some decode \<Rightarrow>
     (case telemetry_requirements_new (concat (map ly_requirements (tp_telemetry p))) of
        None \<Rightarrow> Inl ''telemetry requirements are empty''
      | Some telemetry \<Rightarrow>
     (case decode_plan_new (lower_identity (tp_model p)) (required_tiers p) decode telemetry (lq_authority (tp_quality p))
             (lt_vram_budget_bytes (tp_target p)) (lt_host_ram_budget_bytes (tp_target p)) of
        None \<Rightarrow> Inl ''physical plan has invalid target budgets or memory tiers''
      | Some plan \<Rightarrow> Inr plan)))))"

subsection \<open>Compiling\<close>

text \<open>\<open>{:016x}\<close>.\<close>

definition hex_word :: "64 word \<Rightarrow> string" where
  "hex_word w = map (\<lambda>i. hex_digit (unat (drop_bit (4 * i) w AND 15))) (rev [0..<16])"

definition fnv_step :: "char \<Rightarrow> 64 word \<Rightarrow> 64 word" where
  "fnv_step c v = (v XOR of_nat (char_code c)) * 0x100000001b3"

definition source_digest :: "string \<Rightarrow> string" where
  "source_digest source = (let v = fold fnv_step source 0xcbf29ce484222325 in
     hex_word v @ hex_word (word_rotl 13 v) @ hex_word (word_rotl 29 v) @ hex_word (word_rotl 47 v))"

record compiled_program =
  co_source_name :: string
  co_typed :: typed_program
  co_logical_ir :: logical_ir
  co_physical_plan :: decode_plan
  co_source_digest :: string

definition compile_ast :: "program \<Rightarrow> string \<Rightarrow> diagnostic list + compiled_program" where
  "compile_ast p source = (case analyze p of
     Inl ds \<Rightarrow> Inl ds
   | Inr typed \<Rightarrow> (case lower_physical typed of
       Inl message \<Rightarrow> Inl [diag_error ''C2001'' message None]
     | Inr plan \<Rightarrow> Inr \<lparr> co_source_name = pg_source_name p, co_typed = typed, co_logical_ir = lower_logical typed,
         co_physical_plan = plan, co_source_digest = source_digest source \<rparr>))"

text \<open>\<open>None\<close> would mean that the parser does not return.\<close>

definition compile_source :: "string \<Rightarrow> string \<Rightarrow> (diagnostic list + compiled_program) option" where
  "compile_source name source = (case lex source of
     Inl ds \<Rightarrow> Some (Inl ds)
   | Inr tokens \<Rightarrow> map_option (\<lambda>r. case r of Inl ds \<Rightarrow> Inl ds | Inr p \<Rightarrow> compile_ast p source) (parse tokens name))"

subsection \<open>Lowering succeeds\<close>

lemma push_new_set [simp]: "set (push_new xs x) = insert x (set xs)"
  by (auto simp: push_new_def)

lemma push_new_distinct: "distinct xs \<Longrightarrow> distinct (push_new xs x)"
  by (simp add: push_new_def)

lemma foldl_push_new: "set (foldl push_new xs ys) = set xs \<union> set ys \<and> (distinct xs \<longrightarrow> distinct (foldl push_new xs ys))"
  by (induction ys arbitrary: xs) (auto simp: push_new_distinct)

text \<open>The tiers of a plan, as a set: that of the target, those of the tiers and tensors, and the VRAM slots.\<close>

definition tiers_of :: "typed_program \<Rightarrow> lang_tier set" where
  "tiers_of p = insert (lt_storage (tp_target p)) (insert LVramSlot
     ((\<Union>r\<in>set (tp_tiers p). {lr_hot r, lr_warm r, lr_cold r}) \<union> ln_tier ` set (tp_tensors p)))"

lemma required_tiers_set: "set (required_tiers p) = map_tier ` tiers_of p" "distinct (required_tiers p)"
  using foldl_push_new [of "[map_tier (lt_storage (tp_target p))]"
      "concat (map (\<lambda>r. [map_tier (lr_hot r), map_tier (lr_warm r), map_tier (lr_cold r)]) (tp_tiers p))
      @ map (\<lambda>t. map_tier (ln_tier t)) (tp_tensors p)"]
  by (auto simp: required_tiers_def tiers_of_def push_new_distinct map_tier_def)

text \<open>What a plan says about the program it was made from.\<close>

definition plan_realises :: "typed_program \<Rightarrow> decode_plan \<Rightarrow> bool" where
  "plan_realises p plan \<longleftrightarrow>
     pl_identity plan = lower_identity (tp_model p)
     \<and> set (pl_required_memory_tiers plan) = map_tier ` tiers_of p \<and> distinct (pl_required_memory_tiers plan)
     \<and> dp_min_horizon (pl_decode plan) = ld_min_horizon (tp_decode p) \<and> dp_max_horizon (pl_decode plan) = ld_max_horizon (tp_decode p)
     \<and> (dp_mode (pl_decode plan) = HorizonFixed \<longleftrightarrow> ld_min_horizon (tp_decode p) = ld_max_horizon (tp_decode p))
     \<and> dp_require_exact_acceptance (pl_decode plan) \<and> dp_required_epoch (pl_decode plan) = ld_required_epoch (tp_decode p)
     \<and> dp_base_cost (pl_decode plan) = lower_cost (ld_cost (tp_decode p))
     \<and> lower_sampling (ld_sampling_location (tp_decode p)) = Inr (dp_sampling_location (pl_decode plan))
     \<and> lower_fallback (ld_fallback (tp_decode p)) = Inr (dp_fallback (pl_decode plan))
     \<and> tr_requirements (pl_telemetry plan) = concat (map ly_requirements (tp_telemetry p)) \<and> tr_requirements (pl_telemetry plan) \<noteq> []
     \<and> pl_exact_authority plan = lq_authority (tp_quality p)
     \<and> pl_target_vram_budget_bytes plan = lt_vram_budget_bytes (tp_target p)
     \<and> pl_target_host_ram_budget_bytes plan = lt_host_ram_budget_bytes (tp_target p)"

lemma lower_physical_succeeds:
  assumes "typed_ok p"
  shows "\<exists>plan. lower_physical p = Inr plan \<and> plan_realises p plan"
proof -
  have d: "decode_ok (tp_decode p)" and budget: "0 < lt_vram_budget_bytes (tp_target p)" "0 < lt_host_ram_budget_bytes (tp_target p)"
    and telemetry: "concat (map ly_requirements (tp_telemetry p)) \<noteq> []"
    using assms by (auto simp: typed_ok_def)
  obtain sampling where sampling: "lower_sampling (ld_sampling_location (tp_decode p)) = Inr sampling"
    using d by (auto simp: decode_ok_def lower_sampling_def)
  obtain fallback where fallback: "lower_fallback (ld_fallback (tp_decode p)) = Inr fallback"
    using d by (auto simp: decode_ok_def lower_fallback_def)
  have tiers: "required_tiers p \<noteq> []" using required_tiers_set(1) [of p] by (auto simp: tiers_of_def)
  show ?thesis
    using d budget telemetry tiers required_tiers_set [of p] sampling fallback
    by (simp add: lower_physical_def decode_policy_new_def telemetry_requirements_new_def decode_plan_new_def decode_ok_def
        plan_realises_def)
qed

text \<open>
  C22: what the analyser accepts can be lowered: the compiler's own error C2001 never
  occurs, and the plan carries the program's identity, budgets, horizon, costs, policies, telemetry and
  exactly the memory tiers it names, each once.
\<close>

theorem lowering_never_fails:
  assumes "analyze p = Inr typed"
  shows "\<exists>plan. lower_physical typed = Inr plan \<and> plan_realises typed plan
    \<and> compile_ast p source = Inr \<lparr> co_source_name = pg_source_name p, co_typed = typed, co_logical_ir = lower_logical typed,
        co_physical_plan = plan, co_source_digest = source_digest source \<rparr>"
proof -
  have "typed_ok typed" using accepted_typed_ok [OF assms] .
  from lower_physical_succeeds [OF this] assms show ?thesis by (auto simp: compile_ast_def)
qed

text \<open>
  C21: on every source the compiler returns, with a program or with at least one
  diagnostic.
\<close>

theorem compile_source_answers:
  "\<exists>result. compile_source name source = Some result \<and> result \<noteq> Inl []"
proof (cases "lex source")
  case (Inl ds)
  then have "ds \<noteq> []" by (auto simp: lex_def split: prod.splits if_splits)
  then show ?thesis using Inl by (simp add: compile_source_def)
next
  case (Inr tokens)
  obtain r where r: "parse tokens name = Some r" using parser_returns [OF Inr] by blast
  have "r \<noteq> Inl []" using r by (auto simp: parse_def split: if_splits)
  moreover have "compile_ast p source \<noteq> Inl []" for p
    by (auto simp: compile_ast_def analyze_def diag_result_def split: sum.splits if_splits)
  ultimately show ?thesis using Inr r by (cases r) (auto simp: compile_source_def)
qed

subsection \<open>Concrete programs\<close>

definition decl :: "string \<Rightarrow> string \<Rightarrow> (string \<times> har_value) list \<Rightarrow> block" where
  "decl k name fs = \<lparr> bl_kind = k, bl_name = name, bl_fields = map (\<lambda>(key, v). \<lparr> fd_key = key, fd_value = v,
     fd_span = span_point 0 1 1 \<rparr>) fs, bl_span = span_point 0 1 1 \<rparr>"

definition sample_target :: block where
  "sample_target = decl ''target'' ''t'' [(''gpu'', VString ''g''), (''gpu_arch'', VString ''a''), (''wave'', VNumber ''32''),
     (''vram_budget'', VQuantity ''1'' ''GiB''), (''host_ram_budget'', VQuantity ''1.5'' ''GiB''), (''storage'', VIdent ''direct_nvme'')]"

definition sample_model :: block where
  "sample_model = decl ''model'' ''m'' [(''identity'', VString ''m''), (''model_sha256'', VString (replicate 64 CHR ''a'')),
     (''build_hash'', VString (replicate 40 CHR ''b'')), (''config_hash'', VString (replicate 64 CHR ''c'')), (''epoch'', VNumber ''7'')]"

definition sample_quality :: block where
  "sample_quality = decl ''quality'' ''exact'' [(''authority'', VIdent ''full_model''), (''fallback'', VIdent ''required'')]"

definition sample_decode :: block where
  "sample_decode = decl ''decode'' ''d'' [(''horizon'', VRange ''0'' ''3''), (''optimize'', VIdent ''accepted_tokens_per_complete_cost''),
     (''require'', VIdent ''exact_acceptance''), (''sampling'', VIdent ''cpu''), (''fallback'', VIdent ''depth_zero''),
     (''requires_epoch'', VNumber ''7'')]"

definition sample_tensor :: "string \<Rightarrow> har_value \<Rightarrow> block" where
  "sample_tensor name vram = decl ''tensor'' name [(''format'', VIdent ''Q8_0''), (''shape'', VList [VNumber ''4096'', VNumber ''256'']),
     (''tier'', VIdent ''vram''), (''vram_required'', vram)]"

definition sample_source :: "block list \<Rightarrow> program" where
  "sample_source tensors = \<lparr> pg_source_name = ''a.har'', pg_declarations = [sample_target, sample_model, sample_quality, sample_decode,
     decl ''telemetry'' ''y'' [(''require'', VIdent ''accepted_tokens'')],
     decl ''phase'' ''a'' [(''depends_on'', VIdent ''b'')], decl ''phase'' ''b'' []] @ tensors \<rparr>"

definition tensor_source :: program where
  "tensor_source = sample_source [sample_tensor ''w'' (VQuantity ''512'' ''MiB'')]"

text \<open>Two tensors of 2^63 bytes each, on a target with one GiB.\<close>

definition overflow_source :: program where
  "overflow_source = sample_source [sample_tensor ''w'' (VQuantity ''8388608'' ''TiB''), sample_tensor ''v'' (VQuantity ''8388608'' ''TiB'')]"

lemmas sample_defs = sample_target_def sample_model_def sample_quality_def sample_decode_def decl_def

lemma sample_target_read:
  "cleanW (parse_target sample_target) \<and> lt_gpu (fst (parse_target sample_target)) = ''g''
     \<and> lt_gpu_arch (fst (parse_target sample_target)) = ''a'' \<and> lt_wave (fst (parse_target sample_target)) = 32
     \<and> lt_vram_budget_bytes (fst (parse_target sample_target)) = 2 ^ 30
     \<and> lt_host_ram_budget_bytes (fst (parse_target sample_target)) = 1610612736"
  by code_simp

lemma sample_model_read: "cleanW (parse_model sample_model) \<and> lm_epoch (fst (parse_model sample_model)) = 7"
  by code_simp

lemma sample_quality_read: "cleanW (parse_quality sample_quality) \<and> lq_fallback_required (fst (parse_quality sample_quality))"
  by code_simp

lemma sample_decode_read:
  "cleanW (parse_decode sample_decode) \<and> ld_required_epoch (fst (parse_decode sample_decode)) = Some 7
     \<and> ld_requires_model (fst (parse_decode sample_decode)) = [] \<and> lc_vram_bytes (ld_cost (fst (parse_decode sample_decode))) = 0"
  by code_simp

definition sample_phases :: "block list" where
  "sample_phases = [decl ''phase'' ''a'' [(''depends_on'', VIdent ''b'')], decl ''phase'' ''b'' []]"

lemma sample_phases_read:
  "cleanW (named ''S1007'' ''phase'' parse_phase {} sample_phases)
     \<and> cleanW (check_phase_graph (map (\<lambda>b. fst (parse_phase b)) sample_phases))"
  by code_simp

lemma sample_telemetry_read: "cleanW (parse_telemetry (decl ''telemetry'' ''y'' [(''require'', VIdent ''accepted_tokens'')]))"
  by code_simp

lemma sample_blocks:
  assumes "\<forall>b\<in>set bs. bl_kind b = ''tensor''"
  shows "blocks_of (sample_source bs) ''target'' = [sample_target]" "blocks_of (sample_source bs) ''model'' = [sample_model]"
    "blocks_of (sample_source bs) ''quality'' = [sample_quality]" "blocks_of (sample_source bs) ''decode'' = [sample_decode]"
    "blocks_of (sample_source bs) ''tensor'' = bs" "blocks_of (sample_source bs) ''tier'' = []"
    "blocks_of (sample_source bs) ''phase'' = sample_phases" "blocks_of (sample_source bs) ''dependency'' = []"
    "blocks_of (sample_source bs) ''telemetry'' = [decl ''telemetry'' ''y'' [(''require'', VIdent ''accepted_tokens'')]]"
    "blocks_of (sample_source bs) ''budget'' = []" "blocks_of (sample_source bs) ''fact'' = []"
    "blocks_of (sample_source bs) ''operation'' = []"
proof -
  have none: "filter (\<lambda>b. bl_kind b = k) bs = []" if "k \<noteq> ''tensor''" for k using assms that by (simp add: filter_empty_conv)
  have all: "filter (\<lambda>b. bl_kind b = ''tensor'') bs = bs" using assms by (simp add: filter_True)
  show "blocks_of (sample_source bs) ''target'' = [sample_target]" "blocks_of (sample_source bs) ''model'' = [sample_model]"
    "blocks_of (sample_source bs) ''quality'' = [sample_quality]" "blocks_of (sample_source bs) ''decode'' = [sample_decode]"
    "blocks_of (sample_source bs) ''tensor'' = bs" "blocks_of (sample_source bs) ''tier'' = []"
    "blocks_of (sample_source bs) ''phase'' = sample_phases" "blocks_of (sample_source bs) ''dependency'' = []"
    "blocks_of (sample_source bs) ''telemetry'' = [decl ''telemetry'' ''y'' [(''require'', VIdent ''accepted_tokens'')]]"
    "blocks_of (sample_source bs) ''budget'' = []" "blocks_of (sample_source bs) ''fact'' = []"
    "blocks_of (sample_source bs) ''operation'' = []"
    by (simp_all add: blocks_of_def sample_source_def sample_defs sample_phases_def none all)
qed

lemma sample_kinds:
  assumes "\<forall>b\<in>set bs. bl_kind b = ''tensor''"
  shows "\<forall>b\<in>set (pg_declarations (sample_source bs)). cleanW (check_kind b)"
  using assms by (auto simp: sample_source_def sample_defs check_kind_def declaration_kinds_def)

text \<open>With the other declarations fixed, only the tensors decide.\<close>

lemma sample_accepted:
  assumes kinds: "\<forall>b\<in>set bs. bl_kind b = ''tensor''" and clean: "\<forall>b\<in>set bs. cleanW (parse_tensor b)"
    and distinct: "distinct (map bl_name bs)"
    and tensors: "\<forall>b\<in>set bs. ln_tier_name (fst (parse_tensor b)) \<in> set physical_tiers
      \<and> ln_generation (fst (parse_tensor b)) = 0 \<and> ln_model_root (fst (parse_tensor b)) = []"
    and vram: "tensor_vram (map (\<lambda>b. fst (parse_tensor b)) bs) \<le> 2 ^ 30"
  shows "\<exists>t. analyze (sample_source bs) = Inr t \<and> tp_tensors t = map (\<lambda>b. fst (parse_tensor b)) bs
    \<and> lt_vram_budget_bytes (tp_target t) = 2 ^ 30"
proof -
  let ?ts = "map (\<lambda>b. fst (parse_tensor b)) bs"
  have resolve: "map (\<lambda>b. fst (resolve_tier [] (fst (parse_tensor b)))) bs = ?ts"
      "\<forall>b\<in>set bs. cleanW (resolve_tier [] (fst (parse_tensor b)))"
    using tensors by (simp_all add: resolve_tier_def)
  have "total_vram (fst (parse_decode sample_decode)) ?ts \<le> 2 ^ 30"
    using vram sample_decode_read by (simp add: total_vram_def sat_add64_def)
  then have cross: "cleanW (check_cross_constraints (fst (parse_target sample_target)) (fst (parse_model sample_model))
      (fst (parse_quality sample_quality)) (fst (parse_decode sample_decode)) ?ts)"
    using sample_target_read sample_model_read sample_quality_read sample_decode_read tensors
    by (simp add: check_cross_constraints_def check_epochs_def check_roots_def not_less)
  note read = sample_target_read sample_model_read sample_quality_read sample_decode_read sample_phases_read sample_telemetry_read
  have "cleanW (analyzeW (sample_source bs))"
    using read cross clean distinct sample_kinds [OF kinds]
    by (simp add: analyzeW_def sample_blocks [OF kinds] first_or_def exactly_one_def named_reads named_clean resolve comp_def)
  moreover have "tp_tensors (fst (analyzeW (sample_source bs))) = ?ts"
      "tp_target (fst (analyzeW (sample_source bs))) = fst (parse_target sample_target)"
    by (simp_all add: analyzeW_def sample_blocks [OF kinds] first_or_def named_reads resolve comp_def)
  ultimately show ?thesis using sample_target_read by (auto simp: analyze_accepts)
qed

lemma sample_tensor_read:
  "let b = sample_tensor ''w'' (VQuantity ''512'' ''MiB''); t = fst (parse_tensor b) in
     bl_kind b = ''tensor'' \<and> cleanW (parse_tensor b) \<and> ln_tier_name t \<in> set physical_tiers \<and> ln_generation t = 0
     \<and> ln_model_root t = [] \<and> ln_required_vram_bytes t = 2 ^ 29"
  by code_simp

lemma huge_tensor_read:
  "\<forall>n\<in>{''w'', ''v''}. let b = sample_tensor n (VQuantity ''8388608'' ''TiB''); t = fst (parse_tensor b) in
     bl_kind b = ''tensor'' \<and> bl_name b = n \<and> cleanW (parse_tensor b) \<and> ln_tier_name t \<in> set physical_tiers \<and> ln_generation t = 0
     \<and> ln_model_root t = [] \<and> ln_required_vram_bytes t = 2 ^ 63"
  by code_simp

lemma tensor_source_accepted: "\<exists>t. analyze tensor_source = Inr t"
  using sample_accepted [of "[sample_tensor ''w'' (VQuantity ''512'' ''MiB'')]"] sample_tensor_read
  by (auto simp: tensor_source_def tensor_vram_def wadd64_def Let_def)

lemma overflow_source_accepted:
  "\<exists>t. analyze overflow_source = Inr t \<and> lt_vram_budget_bytes (tp_target t) = 2 ^ 30
     \<and> (\<Sum>x\<leftarrow>tp_tensors t. ln_required_vram_bytes x) = 2 ^ 64"
  using sample_accepted [of "[sample_tensor ''w'' (VQuantity ''8388608'' ''TiB''), sample_tensor ''v'' (VQuantity ''8388608'' ''TiB'')]"]
    huge_tensor_read
  by (auto simp: overflow_source_def tensor_vram_def wadd64_def Let_def)

lemma lowering_never_fails_witness:
  "\<exists>typed plan. analyze tensor_source = Inr typed \<and> lower_physical typed = Inr plan \<and> plan_realises typed plan"
  using tensor_source_accepted lowering_never_fails by blast

lemma analysis_is_fail_closed_witness: "\<exists>t. analyze tensor_source = Inr t \<and> typed_ok t"
  using tensor_source_accepted analysis_is_fail_closed by blast

lemma tensor_vram_exact:
  "(\<Sum>t\<leftarrow>ts. ln_required_vram_bytes t) < 2 ^ 64 \<Longrightarrow> tensor_vram ts = (\<Sum>t\<leftarrow>ts. ln_required_vram_bytes t)"
proof -
  have "fold (\<lambda>t n. wadd64 n (ln_required_vram_bytes t)) ts n = n + (\<Sum>t\<leftarrow>ts. ln_required_vram_bytes t)"
    if "n + (\<Sum>t\<leftarrow>ts. ln_required_vram_bytes t) < 2 ^ 64" for n
    using that by (induction ts arbitrary: n) (auto simp: wadd64_exact)
  then show "(\<Sum>t\<leftarrow>ts. ln_required_vram_bytes t) < 2 ^ 64 \<Longrightarrow> ?thesis" by (simp add: tensor_vram_def)
qed

text \<open>
  The sum of the tensors' requirements wraps, so the hard budget of VRAM can be
  passed by requirements that exceed it: a program with two tensors of 2^63 bytes is accepted for a
  target with one GiB, and lowered.
\<close>

lemma vram_budget_can_wrap:
  "\<exists>t plan. analyze overflow_source = Inr t \<and> lower_physical t = Inr plan
     \<and> pl_target_vram_budget_bytes plan = 2 ^ 30 \<and> (\<Sum>x\<leftarrow>tp_tensors t. ln_required_vram_bytes x) = 2 ^ 64"
proof -
  obtain t where t: "analyze overflow_source = Inr t" "lt_vram_budget_bytes (tp_target t) = 2 ^ 30"
      "(\<Sum>x\<leftarrow>tp_tensors t. ln_required_vram_bytes x) = 2 ^ 64" using overflow_source_accepted by blast
  obtain plan where "lower_physical t = Inr plan" "plan_realises t plan"
    using lower_physical_succeeds [OF accepted_typed_ok [OF t(1)]] by blast
  then show ?thesis using t by (auto simp: plan_realises_def)
qed

end
