(* ===== verification/Waste_Ledger.thy ===== *)
theory Waste_Ledger
  imports Prelude
begin

text \<open>
  \<open>har-metabolism\<close>: the shared vocabulary (\<open>common.rs\<close>, \<open>error.rs\<close>, \<open>artifact.rs\<close>), the waste ledger
  (\<open>ledger.rs\<close>) and the classification of its entries (\<open>reclaim.rs\<close>).

  The ledger is the book of record of the resource controller: entries are only appended, totals are
  kept beside them, and credit is given once per identity.  The theorems say that the totals are those
  of the entries and the credits, cut off at the width of the counters, and that no sequence of calls
  gets credit twice.
\<close>

subsection \<open>Vocabulary\<close>

datatype certainty = Measured | Estimated | UnknownValue

record estimate =
  es_value :: int
  es_certainty :: certainty

definition unknown_zero :: estimate where
  "unknown_zero = \<lparr> es_value = 0, es_certainty = UnknownValue \<rparr>"

definition measured :: "int \<Rightarrow> estimate" where
  "measured v = \<lparr> es_value = v, es_certainty = Measured \<rparr>"

definition estimated :: "int \<Rightarrow> estimate" where
  "estimated v = \<lparr> es_value = v, es_certainty = Estimated \<rparr>"

definition estimate_known :: "estimate \<Rightarrow> bool" where
  "estimate_known e \<longleftrightarrow> es_certainty e \<noteq> UnknownValue"

record clock_ticks =
  tk_fast :: nat
  tk_slow :: nat

datatype metabolism_error =
    UnknownInput string | ReserveInsufficient string | ReserveDebt string | FailClosedError string
  | DoubleCredit string | InvalidArtifact string | InvariantViolation string | TraceMismatch string

datatype reuse_class = ExactReusable | ConditionalReusable | InformationalOnly | Unrecoverable

record artifact_envelope =
  ae_artifact_id :: string
  ae_payload_hash :: string
  ae_causal_prefix :: string
  ae_dependency_root :: string
  ae_token_identity :: string
  ae_model_root :: string
  ae_tensor_root :: string
  ae_package_root :: string
  ae_runtime_version :: string
  ae_graph_identity :: string
  ae_backend_identity :: string
  ae_kernel_identity :: string
  ae_precision :: string
  ae_quantization :: string
  ae_device :: string
  ae_creation_cost :: nat
  ae_creation_gen :: nat
  ae_validation_rule :: string
  ae_expiry_gen :: nat
  ae_correctness_class :: reuse_class

record salvage_input =
  si_reuse_probability :: "nat option"
  si_expected_reuse_cost :: estimate
  si_holding_cost :: estimate
  si_validation_cost :: estimate
  si_memory_opportunity_cost :: estimate
  si_eviction_cost :: estimate
  si_contention_cost :: estimate
  si_expiry_risk_permille :: "nat option"

definition salvage_with_none :: salvage_input where
  "salvage_with_none = \<lparr> si_reuse_probability = None, si_expected_reuse_cost = unknown_zero,
     si_holding_cost = unknown_zero, si_validation_cost = unknown_zero,
     si_memory_opportunity_cost = unknown_zero, si_eviction_cost = unknown_zero,
     si_contention_cost = unknown_zero, si_expiry_risk_permille = None \<rparr>"

definition salvage_known :: "salvage_input \<Rightarrow> bool" where
  "salvage_known i \<longleftrightarrow> si_reuse_probability i \<noteq> None \<and> estimate_known (si_expected_reuse_cost i)
     \<and> estimate_known (si_holding_cost i) \<and> estimate_known (si_validation_cost i)
     \<and> estimate_known (si_memory_opportunity_cost i) \<and> estimate_known (si_eviction_cost i)
     \<and> estimate_known (si_contention_cost i) \<and> si_expiry_risk_permille i \<noteq> None"

subsection \<open>The ledger\<close>

datatype ledger_class = AuthoritativeUseful | AuthoritativeDiscarded | SpeculationMiss

record ledger_entry =
  en_seq :: nat
  en_gen :: nat
  en_class :: ledger_class
  en_token_identity :: string
  en_work_mib_ms :: nat
  en_tokens :: nat

record ledger_totals =
  lt_spent_work_mib_ms :: nat
  lt_useful_tokens :: nat
  lt_wasted_tokens :: nat
  lt_speculation_misses :: nat
  lt_waste_spec_ms :: nat
  lt_wasted_mib :: nat
  lt_reuse_credit_ms :: nat
  lt_overlap_credit_ms :: nat

record credit_evidence =
  ce_witness_identity :: string
  ce_redeems_tokens :: nat
  ce_bytes_moved :: nat
  ce_replay_gen :: nat

definition evidence_known :: "credit_evidence \<Rightarrow> bool" where
  "evidence_known ev \<longleftrightarrow> ce_witness_identity ev \<noteq> []"

record waste_ledger =
  wl_entries :: "ledger_entry list"
  wl_totals :: ledger_totals
  wl_reclaimed :: "(string \<times> nat) list"
  wl_reuse_credit_given :: "(string \<times> nat) list"
  wl_overlap_credit_given :: "(string \<times> nat) list"
  wl_next_seq :: nat

definition totals_zero :: ledger_totals where
  "totals_zero = \<lparr> lt_spent_work_mib_ms = 0, lt_useful_tokens = 0, lt_wasted_tokens = 0,
     lt_speculation_misses = 0, lt_waste_spec_ms = 0, lt_wasted_mib = 0, lt_reuse_credit_ms = 0,
     lt_overlap_credit_ms = 0 \<rparr>"

definition ledger_new :: waste_ledger where
  "ledger_new = \<lparr> wl_entries = [], wl_totals = totals_zero, wl_reclaimed = [],
     wl_reuse_credit_given = [], wl_overlap_credit_given = [], wl_next_seq = 0 \<rparr>"

fun charge :: "ledger_class \<Rightarrow> nat \<Rightarrow> nat \<Rightarrow> ledger_totals \<Rightarrow> ledger_totals" where
  "charge AuthoritativeUseful work tokens t =
     t\<lparr> lt_useful_tokens := sat_add64 (lt_useful_tokens t) tokens \<rparr>"
| "charge AuthoritativeDiscarded work tokens t =
     t\<lparr> lt_wasted_tokens := sat_add64 (lt_wasted_tokens t) tokens \<rparr>"
| "charge SpeculationMiss work tokens t =
     t\<lparr> lt_speculation_misses := sat_add64 (lt_speculation_misses t) 1,
        lt_waste_spec_ms := sat_add64 (lt_waste_spec_ms t) tokens,
        lt_wasted_mib := sat_add64 (lt_wasted_mib t) work \<rparr>"

definition record_spent ::
  "ledger_class \<Rightarrow> string \<Rightarrow> nat \<Rightarrow> nat \<Rightarrow> nat \<Rightarrow> (waste_ledger, metabolism_error, nat) op" where
  "record_spent class token_identity work tokens gen l =
     (let seq = wl_next_seq l;
          entry = \<lparr> en_seq = seq, en_gen = gen, en_class = class, en_token_identity = token_identity,
                    en_work_mib_ms = work, en_tokens = tokens \<rparr>;
          t = charge class work tokens (wl_totals l)
      in (Inr seq, l\<lparr> wl_next_seq := sat_add64 (wl_next_seq l) 1,
           wl_totals := t\<lparr> lt_spent_work_mib_ms := sat_add64 (lt_spent_work_mib_ms t) work \<rparr>,
           wl_entries := wl_entries l @ [entry] \<rparr>))"

definition record_reclaim :: "string \<Rightarrow> nat \<Rightarrow> (waste_ledger, metabolism_error, bool) op" where
  "record_reclaim identity base_seq l =
     (if identity = [] then (Inl (InvalidArtifact ''empty reclaim identity''), l)
      else if hget (wl_reclaimed l) identity \<noteq> None
      then (Inl (DoubleCredit (''reclaim for '' @ identity @ '' already recorded'')), l)
      else (Inr True, l\<lparr> wl_reclaimed := hput identity base_seq (wl_reclaimed l) \<rparr>))"

definition grant_reuse_credit :: "credit_evidence \<Rightarrow> (waste_ledger, metabolism_error, bool) op" where
  "grant_reuse_credit ev l =
     (if \<not> evidence_known ev then (Inl (FailClosedError ''unknown credit evidence''), l)
      else if hget (wl_reclaimed l) (ce_witness_identity ev) = None
      then (Inl (InvalidArtifact ''reuse credit requires a prior reclaim for the same identity''), l)
      else if hget (wl_reuse_credit_given l) (ce_witness_identity ev) \<noteq> None
           \<or> hget (wl_overlap_credit_given l) (ce_witness_identity ev) \<noteq> None
      then (Inl (DoubleCredit (''identity '' @ ce_witness_identity ev @ '' already credited'')), l)
      else (Inr True, l\<lparr>
        wl_reuse_credit_given := hput (ce_witness_identity ev) (ce_redeems_tokens ev) (wl_reuse_credit_given l),
        wl_totals := (wl_totals l)\<lparr> lt_reuse_credit_ms :=
          sat_add64 (lt_reuse_credit_ms (wl_totals l)) (ce_redeems_tokens ev) \<rparr> \<rparr>))"

definition grant_overlap_credit :: "string \<Rightarrow> nat \<Rightarrow> (waste_ledger, metabolism_error, bool) op" where
  "grant_overlap_credit witness bytes_moved l =
     (if bytes_moved = 0 then (Inl (FailClosedError ''overlap credit without measured bytes''), l)
      else if hget (wl_reuse_credit_given l) witness \<noteq> None
           \<or> hget (wl_overlap_credit_given l) witness \<noteq> None
      then (Inl (DoubleCredit (''credit identity '' @ witness @ '' already credited'')), l)
      else (Inr True, l\<lparr>
        wl_overlap_credit_given := hput witness bytes_moved (wl_overlap_credit_given l),
        wl_totals := (wl_totals l)\<lparr> lt_overlap_credit_ms :=
          sat_add64 (lt_overlap_credit_ms (wl_totals l)) bytes_moved \<rparr> \<rparr>))"

definition ledger_len :: "waste_ledger \<Rightarrow> nat" where
  "ledger_len l = length (wl_entries l)"

definition ledger_is_empty :: "waste_ledger \<Rightarrow> bool" where
  "ledger_is_empty l \<longleftrightarrow> wl_entries l = []"

subsection \<open>Reclaim: what spent work may be reused\<close>

datatype reclaim_decision = ReclaimExact | ReclaimConditional | ReclaimInformational | ReclaimUnrecoverable

definition classify ::
  "waste_ledger \<Rightarrow> nat \<Rightarrow> artifact_envelope \<Rightarrow> metabolism_error + reclaim_decision" where
  "classify l entry_seq current = (case find (\<lambda>e. en_seq e = entry_seq) (wl_entries l) of
     None \<Rightarrow> Inl (InvariantViolation (''sequence '' @ dec_digits entry_seq @ '' not recorded''))
   | Some e \<Rightarrow> (case en_class e of
       SpeculationMiss \<Rightarrow> Inr ReclaimUnrecoverable
     | AuthoritativeDiscarded \<Rightarrow> Inr ReclaimUnrecoverable
     | AuthoritativeUseful \<Rightarrow> (case ae_correctness_class current of
         ExactReusable \<Rightarrow> Inr ReclaimExact
       | ConditionalReusable \<Rightarrow> Inr ReclaimConditional
       | InformationalOnly \<Rightarrow> Inr ReclaimInformational
       | Unrecoverable \<Rightarrow> Inr ReclaimUnrecoverable)))"

subsection \<open>Sequences of ledger calls\<close>

datatype ledger_call =
    CallSpent ledger_class string nat nat nat
  | CallReclaim string nat
  | CallReuse credit_evidence
  | CallOverlap string nat

fun ledger_call_step :: "ledger_call \<Rightarrow> waste_ledger \<Rightarrow> waste_ledger" where
  "ledger_call_step (CallSpent c i w t g) l = snd (record_spent c i w t g l)"
| "ledger_call_step (CallReclaim i s) l = snd (record_reclaim i s l)"
| "ledger_call_step (CallReuse ev) l = snd (grant_reuse_credit ev l)"
| "ledger_call_step (CallOverlap i b) l = snd (grant_overlap_credit i b l)"

definition ledger_run :: "ledger_call list \<Rightarrow> waste_ledger \<Rightarrow> waste_ledger" where
  "ledger_run cs l = fold ledger_call_step cs l"

definition of_class :: "ledger_class \<Rightarrow> waste_ledger \<Rightarrow> ledger_entry list" where
  "of_class c l = filter (\<lambda>e. en_class e = c) (wl_entries l)"

text \<open>What the totals have to be, read off the entries and the credits.\<close>

definition totals_of :: "waste_ledger \<Rightarrow> ledger_totals" where
  "totals_of l = (let cut = min u64_max; sum = (\<lambda>f c. sum_list (map f (of_class c l))) in
     \<lparr> lt_spent_work_mib_ms = cut (sum_list (map en_work_mib_ms (wl_entries l))),
       lt_useful_tokens = cut (sum en_tokens AuthoritativeUseful),
       lt_wasted_tokens = cut (sum en_tokens AuthoritativeDiscarded),
       lt_speculation_misses = cut (length (of_class SpeculationMiss l)),
       lt_waste_spec_ms = cut (sum en_tokens SpeculationMiss),
       lt_wasted_mib = cut (sum en_work_mib_ms SpeculationMiss),
       lt_reuse_credit_ms = cut (sum_list (map snd (wl_reuse_credit_given l))),
       lt_overlap_credit_ms = cut (sum_list (map snd (wl_overlap_credit_given l))) \<rparr>)"

definition credit_ok :: "waste_ledger \<Rightarrow> bool" where
  "credit_ok l \<longleftrightarrow> hdistinct (wl_reclaimed l) \<and> hdistinct (wl_reuse_credit_given l)
     \<and> hdistinct (wl_overlap_credit_given l)
     \<and> fst ` set (wl_reuse_credit_given l) \<subseteq> fst ` set (wl_reclaimed l)
     \<and> fst ` set (wl_reuse_credit_given l) \<inter> fst ` set (wl_overlap_credit_given l) = {}
     \<and> [] \<notin> fst ` set (wl_reclaimed l) \<and> 0 \<notin> snd ` set (wl_overlap_credit_given l)"

definition numbered :: "waste_ledger \<Rightarrow> bool" where
  "numbered l \<longleftrightarrow> wl_next_seq l = min u64_max (length (wl_entries l))
     \<and> map en_seq (wl_entries l) = map (min u64_max) [0..<length (wl_entries l)]"

definition ledger_ok :: "waste_ledger \<Rightarrow> bool" where
  "ledger_ok l \<longleftrightarrow> wl_totals l = totals_of l \<and> credit_ok l \<and> numbered l"

lemma sat_add64_cut [simp]: "sat_add64 (min u64_max s) x = min u64_max (s + x)"
  by (simp add: sat_add64_def)

lemma hput_fresh: "hget m k = None \<Longrightarrow> hput k v m = m @ [(k, v)]"
  by (induction m) (auto split: if_splits)

lemma ledger_new_ok: "ledger_ok ledger_new"
  by (simp add: ledger_ok_def ledger_new_def totals_of_def totals_zero_def credit_ok_def numbered_def
      of_class_def Let_def)

lemma record_spent_ok: "ledger_ok l \<Longrightarrow> ledger_ok (snd (record_spent c i w t g l))"
  by (cases c) (simp_all add: ledger_ok_def record_spent_def Let_def totals_of_def of_class_def credit_ok_def
      numbered_def)

lemma hget_None_fst: "hget m k = None \<longleftrightarrow> k \<notin> fst ` set m"
  by (rule map_of_eq_None_iff)

text \<open>One lemma per way a map grows; refused calls change nothing.\<close>

lemma ledger_ok_reclaim:
  assumes "ledger_ok l" "hget (wl_reclaimed l) i = None" "i \<noteq> []"
  shows "ledger_ok (l\<lparr> wl_reclaimed := wl_reclaimed l @ [(i, s)] \<rparr>)"
  using assms unfolding ledger_ok_def totals_of_def of_class_def credit_ok_def numbered_def hget_None_fst
  by (simp add: Let_def subset_insertI2)

lemma ledger_ok_reuse:
  assumes "ledger_ok l" "i \<in> fst ` set (wl_reclaimed l)"
    and "hget (wl_reuse_credit_given l) i = None" "hget (wl_overlap_credit_given l) i = None"
  shows "ledger_ok (l\<lparr> wl_reuse_credit_given := wl_reuse_credit_given l @ [(i, t)],
     wl_totals := (wl_totals l)\<lparr> lt_reuse_credit_ms := sat_add64 (lt_reuse_credit_ms (wl_totals l)) t \<rparr> \<rparr>)"
  using assms unfolding ledger_ok_def totals_of_def of_class_def credit_ok_def numbered_def hget_None_fst
  by (simp add: Let_def)

lemma ledger_ok_overlap:
  assumes "ledger_ok l" "n \<noteq> 0"
    and "hget (wl_reuse_credit_given l) i = None" "hget (wl_overlap_credit_given l) i = None"
  shows "ledger_ok (l\<lparr> wl_overlap_credit_given := wl_overlap_credit_given l @ [(i, n)],
     wl_totals := (wl_totals l)\<lparr> lt_overlap_credit_ms := sat_add64 (lt_overlap_credit_ms (wl_totals l)) n \<rparr> \<rparr>)"
  using assms unfolding ledger_ok_def totals_of_def of_class_def credit_ok_def numbered_def hget_None_fst
  by (simp add: Let_def)

lemma record_reclaim_ok: "ledger_ok l \<Longrightarrow> ledger_ok (snd (record_reclaim i s l))"
  by (simp add: record_reclaim_def hput_fresh ledger_ok_reclaim)

lemma grant_reuse_credit_ok:
  assumes "ledger_ok l"
  shows "ledger_ok (snd (grant_reuse_credit ev l))"
proof (cases "hget (wl_reclaimed l) (ce_witness_identity ev)")
  case None
  then show ?thesis using assms by (simp add: grant_reuse_credit_def)
next
  case (Some s)
  then have "ce_witness_identity ev \<in> fst ` set (wl_reclaimed l)"
    by (force dest: map_of_SomeD)
  from ledger_ok_reuse [OF assms this] show ?thesis
    using assms Some by (simp add: grant_reuse_credit_def hput_fresh)
qed

lemma grant_overlap_credit_ok: "ledger_ok l \<Longrightarrow> ledger_ok (snd (grant_overlap_credit i b l))"
  by (simp add: grant_overlap_credit_def hput_fresh ledger_ok_overlap)

lemma ledger_call_step_ok: "ledger_ok l \<Longrightarrow> ledger_ok (ledger_call_step c l)"
  by (cases c) (simp_all add: record_spent_ok record_reclaim_ok grant_reuse_credit_ok grant_overlap_credit_ok)

lemma ledger_run_ok: "ledger_ok l \<Longrightarrow> ledger_ok (ledger_run cs l)"
  unfolding ledger_run_def by (induction cs arbitrary: l) (simp_all add: ledger_call_step_ok)

text \<open>C17: the ledger is an exact book of record.  After any sequence of calls on a new ledger,
  refused ones included, every total is the sum over the entries (or over the credits) it stands for,
  cut off at the largest \<open>u64\<close>; the entries carry consecutive sequence numbers; reuse credit was given
  only to reclaimed identities, and no identity has both kinds of credit.  Overlap credit needs no
  reclaim, and the code asks for none (\<open>demo_overlap_granted\<close>).\<close>

theorem ledger_totals_are_exact:
  "wl_totals (ledger_run cs ledger_new) = totals_of (ledger_run cs ledger_new)
   \<and> credit_ok (ledger_run cs ledger_new) \<and> numbered (ledger_run cs ledger_new)"
  using ledger_run_ok [OF ledger_new_ok, of cs] by (simp add: ledger_ok_def)

subsection \<open>Credit is given once\<close>

definition credited :: "waste_ledger \<Rightarrow> string \<Rightarrow> bool" where
  "credited l i \<longleftrightarrow> hget (wl_reuse_credit_given l) i \<noteq> None \<or> hget (wl_overlap_credit_given l) i \<noteq> None"

lemma credited_step: "credited l i \<Longrightarrow> credited (ledger_call_step c l) i"
  by (cases c) (auto simp: credited_def record_spent_def record_reclaim_def grant_reuse_credit_def
      grant_overlap_credit_def Let_def)

lemma credited_run: "credited l i \<Longrightarrow> credited (ledger_run cs l) i"
  unfolding ledger_run_def by (induction cs arbitrary: l) (simp_all add: credited_step)

lemma granted_credit:
  "grant_reuse_credit ev l = (Inr b, l') \<Longrightarrow> credited l' (ce_witness_identity ev) \<and> \<not> credited l (ce_witness_identity ev)"
  "grant_overlap_credit i n l = (Inr b, l') \<Longrightarrow> credited l' i \<and> \<not> credited l i"
  by (auto simp: grant_reuse_credit_def grant_overlap_credit_def credited_def split: if_splits)

text \<open>C33: once reuse or overlap credit was granted for an identity, no later call grants it credit
  again, whatever happens in between: the call is refused and leaves the ledger as it is.\<close>

theorem credit_is_given_once:
  assumes "grant_reuse_credit ev l = (Inr b, l1) \<and> i = ce_witness_identity ev
           \<or> grant_overlap_credit i n l = (Inr b, l1)"
    and "ce_witness_identity ev' = i"
  shows "(\<exists>e. grant_overlap_credit i n' (ledger_run cs l1) = (Inl e, ledger_run cs l1))
       \<and> (\<exists>e. grant_reuse_credit ev' (ledger_run cs l1) = (Inl e, ledger_run cs l1))"
proof -
  have "credited (ledger_run cs l1) i" using assms(1) granted_credit credited_run by blast
  then show ?thesis using assms(2)
    by (auto simp: grant_overlap_credit_def grant_reuse_credit_def credited_def)
qed

lemma demo_overlap_granted:
  "grant_overlap_credit ''a'' 3 ledger_new
   = (Inr True, ledger_new\<lparr> wl_overlap_credit_given := [(''a'', 3)],
        wl_totals := totals_zero\<lparr> lt_overlap_credit_ms := 3 \<rparr> \<rparr>)"
  by (simp add: grant_overlap_credit_def ledger_new_def totals_zero_def sat_add64_def u64_max_def)

theorem credit_is_given_once_witness:
  "(\<exists>e. grant_overlap_credit ''a'' 5 (ledger_run [CallReclaim ''a'' 0] (snd (grant_overlap_credit ''a'' 3 ledger_new)))
        = (Inl e, ledger_run [CallReclaim ''a'' 0] (snd (grant_overlap_credit ''a'' 3 ledger_new))))
   \<and> (\<exists>e. grant_reuse_credit \<lparr> ce_witness_identity = ''a'', ce_redeems_tokens = 7, ce_bytes_moved = 1, ce_replay_gen = 0 \<rparr>
          (ledger_run [CallReclaim ''a'' 0] (snd (grant_overlap_credit ''a'' 3 ledger_new)))
        = (Inl e, ledger_run [CallReclaim ''a'' 0] (snd (grant_overlap_credit ''a'' 3 ledger_new))))"
  unfolding demo_overlap_granted snd_conv
  by (rule credit_is_given_once [OF disjI2 [OF demo_overlap_granted]]) simp

text \<open>The identity of exact work is not compared with the entries: the same token recorded twice counts
  twice, although the crate promises that nothing is counted double.\<close>

lemma same_token_counts_twice:
  "lt_useful_tokens (wl_totals (ledger_run
     [CallSpent AuthoritativeUseful ''token@0'' 1 1 1, CallSpent AuthoritativeUseful ''token@0'' 1 1 1] ledger_new)) = 2"
  by (simp add: ledger_run_def record_spent_def ledger_new_def totals_zero_def Let_def sat_add64_def u64_max_def)

text \<open>Overlap credit, a number of milliseconds, grows by the number of bytes moved.\<close>

lemma overlap_credit_is_bytes:
  "lt_overlap_credit_ms (wl_totals (snd (grant_overlap_credit ''x'' 4096 ledger_new))) = 4096"
  by (simp add: grant_overlap_credit_def ledger_new_def totals_zero_def sat_add64_def u64_max_def)

lemma speculation_is_never_reused:
  "find (\<lambda>e. en_seq e = s) (wl_entries l) = Some e \<Longrightarrow> en_class e \<noteq> AuthoritativeUseful \<Longrightarrow>
   classify l s env = Inr ReclaimUnrecoverable"
  by (cases "en_class e") (simp_all add: classify_def)

lemma classify_refuses_unknown:
  "s \<notin> set (map en_seq (wl_entries l)) \<Longrightarrow>
   classify l s env = Inl (InvariantViolation (''sequence '' @ dec_digits s @ '' not recorded''))"
proof -
  assume "s \<notin> set (map en_seq (wl_entries l))"
  then have "find (\<lambda>e. en_seq e = s) (wl_entries l) = None" by (auto simp: find_None_iff)
  then show ?thesis by (simp add: classify_def)
qed

end
