(* ===== verification/Reserve_Table.thy ===== *)
theory Reserve_Table
  imports Float64
begin

text \<open>
  \<open>har-metabolism/src/reserve.rs\<close>: reserve accounts with a protected floor, debt and a pressure class,
  and the table of accounts by dimension.

  The theorems follow a table through any sequence of calls: what is committed never exceeds the
  capacity, optional work never reaches into the protected floor or the debt, and the pressure class is
  always that of the numbers it summarises.
\<close>

datatype reserve_dim = DimVram | DimRam | NvmeReadBudget | GpuCompute | CpuBudget | QueueFenceSlack | EnergyThermal

definition all_dims :: "reserve_dim list" where
  "all_dims = [DimVram, DimRam, NvmeReadBudget, GpuCompute, CpuBudget, QueueFenceSlack, EnergyThermal]"

lemma all_dims_complete: "set all_dims = UNIV \<and> distinct all_dims"
  by (auto simp: all_dims_def intro: reserve_dim.exhaust)

datatype pressure_class = PressureLow | PressureNormal | PressureElevated | PressureCritical

definition pressure_rank :: "pressure_class \<Rightarrow> nat" where
  "pressure_rank p = (case p of PressureLow \<Rightarrow> 0 | PressureNormal \<Rightarrow> 1 | PressureElevated \<Rightarrow> 2 | PressureCritical \<Rightarrow> 3)"

instantiation pressure_class :: linorder
begin

definition less_eq_pressure_class :: "pressure_class \<Rightarrow> pressure_class \<Rightarrow> bool" where
  "less_eq_pressure_class p q \<longleftrightarrow> pressure_rank p \<le> pressure_rank q"

definition less_pressure_class :: "pressure_class \<Rightarrow> pressure_class \<Rightarrow> bool" where
  "less_pressure_class p q \<longleftrightarrow> pressure_rank p < pressure_rank q"

instance
  by standard (auto simp: less_eq_pressure_class_def less_pressure_class_def pressure_rank_def split: pressure_class.splits)

end

definition pressure_from_ratio :: "nat \<Rightarrow> nat \<Rightarrow> pressure_class" where
  "pressure_from_ratio used capacity =
     (if capacity = 0 then PressureCritical
      else let ratio = divide64 (of_u64 used) (of_u64 capacity) in
        if leq64 (round_rat (95 / 100)) ratio then PressureCritical
        else if leq64 (round_rat (8 / 10)) ratio then PressureElevated
        else if leq64 (round_rat (6 / 10)) ratio then PressureNormal
        else PressureLow)"

record reserve_account =
  ra_capacity :: nat
  ra_committed :: nat
  ra_protected_min :: nat
  ra_debt :: nat
  ra_recovery_epoch :: nat
  ra_fail_closed :: bool
  ra_pressure :: pressure_class

definition account_new :: "nat \<Rightarrow> nat \<Rightarrow> reserve_account" where
  "account_new capacity protected = \<lparr> ra_capacity = capacity, ra_committed = 0, ra_protected_min = protected,
     ra_debt = 0, ra_recovery_epoch = 0, ra_fail_closed = False, ra_pressure = pressure_from_ratio 0 capacity \<rparr>"

definition account_available :: "reserve_account \<Rightarrow> nat" where
  "account_available a = (if ra_fail_closed a then 0
     else ra_capacity a - sat_add64 (sat_add64 (ra_protected_min a) (ra_committed a)) (ra_debt a))"

definition account_check :: "nat \<Rightarrow> reserve_account \<Rightarrow> bool" where
  "account_check need a \<longleftrightarrow> need \<le> account_available a"

definition refresh_pressure :: "reserve_account \<Rightarrow> reserve_account" where
  "refresh_pressure a = a\<lparr> ra_pressure := pressure_from_ratio (sat_add64 (ra_committed a) (ra_debt a)) (ra_capacity a) \<rparr>"

definition account_commit :: "nat \<Rightarrow> reserve_account \<Rightarrow> bool \<times> reserve_account" where
  "account_commit need a = (if \<not> account_check need a then (False, a)
     else (True, refresh_pressure (a\<lparr> ra_committed := sat_add64 (ra_committed a) need \<rparr>)))"

definition account_release :: "nat \<Rightarrow> reserve_account \<Rightarrow> reserve_account" where
  "account_release need a = refresh_pressure (a\<lparr> ra_committed := ra_committed a - min need (ra_committed a) \<rparr>)"

definition account_mobilize :: "nat \<Rightarrow> nat \<Rightarrow> reserve_account \<Rightarrow> bool \<times> reserve_account" where
  "account_mobilize need now a =
     (if need > ra_capacity a - ra_committed a then (False, a)
      else let borrow_before = ra_committed a - (ra_capacity a - ra_protected_min a);
               committed = sat_add64 (ra_committed a) need;
               borrow_after = committed - (ra_capacity a - ra_protected_min a)
           in (True, refresh_pressure (a\<lparr> ra_committed := committed,
                 ra_debt := sat_add64 (ra_debt a) (borrow_after - borrow_before),
                 ra_recovery_epoch := sat_add64 now 100 \<rparr>)))"

definition post_action_viable :: "pressure_class \<Rightarrow> reserve_account \<Rightarrow> bool" where
  "post_action_viable target a \<longleftrightarrow> ra_pressure a \<le> target"

definition settle_debt :: "nat \<Rightarrow> reserve_account \<Rightarrow> reserve_account" where
  "settle_debt epoch a = (if ra_recovery_epoch a \<le> epoch
     then refresh_pressure (a\<lparr> ra_debt := 0, ra_recovery_epoch := 0 \<rparr>) else a)"

subsection \<open>The table\<close>

record reserve_table =
  rt_accounts :: "reserve_dim \<rightharpoonup> reserve_account"
  rt_epoch :: nat

definition table_new :: "(reserve_dim \<times> nat \<times> nat) list \<Rightarrow> reserve_table" where
  "table_new capacities = \<lparr> rt_accounts =
     fold (\<lambda>(d, capacity, protected) m. m(d \<mapsto> account_new capacity protected)) capacities Map.empty, rt_epoch = 0 \<rparr>"

definition table_account :: "reserve_dim \<Rightarrow> reserve_table \<Rightarrow> reserve_account" where
  "table_account d t = (case rt_accounts t d of Some a \<Rightarrow> a | None \<Rightarrow> account_new 0 0)"

definition table_check :: "reserve_dim \<Rightarrow> nat \<Rightarrow> reserve_table \<Rightarrow> bool" where
  "table_check d need t = account_check need (table_account d t)"

definition table_commit :: "reserve_dim \<Rightarrow> nat \<Rightarrow> reserve_table \<Rightarrow> bool \<times> reserve_table" where
  "table_commit d need t = (if d = EnergyThermal then (True, t)
     else case account_commit need (table_account d t) of
       (ok, a) \<Rightarrow> (ok, t\<lparr> rt_accounts := (rt_accounts t)(d \<mapsto> a) \<rparr>))"

definition table_release :: "reserve_dim \<Rightarrow> nat \<Rightarrow> reserve_table \<Rightarrow> reserve_table" where
  "table_release d need t = (case rt_accounts t d of None \<Rightarrow> t
     | Some a \<Rightarrow> t\<lparr> rt_accounts := (rt_accounts t)(d \<mapsto> account_release need a) \<rparr>)"

definition table_mobilize :: "reserve_dim \<Rightarrow> nat \<Rightarrow> nat \<Rightarrow> reserve_table \<Rightarrow> bool \<times> reserve_table" where
  "table_mobilize d need now t = (case rt_accounts t d of None \<Rightarrow> (False, t)
     | Some a \<Rightarrow> (case account_mobilize need now a of
         (ok, a') \<Rightarrow> (ok, t\<lparr> rt_accounts := (rt_accounts t)(d \<mapsto> a') \<rparr>)))"

definition table_advance :: "nat \<Rightarrow> reserve_table \<Rightarrow> reserve_table" where
  "table_advance epoch t = t\<lparr> rt_epoch := epoch, rt_accounts := (\<lambda>d. map_option (settle_debt epoch) (rt_accounts t d)) \<rparr>"

definition footprint :: "reserve_dim \<Rightarrow> reserve_table \<Rightarrow> nat" where
  "footprint d t = (case rt_accounts t d of None \<Rightarrow> 0 | Some a \<Rightarrow> sat_add64 (ra_committed a) (ra_debt a))"

definition table_total_committed :: "reserve_table \<Rightarrow> nat" where
  "table_total_committed t = wadd64 (footprint DimVram t) (footprint DimRam t)"

subsection \<open>Sequences of calls\<close>

datatype reserve_call =
    Commit reserve_dim nat | Release reserve_dim nat | Mobilize reserve_dim nat nat | AdvanceTo nat

fun reserve_step :: "reserve_call \<Rightarrow> reserve_table \<Rightarrow> reserve_table" where
  "reserve_step (Commit d n) t = snd (table_commit d n t)"
| "reserve_step (Release d n) t = table_release d n t"
| "reserve_step (Mobilize d n now) t = snd (table_mobilize d n now t)"
| "reserve_step (AdvanceTo e) t = table_advance e t"

definition reserve_run :: "reserve_call list \<Rightarrow> reserve_table \<Rightarrow> reserve_table" where
  "reserve_run cs t = fold reserve_step cs t"

definition account_ok :: "reserve_account \<Rightarrow> bool" where
  "account_ok a \<longleftrightarrow> ra_capacity a \<le> u64_max \<and> ra_committed a \<le> ra_capacity a
     \<and> ra_pressure a = pressure_from_ratio (sat_add64 (ra_committed a) (ra_debt a)) (ra_capacity a)"

definition table_ok :: "reserve_table \<Rightarrow> bool" where
  "table_ok t \<longleftrightarrow> (\<forall>a\<in>ran (rt_accounts t). account_ok a)"

lemma account_ok_refresh:
  "account_ok (refresh_pressure a) \<longleftrightarrow> ra_capacity a \<le> u64_max \<and> ra_committed a \<le> ra_capacity a"
  by (simp add: account_ok_def refresh_pressure_def)

lemma account_new_ok: "capacity \<le> u64_max \<Longrightarrow> account_ok (account_new capacity protected)"
  by (simp add: account_ok_def account_new_def sat_add64_def)

lemma account_available_le:
  "need \<noteq> 0 \<Longrightarrow> need \<le> account_available a \<Longrightarrow> ra_capacity a \<le> u64_max \<Longrightarrow>
   ra_protected_min a + ra_committed a + ra_debt a + need \<le> ra_capacity a"
  by (auto simp: account_available_def sat_add64_def min_def split: if_splits)

lemma account_commit_ok:
  assumes "account_ok a"
  shows "account_ok (snd (account_commit need a))"
proof (cases "need = 0")
  case True
  then show ?thesis using assms
    by (simp add: account_commit_def account_ok_refresh) (simp add: account_ok_def sat_add64_def)
next
  case False
  then show ?thesis using assms account_available_le [OF False, of a]
    by (auto simp: account_commit_def account_check_def account_ok_refresh)
      (auto simp: account_ok_def sat_add64_def)
qed

lemma account_release_ok: "account_ok a \<Longrightarrow> account_ok (account_release need a)"
  unfolding account_release_def account_ok_refresh by (auto simp: account_ok_def)

lemma account_mobilize_ok: "account_ok a \<Longrightarrow> account_ok (snd (account_mobilize need now a))"
  unfolding account_mobilize_def Let_def
  by (simp add: account_ok_refresh) (auto simp: account_ok_def sat_add64_def)

lemma settle_debt_ok: "account_ok a \<Longrightarrow> account_ok (settle_debt epoch a)"
  unfolding settle_debt_def by (simp add: account_ok_refresh) (simp add: account_ok_def)

lemma table_okI: "(\<And>d a. rt_accounts t d = Some a \<Longrightarrow> account_ok a) \<Longrightarrow> table_ok t"
  by (auto simp: table_ok_def ran_def)

lemma table_okD: "table_ok t \<Longrightarrow> rt_accounts t d = Some a \<Longrightarrow> account_ok a"
  by (auto simp: table_ok_def ran_def)

lemma table_account_ok: "table_ok t \<Longrightarrow> account_ok (table_account d t)"
  by (auto simp: table_account_def account_new_ok dest: table_okD split: option.splits)

lemma accounts_from_ok:
  assumes "\<forall>(d, capacity, protected)\<in>set cs. capacity \<le> u64_max" "\<forall>a\<in>ran m. account_ok a"
  shows "\<forall>a\<in>ran (fold (\<lambda>(d, capacity, protected) m. m(d \<mapsto> account_new capacity protected)) cs m). account_ok a"
  using assms
proof (induction cs arbitrary: m)
  case (Cons c cs)
  obtain d capacity protected where c: "c = (d, capacity, protected)" by (cases c) auto
  have "\<forall>a\<in>ran (m(d \<mapsto> account_new capacity protected)). account_ok a"
    using Cons.prems c account_new_ok [of capacity protected] by (auto simp: ran_def)
  moreover have "\<forall>(d, capacity, protected)\<in>set cs. capacity \<le> u64_max" using Cons.prems(1) by auto
  ultimately show ?case using Cons.IH unfolding c by (simp del: fun_upd_apply)
qed simp

lemma table_new_ok: "\<forall>(d, capacity, protected)\<in>set cs. capacity \<le> u64_max \<Longrightarrow> table_ok (table_new cs)"
  using accounts_from_ok [of cs Map.empty] by (simp add: table_ok_def table_new_def)

lemma reserve_step_ok:
  assumes "table_ok t"
  shows "table_ok (reserve_step c t)"
proof (cases c)
  case (Commit d n)
  obtain ok a where a: "account_commit n (table_account d t) = (ok, a)" by fastforce
  have "account_ok a" using account_commit_ok [OF table_account_ok [OF assms], of n d] a by simp
  then show ?thesis using Commit a assms
    by (auto simp: table_commit_def intro!: table_okI dest: table_okD split: if_splits)
next
  case (Release d n)
  then show ?thesis using assms account_release_ok table_okD [OF assms]
    by (auto simp: table_release_def intro!: table_okI split: option.splits if_splits)
next
  case (Mobilize d n now)
  show ?thesis
  proof (cases "rt_accounts t d")
    case None
    then show ?thesis using Mobilize assms by (simp add: table_mobilize_def)
  next
    case (Some a)
    have "account_ok (snd (account_mobilize n now a))"
      using account_mobilize_ok table_okD [OF assms Some] by blast
    then show ?thesis using Mobilize Some assms
      by (auto simp: table_mobilize_def intro!: table_okI dest: table_okD split: prod.splits if_splits)
  qed
next
  case (AdvanceTo e)
  then show ?thesis
    using settle_debt_ok table_okD [OF assms] by (auto simp: table_advance_def intro!: table_okI)
qed

lemma reserve_run_ok: "table_ok t \<Longrightarrow> table_ok (reserve_run cs t)"
  unfolding reserve_run_def by (induction cs arbitrary: t) (simp_all add: reserve_step_ok)

text \<open>C34: a reserve table keeps its limits.  After any sequence of commits, releases, mobilisations and
  epochs, what a dimension has committed is at most its capacity and its pressure class is that of
  committed plus debt; and a commit of at least one unit succeeds only if the protected minimum, what
  is committed, the debt and the new amount fit into the capacity together, so that optional work
  never takes the floor.\<close>

theorem reserve_floor_is_kept:
  assumes "\<forall>(d, capacity, protected)\<in>set caps. capacity \<le> u64_max"
    and "rt_accounts (reserve_run cs (table_new caps)) d = Some a"
  shows "ra_committed a \<le> ra_capacity a
     \<and> ra_pressure a = pressure_from_ratio (sat_add64 (ra_committed a) (ra_debt a)) (ra_capacity a)
     \<and> (need \<noteq> 0 \<and> fst (account_commit need a) \<longrightarrow>
          ra_protected_min a + ra_committed a + ra_debt a + need \<le> ra_capacity a
          \<and> ra_committed (snd (account_commit need a)) = ra_committed a + need)"
proof -
  have ok: "account_ok a" by (rule table_okD [OF reserve_run_ok [OF table_new_ok [OF assms(1)]] assms(2)])
  moreover have "ra_protected_min a + ra_committed a + ra_debt a + need \<le> ra_capacity a"
    if "need \<noteq> 0" "fst (account_commit need a)"
    using that account_available_le [of need a] ok
    by (auto simp: account_commit_def account_check_def account_ok_def split: if_splits)
  ultimately show ?thesis
    by (auto simp: account_ok_def account_commit_def refresh_pressure_def sat_add64_def split: if_splits)
qed

lemma demo_reserve:
  "rt_accounts (reserve_run [Commit DimVram 0] (table_new [(DimVram, 100, 20)])) DimVram
     = Some (refresh_pressure (account_new 100 20))"
  by (simp add: reserve_run_def table_new_def table_commit_def table_account_def account_commit_def account_check_def
      sat_add64_def account_new_def u64_max_def)

theorem reserve_floor_is_kept_witness:
  "ra_committed (refresh_pressure (account_new 100 20)) \<le> 100
   \<and> \<not> fst (account_commit 81 (refresh_pressure (account_new 100 20)))"
proof -
  have "\<forall>(d, capacity, protected)\<in>set [(DimVram, 100::nat, 20::nat)]. capacity \<le> u64_max"
    by (simp add: u64_max_def)
  from reserve_floor_is_kept [OF this demo_reserve, of 81] show ?thesis
    by (simp add: refresh_pressure_def account_new_def)
qed

subsection \<open>Releasing, and what debt means\<close>

lemma commit_release_round_trip:
  assumes "account_ok a" "account_commit need a = (True, a')"
  shows "account_release need a' = a"
proof (cases "need = 0")
  case True
  then show ?thesis using assms
    by (auto simp: account_commit_def account_release_def refresh_pressure_def account_ok_def sat_add64_def split: if_splits)
next
  case False
  then have "ra_committed a + need \<le> u64_max"
    using assms account_available_le [OF False, of a]
    by (auto simp: account_commit_def account_check_def account_ok_def split: if_splits)
  then show ?thesis using assms
    by (auto simp: account_commit_def account_release_def refresh_pressure_def account_ok_def sat_add64_exact split: if_splits)
qed

text \<open>What is borrowed from the protected zone stays in \<open>ra_committed\<close> and is debt as well, so it counts
  twice in the pressure class and in the footprint; releasing it does not repay the debt, and borrowing
  it again adds to the debt.\<close>

lemma debt_grows_beyond_floor:
  "account_mobilize 20 0 (snd (account_commit 80 (account_new 100 20))) = (True, a) \<Longrightarrow>
   ra_committed a + ra_debt a = 120
   \<and> ra_debt (snd (account_mobilize 20 0 (account_release 20 a))) = 40"
  by (auto simp: account_mobilize_def account_commit_def account_check_def account_available_def account_new_def
      account_release_def refresh_pressure_def sat_add64_def u64_max_def Let_def)

text \<open>Settling forgives the debt while the committed amount still holds the protected zone.\<close>

lemma settling_keeps_committed:
  "ra_recovery_epoch a \<le> e \<Longrightarrow> ra_debt (settle_debt e a) = 0 \<and> ra_committed (settle_debt e a) = ra_committed a"
  by (simp add: settle_debt_def refresh_pressure_def)

lemma energy_is_never_committed: "table_commit EnergyThermal need t = (True, t)"
  by (simp add: table_commit_def)

end
