(* ===== verification/Metabolism_Policy.thy ===== *)
theory Metabolism_Policy
  imports Waste_Ledger Reserve_Table "HOL-Library.Signed_Division" "HOL-Library.Product_Lexorder" "HOL-Library.Multiset"
begin

text \<open>
  \<open>har-metabolism\<close>: the policies of the resource controller, none of which keeps a clock of the wall.
  \<open>setpoint.rs\<close> (how much has to stay resident), \<open>surplus.rs\<close> (how much may be spent beyond that),
  \<open>portion.rs\<close> (whether an increment of optional work is admitted), \<open>salvage.rs\<close> (which retained
  artifacts are worth their cost), \<open>baseline.rs\<close> (what unmanaged policies would do), \<open>energy.rs\<close> and
  \<open>energy_measurement.rs\<close> (energy labels and integrated power samples).

  \<open>None\<close> is a panic: \<open>clamp\<close> with its bounds in the wrong order, \<open>Vec::remove\<close> on an empty vector.
\<close>

definition sat_mul64 :: "nat \<Rightarrow> nat \<Rightarrow> nat" where
  "sat_mul64 a b = min (a * b) u64_max"

definition wrap_i64 :: "int \<Rightarrow> int" where
  "wrap_i64 x = (x + 2 ^ 63) mod 2 ^ 64 - 2 ^ 63"

definition sat_i64 :: "int \<Rightarrow> int" where
  "sat_i64 x = max (- (2 ^ 63)) (min (2 ^ 63 - 1) x)"

definition clamp_u32 :: "nat \<Rightarrow> nat \<Rightarrow> nat \<Rightarrow> nat option" where
  "clamp_u32 lo hi x = (if lo \<le> hi then Some (max lo (min hi x)) else None)"

subsection \<open>Moving maintenance setpoint\<close>

record maintenance_params =
  mp_vram_per_kv_mib :: nat
  mp_vram_activation_floor_mib :: nat
  mp_ram_activation_floor_mib :: nat
  mp_compute_ms_per_token :: nat
  mp_queue_depth_min :: nat
  mp_queue_depth_max :: nat

definition maintenance_params_default :: maintenance_params where
  "maintenance_params_default = \<lparr> mp_vram_per_kv_mib = 2, mp_vram_activation_floor_mib = 512,
     mp_ram_activation_floor_mib = 1024, mp_compute_ms_per_token = 2, mp_queue_depth_min = 2,
     mp_queue_depth_max = 8 \<rparr>"

record maintenance_observations =
  mo_kv_occupancy :: nat
  mo_mtp_acceptance_permille :: "nat option"
  mo_queue_depth :: nat

definition observations_default :: maintenance_observations where
  "observations_default = \<lparr> mo_kv_occupancy = 0, mo_mtp_acceptance_permille = None, mo_queue_depth = 0 \<rparr>"

record maintenance_setpoint =
  ms_vram_mib :: nat
  ms_ram_mib :: nat
  ms_compute_ms_per_token :: nat
  ms_queue_depth :: nat

definition setpoint_total_mib :: "maintenance_setpoint \<Rightarrow> nat" where
  "setpoint_total_mib s = sat_add64 (ms_vram_mib s) (ms_ram_mib s)"

definition setpoint_compute :: "maintenance_params \<Rightarrow> maintenance_observations \<Rightarrow> maintenance_setpoint option" where
  "setpoint_compute p obs = (case clamp_u32 (mp_queue_depth_min p) (mp_queue_depth_max p) (mo_queue_depth obs) of
     None \<Rightarrow> None
   | Some qd \<Rightarrow>
       let mtp = (case mo_mtp_acceptance_permille obs of None \<Rightarrow> 0 | Some m \<Rightarrow> m);
           mtp_scale = sat_add64 1000 mtp div 1000;
           kv_vram = wmul64 (sat_mul64 (mo_kv_occupancy obs) (mp_vram_per_kv_mib p)) mtp_scale;
           vram = sat_add64 (mp_vram_activation_floor_mib p) kv_vram;
           ram = sat_add64 (mp_ram_activation_floor_mib p) (vram div 2)
       in Some \<lparr> ms_vram_mib = vram, ms_ram_mib = ram, ms_compute_ms_per_token = qd, ms_queue_depth = qd \<rparr>)"

text \<open>The maintenance setpoint exists exactly when the queue bounds are in order, and then never
  falls below the activation floors, whatever is observed; its queue depth lies within the bounds.\<close>

theorem setpoint_keeps_floors:
  assumes "mp_vram_activation_floor_mib p \<le> u64_max" "mp_ram_activation_floor_mib p \<le> u64_max"
  shows "(setpoint_compute p obs = None \<longleftrightarrow> mp_queue_depth_max p < mp_queue_depth_min p)
     \<and> (setpoint_compute p obs = Some s \<longrightarrow>
          mp_vram_activation_floor_mib p \<le> ms_vram_mib s \<and> mp_ram_activation_floor_mib p \<le> ms_ram_mib s
          \<and> mp_queue_depth_min p \<le> ms_queue_depth s \<and> ms_queue_depth s \<le> mp_queue_depth_max p
          \<and> ms_vram_mib s \<le> u64_max \<and> ms_ram_mib s \<le> u64_max)"
proof (cases "mp_queue_depth_min p \<le> mp_queue_depth_max p")
  case True
  have floor: "f \<le> sat_add64 f x" "sat_add64 f x \<le> u64_max" if "f \<le> u64_max" for f x
    using that by (simp_all add: sat_add64_def)
  show ?thesis using True floor assms by (auto simp: setpoint_compute_def clamp_u32_def Let_def)
next
  case False
  then show ?thesis by (simp add: setpoint_compute_def clamp_u32_def)
qed

theorem setpoint_keeps_floors_witness:
  "setpoint_compute maintenance_params_default observations_default \<noteq> None"
  using setpoint_keeps_floors [of maintenance_params_default observations_default undefined]
  by (simp add: maintenance_params_default_def u64_max_def)

text \<open>The last product wraps: with full acceptance, \<open>2^62\<close> live tokens need no more memory than none.\<close>

lemma setpoint_can_wrap:
  "map_option ms_vram_mib (setpoint_compute maintenance_params_default
     \<lparr> mo_kv_occupancy = 2 ^ 62, mo_mtp_acceptance_permille = Some 1000, mo_queue_depth = 0 \<rparr>) = Some 512"
  by (simp add: setpoint_compute_def maintenance_params_default_def clamp_u32_def sat_add64_def sat_mul64_def
      wmul64_def u64_max_def Let_def)

text \<open>Acceptance below 1000 permille does not move the setpoint at all, and the compute field repeats the
  queue depth instead of the parameter.\<close>

lemma acceptance_is_ignored:
  "m < 1000 \<Longrightarrow> setpoint_compute p (obs\<lparr> mo_mtp_acceptance_permille := Some m \<rparr>)
            = setpoint_compute p (obs\<lparr> mo_mtp_acceptance_permille := None \<rparr>)"
  by (simp add: setpoint_compute_def sat_add64_def u64_max_def Let_def split: option.splits)

lemma compute_is_queue_depth:
  "setpoint_compute p obs = Some s \<Longrightarrow> ms_compute_ms_per_token s = ms_queue_depth s"
  by (auto simp: setpoint_compute_def Let_def split: option.splits)

subsection \<open>Safe surplus\<close>

record surplus_inputs =
  su_total_reserve :: nat
  su_maintenance_setpoint_mib :: nat
  su_miss_rate_penalty_mib :: nat
  su_contention_mib :: "nat option"
  su_interference_mib :: "nat option"
  su_unknown_shrinks :: bool

definition surplus_unknown :: surplus_inputs where
  "surplus_unknown = \<lparr> su_total_reserve = 0, su_maintenance_setpoint_mib = 0, su_miss_rate_penalty_mib = 0,
     su_contention_mib = None, su_interference_mib = None, su_unknown_shrinks = True \<rparr>"

record safe_surplus =
  ss_optional_mib :: nat
  ss_adjustment_record :: "nat list"

definition risk_adjustment :: "bool \<Rightarrow> nat option \<Rightarrow> nat \<Rightarrow> nat" where
  "risk_adjustment unknown_shrinks risk rest = (case risk of Some v \<Rightarrow> min v rest
     | None \<Rightarrow> if unknown_shrinks then rest div 2 else 0)"

definition surplus_compute :: "surplus_inputs \<Rightarrow> safe_surplus" where
  "surplus_compute i =
     (let gross = su_total_reserve i - su_maintenance_setpoint_mib i;
          miss_adj = su_miss_rate_penalty_mib i;
          after_miss = gross - miss_adj;
          contention_adj = risk_adjustment (su_unknown_shrinks i) (su_contention_mib i) after_miss;
          after_contention = after_miss - contention_adj;
          interference_adj = risk_adjustment (su_unknown_shrinks i) (su_interference_mib i) after_contention;
          optional = after_contention - interference_adj
      in \<lparr> ss_optional_mib = optional, ss_adjustment_record = [miss_adj, contention_adj, interference_adj, gross] \<rparr>)"

lemma risk_adjustment_le: "risk_adjustment b r rest \<le> rest"
  by (simp add: risk_adjustment_def split: option.splits)

lemma risk_rest_mono: "rest \<le> rest' \<Longrightarrow> rest - risk_adjustment b r rest \<le> rest' - risk_adjustment b r rest'"
  by (auto simp: risk_adjustment_def split: option.splits)

text \<open>The optional budget never exceeds what the reserve has beyond the maintenance setpoint; it is
  the gross surplus less the recorded adjustments, exactly; it does not grow when the setpoint or the
  miss penalty grows or the reserve shrinks; and with \<open>unknown_shrinks\<close> an unknown risk never leaves more
  than no risk does.\<close>

theorem surplus_is_safe:
  "ss_optional_mib (surplus_compute i) \<le> su_total_reserve i - su_maintenance_setpoint_mib i
   \<and> (\<exists>miss cont inter gross. ss_adjustment_record (surplus_compute i) = [miss, cont, inter, gross]
        \<and> gross = su_total_reserve i - su_maintenance_setpoint_mib i
        \<and> ss_optional_mib (surplus_compute i) + inter + cont = gross - miss)
   \<and> (su_total_reserve j \<le> su_total_reserve i \<and> su_maintenance_setpoint_mib i \<le> su_maintenance_setpoint_mib j
      \<and> su_miss_rate_penalty_mib i \<le> su_miss_rate_penalty_mib j \<and> su_contention_mib i = su_contention_mib j
      \<and> su_interference_mib i = su_interference_mib j \<and> su_unknown_shrinks i = su_unknown_shrinks j
      \<longrightarrow> ss_optional_mib (surplus_compute j) \<le> ss_optional_mib (surplus_compute i))
   \<and> ss_optional_mib (surplus_compute i) \<le> ss_optional_mib (surplus_compute
        (i\<lparr> su_contention_mib := Some 0, su_interference_mib := Some 0 \<rparr>))"
proof -
  let ?g = "su_total_reserve i - su_maintenance_setpoint_mib i - su_miss_rate_penalty_mib i"
  let ?c = "risk_adjustment (su_unknown_shrinks i) (su_contention_mib i) ?g"
  let ?n = "risk_adjustment (su_unknown_shrinks i) (su_interference_mib i) (?g - ?c)"
  have le: "?c \<le> ?g" "?n \<le> ?g - ?c" by (rule risk_adjustment_le)+
  have mono: "ss_optional_mib (surplus_compute j) \<le> ss_optional_mib (surplus_compute i)"
    if "su_total_reserve j \<le> su_total_reserve i" "su_maintenance_setpoint_mib i \<le> su_maintenance_setpoint_mib j"
      "su_miss_rate_penalty_mib i \<le> su_miss_rate_penalty_mib j" "su_contention_mib i = su_contention_mib j"
      "su_interference_mib i = su_interference_mib j" "su_unknown_shrinks i = su_unknown_shrinks j"
  proof -
    have "su_total_reserve j - su_maintenance_setpoint_mib j - su_miss_rate_penalty_mib j \<le> ?g"
      using that(1-3) by simp
    then show ?thesis unfolding surplus_compute_def Let_def safe_surplus.simps that(4-6)
      by (intro risk_rest_mono)
  qed
  have zero: "risk_adjustment b (Some 0) r = 0" for b r by (simp add: risk_adjustment_def)
  have opt: "ss_optional_mib (surplus_compute i) = ?g - ?c - ?n"
    and trail: "ss_adjustment_record (surplus_compute i) = [su_miss_rate_penalty_mib i, ?c, ?n,
      su_total_reserve i - su_maintenance_setpoint_mib i]"
    unfolding surplus_compute_def Let_def by simp_all
  have top: "ss_optional_mib (surplus_compute (i\<lparr> su_contention_mib := Some 0, su_interference_mib := Some 0 \<rparr>)) = ?g"
    unfolding surplus_compute_def Let_def by (simp add: zero)
  have "?g - ?c - ?n \<le> ?g" by (rule order_trans [OF diff_le_self diff_le_self])
  then have bound: "ss_optional_mib (surplus_compute i) \<le> ?g" unfolding opt .
  have "?g - ?c - ?n + ?n + ?c = ?g" unfolding le_add_diff_inverse2 [OF le(2)] le_add_diff_inverse2 [OF le(1)] ..
  then have sum: "ss_optional_mib (surplus_compute i) + ?n + ?c = ?g" unfolding opt .
  show ?thesis
  proof (intro conjI)
    show "ss_optional_mib (surplus_compute i) \<le> su_total_reserve i - su_maintenance_setpoint_mib i"
      by (rule order_trans [OF bound diff_le_self])
    show "\<exists>miss cont inter gross. ss_adjustment_record (surplus_compute i) = [miss, cont, inter, gross]
        \<and> gross = su_total_reserve i - su_maintenance_setpoint_mib i
        \<and> ss_optional_mib (surplus_compute i) + inter + cont = gross - miss"
      using trail sum by blast
  qed (use mono bound top in blast, use bound top in metis)
qed

theorem surplus_is_safe_witness:
  "ss_optional_mib (surplus_compute (surplus_unknown\<lparr> su_total_reserve := 900, su_maintenance_setpoint_mib := 400 \<rparr>))
   \<le> ss_optional_mib (surplus_compute (surplus_unknown\<lparr> su_total_reserve := 1000 \<rparr>))"
  using surplus_is_safe [of "surplus_unknown\<lparr> su_total_reserve := 1000 \<rparr>"
    "surplus_unknown\<lparr> su_total_reserve := 900, su_maintenance_setpoint_mib := 400 \<rparr>"]
  by (simp add: surplus_unknown_def)

text \<open>An unknown risk is not the worst case: it halves the budget, where a known one can take all of it,
  and without \<open>unknown_shrinks\<close> it counts as zero.\<close>

lemma unknown_is_not_worst_case:
  "ss_optional_mib (surplus_compute (surplus_unknown\<lparr> su_total_reserve := 1000 \<rparr>)) = 250
   \<and> ss_optional_mib (surplus_compute (surplus_unknown\<lparr> su_total_reserve := 1000, su_contention_mib := Some 1000 \<rparr>)) = 0
   \<and> ss_optional_mib (surplus_compute (surplus_unknown\<lparr> su_total_reserve := 1000, su_unknown_shrinks := False \<rparr>)) = 1000"
  by (simp add: surplus_compute_def surplus_unknown_def risk_adjustment_def Let_def)

subsection \<open>Portion: admission of optional work\<close>

record portion_input =
  pi_artifact_id :: string
  pi_expected_tokens :: nat
  pi_transfer_cost_bytes :: nat
  pi_compute_cost_ms :: nat

datatype portion_decision = AdmitPortion nat | DeferPortion string | RejectPortion string | FailPortion string

record portion =
  po_approved_total_tokens :: nat
  po_approved_spends :: nat
  po_rejected_spends :: nat

definition portion_new :: portion where
  "portion_new = \<lparr> po_approved_total_tokens = 0, po_approved_spends = 0, po_rejected_spends = 0 \<rparr>"

definition reject_spend :: "portion \<Rightarrow> portion" where
  "reject_spend p = p\<lparr> po_rejected_spends := wadd64 (po_rejected_spends p) 1 \<rparr>"

definition portion_decide ::
  "portion_input \<Rightarrow> reserve_table \<Rightarrow> reuse_class \<Rightarrow> (portion, metabolism_error, portion_decision) op" where
  "portion_decide i reserve class p =
     (if class = Unrecoverable then (Inl (FailClosedError ''artifact unrecoverable''), p)
      else if pi_artifact_id i = [] then (Inl (FailClosedError ''missing artifact identity''), p)
      else if pi_expected_tokens i = 0 then (Inr (DeferPortion ''zero expected tokens''), reject_spend p)
      else if \<not> table_check GpuCompute 1 reserve
      then (Inr (RejectPortion ''compute reserve saturated''), reject_spend p)
      else if \<not> table_check DimVram 1 reserve then (Inr (DeferPortion ''vram reserve saturated''), p)
      else (Inr (AdmitPortion (pi_expected_tokens i)),
            p\<lparr> po_approved_total_tokens := sat_add64 (po_approved_total_tokens p) (pi_expected_tokens i),
               po_approved_spends := wadd64 (po_approved_spends p) 1 \<rparr>))"

lemma portion_admits_iff:
  "fst (portion_decide i reserve class p) = Inr (AdmitPortion n) \<longleftrightarrow>
     class \<noteq> Unrecoverable \<and> pi_artifact_id i \<noteq> [] \<and> pi_expected_tokens i \<noteq> 0 \<and> n = pi_expected_tokens i
     \<and> table_check GpuCompute 1 reserve \<and> table_check DimVram 1 reserve"
  by (auto simp: portion_decide_def)

lemma portion_counts:
  "po_approved_spends (snd (portion_decide i reserve class p)) =
     (if \<exists>n. fst (portion_decide i reserve class p) = Inr (AdmitPortion n)
      then wadd64 (po_approved_spends p) 1 else po_approved_spends p)"
  by (simp add: portion_decide_def reject_spend_def)

subsection \<open>Salvage\<close>

record salvage_candidate =
  sc_input :: salvage_input
  sc_base_seq :: nat
  sc_bucket :: nat

datatype salvage_decision = AdmitSalvage int | RejectBelowCost | SalvageFailClosed

definition salvage_rank :: "salvage_candidate \<Rightarrow> nat \<times> nat" where
  "salvage_rank c = (sc_bucket c, sc_base_seq c)"

definition reuse_ms_permille :: "int \<Rightarrow> int \<Rightarrow> int" where
  "reuse_ms_permille reuse_ms risk = sat_i64 (reuse_ms * risk) sdiv 1000"

definition salvage_score :: "salvage_candidate \<Rightarrow> salvage_decision" where
  "salvage_score c =
     (let i = sc_input c in case (si_reuse_probability i, si_expiry_risk_permille i) of
       (Some prob, Some risk) \<Rightarrow>
         if \<not> salvage_known i then SalvageFailClosed
         else let reuse_ms = es_value (si_expected_reuse_cost i);
                  expected = wrap_i64 (reuse_ms * int prob) sdiv 1000;
                  after_expiry = sat_i64 (expected - reuse_ms_permille reuse_ms (int risk));
                  retained = sat_i64 (sat_i64 (sat_i64 (es_value (si_holding_cost i) + es_value (si_validation_cost i))
                    + es_value (si_memory_opportunity_cost i)) + es_value (si_contention_cost i));
                  value = sat_i64 (after_expiry - retained)
              in if 0 < value then AdmitSalvage value else RejectBelowCost
     | _ \<Rightarrow> SalvageFailClosed)"

text \<open>\<open>sort_unstable_by_key\<close> leaves the order of candidates with equal keys open: any stable sort of
  any rearrangement is possible, so the rearrangement is a parameter.\<close>

definition salvage_ranked ::
  "(salvage_candidate list \<Rightarrow> salvage_candidate list) \<Rightarrow> salvage_candidate list \<Rightarrow> salvage_candidate list" where
  "salvage_ranked shuffle cs = sort_key salvage_rank (shuffle cs)"

definition salvage_admit ::
  "(salvage_candidate list \<Rightarrow> salvage_candidate list) \<Rightarrow> salvage_candidate list
     \<Rightarrow> (salvage_candidate \<times> salvage_decision) list" where
  "salvage_admit shuffle cs = map (\<lambda>c. (c, salvage_score c)) (salvage_ranked shuffle cs)"

lemma salvage_needs_known: "salvage_score c = AdmitSalvage v \<Longrightarrow> salvage_known (sc_input c) \<and> 0 < v"
  by (auto simp: salvage_score_def Let_def split: option.splits if_splits)

lemma unknown_fails_closed: "\<not> salvage_known (sc_input c) \<Longrightarrow> salvage_score c = SalvageFailClosed"
  by (simp add: salvage_score_def Let_def split: option.splits)

text \<open>In the range where nothing is cut off, the score is the announced value less the eviction cost, which is
  required to be known and then not used.\<close>

definition salvage_value :: "salvage_input \<Rightarrow> nat \<Rightarrow> nat \<Rightarrow> int" where
  "salvage_value i prob risk =
     (es_value (si_expected_reuse_cost i) * int prob) sdiv 1000
     - (es_value (si_expected_reuse_cost i) * int risk) sdiv 1000
     - (es_value (si_holding_cost i) + es_value (si_validation_cost i)
        + es_value (si_memory_opportunity_cost i) + es_value (si_contention_cost i))"

definition small_i64 :: "int \<Rightarrow> bool" where
  "small_i64 x \<longleftrightarrow> \<bar>x\<bar> < 2 ^ 32"

lemma sat_i64_id: "\<bar>x\<bar> < 2 ^ 63 \<Longrightarrow> sat_i64 x = x"
  by (simp add: sat_i64_def)

lemma wrap_i64_id: "\<bar>x\<bar> < 2 ^ 63 \<Longrightarrow> wrap_i64 x = x"
proof -
  assume "\<bar>x\<bar> < 2 ^ 63"
  then have "(x + 2 ^ 63) mod 2 ^ 64 = x + 2 ^ 63" by (intro mod_pos_pos_trivial) auto
  then show ?thesis by (simp add: wrap_i64_def)
qed

lemma small_product: "small_i64 x \<Longrightarrow> n \<le> 1000 \<Longrightarrow> \<bar>x * int n\<bar> < 2 ^ 42"
proof -
  assume "small_i64 x" "n \<le> 1000"
  then have "\<bar>x\<bar> * int n \<le> 2 ^ 32 * 1000" by (intro mult_mono) (auto simp: small_i64_def)
  then show ?thesis by (simp add: abs_mult)
qed

lemma sdiv_le: "\<bar>x sdiv 1000\<bar> \<le> \<bar>x :: int\<bar>"
proof -
  have "y div 1000 \<le> y" if "0 \<le> y" for y :: int using zdiv_mono2 [of y 1 1000] that by simp
  then have "\<bar>x\<bar> div 1000 \<le> \<bar>x\<bar>" by simp
  then show ?thesis by (simp add: signed_divide_int_def abs_mult abs_sgn_eq)
qed

lemma sat_chain:
  assumes "\<bar>e\<bar> < 2 ^ 42" "\<bar>k\<bar> < 2 ^ 42" "small_i64 h" "small_i64 v" "small_i64 m" "small_i64 c"
  shows "sat_i64 (sat_i64 (e - k) - sat_i64 (sat_i64 (sat_i64 (h + v) + m) + c)) = e - k - (h + v + m + c)"
proof -
  note small = assms [unfolded small_i64_def]
  have "sat_i64 (e - k) = e - k" using small(1,2) by (intro sat_i64_id) simp
  moreover have "sat_i64 (h + v) = h + v" using small(3,4) by (intro sat_i64_id) simp
  moreover have "sat_i64 (h + v + m) = h + v + m" using small(3-5) by (intro sat_i64_id) simp
  moreover have "sat_i64 (h + v + m + c) = h + v + m + c" using small(3-6) by (intro sat_i64_id) simp
  moreover have "sat_i64 (e - k - (h + v + m + c)) = e - k - (h + v + m + c)" using small by (intro sat_i64_id) simp
  ultimately show ?thesis by simp
qed

text \<open>A salvage candidate with an unknown input is refused; with known inputs of at most 32 bits and
  permille values, it is admitted exactly when its value, expected reuse less expiry risk and retention
  costs, is positive, and the verdict carries that value.\<close>

theorem salvage_scores_value:
  assumes "si_reuse_probability (sc_input c) = Some prob" "si_expiry_risk_permille (sc_input c) = Some risk"
    and "prob \<le> 1000" "risk \<le> 1000"
    and "small_i64 (es_value (si_expected_reuse_cost (sc_input c)))" "small_i64 (es_value (si_holding_cost (sc_input c)))"
      "small_i64 (es_value (si_validation_cost (sc_input c)))" "small_i64 (es_value (si_memory_opportunity_cost (sc_input c)))"
      "small_i64 (es_value (si_contention_cost (sc_input c)))"
  shows "salvage_score c =
    (if \<not> salvage_known (sc_input c) then SalvageFailClosed
     else if 0 < salvage_value (sc_input c) prob risk then AdmitSalvage (salvage_value (sc_input c) prob risk)
     else RejectBelowCost)"
proof -
  let ?i = "sc_input c"
  let ?r = "es_value (si_expected_reuse_cost ?i)"
  have bounds: "\<bar>?r * int prob\<bar> < 2 ^ 42" "\<bar>?r * int risk\<bar> < 2 ^ 42"
    using small_product assms by blast+
  moreover have "\<bar>(?r * int prob) sdiv 1000\<bar> < 2 ^ 42" "\<bar>(?r * int risk) sdiv 1000\<bar> < 2 ^ 42"
    using bounds sdiv_le le_less_trans by blast+
  moreover have "wrap_i64 (?r * int prob) = ?r * int prob" "sat_i64 (?r * int risk) = ?r * int risk"
    using bounds by (auto intro!: wrap_i64_id sat_i64_id)
  ultimately show ?thesis
    unfolding salvage_score_def Let_def assms(1,2) prod.case option.case reuse_ms_permille_def salvage_value_def
    by (simp add: sat_chain assms(6-9))
qed

definition salvage_demo :: salvage_candidate where
  "salvage_demo = \<lparr> sc_input = \<lparr> si_reuse_probability = Some 500, si_expected_reuse_cost = measured 1000,
     si_holding_cost = measured 10, si_validation_cost = measured 10, si_memory_opportunity_cost = measured 10,
     si_eviction_cost = measured 10000, si_contention_cost = measured 10, si_expiry_risk_permille = Some 100 \<rparr>,
     sc_base_seq = 0, sc_bucket = 0 \<rparr>"

theorem salvage_scores_value_witness: "salvage_score salvage_demo = AdmitSalvage 360"
  using salvage_scores_value [of salvage_demo 500 100]
  by (simp add: salvage_demo_def measured_def small_i64_def salvage_known_def estimate_known_def salvage_value_def
      signed_divide_int_def)

text \<open>The admission list holds every candidate, refused ones too, in the order of bucket and sequence.\<close>

lemma salvage_admit_all:
  assumes "mset (shuffle cs) = mset cs"
  shows "mset (map fst (salvage_admit shuffle cs)) = mset cs
     \<and> sorted (map salvage_rank (map fst (salvage_admit shuffle cs)))"
  using assms by (simp add: salvage_admit_def salvage_ranked_def comp_def)

subsection \<open>Baselines\<close>

datatype baseline_policy = NoOptimization | LruOnly | FixedPrefetch | FixedReserve | RemoraV1

record baseline_observation =
  bo_vram_free_mib :: nat
  bo_pending_work_bytes :: nat
  bo_was_cache_hit :: bool

datatype baseline_action = AdmitBytes nat | AdmitNone | EvictBytes nat

record baseline_comparison =
  bc_policy :: baseline_policy
  bc_controller_score :: nat
  bc_baseline_score :: nat

definition baseline_step :: "baseline_policy \<Rightarrow> baseline_observation \<Rightarrow> nat \<Rightarrow> baseline_action" where
  "baseline_step policy obs window_bytes = (case policy of
     NoOptimization \<Rightarrow> AdmitNone
   | LruOnly \<Rightarrow> if bo_was_cache_hit obs then AdmitNone else EvictBytes (bo_pending_work_bytes obs)
   | FixedPrefetch \<Rightarrow> if bo_was_cache_hit obs then AdmitNone else AdmitBytes (bo_pending_work_bytes obs)
   | FixedReserve \<Rightarrow> AdmitBytes window_bytes
   | RemoraV1 \<Rightarrow> if bo_was_cache_hit obs then AdmitNone else AdmitBytes (bo_pending_work_bytes obs))"

lemma remora_v1_is_fixed_prefetch: "baseline_step RemoraV1 = baseline_step FixedPrefetch"
  by (rule ext)+ (simp add: baseline_step_def)

subsection \<open>Energy\<close>

datatype energy_scope = EnergyUnknown | GpuOnly | EnergyEstimated

record energy_label =
  el_scope :: energy_scope
  el_joules_per_exact_token :: "real64 option"
  el_joules_per_accepted_token :: "real64 option"
  el_energy_delay_product :: "real64 option"

definition energy_unknown :: energy_label where
  "energy_unknown = \<lparr> el_scope = EnergyUnknown, el_joules_per_exact_token = None,
     el_joules_per_accepted_token = None, el_energy_delay_product = None \<rparr>"

definition energy_gpu_only :: "real64 \<Rightarrow> energy_label" where
  "energy_gpu_only j = \<lparr> el_scope = GpuOnly, el_joules_per_exact_token = Some j,
     el_joules_per_accepted_token = None, el_energy_delay_product = None \<rparr>"

definition energy_is_known :: "energy_label \<Rightarrow> bool" where
  "energy_is_known l \<longleftrightarrow> el_scope l = GpuOnly \<and> el_joules_per_exact_token l \<noteq> None"

record power_sample =
  pw_milliwatts :: nat
  pw_timestamp_ns :: nat

definition interval_joules :: "power_sample \<Rightarrow> power_sample \<Rightarrow> real64" where
  "interval_joules s1 s2 =
     (let dt = divide64 (of_u64 (pw_timestamp_ns s2 - pw_timestamp_ns s1)) (Finite 1000000000);
          p_avg = divide64 (of_u64 (wadd64 (pw_milliwatts s1) (pw_milliwatts s2))) (Finite 2)
      in divide64 (times64 p_avg dt) (Finite 1000))"

fun integrate_from :: "power_sample list \<Rightarrow> real64 \<times> nat \<Rightarrow> real64 \<times> nat" where
  "integrate_from (s1 # s2 # rest) (joules, intervals) =
     integrate_from (s2 # rest) (plus64 joules (interval_joules s1 s2), wadd64 intervals 1)"
| "integrate_from _ acc = acc"

definition integrate_samples :: "power_sample list \<Rightarrow> real64 \<times> nat" where
  "integrate_samples samples = (if length samples < 2 then (Finite 0, length samples)
     else integrate_from samples (Finite 0, 0))"

record energy_tracker =
  et_samples :: "power_sample list"
  et_max_samples :: nat
  et_total_joules :: real64
  et_sample_count :: nat

definition tracker_new :: "nat \<Rightarrow> energy_tracker" where
  "tracker_new n = \<lparr> et_samples = [], et_max_samples = n, et_total_joules = Finite 0, et_sample_count = 0 \<rparr>"

definition add_sample :: "power_sample \<Rightarrow> energy_tracker \<Rightarrow> energy_tracker option" where
  "add_sample s t =
     (let full = et_max_samples t \<le> length (et_samples t) in
      if full \<and> et_samples t = [] then None
      else let kept = (if full then tl (et_samples t) else et_samples t) @ [s];
               (joules, intervals) = integrate_samples kept
           in Some (t\<lparr> et_samples := kept, et_total_joules := joules, et_sample_count := intervals \<rparr>))"

definition joules_per_exact_token :: "real64 \<Rightarrow> nat \<Rightarrow> real64 option" where
  "joules_per_exact_token joules exact_tokens =
     (if exact_tokens = 0 \<or> joules = Finite 0 then None else Some (divide64 joules (of_u64 exact_tokens)))"

definition build_estimated_energy_label :: "energy_tracker \<Rightarrow> nat \<Rightarrow> energy_label" where
  "build_estimated_energy_label t exact_tokens =
     \<lparr> el_scope = EnergyEstimated, el_joules_per_exact_token = joules_per_exact_token (et_total_joules t) exact_tokens,
       el_joules_per_accepted_token = None, el_energy_delay_product = None \<rparr>"

definition add_samples :: "power_sample list \<Rightarrow> energy_tracker \<Rightarrow> energy_tracker option" where
  "add_samples ss t = fold (\<lambda>s r. Option.bind r (add_sample s)) ss (Some t)"

lemma add_samples_snoc: "add_samples (ss @ [s]) t = Option.bind (add_samples ss t) (add_sample s)"
  by (simp add: add_samples_def)

text \<open>A tracker of positive size never fails; it holds the last samples it was given, as many as it has
  room for, and its energy and interval count are those of integrating exactly these.  A tracker of size
  zero, which is the default, panics at its first sample.\<close>

theorem tracker_keeps_last_samples:
  "(0 < n \<longrightarrow> (\<exists>t. add_samples ss (tracker_new n) = Some t \<and> et_max_samples t = n
        \<and> et_samples t = drop (length ss - n) ss
        \<and> (ss \<noteq> [] \<longrightarrow> (et_total_joules t, et_sample_count t) = integrate_samples (drop (length ss - n) ss))))
   \<and> add_sample s (tracker_new 0) = None"
proof (intro conjI impI)
  show "add_sample s (tracker_new 0) = None" by (simp add: add_sample_def tracker_new_def Let_def)
next
  assume "0 < n"
  then show "\<exists>t. add_samples ss (tracker_new n) = Some t \<and> et_max_samples t = n
        \<and> et_samples t = drop (length ss - n) ss
        \<and> (ss \<noteq> [] \<longrightarrow> (et_total_joules t, et_sample_count t) = integrate_samples (drop (length ss - n) ss))"
  proof (induction ss rule: rev_induct)
    case Nil
    then show ?case by (simp add: add_samples_def tracker_new_def)
  next
    case (snoc s ss)
    then obtain t where t: "add_samples ss (tracker_new n) = Some t" "et_max_samples t = n"
        "et_samples t = drop (length ss - n) ss" by blast
    show ?case
    proof (cases "n \<le> length ss")
      case True
      then have "tl (drop (length ss - n) ss) = drop (Suc (length ss) - n) ss"
        by (simp add: drop_Suc Suc_diff_le tl_drop)
      moreover have "drop (length ss - n) ss \<noteq> []" using True snoc.prems by simp
      ultimately show ?thesis using t True
        by (simp add: add_samples_snoc add_sample_def Let_def Suc_diff_le split: prod.splits)
    next
      case False
      then show ?thesis using t
        by (simp add: add_samples_snoc add_sample_def Let_def split: prod.splits)
    qed
  qed
qed

theorem tracker_keeps_last_samples_witness:
  "\<exists>t. add_samples [\<lparr> pw_milliwatts = 1, pw_timestamp_ns = 1 \<rparr>, \<lparr> pw_milliwatts = 2, pw_timestamp_ns = 2 \<rparr>] (tracker_new 1) = Some t
     \<and> et_samples t = [\<lparr> pw_milliwatts = 2, pw_timestamp_ns = 2 \<rparr>]"
  using tracker_keeps_last_samples [of 1 "[\<lparr> pw_milliwatts = 1, pw_timestamp_ns = 1 \<rparr>, \<lparr> pw_milliwatts = 2, pw_timestamp_ns = 2 \<rparr>]"]
  by auto

lemma estimated_is_never_known: "\<not> energy_is_known (build_estimated_energy_label t n)"
  by (simp add: energy_is_known_def build_estimated_energy_label_def)

end
