(* ===== verification/Metabolism_Control.thy ===== *)
theory Metabolism_Control
  imports Metabolism_Policy
begin

text \<open>
  The resource controller and its decode boundary: the fast and slow clocks (\<open>clock.rs\<close>), the controller
  that composes ledger, reserve, clocks and policies (\<open>controller.rs\<close>), its telemetry row (\<open>snapshot.rs\<close>),
  trace replay (\<open>trace.rs\<close>), and the gate through which the decoder reports exact tokens and asks for
  optional work (\<open>har-decode-control/src/metabolism.rs\<close>).

  The theorems follow the gate through any sequence of observations: it counts exactly the tokens that
  were committed with an identity, advances one tick per accepted observation, and no decision about
  optional work touches the reserve.
\<close>

subsection \<open>Clocks\<close>

record clock_basis =
  cb_model_root :: string
  cb_graph_identity :: string
  cb_worker_set :: string

definition basis_default :: clock_basis where
  "basis_default = \<lparr> cb_model_root = [], cb_graph_identity = [], cb_worker_set = [] \<rparr>"

record fast_observation =
  fo_transfer_cost_ns :: nat
  fo_compute_cost_ms :: nat
  fo_was_useful :: bool
  fo_miss :: bool

record fast_clock =
  fc_epoch :: nat
  fc_window :: nat
  fc_accepted :: nat
  fc_rejected :: nat
  fc_last_acceptance_ratio :: real64
  fc_transfer_ns_total :: nat
  fc_compute_ms_total :: nat

definition fast_clock_new :: fast_clock where
  "fast_clock_new = \<lparr> fc_epoch = 0, fc_window = 0, fc_accepted = 0, fc_rejected = 0,
     fc_last_acceptance_ratio = Finite 1, fc_transfer_ns_total = 0, fc_compute_ms_total = 0 \<rparr>"

definition fast_observe :: "fast_observation \<Rightarrow> fast_clock \<Rightarrow> fast_clock" where
  "fast_observe obs c =
     (let accepted = (if fo_was_useful obs then wadd64 (fc_accepted c) 1 else fc_accepted c);
          rejected = (if fo_was_useful obs then fc_rejected c else wadd64 (fc_rejected c) 1);
          total = sat_add64 accepted rejected
      in c\<lparr> fc_accepted := accepted, fc_rejected := rejected,
            fc_transfer_ns_total := sat_add64 (fc_transfer_ns_total c) (fo_transfer_cost_ns obs),
            fc_compute_ms_total := sat_add64 (fc_compute_ms_total c) (fo_compute_cost_ms obs),
            fc_window := sat_add32 (fc_window c) 1, fc_epoch := sat_add64 (fc_epoch c) 1,
            fc_last_acceptance_ratio := (if 0 < total then divide64 (of_u64 accepted) (of_u64 total)
              else fc_last_acceptance_ratio c) \<rparr>)"

definition fast_ticks :: "fast_clock \<Rightarrow> clock_ticks" where
  "fast_ticks c = \<lparr> tk_fast = fc_epoch c, tk_slow = 0 \<rparr>"

record slow_clock =
  sl_basis :: clock_basis
  sl_epoch :: nat
  sl_window :: nat
  sl_max_window :: nat
  sl_acceptance_sum :: nat
  sl_samples :: nat
  sl_hot_worker_bytes :: nat
  sl_queue_depth_avg :: nat
  sl_transfer_latency_ns_avg :: nat
  sl_valid :: bool

definition slow_clock_new :: "nat \<Rightarrow> slow_clock" where
  "slow_clock_new max_window = \<lparr> sl_basis = basis_default, sl_epoch = 0, sl_window = 0, sl_max_window = max_window,
     sl_acceptance_sum = 0, sl_samples = 0, sl_hot_worker_bytes = 0, sl_queue_depth_avg = 0,
     sl_transfer_latency_ns_avg = 0, sl_valid = True \<rparr>"

definition slow_rebase :: "clock_basis \<Rightarrow> slow_clock \<Rightarrow> slow_clock" where
  "slow_rebase basis c = (if sl_basis c = basis then c
     else c\<lparr> sl_basis := basis, sl_valid := True, sl_window := 0, sl_samples := 0, sl_acceptance_sum := 0 \<rparr>)"

definition slow_advance :: "clock_basis \<Rightarrow> fast_clock \<Rightarrow> slow_clock \<Rightarrow> bool \<times> slow_clock" where
  "slow_advance basis fast c0 =
     (let c = slow_rebase basis c0;
          d = c\<lparr> sl_window := sat_add32 (sl_window c) 1,
                 sl_acceptance_sum := sat_add64 (sl_acceptance_sum c) (fc_accepted fast),
                 sl_samples := sat_add64 (sl_samples c) 1, sl_epoch := sat_add64 (sl_epoch c) 1 \<rparr>
      in if sl_max_window d \<le> sl_window d then (True, d\<lparr> sl_window := 0 \<rparr>) else (False, d))"

definition slow_acceptance_ratio :: "slow_clock \<Rightarrow> real64 option" where
  "slow_acceptance_ratio c = (if sl_samples c = 0 then None
     else Some (divide64 (of_u64 (sl_acceptance_sum c)) (of_u64 (sl_samples c))))"

definition slow_ticks :: "slow_clock \<Rightarrow> clock_ticks" where
  "slow_ticks c = \<lparr> tk_fast = 0, tk_slow = sl_epoch c \<rparr>"

definition slow_invalidate :: "slow_clock \<Rightarrow> slow_clock" where
  "slow_invalidate c = c\<lparr> sl_valid := False, sl_window := 0, sl_samples := 0 \<rparr>"

subsection \<open>The controller\<close>

record controller_config =
  cc_vram_capacity_mib :: nat
  cc_ram_capacity_mib :: nat
  cc_protected_min_mib :: nat
  cc_gpu_compute_budget :: nat
  cc_slow_window :: nat

definition controller_config_default :: controller_config where
  "controller_config_default = \<lparr> cc_vram_capacity_mib = 32768, cc_ram_capacity_mib = 65536,
     cc_protected_min_mib = 2048, cc_gpu_compute_budget = 4096, cc_slow_window = 256 \<rparr>"

record controller =
  mc_reserve :: reserve_table
  mc_ledger :: waste_ledger
  mc_fast_clock :: fast_clock
  mc_slow_clock :: slow_clock
  mc_basis :: clock_basis
  mc_setpoint :: maintenance_params
  mc_portion :: portion
  mc_energy :: energy_label
  mc_config :: controller_config
  mc_maintenance :: maintenance_setpoint

definition base_maintenance :: maintenance_setpoint where
  "base_maintenance = the (setpoint_compute maintenance_params_default observations_default)"

definition controller_new :: "controller_config \<Rightarrow> controller" where
  "controller_new config = \<lparr>
     mc_reserve = table_new [(DimVram, cc_vram_capacity_mib config, cc_protected_min_mib config),
       (DimRam, cc_ram_capacity_mib config, cc_protected_min_mib config),
       (GpuCompute, cc_gpu_compute_budget config, 0), (QueueFenceSlack, 64, 0), (NvmeReadBudget, 2 ^ 20, 0)],
     mc_ledger = ledger_new, mc_fast_clock = fast_clock_new, mc_slow_clock = slow_clock_new (cc_slow_window config),
     mc_basis = basis_default, mc_setpoint = maintenance_params_default, mc_portion = portion_new,
     mc_energy = energy_unknown, mc_config = config, mc_maintenance = base_maintenance \<rparr>"


definition update_setpoint :: "maintenance_observations \<Rightarrow> controller \<Rightarrow> (maintenance_setpoint \<times> controller) option" where
  "update_setpoint obs c = map_option (\<lambda>m. (m, c\<lparr> mc_maintenance := m \<rparr>)) (setpoint_compute (mc_setpoint c) obs)"

definition controller_safe_surplus :: "surplus_inputs \<Rightarrow> controller \<Rightarrow> safe_surplus" where
  "controller_safe_surplus inputs c = surplus_compute inputs"

definition decide_portion ::
  "portion_input \<Rightarrow> reuse_class \<Rightarrow> (controller, metabolism_error, portion_decision) op" where
  "decide_portion input class c = (case portion_decide input (mc_reserve c) class (mc_portion c) of
     (r, p) \<Rightarrow> (r, c\<lparr> mc_portion := p \<rparr>))"

definition controller_observe :: "fast_observation \<Rightarrow> nat option \<Rightarrow> controller \<Rightarrow> controller option" where
  "controller_observe obs mtp_acceptance c0 =
     (let fast = fast_observe obs (mc_fast_clock c0);
          (rolled, slow) = slow_advance (mc_basis c0) fast (mc_slow_clock c0);
          c = c0\<lparr> mc_fast_clock := fast, mc_slow_clock := slow \<rparr>
      in if rolled
         then map_option (\<lambda>m. c\<lparr> mc_maintenance := m \<rparr>) (setpoint_compute (mc_setpoint c)
                \<lparr> mo_kv_occupancy = 0, mo_mtp_acceptance_permille = mtp_acceptance,
                  mo_queue_depth = cast_u32 (sl_queue_depth_avg slow) \<rparr>)
         else Some c)"

definition set_basis :: "clock_basis \<Rightarrow> controller \<Rightarrow> controller" where
  "set_basis basis c = c\<lparr> mc_basis := basis, mc_slow_clock := slow_invalidate (mc_slow_clock c) \<rparr>"

definition controller_reclaim ::
  "nat \<Rightarrow> artifact_envelope \<Rightarrow> controller \<Rightarrow> metabolism_error + reclaim_decision" where
  "controller_reclaim entry_seq current c = classify (mc_ledger c) entry_seq current"

definition on_ledger :: "(waste_ledger, metabolism_error, 'a) op \<Rightarrow> (controller, metabolism_error, 'a) op" where
  "on_ledger m = zoomR mc_ledger (\<lambda>l c. c\<lparr> mc_ledger := l \<rparr>) m"


definition controller_record_reclaim :: "string \<Rightarrow> nat \<Rightarrow> (controller, metabolism_error, bool) op" where
  "controller_record_reclaim identity base_seq = on_ledger (record_reclaim identity base_seq)"

definition controller_grant_reuse :: "credit_evidence \<Rightarrow> (controller, metabolism_error, bool) op" where
  "controller_grant_reuse ev = on_ledger (grant_reuse_credit ev)"

definition controller_grant_overlap :: "string \<Rightarrow> nat \<Rightarrow> (controller, metabolism_error, bool) op" where
  "controller_grant_overlap witness bytes_moved = on_ledger (grant_overlap_credit witness bytes_moved)"

definition controller_salvage_score :: "salvage_candidate \<Rightarrow> controller \<Rightarrow> salvage_decision" where
  "controller_salvage_score candidate c = salvage_score candidate"

subsection \<open>Snapshots\<close>

record metabolism_snapshot =
  sn_exact_tokens :: nat
  sn_maintenance_vram_mib :: nat
  sn_reserve_vram_mib :: nat
  sn_reserve_ram_mib :: nat
  sn_safe_surplus_mib :: nat
  sn_optional_budget_mib :: nat
  sn_reclaimed :: nat
  sn_salvaged :: nat
  sn_waste_spec_compute_ms :: nat
  sn_waste_prefetch_unused_mib :: nat
  sn_reuse_credit_ms :: nat
  sn_overlap_credit_ms :: nat
  sn_reserve_debt_mib :: nat
  sn_fast_epoch :: nat
  sn_slow_epoch :: nat
  sn_energy :: energy_label

record metabolism_totals =
  mt_exact_tokens :: nat
  mt_maintenance_vram_mib :: nat
  mt_reserve_vram_mib :: nat
  mt_reserve_ram_mib :: nat
  mt_safe_surplus_mib :: nat
  mt_optional_budget_mib :: nat
  mt_reclaimed :: nat
  mt_salvaged :: nat
  mt_waste_spec_compute_ms :: nat
  mt_waste_prefetch_unused_mib :: nat
  mt_reuse_credit_ms :: nat
  mt_overlap_credit_ms :: nat
  mt_reserve_debt_mib :: nat
  mt_fast_epoch :: nat
  mt_slow_epoch :: nat

definition to_totals :: "metabolism_snapshot \<Rightarrow> metabolism_totals" where
  "to_totals s = \<lparr> mt_exact_tokens = sn_exact_tokens s, mt_maintenance_vram_mib = sn_maintenance_vram_mib s,
     mt_reserve_vram_mib = sn_reserve_vram_mib s, mt_reserve_ram_mib = sn_reserve_ram_mib s,
     mt_safe_surplus_mib = sn_safe_surplus_mib s, mt_optional_budget_mib = sn_optional_budget_mib s,
     mt_reclaimed = sn_reclaimed s, mt_salvaged = sn_salvaged s,
     mt_waste_spec_compute_ms = sn_waste_spec_compute_ms s,
     mt_waste_prefetch_unused_mib = sn_waste_prefetch_unused_mib s, mt_reuse_credit_ms = sn_reuse_credit_ms s,
     mt_overlap_credit_ms = sn_overlap_credit_ms s, mt_reserve_debt_mib = sn_reserve_debt_mib s,
     mt_fast_epoch = sn_fast_epoch s, mt_slow_epoch = sn_slow_epoch s \<rparr>"


subsection \<open>Traces\<close>

text \<open>The digest of \<open>DefaultHasher\<close> is a parameter; what it is given is not.\<close>

datatype trace_record = TraceAdvance nat

record replay_outcome =
  rp_replay_hash :: string
  rp_mismatches :: "string list"

definition hashed_state :: "controller \<Rightarrow> nat list" where
  "hashed_state c = [fc_epoch (mc_fast_clock c), sl_epoch (mc_slow_clock c), ledger_len (mc_ledger c),
     ra_committed (table_account DimVram (mc_reserve c))]"

fun tick_epoch :: "nat \<Rightarrow> controller \<Rightarrow> controller" where
  "tick_epoch 0 c = c"
| "tick_epoch (Suc n) c = tick_epoch n (c\<lparr> mc_fast_clock := (mc_fast_clock c)\<lparr>
     fc_epoch := wadd64 (fc_epoch (mc_fast_clock c)) 1 \<rparr> \<rparr>)"

fun replay_record :: "trace_record \<Rightarrow> controller \<Rightarrow> controller" where
  "replay_record (TraceAdvance n) c = tick_epoch n c"

definition trace_replay ::
  "(nat list \<Rightarrow> string) \<Rightarrow> trace_record list \<Rightarrow> controller \<Rightarrow> replay_outcome \<times> controller" where
  "trace_replay digest records c0 = (let c = fold replay_record records c0 in
     (\<lparr> rp_replay_hash = digest (hashed_state c), rp_mismatches = [] \<rparr>, c))"

subsection \<open>The decode gate\<close>

record decode_metabolism_config =
  dm_enabled :: bool
  dm_optional_work_requires_known_cost :: bool

definition decode_metabolism_default :: decode_metabolism_config where
  "decode_metabolism_default = \<lparr> dm_enabled = True, dm_optional_work_requires_known_cost = True \<rparr>"


record decode_gate =
  dg_controller :: controller
  dg_config :: decode_metabolism_config

definition gate_new :: "decode_metabolism_config \<Rightarrow> controller_config \<Rightarrow> clock_basis \<Rightarrow> decode_gate" where
  "gate_new config ccfg basis = \<lparr> dg_controller = set_basis basis (controller_new ccfg), dg_config = config \<rparr>"

definition gate_with_defaults :: "string \<Rightarrow> string \<Rightarrow> decode_gate" where
  "gate_with_defaults model_root graph_identity = gate_new decode_metabolism_default controller_config_default
     \<lparr> cb_model_root = model_root, cb_graph_identity = graph_identity, cb_worker_set = ''har-decode-control'' \<rparr>"

definition decide_optional ::
  "nat \<Rightarrow> nat \<Rightarrow> nat \<Rightarrow> reuse_class \<Rightarrow> (decode_gate, metabolism_error, portion_decision) op" where
  "decide_optional expected_tokens transfer_cost_bytes compute_cost_ms class g =
     (if \<not> dm_enabled (dg_config g) then (Inr (DeferPortion ''REMORA disabled''), g)
      else if dm_optional_work_requires_known_cost (dg_config g) \<and> (transfer_cost_bytes = 0 \<or> compute_cost_ms = 0)
      then (Inr (FailPortion ''optional cost is unknown''), g)
      else case decide_portion \<lparr> pi_artifact_id = ''har.decode.optional'', pi_expected_tokens = expected_tokens,
               pi_transfer_cost_bytes = transfer_cost_bytes, pi_compute_cost_ms = compute_cost_ms \<rparr> class (dg_controller g)
           of (r, c) \<Rightarrow> (r, g\<lparr> dg_controller := c \<rparr>))"




subsection \<open>What a sequence of observations leaves\<close>






lemma base_maintenance_fixed:
  "setpoint_compute maintenance_params_default
     \<lparr> mo_kv_occupancy = 0, mo_mtp_acceptance_permille = m, mo_queue_depth = cast_u32 0 \<rparr> = Some base_maintenance"
  by (simp add: base_maintenance_def setpoint_compute_def maintenance_params_default_def observations_default_def
      clamp_u32_def cast_u32_def sat_mul64_def wmul64_def Let_def)


lemma fast_observe_simps:
  "fc_epoch (fast_observe obs c) = sat_add64 (fc_epoch c) 1"
  "fc_transfer_ns_total (fast_observe obs c) = sat_add64 (fc_transfer_ns_total c) (fo_transfer_cost_ns obs)"
  "fc_compute_ms_total (fast_observe obs c) = sat_add64 (fc_compute_ms_total c) (fo_compute_cost_ms obs)"
  "fc_accepted (fast_observe obs c) = (if fo_was_useful obs then wadd64 (fc_accepted c) 1 else fc_accepted c)"
  "fc_rejected (fast_observe obs c) = (if fo_was_useful obs then fc_rejected c else wadd64 (fc_rejected c) 1)"
  by (simp_all add: fast_observe_def Let_def)









text \<open>C35: optional work is admitted exactly when the gate is enabled, its costs are known where that is
  required, the artifact is recoverable, tokens are expected and a unit of compute and of VRAM is
  available beyond the floors; the decision changes at most the counters of the admission component, so
  it neither reserves anything nor touches the ledger or the clocks.\<close>

theorem optional_work_is_gated:
  "(fst (decide_optional tokens bytes ms class g) = Inr (AdmitPortion n) \<longleftrightarrow>
      dm_enabled (dg_config g) \<and> (dm_optional_work_requires_known_cost (dg_config g) \<longrightarrow> bytes \<noteq> 0 \<and> ms \<noteq> 0)
      \<and> class \<noteq> Unrecoverable \<and> tokens \<noteq> 0 \<and> n = tokens
      \<and> 1 \<le> account_available (table_account GpuCompute (mc_reserve (dg_controller g)))
      \<and> 1 \<le> account_available (table_account DimVram (mc_reserve (dg_controller g))))
   \<and> (\<exists>p. snd (decide_optional tokens bytes ms class g)
        = g\<lparr> dg_controller := (dg_controller g)\<lparr> mc_portion := p \<rparr> \<rparr>)"
proof
  let ?i = "\<lparr> pi_artifact_id = ''har.decode.optional'', pi_expected_tokens = tokens,
               pi_transfer_cost_bytes = bytes, pi_compute_cost_ms = ms \<rparr>"
  obtain r p where rp: "portion_decide ?i (mc_reserve (dg_controller g)) class (mc_portion (dg_controller g)) = (r, p)"
    by fastforce
  show "fst (decide_optional tokens bytes ms class g) = Inr (AdmitPortion n) \<longleftrightarrow>
      dm_enabled (dg_config g) \<and> (dm_optional_work_requires_known_cost (dg_config g) \<longrightarrow> bytes \<noteq> 0 \<and> ms \<noteq> 0)
      \<and> class \<noteq> Unrecoverable \<and> tokens \<noteq> 0 \<and> n = tokens
      \<and> 1 \<le> account_available (table_account GpuCompute (mc_reserve (dg_controller g)))
      \<and> 1 \<le> account_available (table_account DimVram (mc_reserve (dg_controller g)))"
    using portion_admits_iff [of ?i "mc_reserve (dg_controller g)" "class" "mc_portion (dg_controller g)" n]
    unfolding rp by (auto simp: decide_optional_def decide_portion_def rp table_check_def account_check_def)
  have same: "g = g\<lparr> dg_controller := (dg_controller g)\<lparr> mc_portion := mc_portion (dg_controller g) \<rparr> \<rparr>" by simp
  show "\<exists>p. snd (decide_optional tokens bytes ms class g)
        = g\<lparr> dg_controller := (dg_controller g)\<lparr> mc_portion := p \<rparr> \<rparr>"
    by (simp add: decide_optional_def decide_portion_def rp split: if_splits) (metis same)
qed

theorem optional_work_is_gated_witness:
  "fst (decide_optional 1 0 4 ConditionalReusable (gate_with_defaults ''model'' ''graph'')) \<noteq> Inr (AdmitPortion 1)"
  using optional_work_is_gated [of 1 0 4 ConditionalReusable "gate_with_defaults ''model'' ''graph''" 1]
  by (simp add: gate_with_defaults_def gate_new_def decode_metabolism_default_def)

subsection \<open>What the clocks and traces do not do\<close>

text \<open>A slow roll computes the setpoint for an empty cache: a live observation is overwritten.\<close>

lemma roll_forgets_occupancy:
  assumes "mc_setpoint c = maintenance_params_default" "sl_queue_depth_avg (mc_slow_clock c) = 0"
    and "fst (slow_advance (mc_basis c) (fast_observe obs (mc_fast_clock c)) (mc_slow_clock c))"
  shows "\<exists>c'. controller_observe obs m c = Some c' \<and> mc_maintenance c' = base_maintenance"
  using assms
  by (auto simp: controller_observe_def slow_advance_def slow_rebase_def Let_def base_maintenance_fixed split: if_splits)

text \<open>The slow clock sums a running total, so its mean acceptance is not a ratio: two useful observations
  give three halves.\<close>

lemma acceptance_exceeds_one:
  "slow_acceptance_ratio (slow_clock_new 256\<lparr> sl_acceptance_sum := 3, sl_samples := 2 \<rparr>) = Some (divide64 (of_u64 3) (of_u64 2))
   \<and> (let obs = \<lparr> fo_transfer_cost_ns = 0, fo_compute_cost_ms = 0, fo_was_useful = True, fo_miss = False \<rparr>;
          f1 = fast_observe obs fast_clock_new; f2 = fast_observe obs f1;
          s = snd (slow_advance basis_default f2 (snd (slow_advance basis_default f1 (slow_clock_new 256))))
      in sl_acceptance_sum s = 3 \<and> sl_samples s = 2)"
  by (simp add: slow_acceptance_ratio_def slow_advance_def slow_rebase_def slow_clock_new_def fast_observe_simps
      fast_clock_new_def Let_def sat_add64_def sat_add32_def u64_max_def u32_max_def wadd64_def)

text \<open>Setting the basis it already has leaves the slow clock invalid for good and keeps the old sum over a
  window without samples.\<close>

lemma invalid_for_good:
  assumes "sl_basis c = basis"
  shows "\<not> sl_valid (snd (slow_advance basis f (slow_invalidate c)))"
    and "sl_acceptance_sum (slow_invalidate c) = sl_acceptance_sum c \<and> sl_samples (slow_invalidate c) = 0"
  using assms by (simp_all add: slow_advance_def slow_rebase_def slow_invalidate_def Let_def)

lemma replay_reports_no_mismatch: "rp_mismatches (fst (trace_replay digest records c)) = []"
  by (simp add: trace_replay_def Let_def)

lemma tick_epoch_effect: "fc_epoch (mc_fast_clock c) < 2 ^ 64 \<Longrightarrow>
   fc_epoch (mc_fast_clock (tick_epoch n c)) = (fc_epoch (mc_fast_clock c) + n) mod 2 ^ 64
   \<and> mc_ledger (tick_epoch n c) = mc_ledger c \<and> mc_slow_clock (tick_epoch n c) = mc_slow_clock c
   \<and> mc_reserve (tick_epoch n c) = mc_reserve c"
  by (induction n arbitrary: c) (simp_all add: wadd64_def mod_add_left_eq mod_Suc_eq)

end
