(* ===== verification/Speculative_Model.thy ===== *)
theory Speculative_Model
  imports Serve_State Float64
begin

text \<open>
  \<open>har-serve/src/speculation.rs\<close>: speculative decoding.  A cheap draft model proposes a block of tokens,
  the target model verifies the block in one pass, the longest matching prefix is accepted, and the
  whole is again a model in the sense of the scheduler's trait: both hidden states travel packed in one
  vector, with the width of the first as an \<open>f32\<close> at its end.

  The softmax probability of a candidate only steers how many tokens are drafted; it uses the platform's
  \<open>exp\<close> and is a parameter.  \<open>None\<close> is a panic (an index out of range, \<open>expect\<close>, \<open>assert!\<close>).  The \<open>u64\<close>
  counters of the telemetry are naturals; they would wrap after as many tokens.

  The theorems are the ones speculation lives by: whatever the draft model proposes, the stream of tokens is
  the one the target would have decoded alone, and every state handed to the scheduler is the state at
  its position.
\<close>

subsection \<open>Widths as \<open>f32\<close>\<close>

text \<open>\<open>n as f32\<close>, rounded to the nearest, ties to even, and \<open>x as usize\<close>, truncated and saturated.\<close>

definition f32_of_nat :: "nat \<Rightarrow> 32 word" where
  "f32_of_nat n = (if n = 0 then 0 else
     let b = bit_length n;
         m = (if b \<le> 24 then n * 2 ^ (24 - b) else half_even n (2 ^ (b - 24)))
     in of_nat ((b + 126) * 2 ^ 23 + (m - 2 ^ 23)))"

definition usize_of_f32 :: "32 word \<Rightarrow> nat" where
  "usize_of_f32 x =
     (let e = unat (take_bit 8 (drop_bit 23 x)); m = unat (take_bit 23 x) + 2 ^ 23 in
      if f32_nan x \<or> bit x 31 \<or> e < 127 then 0
      else if e = 255 then u64_max
      else min u64_max (if 150 \<le> e then m * 2 ^ (e - 150) else m div 2 ^ (150 - e)))"

definition f32_ge :: "32 word \<Rightarrow> 32 word \<Rightarrow> bool" where
  "f32_ge a b \<longleftrightarrow> \<not> f32_nan a \<and> \<not> f32_nan b \<and> f32_key b \<le> f32_key a"

lemma f32_bits:
  assumes "e < 255" "f < 2 ^ 23"
  defines "x \<equiv> of_nat (e * 2 ^ 23 + f) :: 32 word"
  shows "unat (take_bit 8 (drop_bit 23 x)) = e" "unat (take_bit 23 x) = f" "\<not> bit x 31" "\<not> f32_nan x"
proof -
  have le: "e * 2 ^ 23 + f < 255 * 2 ^ 23"
  proof -
    have "e * 2 ^ 23 + f < (e + 1) * 2 ^ 23" using assms(2) by simp
    also have "\<dots> \<le> 255 * 2 ^ 23" using assms(1) by (intro mult_right_mono) auto
    finally show ?thesis .
  qed
  then have u: "unat x = e * 2 ^ 23 + f" unfolding x_def unat_of_nat by simp
  have top: "unat (drop_bit 23 x) = e" by (subst unat_drop_bit_eq) (use assms(2) in \<open>simp add: u drop_bit_eq_div\<close>)
  show "unat (take_bit 8 (drop_bit 23 x)) = e"
    unfolding unsigned_take_bit_eq top using assms(1) by (simp add: take_bit_eq_mod)
  show "unat (take_bit 23 x) = f" unfolding unsigned_take_bit_eq u using assms(2) by (simp add: take_bit_eq_mod)
  have "bit (unat x) 31 = bit x 31" by (simp add: bit_unsigned_iff)
  moreover have "\<not> bit (unat x) 31" unfolding u using le by (simp add: bit_iff_odd)
  ultimately show "\<not> bit x 31" by blast
  have "unat (take_bit 31 x) = e * 2 ^ 23 + f" unfolding unsigned_take_bit_eq u using le by (simp add: take_bit_eq_mod)
  then show "\<not> f32_nan x" using le by (simp add: f32_nan_def word_less_nat_alt)
qed

lemma width_round_trip:
  assumes "n < 2 ^ 24"
  shows "usize_of_f32 (f32_of_nat n) = n"
proof (cases "n = 0")
  case True
  then show ?thesis by (simp add: usize_of_f32_def f32_of_nat_def Let_def f32_nan_def)
next
  case False
  define b where "b = bit_length n"
  have b: "2 ^ (b - 1) \<le> n" "n < 2 ^ b" "0 < b" using bit_length_bounds [of n] False by (simp_all add: b_def)
  have b24: "b \<le> 24"
  proof (rule ccontr)
    assume "\<not> b \<le> 24"
    then have "(2::nat) ^ 24 \<le> 2 ^ (b - 1)" by (intro power_increasing) auto
    with b(1) assms show False by simp
  qed
  define m where "m = n * 2 ^ (24 - b)"
  have "(2::nat) ^ (b - 1) * 2 ^ (24 - b) = 2 ^ 23" using b(3) b24 by (simp flip: power_add)
  then have lo: "2 ^ 23 \<le> m" using b(1) mult_le_mono1 [of "2 ^ (b - 1)" n "2 ^ (24 - b)"] by (simp add: m_def)
  have "(2::nat) ^ b * 2 ^ (24 - b) = 2 ^ 24" using b24 by (simp flip: power_add)
  then have hi: "m < 2 ^ 24" using b(2) mult_less_mono1 [of n "2 ^ b" "2 ^ (24 - b)"] by (simp add: m_def)
  have x: "f32_of_nat n = of_nat ((b + 126) * 2 ^ 23 + (m - 2 ^ 23))"
    using False b24 by (simp add: f32_of_nat_def Let_def b_def m_def)
  have e: "b + 126 < 255" and f: "m - 2 ^ 23 < 2 ^ 23" using b24 lo hi by simp_all
  have shift: "150 - (b + 126) = 24 - b" by simp
  have whole: "(if 150 \<le> b + 126 then (m - 2 ^ 23 + 2 ^ 23) * 2 ^ (b + 126 - 150) else (m - 2 ^ 23 + 2 ^ 23) div 2 ^ (150 - (b + 126))) = n"
  proof (cases "b = 24")
    case True
    then show ?thesis using lo by (simp add: m_def)
  next
    case less: False
    then have "\<not> 150 \<le> b + 126" using b24 by simp
    then show ?thesis using lo unfolding shift by (simp add: m_def)
  qed
  show ?thesis
    unfolding usize_of_f32_def Let_def x f32_bits(1,2) [OF e f] whole
    using f32_bits(3,4) [OF e f] b(3) b24 assms by (simp add: u64_max_def)
qed

text \<open>Above that width the marker is rounded, and the vector is split at the wrong place.\<close>

lemma wide_marker_is_wrong: "usize_of_f32 (f32_of_nat (2 ^ 24 + 1)) = 2 ^ 24"
  by code_simp

subsection \<open>Configuration and horizons\<close>

record spec_config =
  sp_block :: nat
  sp_p_high :: "32 word"
  sp_p_med :: "32 word"
  sp_p_min :: "32 word"
  sp_med_cap :: nat
  sp_min_cap :: nat

definition spec_config_default :: spec_config where
  "spec_config_default = \<lparr> sp_block = 8, sp_p_high = 0x3f733333, sp_p_med = 0x3f59999a, sp_p_min = 0x3f400000,
     sp_med_cap = 4, sp_min_cap = 2 \<rparr>"

definition tier_cap :: "spec_config \<Rightarrow> 32 word \<Rightarrow> nat" where
  "tier_cap cfg p = (if f32_ge p (sp_p_high cfg) then sp_block cfg
     else if f32_ge p (sp_p_med cfg) then sp_med_cap cfg
     else if f32_ge p (sp_p_min cfg) then sp_min_cap cfg else 0)"

definition op01_score :: "nat \<Rightarrow> real64 \<Rightarrow> real64 \<Rightarrow> real64 \<Rightarrow> real64" where
  "op01_score d p_accept draft_cost verify_cost =
     divide64 (times64 (of_u64 d) p_accept) (plus64 (times64 draft_cost (of_u64 d)) verify_cost)"

fun survival_sum :: "real64 list \<Rightarrow> real64 \<times> real64 \<Rightarrow> nat list \<Rightarrow> real64" where
  "survival_sum curve (tot, survival) [] = tot"
| "survival_sum curve (tot, survival) (k # ks) =
     (let p = (if k - 1 < length curve then curve ! (k - 1) else Finite 0); s = times64 survival p
      in survival_sum curve (plus64 tot s, s) ks)"

definition expected_accepted :: "real64 list \<Rightarrow> nat \<Rightarrow> real64" where
  "expected_accepted curve d = survival_sum curve (Finite 0, Finite 1) [1..<d + 1]"

definition horizon_speedup :: "real64 list \<Rightarrow> nat \<Rightarrow> real64 \<Rightarrow> real64 \<Rightarrow> real64 \<Rightarrow> real64 \<Rightarrow> real64" where
  "horizon_speedup curve d t_draft t_single alpha t_overhead =
     (let ea = expected_accepted curve d;
          t_batch = plus64 (plus64 (times64 (of_u64 d) t_draft)
            (times64 t_single (plus64 (Finite 1) (times64 alpha ea)))) t_overhead
      in divide64 (times64 (plus64 (Finite 1) ea) t_single) t_batch)"

fun best_horizon :: "(nat \<Rightarrow> real64) \<Rightarrow> nat \<times> real64 \<Rightarrow> nat list \<Rightarrow> nat" where
  "best_horizon score (best_d, best) [] = best_d"
| "best_horizon score (best_d, best) (d # ds) =
     (if less64 best (score d) then best_horizon score (d, score d) ds else best_horizon score (best_d, best) ds)"

definition optimal_horizon :: "real64 list \<Rightarrow> nat \<Rightarrow> nat" where
  "optimal_horizon curve max_d = best_horizon
     (\<lambda>d. horizon_speedup curve d (Finite 4) (Finite 32) (round_rat (35 / 100)) (Finite (3 / 2)))
     (1, Infinite True) [1..<max_d + 1]"

fun cliff_from :: "nat \<Rightarrow> nat \<Rightarrow> real64 \<Rightarrow> real64 list \<Rightarrow> nat" where
  "cliff_from i best flr [] = best"
| "cliff_from i best flr (p # ps) = (if leq64 flr p then cliff_from (Suc i) (Suc i) flr ps else best)"

definition cliff_horizon :: "real64 list \<Rightarrow> real64 \<Rightarrow> nat" where
  "cliff_horizon curve flr = cliff_from 0 0 flr curve"

definition calibrate_tiers :: "real64 list \<Rightarrow> spec_config \<Rightarrow> real64 \<Rightarrow> spec_config" where
  "calibrate_tiers curve base flr = (let cliff = max (cliff_horizon curve flr) 1 in
     base\<lparr> sp_block := cliff, sp_med_cap := max (cliff div 2) 1, sp_min_cap := 1 \<rparr>)"

text \<open>The cliff is the length of the leading run at or above the floor.\<close>

lemma cliff_from_run: "cliff_from i i flr ps = i + length (takeWhile (leq64 flr) ps)"
  by (induction ps arbitrary: i) simp_all

lemma cliff_horizon_run: "cliff_horizon curve flr = length (takeWhile (leq64 flr) curve)"
  by (simp add: cliff_horizon_def cliff_from_run)

lemma calibrated_block_pos: "0 < sp_block (calibrate_tiers curve base flr)"
  by (simp add: calibrate_tiers_def Let_def)

text \<open>The chosen horizon is beaten by no other: no score is greater than its own.\<close>

lemma best_horizon_max:
  assumes "best = Infinite True \<or> best = score best_d"
  shows "\<exists>b. (b = Infinite True \<or> b = score (best_horizon score (best_d, best) ds))
     \<and> (b = best \<or> less64 best b) \<and> (\<forall>d\<in>set ds. \<not> less64 b (score d))"
  using assms
proof (induction ds arbitrary: best_d best)
  case (Cons d ds)
  show ?case
  proof (cases "less64 best (score d)")
    case True
    obtain b where b: "b = Infinite True \<or> b = score (best_horizon score (d, score d) ds)"
      "b = score d \<or> less64 (score d) b" "\<forall>e\<in>set ds. \<not> less64 b (score e)" using Cons.IH [of "score d" d] by blast
    have "\<not> less64 b (score d)" using b(2) less64_irrefl less64_trans by blast
    moreover have "less64 best b" using b(2) True less64_trans by blast
    ultimately show ?thesis using b True by auto
  next
    case False
    obtain b where b: "b = Infinite True \<or> b = score (best_horizon score (best_d, best) ds)"
      "b = best \<or> less64 best b" "\<forall>e\<in>set ds. \<not> less64 b (score e)" using Cons.IH Cons.prems by blast
    have "\<not> less64 b (score d)" using b(2) False less64_trans by blast
    then show ?thesis using b False by auto
  qed
qed auto

subsection \<open>Telemetry\<close>

record spec_telemetry =
  te_draft_rows :: nat
  te_target_rows :: nat
  te_drafted :: nat
  te_accepted :: nat
  te_steps :: nat
  te_accepted_by_position :: "nat list"
  te_drafted_by_position :: "nat list"

definition spec_telemetry_default :: spec_telemetry where
  "spec_telemetry_default = \<lparr> te_draft_rows = 0, te_target_rows = 0, te_drafted = 0, te_accepted = 0, te_steps = 0,
     te_accepted_by_position = [], te_drafted_by_position = [] \<rparr>"

definition max_tracked_horizon :: nat where
  "max_tracked_horizon = 16"

definition grow :: "nat \<Rightarrow> nat list \<Rightarrow> nat list" where
  "grow j xs = xs @ replicate (Suc j - length xs) 0"

definition track_position :: "nat \<Rightarrow> nat \<Rightarrow> nat list \<times> nat list \<Rightarrow> nat list \<times> nat list" where
  "track_position accepted j s = (case s of (ac, drf) \<Rightarrow>
     let drf = grow j drf; ac = grow j ac
     in (if j < accepted then ac[j := ac ! j + 1] else ac, drf[j := drf ! j + 1]))"

definition track_positions :: "nat \<Rightarrow> nat \<Rightarrow> nat list \<times> nat list \<Rightarrow> nat list \<times> nat list" where
  "track_positions accepted n s = fold (track_position accepted) [0..<min n max_tracked_horizon] s"

definition note_step :: "nat \<Rightarrow> nat \<Rightarrow> spec_telemetry \<Rightarrow> spec_telemetry" where
  "note_step drafts accepted t =
     (let (ac, drf) = track_positions accepted drafts (te_accepted_by_position t, te_drafted_by_position t)
      in t\<lparr> te_draft_rows := te_draft_rows t + drafts, te_drafted := te_drafted t + drafts,
            te_target_rows := te_target_rows t + 1, te_steps := te_steps t + 1,
            te_accepted := te_accepted t + accepted, te_accepted_by_position := ac, te_drafted_by_position := drf \<rparr>)"

definition acceptance_curve :: "spec_telemetry \<Rightarrow> real64 list" where
  "acceptance_curve t = map (\<lambda>(ac, dr). if dr = 0 then Finite 0 else divide64 (of_u64 ac) (of_u64 dr))
     (zip (te_accepted_by_position t) (te_drafted_by_position t))"

definition telemetry_cliff :: "real64 \<Rightarrow> spec_telemetry \<Rightarrow> nat" where
  "telemetry_cliff flr t = cliff_horizon (acceptance_curve t) flr"

definition acceptance_length :: "spec_telemetry \<Rightarrow> real64" where
  "acceptance_length t = (if te_target_rows t = 0 then Finite 0
     else divide64 (plus64 (of_u64 (te_accepted t)) (of_u64 (te_target_rows t))) (of_u64 (te_target_rows t)))"

definition bytes_per_accepted :: "real64 \<Rightarrow> real64 \<Rightarrow> spec_telemetry \<Rightarrow> real64" where
  "bytes_per_accepted draft_bytes target_bytes t =
     divide64 (plus64 (times64 (of_u64 (te_draft_rows t)) draft_bytes) (times64 (of_u64 (te_target_rows t)) target_bytes))
       (of_u64 (max (te_accepted t + te_target_rows t) 1))"

definition speedup_vs_target_only :: "real64 \<Rightarrow> real64 \<Rightarrow> spec_telemetry \<Rightarrow> real64" where
  "speedup_vs_target_only draft_bytes target_bytes t =
     (if bytes_per_accepted draft_bytes target_bytes t = Finite 0 then Finite 0
      else divide64 target_bytes (bytes_per_accepted draft_bytes target_bytes t))"

subsection \<open>The wrapped model\<close>

record speculative =
  spc_draft :: serve_model
  spc_target :: serve_model
  spc_cfg :: spec_config
  spc_telemetry :: spec_telemetry

definition speculative_new :: "serve_model \<Rightarrow> serve_model \<Rightarrow> spec_config \<Rightarrow> speculative" where
  "speculative_new draft target cfg = \<lparr> spc_draft = draft, spc_target = target, spc_cfg = cfg,
     spc_telemetry = spec_telemetry_default \<rparr>"

definition set_spec_config :: "spec_config \<Rightarrow> speculative \<Rightarrow> speculative" where
  "set_spec_config cfg m = m\<lparr> spc_cfg := cfg \<rparr>"

definition calibrate :: "spec_config \<Rightarrow> real64 \<Rightarrow> speculative \<Rightarrow> (spec_config \<times> real64 list) option \<times> speculative" where
  "calibrate base flr m =
     (let curve = acceptance_curve (spc_telemetry m) in
      if length curve < 2 \<or> (\<forall>p\<in>set curve. leq64 p (Finite 0)) then (None, m)
      else let cfg = calibrate_tiers curve base flr
           in (Some (cfg, curve), (set_spec_config cfg m)\<lparr> spc_telemetry := spec_telemetry_default \<rparr>))"

definition pack_hidden :: "hidden \<Rightarrow> hidden \<Rightarrow> hidden" where
  "pack_hidden t d = t @ d @ [f32_of_nat (length t)]"

definition unpack_hidden :: "hidden \<Rightarrow> (hidden \<times> hidden) option" where
  "unpack_hidden h = (if h = [] then None
     else let t_len = usize_of_f32 (last h) in
       if length h \<le> t_len then None else Some (take t_len h, drop t_len (butlast h)))"

lemma unpack_pack: "length t < 2 ^ 24 \<Longrightarrow> unpack_hidden (pack_hidden t d) = Some (t, d)"
  by (simp add: unpack_hidden_def pack_hidden_def Let_def width_round_trip butlast_append)

fun draft_loop ::
  "serve_model \<Rightarrow> token \<Rightarrow> (logits \<Rightarrow> token \<Rightarrow> 32 word) \<Rightarrow> spec_config \<Rightarrow> nat \<Rightarrow> hidden \<Rightarrow> token \<Rightarrow> token list \<Rightarrow> hidden list
     \<Rightarrow> (token list \<times> hidden list) option" where
  "draft_loop draft eos prob cfg 0 d next drafts traj = Some (drafts, traj)"
| "draft_loop draft eos prob cfg (Suc n) d next drafts traj = (case sm_batch_step draft [(d, next)] of
     [] \<Rightarrow> None
   | out # _ \<Rightarrow>
       let traj = traj @ [so_next out]; cand = argmax (so_logits out) in
       if length (so_logits out) \<le> unat cand then None
       else let cap = tier_cap cfg (prob (so_logits out) cand) in
         if cap = 0 \<or> cap \<le> length drafts then Some (drafts, traj)
         else let drafts = drafts @ [cand] in
           if cand = eos then Some (drafts, traj)
           else draft_loop draft eos prob cfg n (so_next out) cand drafts traj)"

definition finish_trajectory :: "serve_model \<Rightarrow> token list \<times> hidden list \<Rightarrow> hidden list option" where
  "finish_trajectory draft dt = (case dt of (drafts, traj) \<Rightarrow>
     if length traj \<noteq> length drafts then Some traj
     else if drafts = [] then None
     else case sm_batch_step draft [(last traj, last drafts)] of [] \<Rightarrow> None | out # _ \<Rightarrow> Some (traj @ [so_next out]))"

fun accepted_count :: "logits list \<Rightarrow> token list \<Rightarrow> nat option" where
  "accepted_count ls [] = Some 0"
| "accepted_count [] (d # ds) = None"
| "accepted_count (l # ls) (d # ds) = (if argmax l = d then map_option Suc (accepted_count ls ds) else Some 0)"

definition last_opt :: "'a list \<Rightarrow> 'a option" where
  "last_opt xs = (if xs = [] then None else Some (last xs))"

fun packed_at :: "hidden list \<Rightarrow> hidden list \<Rightarrow> nat list \<Rightarrow> hidden list option" where
  "packed_at ts ds [] = Some []"
| "packed_at ts ds (j # js) = (case (nth_opt ts j, nth_opt ds j) of
     (Some t, Some d) \<Rightarrow> map_option (Cons (pack_hidden t d)) (packed_at ts ds js) | _ \<Rightarrow> None)"

definition settle_block ::
  "token list \<Rightarrow> hidden list \<Rightarrow> hidden list \<Rightarrow> logits list \<Rightarrow> (step_outcome \<times> nat) option" where
  "settle_block drafts d_traj t_states t_logits =
     Option.bind (accepted_count t_logits drafts) (\<lambda>accepted.
     Option.bind (if accepted = length drafts then last_opt t_states else nth_opt t_states accepted) (\<lambda>t_next.
     Option.bind (if accepted = length drafts then last_opt t_logits else nth_opt t_logits accepted) (\<lambda>logits.
     Option.bind (nth_opt d_traj accepted) (\<lambda>d_next.
     Option.bind (packed_at t_states d_traj [0]) (\<lambda>consumed.
     Option.bind (packed_at t_states d_traj [1..<accepted + 1]) (\<lambda>draft_states.
       Some (\<lparr> so_next = pack_hidden t_next d_next, so_logits = logits, so_drafts = take accepted drafts,
               so_draft_states = draft_states, so_consumed_state = consumed ! 0 \<rparr>, accepted)))))))"

definition spec_step ::
  "(logits \<Rightarrow> token \<Rightarrow> 32 word) \<Rightarrow> speculative \<Rightarrow> hidden \<Rightarrow> hidden \<Rightarrow> token \<Rightarrow> (step_outcome \<times> speculative) option" where
  "spec_step prob m t_h d_h token =
     Option.bind (draft_loop (spc_draft m) (sm_eos (spc_target m)) prob (spc_cfg m) (sp_block (spc_cfg m)) d_h token [] [])
       (\<lambda>(drafts, traj).
     Option.bind (finish_trajectory (spc_draft m) (drafts, traj)) (\<lambda>d_traj.
     case sm_prefill_batch (spc_target m) [(t_h, token # drafts)] of
       [] \<Rightarrow> None
     | (t_states, t_logits) # _ \<Rightarrow>
         map_option (\<lambda>(out, accepted). (out, m\<lparr> spc_telemetry := note_step (length drafts) accepted (spc_telemetry m) \<rparr>))
           (settle_block drafts d_traj t_states t_logits)))"

fun spec_batch_step ::
  "(logits \<Rightarrow> token \<Rightarrow> 32 word) \<Rightarrow> (hidden \<times> token) list \<Rightarrow> speculative \<Rightarrow> (step_outcome list \<times> speculative) option" where
  "spec_batch_step prob [] m = Some ([], m)"
| "spec_batch_step prob ((h, t) # ins) m =
     Option.bind (unpack_hidden h) (\<lambda>(t_h, d_h).
     Option.bind (spec_step prob m t_h d_h t) (\<lambda>(out, m').
     map_option (\<lambda>(outs, m''). (out # outs, m'')) (spec_batch_step prob ins m')))"

fun draft_states :: "serve_model \<Rightarrow> hidden \<Rightarrow> token list \<Rightarrow> hidden list option" where
  "draft_states draft d [] = Some []"
| "draft_states draft d (t # ts) = (case sm_batch_step draft [(d, t)] of
     [] \<Rightarrow> None | out # _ \<Rightarrow> map_option (Cons (so_next out)) (draft_states draft (so_next out) ts))"

definition spec_prefill_row :: "speculative \<Rightarrow> hidden \<times> token list \<Rightarrow> (hidden list \<times> logits list) option" where
  "spec_prefill_row m inp = (case inp of (h, tokens) \<Rightarrow>
     Option.bind (unpack_hidden h) (\<lambda>(t_h, d_h).
     case sm_prefill_batch (spc_target m) [(t_h, tokens)] of
       [] \<Rightarrow> None
     | (t_states, t_logits) # _ \<Rightarrow>
         map_option (\<lambda>ds. (map (\<lambda>(t, d). pack_hidden t d) (zip t_states ds), t_logits))
           (draft_states (spc_draft m) d_h tokens)))"

fun collect_options :: "'a option list \<Rightarrow> 'a list option" where
  "collect_options [] = Some []"
| "collect_options (None # xs) = None"
| "collect_options (Some x # xs) = map_option (Cons x) (collect_options xs)"

definition spec_prefill_batch ::
  "(hidden \<times> token list) list \<Rightarrow> speculative \<Rightarrow> (hidden list \<times> logits list) list option" where
  "spec_prefill_batch ins m = collect_options (map (spec_prefill_row m) ins)"

definition spec_initial_hidden :: "speculative \<Rightarrow> hidden" where
  "spec_initial_hidden m = pack_hidden (sm_initial_hidden (spc_target m)) (sm_initial_hidden (spc_draft m))"

definition spec_eos :: "speculative \<Rightarrow> token" where
  "spec_eos m = sm_eos (spc_target m)"

definition spec_weight_bytes :: "speculative \<Rightarrow> nat" where
  "spec_weight_bytes m = sm_weight_bytes_per_row (spc_target m)"

subsection \<open>Exactness\<close>

lemma argmax_from_bound: "unat best < n \<Longrightarrow> i + length ls \<le> n \<Longrightarrow> unat (argmax_from i best v ls) < n"
proof (induction ls arbitrary: i best v)
  case (Cons l ls)
  have "unat (of_nat i :: 32 word) \<le> i" by (simp add: unat_of_nat)
  then have "unat (of_nat i :: 32 word) < n" using Cons.prems(2) by simp
  then show ?case using Cons by simp
qed simp

lemma argmax_bound: "ls \<noteq> [] \<Longrightarrow> unat (argmax ls) < length ls"
  unfolding argmax_def by (rule argmax_from_bound) simp_all

text \<open>The hypotheses of a step: both models work row by row, the draft has a vocabulary, the block is not
  empty.\<close>

definition spec_ok ::
  "(hidden \<Rightarrow> token \<Rightarrow> hidden) \<Rightarrow> (hidden \<Rightarrow> token \<Rightarrow> logits) \<Rightarrow> (hidden \<Rightarrow> token \<Rightarrow> hidden) \<Rightarrow> (hidden \<Rightarrow> token \<Rightarrow> logits)
     \<Rightarrow> speculative \<Rightarrow> bool" where
  "spec_ok nx lg dn dl m \<longleftrightarrow> plain_model nx lg (spc_target m) \<and> plain_model dn dl (spc_draft m)
     \<and> (\<forall>h t. dl h t \<noteq> []) \<and> 0 < sp_block (spc_cfg m)"

lemma plain_single: "plain_model nx lg m \<Longrightarrow> sm_batch_step m [(h, t)] = [plain_outcome (nx h t) (lg h t)]"
  by (simp add: plain_model_def)

lemma plain_outcome_simps [simp]: "so_next (plain_outcome n l) = n" "so_logits (plain_outcome n l) = l"
  by (simp_all add: plain_outcome_def)

text \<open>What drafting leaves: some tokens, at most the block, and the draft's states along them, with or
  without the last.\<close>

lemma draft_loop_trajectory:
  assumes plain: "plain_model dn dl draft" "\<forall>h t. dl h t \<noteq> []"
    and traj: "traj = map (\<lambda>j. foldl dn d0 (take (Suc j) (t0 # drafts))) [0..<length drafts]"
    and d: "d = foldl dn d0 (butlast (t0 # drafts))" "next = last (t0 # drafts)"
  shows "\<exists>ds ds' traj'. draft_loop draft eos prob cfg n d next drafts traj = Some (ds, traj')
     \<and> ds = drafts @ ds' \<and> length ds \<le> length drafts + n
     \<and> traj' = map (\<lambda>j. foldl dn d0 (take (Suc j) (t0 # ds))) [0..<length traj']
     \<and> (length traj' = length ds \<or> length traj' = Suc (length ds)) \<and> (0 < n \<longrightarrow> traj' \<noteq> [])"
  using traj d
proof (induction n arbitrary: d "next" drafts traj)
  case 0
  then show ?case by auto
next
  case (Suc n)
  let ?d = "dn d next" and ?c = "argmax (dl d next)"
  have d': "?d = foldl dn d0 (t0 # drafts)"
    using Suc.prems(2,3) append_butlast_last_id [of "t0 # drafts"]
    by (metis foldl_append foldl_Cons foldl_Nil list.distinct(1))
  have traj': "traj @ [?d] = map (\<lambda>j. foldl dn d0 (take (Suc j) (t0 # drafts @ xs))) [0..<Suc (length drafts)]" for xs
    using Suc.prems(1) d' by simp
  have bound: "\<not> length (dl d next) \<le> unat ?c" using argmax_bound plain(2) by (simp add: not_le)
  have len: "length (traj @ [?d]) = Suc (length drafts)" using Suc.prems(1) by simp
  show ?case
  proof (cases "tier_cap cfg (prob (dl d next) ?c) = 0 \<or> tier_cap cfg (prob (dl d next) ?c) \<le> length drafts")
    case True
    then have "draft_loop draft eos prob cfg (Suc n) d next drafts traj = Some (drafts, traj @ [?d])"
      using bound by (simp add: plain_single [OF plain(1)] Let_def)
    then show ?thesis using traj' [of "[]"] len by (intro exI [of _ drafts] exI [of _ "[]"] exI [of _ "traj @ [?d]"]) (simp del: draft_loop.simps upt_Suc)
  next
    case cap: False
    show ?thesis
    proof (cases "?c = eos")
      case True
      then have "draft_loop draft eos prob cfg (Suc n) d next drafts traj = Some (drafts @ [?c], traj @ [?d])"
        using bound cap by (simp add: plain_single [OF plain(1)] Let_def)
      then show ?thesis using traj' [of "[?c]"] len
        by (intro exI [of _ "drafts @ [?c]"] exI [of _ "[?c]"] exI [of _ "traj @ [?d]"]) (simp del: draft_loop.simps upt_Suc)
    next
      case False
      then have run: "draft_loop draft eos prob cfg (Suc n) d next drafts traj
          = draft_loop draft eos prob cfg n ?d ?c (drafts @ [?c]) (traj @ [?d])"
        using bound cap by (simp add: plain_single [OF plain(1)] Let_def)
      have pre: "traj @ [?d] = map (\<lambda>j. foldl dn d0 (take (Suc j) (t0 # drafts @ [?c]))) [0..<length (drafts @ [?c])]"
        using traj' [of "[?c]"] by simp
      have "?d = foldl dn d0 (butlast (t0 # drafts @ [?c]))" "?c = last (t0 # drafts @ [?c])"
        using d' by (simp_all add: butlast_append)
      from Suc.IH [OF pre this] obtain ds ds' tr where
        *: "draft_loop draft eos prob cfg n ?d ?c (drafts @ [?c]) (traj @ [?d]) = Some (ds, tr)"
           "ds = (drafts @ [?c]) @ ds'" "length ds \<le> length (drafts @ [?c]) + n"
           "tr = map (\<lambda>j. foldl dn d0 (take (Suc j) (t0 # ds))) [0..<length tr]"
           "length tr = length ds \<or> length tr = Suc (length ds)" by blast
      then have "tr \<noteq> []" by auto
      then show ?thesis unfolding run using * by (intro exI [of _ ds] exI [of _ "?c # ds'"] exI [of _ tr]) simp
    qed
  qed
qed

lemma finish_trajectory_full:
  assumes plain: "plain_model dn dl draft" and "traj \<noteq> []"
    and traj: "traj = map (\<lambda>j. foldl dn d0 (take (Suc j) (t0 # ds))) [0..<length traj]"
    and len: "length traj = length ds \<or> length traj = Suc (length ds)"
  shows "finish_trajectory draft (ds, traj) = Some (map (\<lambda>j. foldl dn d0 (take (Suc j) (t0 # ds))) [0..<Suc (length ds)])"
proof (cases "length traj = length ds")
  case True
  have ds: "ds \<noteq> []" using True assms(2) by auto
  then obtain k where k: "length ds = Suc k" by (cases ds) auto
  have "last traj = traj ! k" using True k assms(2) by (simp add: last_conv_nth)
  also have "\<dots> = foldl dn d0 (take (Suc k) (t0 # ds))" using arg_cong [OF traj, of "\<lambda>xs. xs ! k"] True k by (simp del: upt_Suc)
  also have "take (Suc k) (t0 # ds) = butlast (t0 # ds)" using k by (simp add: butlast_conv_take)
  finally have last: "last traj = foldl dn d0 (butlast (t0 # ds))" .
  have "t0 # ds = butlast (t0 # ds) @ [last ds]" using ds by simp
  then have "dn (last traj) (last ds) = foldl dn d0 (t0 # ds)" unfolding last by (metis foldl_append foldl_Cons foldl_Nil)
  then show ?thesis using True ds traj by (simp add: finish_trajectory_def plain_single [OF plain])
next
  case False
  then show ?thesis using len traj by (auto simp: finish_trajectory_def)
qed

text \<open>Greedy choices at the positions of a token list: \<open>greedy_from\<close> says that every token of \<open>ds\<close> is the
  target's own choice after what comes before it.\<close>

definition target_choice ::
  "(hidden \<Rightarrow> token \<Rightarrow> hidden) \<Rightarrow> (hidden \<Rightarrow> token \<Rightarrow> logits) \<Rightarrow> hidden \<Rightarrow> token \<Rightarrow> token list \<Rightarrow> token" where
  "target_choice nx lg h t ds = argmax (lg (foldl nx h (butlast (t # ds))) (last (t # ds)))"

lemma accepted_count_spec:
  assumes "ls = map (\<lambda>j. lg (foldl nx h (take j (t # ds))) ((t # ds) ! j)) [0..<Suc (length ds)]"
  shows "\<exists>a. accepted_count ls ds = Some a \<and> a \<le> length ds
     \<and> (\<forall>j<a. ds ! j = argmax (ls ! j)) \<and> (a < length ds \<longrightarrow> argmax (ls ! a) \<noteq> ds ! a)"
proof -
  have "\<exists>a. accepted_count ls ds = Some a \<and> a \<le> length ds
     \<and> (\<forall>j<a. ds ! j = argmax (ls ! j)) \<and> (a < length ds \<longrightarrow> argmax (ls ! a) \<noteq> ds ! a)"
    if "length ds < length ls" for ls ds
    using that
  proof (induction ls ds rule: accepted_count.induct)
    case (3 l ls d ds)
    show ?case
    proof (cases "argmax l = d")
      case True
      then obtain a where a: "accepted_count ls ds = Some a" "a \<le> length ds" "\<forall>j<a. ds ! j = argmax (ls ! j)"
          "a < length ds \<longrightarrow> argmax (ls ! a) \<noteq> ds ! a" using 3 by auto
      have "\<forall>j<Suc a. (d # ds) ! j = argmax ((l # ls) ! j)" using a(3) True by (auto simp: less_Suc_eq_0_disj)
      then show ?thesis using a True by auto
    qed simp
  qed auto
  then show ?thesis using assms by simp
qed

lemma take_cons:
  assumes "j \<le> length ds"
  shows "butlast (t # take j ds) = take j (t # ds)" "last (t # take j ds) = (t # ds) ! j"
  using assms by (cases j; simp add: take_Suc_conv_app_nth butlast_append)+

lemma packed_at_map:
  "\<forall>j\<in>set js. j < length ts \<and> j < length ds \<Longrightarrow> packed_at ts ds js = Some (map (\<lambda>j. pack_hidden (ts ! j) (ds ! j)) js)"
  by (induction js) (auto simp: nth_opt_def)

text \<open>The states of both models after a list of tokens, as they travel.\<close>

definition packed_after ::
  "(hidden \<Rightarrow> token \<Rightarrow> hidden) \<Rightarrow> (hidden \<Rightarrow> token \<Rightarrow> hidden) \<Rightarrow> hidden \<Rightarrow> hidden \<Rightarrow> token list \<Rightarrow> hidden" where
  "packed_after nx dn t_h d_h ts = pack_hidden (foldl nx t_h ts) (foldl dn d_h ts)"

lemma chunk_row_map:
  "chunk_row nx lg h ts = (map (\<lambda>j. foldl nx h (take (Suc j) ts)) [0..<length ts],
     map (\<lambda>j. lg (foldl nx h (take j ts)) (ts ! j)) [0..<length ts])"
  by (intro prod_eqI nth_equalityI) (simp_all add: length_chunk_row chunk_row_foldl)

text \<open>What the draft model proposes after an input token.\<close>

definition proposal :: "(logits \<Rightarrow> token \<Rightarrow> 32 word) \<Rightarrow> speculative \<Rightarrow> hidden \<Rightarrow> token \<Rightarrow> token list option" where
  "proposal prob m d_h t = map_option fst
     (draft_loop (spc_draft m) (sm_eos (spc_target m)) prob (spc_cfg m) (sp_block (spc_cfg m)) d_h t [] [])"

text \<open>\<open>longest\<close> says that \<open>k\<close> is the length of the longest prefix of the proposal the target agrees with,
  where \<open>choice j\<close> is its own choice after \<open>j\<close> proposed tokens.\<close>

definition longest :: "(nat \<Rightarrow> token) \<Rightarrow> token list \<Rightarrow> nat \<Rightarrow> bool" where
  "longest choice ds k \<longleftrightarrow> k \<le> length ds \<and> (\<forall>j<k. ds ! j = choice j) \<and> (k < length ds \<longrightarrow> ds ! k \<noteq> choice k)"

definition counted_step :: "spec_telemetry \<Rightarrow> nat \<Rightarrow> spec_telemetry \<Rightarrow> bool" where
  "counted_step te k te' \<longleftrightarrow> te_target_rows te' = te_target_rows te + 1 \<and> te_steps te' = te_steps te + 1
     \<and> te_accepted te' = te_accepted te + k"

lemma counted_note: "counted_step te k (note_step n k te)"
  by (simp add: counted_step_def note_step_def split: prod.split)

lemma spec_step_exact:
  assumes ok: "spec_ok nx lg dn dl m"
  shows "\<exists>out m'. spec_step prob m t_h d_h t = Some (out, m') \<and> spec_ok nx lg dn dl m'
     \<and> spc_cfg m' = spc_cfg m \<and> spc_target m' = spc_target m \<and> spc_draft m' = spc_draft m
     \<and> counted_step (spc_telemetry m) (length (so_drafts out)) (spc_telemetry m')
     \<and> length (so_drafts out) \<le> sp_block (spc_cfg m)
     \<and> (\<exists>ds. proposal prob m d_h t = Some ds \<and> so_drafts out = take (length (so_drafts out)) ds
          \<and> longest (\<lambda>j. argmax (lg (foldl nx t_h (take j (t # ds))) ((t # ds) ! j))) ds (length (so_drafts out)))
     \<and> so_logits out = lg (foldl nx t_h (butlast (t # so_drafts out))) (last (t # so_drafts out))
     \<and> so_next out = packed_after nx dn t_h d_h (t # so_drafts out)
     \<and> so_consumed_state out = packed_after nx dn t_h d_h [t]
     \<and> so_draft_states out = map (\<lambda>j. packed_after nx dn t_h d_h (t # take (Suc j) (so_drafts out))) [0..<length (so_drafts out)]"
proof -
  let ?n = "sp_block (spc_cfg m)"
  note ok' = ok [unfolded spec_ok_def]
  obtain ds traj where dl: "draft_loop (spc_draft m) (sm_eos (spc_target m)) prob (spc_cfg m) ?n d_h t [] [] = Some (ds, traj)"
      "length ds \<le> ?n" "traj = map (\<lambda>j. foldl dn d_h (take (Suc j) (t # ds))) [0..<length traj]"
      "length traj = length ds \<or> length traj = Suc (length ds)" "traj \<noteq> []"
    using draft_loop_trajectory [of dn dl "spc_draft m" "[]" d_h t "[]" d_h t "sm_eos (spc_target m)" prob "spc_cfg m" ?n] ok'
    by auto
  let ?traj = "map (\<lambda>j. foldl dn d_h (take (Suc j) (t # ds))) [0..<Suc (length ds)]"
  have ft: "finish_trajectory (spc_draft m) (ds, traj) = Some ?traj"
    by (rule finish_trajectory_full) (use ok' dl in auto)
  let ?states = "map (\<lambda>j. foldl nx t_h (take (Suc j) (t # ds))) [0..<Suc (length ds)]"
  let ?logits = "map (\<lambda>j. lg (foldl nx t_h (take j (t # ds))) ((t # ds) ! j)) [0..<Suc (length ds)]"
  have verify: "sm_prefill_batch (spc_target m) [(t_h, t # ds)] = [(?states, ?logits)]"
    using ok' unfolding plain_model_def by (simp add: chunk_row_map del: upt_Suc)
  obtain a where a: "accepted_count ?logits ds = Some a" "a \<le> length ds" "\<forall>j<a. ds ! j = argmax (?logits ! j)"
      "a < length ds \<longrightarrow> argmax (?logits ! a) \<noteq> ds ! a"
    using accepted_count_spec [of ?logits lg nx t_h t ds] by blast
  have longest: "longest (\<lambda>j. argmax (lg (foldl nx t_h (take j (t # ds))) ((t # ds) ! j))) ds a"
    using a(2-4) by (auto simp: longest_def simp del: upt_Suc)
  let ?out = "\<lparr> so_next = packed_after nx dn t_h d_h (take (Suc a) (t # ds)),
      so_logits = lg (foldl nx t_h (take a (t # ds))) ((t # ds) ! a), so_drafts = take a ds,
      so_draft_states = map (\<lambda>j. packed_after nx dn t_h d_h (take (Suc j) (t # ds))) [1..<a + 1],
      so_consumed_state = packed_after nx dn t_h d_h [t] \<rparr>"
  have last: "(if a = length ds then last_opt ?states else nth_opt ?states a) = Some (foldl nx t_h (take (Suc a) (t # ds)))"
    using a(2) by (simp add: last_opt_def nth_opt_def del: upt_Suc) (simp add: last_conv_nth del: upt_Suc)
  have lastl: "(if a = length ds then last_opt ?logits else nth_opt ?logits a) = Some (lg (foldl nx t_h (take a (t # ds))) ((t # ds) ! a))"
    using a(2) by (simp add: last_opt_def nth_opt_def del: upt_Suc) (simp add: last_conv_nth del: upt_Suc)
  have packed: "packed_at ?states ?traj js = Some (map (\<lambda>j. packed_after nx dn t_h d_h (take (Suc j) (t # ds))) js)"
    if "\<forall>j\<in>set js. j \<le> length ds" for js
    using that by (subst packed_at_map) (auto simp: packed_after_def less_Suc_eq_le simp del: upt_Suc intro!: map_cong)
  have one: "take (Suc 0) (t # ds) = [t]" by simp
  have settle: "settle_block ds ?traj ?states ?logits = Some (?out, a)"
    using a(2) unfolding settle_block_def a(1) bind.bind_lunit last lastl
    by (simp add: packed nth_opt_def packed_after_def less_Suc_eq_le one del: upt_Suc take_Suc_Cons)
  have step: "spec_step prob m t_h d_h t = Some (?out, m\<lparr> spc_telemetry := note_step (length ds) a (spc_telemetry m) \<rparr>)"
    unfolding spec_step_def dl(1) bind.bind_lunit prod.case ft verify list.case settle by simp
  show ?thesis unfolding step
  proof (rule exI [of _ ?out], rule exI [of _ "m\<lparr> spc_telemetry := note_step (length ds) a (spc_telemetry m) \<rparr>"], intro conjI)
    show "so_logits ?out = lg (foldl nx t_h (butlast (t # so_drafts ?out))) (last (t # so_drafts ?out))"
      using take_cons [OF a(2), of t] by simp
    show "counted_step (spc_telemetry m) (length (so_drafts ?out))
        (spc_telemetry (m\<lparr> spc_telemetry := note_step (length ds) a (spc_telemetry m) \<rparr>))"
      using a(2) by (simp add: counted_note min_absorb2)
    show "\<exists>ds. proposal prob m d_h t = Some ds \<and> so_drafts ?out = take (length (so_drafts ?out)) ds
          \<and> longest (\<lambda>j. argmax (lg (foldl nx t_h (take j (t # ds))) ((t # ds) ! j))) ds (length (so_drafts ?out))"
      using a(2) longest dl(1) by (intro exI [of _ ds]) (simp add: proposal_def min_absorb2)
    show "so_draft_states ?out = map (\<lambda>j. packed_after nx dn t_h d_h (t # take (Suc j) (so_drafts ?out))) [0..<length (so_drafts ?out)]"
      by (rule nth_equalityI) (use a(2) in \<open>simp_all add: min_absorb1 del: upt_Suc\<close>)
  qed (use ok a dl(2) in \<open>auto simp: spec_ok_def min_def\<close>)
qed

subsection \<open>Whole streams\<close>

text \<open>The driver of the trait: a step consumes the last token of the stream and appends the accepted drafts
  and the sampled token.\<close>

fun spec_decode ::
  "(logits \<Rightarrow> token \<Rightarrow> 32 word) \<Rightarrow> nat \<Rightarrow> speculative \<Rightarrow> hidden \<Rightarrow> token list \<Rightarrow> (token list \<times> hidden \<times> speculative) option" where
  "spec_decode prob 0 m h stream = Some (stream, h, m)"
| "spec_decode prob (Suc n) m h stream =
     Option.bind (spec_batch_step prob [(h, last stream)] m) (\<lambda>(outs, m').
       spec_decode prob n m' (so_next (outs ! 0)) (stream @ so_drafts (outs ! 0) @ [argmax (so_logits (outs ! 0))]))"

text \<open>The target on its own: one greedy token after the other.\<close>

fun greedy_chain ::
  "(hidden \<Rightarrow> token \<Rightarrow> hidden) \<Rightarrow> (hidden \<Rightarrow> token \<Rightarrow> logits) \<Rightarrow> serve_model \<Rightarrow> nat \<Rightarrow> token list \<Rightarrow> token list" where
  "greedy_chain nx lg tm 0 ts = ts"
| "greedy_chain nx lg tm (Suc n) ts = greedy_chain nx lg tm n (ts @ [argmax (predict nx lg tm ts)])"

lemma greedy_chain_add: "greedy_chain nx lg tm (i + j) ts = greedy_chain nx lg tm j (greedy_chain nx lg tm i ts)"
  by (induction i arbitrary: ts) simp_all

lemma length_greedy_chain [simp]: "length (greedy_chain nx lg tm n ts) = length ts + n"
  by (induction n arbitrary: ts) simp_all

lemma greedy_chain_choices:
  assumes "\<forall>j<length ds. ds ! j = argmax (predict nx lg tm (ts @ take j ds))"
  shows "greedy_chain nx lg tm (length ds) ts = ts @ ds"
  using assms
proof (induction ds arbitrary: ts)
  case (Cons d ds)
  have d: "d = argmax (predict nx lg tm ts)" using Cons.prems by force
  have "\<forall>j<length ds. ds ! j = argmax (predict nx lg tm ((ts @ [d]) @ take j ds))"
    using Cons.prems by (metis Suc_less_eq append.assoc append_Cons append_Nil length_Cons nth_Cons_Suc take_Suc_Cons)
  then have "greedy_chain nx lg tm (length ds) (ts @ [d]) = ts @ d # ds" using Cons.IH [of "ts @ [d]"] by simp
  then show ?case using d by simp
qed simp

definition packed_prefix ::
  "(hidden \<Rightarrow> token \<Rightarrow> hidden) \<Rightarrow> (hidden \<Rightarrow> token \<Rightarrow> hidden) \<Rightarrow> speculative \<Rightarrow> token list \<Rightarrow> hidden" where
  "packed_prefix nx dn m ts = packed_after nx dn (sm_initial_hidden (spc_target m)) (sm_initial_hidden (spc_draft m)) ts"

text \<open>The marker of a packed state is exact while the target's states are narrower than \<open>2^24\<close>.\<close>

definition narrow :: "(hidden \<Rightarrow> token \<Rightarrow> hidden) \<Rightarrow> serve_model \<Rightarrow> bool" where
  "narrow nx tm \<longleftrightarrow> length (sm_initial_hidden tm) < 2 ^ 24 \<and> (\<forall>h t. length (nx h t) < 2 ^ 24)"

lemma narrow_foldl: "narrow nx tm \<Longrightarrow> length (foldl nx (sm_initial_hidden tm) ts) < 2 ^ 24"
  by (cases ts rule: rev_cases) (simp_all add: narrow_def)

text \<open>What a speculative step promises after the tokens \<open>ts\<close> for the input token \<open>t\<close>: the drafts are the longest
  prefix of the proposal that the target would have chosen itself, the logits are the target's after
  them, and every state returned is that of both models at its position.\<close>

definition exact_outcome ::
  "(hidden \<Rightarrow> token \<Rightarrow> hidden) \<Rightarrow> (hidden \<Rightarrow> token \<Rightarrow> logits) \<Rightarrow> (hidden \<Rightarrow> token \<Rightarrow> hidden) \<Rightarrow> (logits \<Rightarrow> token \<Rightarrow> 32 word)
     \<Rightarrow> speculative \<Rightarrow> token list \<Rightarrow> token \<Rightarrow> step_outcome \<Rightarrow> bool" where
  "exact_outcome nx lg dn prob m ts t out \<longleftrightarrow>
     (\<exists>ds. proposal prob m (foldl dn (sm_initial_hidden (spc_draft m)) ts) t = Some ds
        \<and> so_drafts out = take (length (so_drafts out)) ds
        \<and> longest (\<lambda>j. argmax (predict nx lg (spc_target m) ((ts @ [t]) @ take j ds))) ds (length (so_drafts out)))
     \<and> length (so_drafts out) \<le> sp_block (spc_cfg m)
     \<and> so_logits out = predict nx lg (spc_target m) ((ts @ [t]) @ so_drafts out)
     \<and> so_next out = packed_prefix nx dn m (ts @ t # so_drafts out)
     \<and> so_consumed_state out = packed_prefix nx dn m (ts @ [t])
     \<and> so_draft_states out = map (\<lambda>j. packed_prefix nx dn m (ts @ t # take (Suc j) (so_drafts out))) [0..<length (so_drafts out)]"

lemma exact_outcome_choices:
  assumes "exact_outcome nx lg dn prob m ts t out"
  shows "\<forall>j<length (so_drafts out). so_drafts out ! j = argmax (predict nx lg (spc_target m) ((ts @ [t]) @ take j (so_drafts out)))"
proof -
  obtain ds where ds: "so_drafts out = take (length (so_drafts out)) ds"
      "\<forall>j<length (so_drafts out). ds ! j = argmax (predict nx lg (spc_target m) ((ts @ [t]) @ take j ds))"
    using assms by (auto simp: exact_outcome_def longest_def)
  have "so_drafts out ! j = ds ! j" "take j (so_drafts out) = take j ds" if "j < length (so_drafts out)" for j
    using that by (subst ds(1), simp)+
  then show ?thesis using ds(2) by simp
qed

lemma spec_batch_single:
  assumes ok: "spec_ok nx lg dn dl m" and "narrow nx (spc_target m)"
  shows "\<exists>out m'. spec_step prob m (foldl nx (sm_initial_hidden (spc_target m)) ts) (foldl dn (sm_initial_hidden (spc_draft m)) ts) t
        = Some (out, m')
     \<and> unpack_hidden (packed_prefix nx dn m ts)
        = Some (foldl nx (sm_initial_hidden (spc_target m)) ts, foldl dn (sm_initial_hidden (spc_draft m)) ts)
     \<and> spec_ok nx lg dn dl m' \<and> spc_cfg m' = spc_cfg m \<and> spc_target m' = spc_target m \<and> spc_draft m' = spc_draft m
     \<and> counted_step (spc_telemetry m) (length (so_drafts out)) (spc_telemetry m')
     \<and> exact_outcome nx lg dn prob m ts t out"
proof -
  let ?th = "foldl nx (sm_initial_hidden (spc_target m)) ts" and ?dh = "foldl dn (sm_initial_hidden (spc_draft m)) ts"
  have unpack: "unpack_hidden (packed_prefix nx dn m ts) = Some (?th, ?dh)"
    using narrow_foldl [OF assms(2)] by (simp add: packed_prefix_def packed_after_def unpack_pack)
  obtain out m' ds where *: "spec_step prob m ?th ?dh t = Some (out, m')" "spec_ok nx lg dn dl m'"
     "spc_cfg m' = spc_cfg m" "spc_target m' = spc_target m" "spc_draft m' = spc_draft m"
     "counted_step (spc_telemetry m) (length (so_drafts out)) (spc_telemetry m')"
     "length (so_drafts out) \<le> sp_block (spc_cfg m)"
     "so_logits out = lg (foldl nx ?th (butlast (t # so_drafts out))) (last (t # so_drafts out))"
     "so_next out = packed_after nx dn ?th ?dh (t # so_drafts out)"
     "so_consumed_state out = packed_after nx dn ?th ?dh [t]"
     "so_draft_states out = map (\<lambda>j. packed_after nx dn ?th ?dh (t # take (Suc j) (so_drafts out))) [0..<length (so_drafts out)]"
     and ds: "proposal prob m ?dh t = Some ds" "so_drafts out = take (length (so_drafts out)) ds"
     "longest (\<lambda>j. argmax (lg (foldl nx ?th (take j (t # ds))) ((t # ds) ! j))) ds (length (so_drafts out))"
    using spec_step_exact [OF ok, of prob ?th ?dh t] by blast
  have predict: "predict nx lg (spc_target m) ((ts @ [t]) @ us) = lg (foldl nx ?th (butlast (t # us))) (last (t # us))" for us
    by (simp add: predict_def state_after_def butlast_append)
  have "lg (foldl nx ?th (take j (t # ds))) ((t # ds) ! j) = predict nx lg (spc_target m) ((ts @ [t]) @ take j ds)"
    if "j \<le> length ds" for j
    unfolding predict using take_cons [OF that, of t] by simp
  then have "longest (\<lambda>j. argmax (predict nx lg (spc_target m) ((ts @ [t]) @ take j ds))) ds (length (so_drafts out))"
    using ds(3) by (simp add: longest_def)
  then have "exact_outcome nx lg dn prob m ts t out"
    unfolding exact_outcome_def predict using *(7-11) ds(1,2) by (simp add: packed_prefix_def packed_after_def)
  with *(1-6) unpack show ?thesis by blast
qed

lemma packed_prefix_same: "spc_draft m' = spc_draft m \<Longrightarrow> spc_target m' = spc_target m \<Longrightarrow> packed_prefix nx dn m' = packed_prefix nx dn m"
  by (rule ext) (simp add: packed_prefix_def)

text \<open>C38: speculation is exact.  Let both models work row by row and return no drafts, the
  draft's logits not be empty, the block be positive and the target's states be narrower than \<open>2^24\<close>.
  Then, whatever the draft proposes and whatever probability it gives to it, \<open>n\<close> speculative steps from
  the packed state before the last token of a stream do not fail, and the stream they give is the one
  the target alone decodes greedily, between \<open>n\<close> and \<open>n * (block + 1)\<close> tokens further; the state returned
  is that of both models before the last token.  The telemetry is right: one target pass per step, and
  the tokens won are the steps and the accepted drafts.\<close>

theorem speculative_streams_are_greedy:
  assumes "spec_ok nx lg dn dl m" "narrow nx (spc_target m)"
  shows "\<exists>k m'. n \<le> k \<and> k \<le> n * (sp_block (spc_cfg m) + 1)
     \<and> spec_decode prob n m (packed_prefix nx dn m ts) (ts @ [t])
       = Some (greedy_chain nx lg (spc_target m) k (ts @ [t]),
               packed_prefix nx dn m (butlast (greedy_chain nx lg (spc_target m) k (ts @ [t]))), m')
     \<and> te_target_rows (spc_telemetry m') = te_target_rows (spc_telemetry m) + n
     \<and> te_accepted (spc_telemetry m') + n = te_accepted (spc_telemetry m) + k"
  using assms
proof (induction n arbitrary: m ts t)
  case 0
  then show ?case by (intro exI [of _ 0]) simp
next
  case (Suc n)
  let ?T = "spc_target m"
  obtain out m' where step: "spec_step prob m (foldl nx (sm_initial_hidden ?T) ts)
        (foldl dn (sm_initial_hidden (spc_draft m)) ts) t = Some (out, m')"
     "unpack_hidden (packed_prefix nx dn m ts)
        = Some (foldl nx (sm_initial_hidden ?T) ts, foldl dn (sm_initial_hidden (spc_draft m)) ts)"
     and same: "spec_ok nx lg dn dl m'" "spc_cfg m' = spc_cfg m" "spc_target m' = ?T" "spc_draft m' = spc_draft m"
     and te: "counted_step (spc_telemetry m) (length (so_drafts out)) (spc_telemetry m')"
     and out: "exact_outcome nx lg dn prob m ts t out"
    using spec_batch_single [OF Suc.prems, of prob ts t] by blast
  let ?ds = "so_drafts out" and ?c = "argmax (so_logits out)"
  have logits: "so_logits out = predict nx lg ?T ((ts @ [t]) @ ?ds)" and "next": "so_next out = packed_prefix nx dn m (ts @ t # ?ds)"
    and block: "length ?ds \<le> sp_block (spc_cfg m)" using out by (simp_all add: exact_outcome_def)
  have chain: "greedy_chain nx lg ?T (length ?ds + 1) (ts @ [t]) = (ts @ t # ?ds) @ [?c]"
    unfolding greedy_chain_add greedy_chain_choices [OF exact_outcome_choices [OF out]] by (simp add: logits)
  have "narrow nx (spc_target m')" using Suc.prems(2) same(3) by simp
  from Suc.IH [OF same(1) this, of "ts @ t # ?ds" ?c] obtain k m'' where k: "n \<le> k" "k \<le> n * (sp_block (spc_cfg m) + 1)"
     "spec_decode prob n m' (packed_prefix nx dn m (ts @ t # ?ds)) ((ts @ t # ?ds) @ [?c])
       = Some (greedy_chain nx lg ?T k ((ts @ t # ?ds) @ [?c]),
               packed_prefix nx dn m (butlast (greedy_chain nx lg ?T k ((ts @ t # ?ds) @ [?c]))), m'')"
     and te': "te_target_rows (spc_telemetry m'') = te_target_rows (spc_telemetry m') + n"
       "te_accepted (spc_telemetry m'') + n = te_accepted (spc_telemetry m') + k"
    unfolding packed_prefix_same [OF same(4,3)] same(2,3) by blast
  have "spec_decode prob (Suc n) m (packed_prefix nx dn m ts) (ts @ [t])
      = spec_decode prob n m' (packed_prefix nx dn m (ts @ t # ?ds)) ((ts @ t # ?ds) @ [?c])"
    by (simp add: step "next")
  then have run: "spec_decode prob (Suc n) m (packed_prefix nx dn m ts) (ts @ [t])
      = Some (greedy_chain nx lg ?T ((length ?ds + 1) + k) (ts @ [t]),
              packed_prefix nx dn m (butlast (greedy_chain nx lg ?T ((length ?ds + 1) + k) (ts @ [t]))), m'')"
    unfolding greedy_chain_add [of _ _ _ "length ?ds + 1"] chain k(3) by simp
  show ?case
    by (rule exI [of _ "(length ?ds + 1) + k"], rule exI [of _ m''])
      (use run k(1,2) block te te' in \<open>simp add: algebra_simps counted_step_def\<close>)
qed

text \<open>Prefill never speculates: it returns the states of both models along the prompt.\<close>

lemma draft_states_plain: "plain_model dn dl draft \<Longrightarrow>
   draft_states draft d ts = Some (map (\<lambda>j. foldl dn d (take (Suc j) ts)) [0..<length ts])"
proof (induction ts arbitrary: d)
  case (Cons t ts)
  show ?case unfolding draft_states.simps plain_single [OF Cons.prems] list.case plain_outcome_simps
    Cons.IH [OF Cons.prems] by (simp add: upt_conv_Cons map_Suc_upt [symmetric] comp_def del: upt_Suc)
qed simp

lemma spec_prefill_exact:
  assumes "spec_ok nx lg dn dl m" "narrow nx (spc_target m)"
  shows "spec_prefill_row m (packed_prefix nx dn m us, ts)
     = Some (map (\<lambda>j. packed_prefix nx dn m (us @ take (Suc j) ts)) [0..<length ts],
         map (\<lambda>j. predict nx lg (spc_target m) (us @ take (Suc j) ts)) [0..<length ts])"
proof -
  let ?th = "foldl nx (sm_initial_hidden (spc_target m)) us" and ?dh = "foldl dn (sm_initial_hidden (spc_draft m)) us"
  have unpack: "unpack_hidden (packed_prefix nx dn m us) = Some (?th, ?dh)"
    using narrow_foldl [OF assms(2)] by (simp add: packed_prefix_def packed_after_def unpack_pack)
  have target: "sm_prefill_batch (spc_target m) [(?th, ts)] = [chunk_row nx lg ?th ts]"
    and plain: "plain_model dn dl (spc_draft m)"
    using assms(1) by (simp_all add: spec_ok_def plain_model_def)
  have predict: "predict nx lg (spc_target m) (us @ take (Suc j) ts) = lg (foldl nx ?th (take j ts)) (ts ! j)"
    if "j < length ts" for j
    using that by (simp add: predict_def state_after_def take_Suc_conv_app_nth butlast_append)
  show ?thesis
    unfolding spec_prefill_row_def prod.case unpack bind.bind_lunit target list.case draft_states_plain [OF plain] chunk_row_map
    by (simp add: predict packed_prefix_def packed_after_def zip_map_map zip_same_conv_map)
qed

text \<open>Batches: the rows of a batch are independent, since a row changes only the telemetry.\<close>

lemma exact_outcome_same:
  "spc_draft m' = spc_draft m \<Longrightarrow> spc_target m' = spc_target m \<Longrightarrow> spc_cfg m' = spc_cfg m \<Longrightarrow>
   exact_outcome nx lg dn prob m' ts t out = exact_outcome nx lg dn prob m ts t out"
  by (simp add: exact_outcome_def proposal_def packed_prefix_same [of m' m])

lemma spec_batch_exact:
  assumes "spec_ok nx lg dn dl m" "narrow nx (spc_target m)"
  shows "\<exists>outs m'. spec_batch_step prob (map (\<lambda>(ts, t). (packed_prefix nx dn m ts, t)) rows) m = Some (outs, m')
     \<and> list_all2 (\<lambda>(ts, t). exact_outcome nx lg dn prob m ts t) rows outs
     \<and> te_target_rows (spc_telemetry m') = te_target_rows (spc_telemetry m) + length rows"
  using assms
proof (induction rows arbitrary: m)
  case (Cons row rows)
  obtain ts t where row: "row = (ts, t)" by (cases row)
  obtain out m' where step: "spec_step prob m (foldl nx (sm_initial_hidden (spc_target m)) ts)
        (foldl dn (sm_initial_hidden (spc_draft m)) ts) t = Some (out, m')"
     "unpack_hidden (packed_prefix nx dn m ts)
        = Some (foldl nx (sm_initial_hidden (spc_target m)) ts, foldl dn (sm_initial_hidden (spc_draft m)) ts)"
     and same: "spec_ok nx lg dn dl m'" "spc_cfg m' = spc_cfg m" "spc_target m' = spc_target m" "spc_draft m' = spc_draft m"
     and te: "counted_step (spc_telemetry m) (length (so_drafts out)) (spc_telemetry m')"
     and out: "exact_outcome nx lg dn prob m ts t out"
    using spec_batch_single [OF Cons.prems, of prob ts t] by blast
  have "narrow nx (spc_target m')" using Cons.prems(2) same(3) by simp
  from Cons.IH [OF same(1) this] obtain outs m'' where
    "spec_batch_step prob (map (\<lambda>(ts, t). (packed_prefix nx dn m ts, t)) rows) m' = Some (outs, m'')"
    "list_all2 (\<lambda>(ts, t). exact_outcome nx lg dn prob m ts t) rows outs"
    "te_target_rows (spc_telemetry m'') = te_target_rows (spc_telemetry m') + length rows"
    unfolding packed_prefix_same [OF same(4,3)] exact_outcome_same [OF same(4,3,2)] by blast
  then show ?case using step out te unfolding row
    by (intro exI [of _ "out # outs"] exI [of _ m'']) (simp add: counted_step_def)
qed simp

lemma collect_options_Some: "collect_options (map (\<lambda>x. Some (f x)) xs) = Some (map f xs)"
  by (induction xs) simp_all

text \<open>C39: the wrapper keeps the contract of the scheduler's model trait.  Under the same
  conditions a batch of rows, each with the packed state after some tokens and an input token, does not
  fail; for every row the drafts returned are the longest prefix of the draft model's proposal that the
  target would have chosen greedily itself, the logits are the target's after them, and the state after
  the input token, after each draft and at the end are those of both models at that position.  Prefill
  gives the packed state and the target's logits at every position of every prompt, and the initial state
  is the packed state before any token.\<close>

theorem speculative_rows_are_exact:
  assumes "spec_ok nx lg dn dl m" "narrow nx (spc_target m)"
  shows "(\<exists>outs m'. spec_batch_step prob (map (\<lambda>(ts, t). (packed_prefix nx dn m ts, t)) rows) m = Some (outs, m')
       \<and> list_all2 (\<lambda>(ts, t). exact_outcome nx lg dn prob m ts t) rows outs
       \<and> te_target_rows (spc_telemetry m') = te_target_rows (spc_telemetry m) + length rows)
    \<and> spec_prefill_batch (map (\<lambda>(ts, us). (packed_prefix nx dn m ts, us)) prompts) m
       = Some (map (\<lambda>(ts, us). (map (\<lambda>j. packed_prefix nx dn m (ts @ take (Suc j) us)) [0..<length us],
             map (\<lambda>j. predict nx lg (spc_target m) (ts @ take (Suc j) us)) [0..<length us])) prompts)
    \<and> spec_initial_hidden m = packed_prefix nx dn m []"
proof (intro conjI)
  show "spec_prefill_batch (map (\<lambda>(ts, us). (packed_prefix nx dn m ts, us)) prompts) m
       = Some (map (\<lambda>(ts, us). (map (\<lambda>j. packed_prefix nx dn m (ts @ take (Suc j) us)) [0..<length us],
             map (\<lambda>j. predict nx lg (spc_target m) (ts @ take (Suc j) us)) [0..<length us])) prompts)"
    by (simp add: spec_prefill_batch_def comp_def split_beta spec_prefill_exact [OF assms] collect_options_Some)
  show "spec_initial_hidden m = packed_prefix nx dn m []"
    by (simp add: spec_initial_hidden_def packed_prefix_def packed_after_def)
qed (rule spec_batch_exact [OF assms])

text \<open>A block of zero panics at the first step: nothing is drafted, and \<open>expect\<close> asks for the last draft.\<close>

lemma block_zero_panics: "sp_block (spc_cfg m) = 0 \<Longrightarrow> spec_step prob m t_h d_h t = None"
  by (simp add: spec_step_def finish_trajectory_def)

text \<open>The draft model is invoked once for every state of the trajectory, so once more than \<open>te_draft_rows\<close> counts.\<close>

lemma draft_calls:
  assumes "spec_ok nx lg dn dl m"
  shows "\<exists>ds traj d_traj. draft_loop (spc_draft m) (sm_eos (spc_target m)) prob (spc_cfg m) (sp_block (spc_cfg m)) d_h t [] []
       = Some (ds, traj)
     \<and> finish_trajectory (spc_draft m) (ds, traj) = Some d_traj \<and> length d_traj = Suc (length ds)"
proof -
  note ok = assms [unfolded spec_ok_def]
  obtain ds traj where dl: "draft_loop (spc_draft m) (sm_eos (spc_target m)) prob (spc_cfg m) (sp_block (spc_cfg m)) d_h t [] []
        = Some (ds, traj)"
      "traj = map (\<lambda>j. foldl dn d_h (take (Suc j) (t # ds))) [0..<length traj]"
      "length traj = length ds \<or> length traj = Suc (length ds)" "traj \<noteq> []"
    using draft_loop_trajectory [of dn dl "spc_draft m" "[]" d_h t "[]" d_h t "sm_eos (spc_target m)" prob "spc_cfg m"
        "sp_block (spc_cfg m)"] ok by auto
  have "finish_trajectory (spc_draft m) (ds, traj)
      = Some (map (\<lambda>j. foldl dn d_h (take (Suc j) (t # ds))) [0..<Suc (length ds)])"
    by (rule finish_trajectory_full) (use ok dl in auto)
  with dl(1) show ?thesis by (intro exI conjI) auto
qed

subsection \<open>A concrete pair of models\<close>

definition rowwise :: "(hidden \<Rightarrow> token \<Rightarrow> hidden) \<Rightarrow> (hidden \<Rightarrow> token \<Rightarrow> logits) \<Rightarrow> serve_model" where
  "rowwise nx lg = \<lparr> sm_batch_step = map (\<lambda>(h, t). plain_outcome (nx h t) (lg h t)),
     sm_prefill_batch = map (\<lambda>(h, ts). chunk_row nx lg h ts), sm_initial_hidden = [], sm_eos = 9, sm_weight_bytes_per_row = 1 \<rparr>"

lemma rowwise_plain: "plain_model nx lg (rowwise nx lg)"
  by (simp add: plain_model_def rowwise_def)

text \<open>The target alternates between 0 and 1; the draft expects 1 every time.\<close>

definition alternating :: "hidden \<Rightarrow> token \<Rightarrow> logits" where
  "alternating h t = (if t = 0 then [0, 0x3f800000] else [0x3f800000, 0])"

definition demo_spec :: speculative where
  "demo_spec = speculative_new (rowwise (\<lambda>h t. [t]) (\<lambda>h t. [0, 0x3f800000])) (rowwise (\<lambda>h t. [t]) alternating)
     (spec_config_default\<lparr> sp_block := 2 \<rparr>)"

lemma demo_spec_ok: "spec_ok (\<lambda>h t. [t]) alternating (\<lambda>h t. [t]) (\<lambda>h t. [0, 0x3f800000]) demo_spec"
  "narrow (\<lambda>h t. [t]) (spc_target demo_spec)"
  using rowwise_plain by (simp_all add: spec_ok_def demo_spec_def speculative_new_def spec_config_default_def narrow_def rowwise_def)

lemma speculative_streams_are_greedy_witness:
  "\<exists>k m'. 2 \<le> k \<and> k \<le> 6
     \<and> spec_decode (\<lambda>l t. 0x3f800000) 2 demo_spec (packed_prefix (\<lambda>h t. [t]) (\<lambda>h t. [t]) demo_spec []) [0]
       = Some (greedy_chain (\<lambda>h t. [t]) alternating (spc_target demo_spec) k [0],
               packed_prefix (\<lambda>h t. [t]) (\<lambda>h t. [t]) demo_spec
                 (butlast (greedy_chain (\<lambda>h t. [t]) alternating (spc_target demo_spec) k [0])), m')"
proof -
  have "sp_block (spc_cfg demo_spec) = 2" by (simp add: demo_spec_def speculative_new_def spec_config_default_def)
  with speculative_streams_are_greedy [OF demo_spec_ok, where n = 2 and ts = "[]" and t = 0 and prob = "\<lambda>l t. 0x3f800000"]
  show ?thesis by auto
qed

text \<open>The first draft is accepted, the second is not.\<close>

lemma speculative_rows_are_exact_witness:
  "\<exists>out m'. spec_batch_step (\<lambda>l t. 0x3f800000) [(packed_prefix (\<lambda>h t. [t]) (\<lambda>h t. [t]) demo_spec [1], 0)] demo_spec = Some ([out], m')
     \<and> exact_outcome (\<lambda>h t. [t]) alternating (\<lambda>h t. [t]) (\<lambda>l t. 0x3f800000) demo_spec [1] 0 out"
  using speculative_rows_are_exact [OF demo_spec_ok, where rows = "[([1], 0)]" and prompts = "[]" and prob = "\<lambda>l t. 0x3f800000"]
  by (auto simp: list_all2_Cons1)

lemma demo_spec_accepts_one:
  "\<exists>out m'. spec_step (\<lambda>l t. 0x3f800000) demo_spec [1] [1] 0 = Some (out, m') \<and> so_drafts out = [1]"
proof -
  have "(case spec_step (\<lambda>l t. 0x3f800000) demo_spec [1] [1] 0 of None \<Rightarrow> False | Some (out, m') \<Rightarrow> so_drafts out = [1])"
    by code_simp
  then show ?thesis by (auto split: option.splits)
qed

end
