(* ===== verification/Spec2Isabelle.thy ===== *)
theory Spec2Isabelle
  imports Residency_Protocol Expert_Lru Page_Store Wavefront Core_Types Memory_Machine Pinned_Pool Elastic_Budget
    Operation_Table Execution_Plan Plan_Import R4kv_Page Kv_Codec Kv_Graph Serve_Runs
    Lang_Roundtrip Lang_Compile Metabolism_Control Speculative_Model
begin

text \<open>
  A verification development for remora-lab.

  remora-lab runs language models larger than the memory of a GPU: weights, experts and key-value
  pages live on disk, move through host memory into VRAM slots, and leave again.  What has to be right
  is the bookkeeping: who holds which slot, which bytes are where, which tickets may still commit,
  which plan may run, which cached page may be trusted.  The development models that bookkeeping, the
  Rust crates under \<open>har/crates\<close>, in the order in which they build on each other.

  \<^item> \<open>Prelude\<close>: saturating and wrapping arithmetic on the ranges of \<open>u32\<close> and \<open>u64\<close>, decimal and
    hexadecimal digits, hash maps as association lists, ordered maps, and the result and state style
    of the operations (\<open>bindR\<close>, \<open>guardR\<close>, \<open>zoomR\<close>, \<dots>) with its rules for invariants (\<open>keeps\<close>) and
    for outcomes (\<open>wp\<close>).
  \<^item> Residency, \<open>har-residency\<close>.  \<open>Residency_Types\<close> (\<open>types.rs\<close>): page identities, locations, the state
    graph of a page, replicas, leases, tickets, snapshots.  \<open>Vram_Slots\<close> and \<open>Residency_Manager\<close>
    (\<open>manager.rs\<close>): the slot table and the manager with all its operations.  \<open>Residency_Safety\<close>,
    \<open>Residency_Limits\<close>, \<open>Residency_Ownership\<close> and \<open>Residency_Protocol\<close> hold their theorems: records
    stay valid, budgets are kept, every occupied slot belongs to a current page, stale tickets cannot
    commit, pages in use cannot be moved, the cold path reaches compute.
  \<^item> Its clients: \<open>Expert_Lru\<close> (\<open>expert_lru.rs\<close>), \<open>Page_Store\<close> (\<open>page_store.rs\<close>) and \<open>Wavefront\<close>
    (\<open>scheduler.rs\<close>), which drives one piece of work through the manager.
  \<^item> Plan-level memory: \<open>Core_Types\<close> (\<open>har-core/src/lib.rs\<close>: formats, capabilities, tiers, budgets),
    \<open>Memory_Machine\<close> (\<open>har-memory/src/lib.rs\<close> and \<open>har-residency/src/compat.rs\<close>), \<open>Pinned_Pool\<close>
    (\<open>pinned_pool.rs\<close>) and \<open>Elastic_Budget\<close> (\<open>elastic_budget.rs\<close>).
  \<^item> Plans: \<open>Operation_Table\<close> (\<open>har-ir\<close>: the operation table and its cycle check), \<open>Execution_Plan\<close>
    (\<open>har-plan\<close>: plans, validation, the planner) and \<open>Plan_Import\<close> (the package importer).
  \<^item> Key-value pages: \<open>Byte_Fields\<close> (little-endian fields), \<open>R4kv_Crc\<close> and \<open>R4kv_Page\<close> (\<open>r4kv\<close>:
    checksum and page container), \<open>Kv_Codec\<close>, \<open>Kv_Pages\<close> and \<open>Kv_Graph\<close> (\<open>har-kv\<close>: the lossless
    codec; identities, certificates and page records; the prefix graph with references and leases).
  \<^item> Serving, \<open>har-serve\<close>: \<open>Serve_Scheduler\<close> (\<open>adapter.rs\<close>, \<open>telemetry.rs\<close>, \<open>scheduler.rs\<close>) is the
    continuous-batching scheduler over the prefix graph.  \<open>Serve_Graph\<close>, \<open>Serve_State\<close>, \<open>Serve_Rows\<close>,
    \<open>Serve_Step\<close>, \<open>Serve_Admit\<close> and \<open>Serve_Correct\<close> build up its invariant, from the graph over the
    cache and one row to a whole step; \<open>Serve_Runs\<close> states what holds of every run: the streams are those
    of greedy decoding, no call fails under the conditions given, everything submitted is served.  These
    hold for models that do not speculate.  \<open>Speculative_Model\<close> (\<open>speculation.rs\<close>) is the wrapper that
    makes one model of a draft and a target: whatever is proposed, its streams are the target's own and
    every state it hands out is the one at its position.
  \<^item> The configuration language, \<open>har-lang-\<dots>\<close>.  \<open>Float64\<close> is the arithmetic of \<open>f64\<close>.  \<open>Lang_Lexer\<close> (with
    \<open>har-lang-diagnostics\<close> and \<open>har-lang-ast\<close>), \<open>Lang_Parser\<close> and \<open>Lang_Format\<close> are the lexer, the parser with
    its error recovery and the formatter; \<open>Lang_Roundtrip\<close> shows that what is printed is read back.
    \<open>Lang_Numbers\<close> reads numbers, \<open>Lang_Semantics\<close>, \<open>Lang_Phases\<close> and \<open>Lang_Analyze\<close> are the V0 analyser
    (\<open>har-lang-semantics/src/v0.rs\<close>), \<open>Decode_Control\<close> the decode plan and the choice of the speculation
    horizon (\<open>har-decode-control/src/language.rs\<close>), and \<open>Lang_Compile\<close> lowers accepted programs to that plan
    (\<open>har-lang-compiler/src/v0.rs\<close>).
  \<^item> The resource controller, \<open>har-metabolism\<close>.  \<open>Waste_Ledger\<close> (\<open>ledger.rs\<close>, \<open>artifact.rs\<close>, \<open>reclaim.rs\<close>,
    \<open>common.rs\<close>, \<open>error.rs\<close>): what was spent, reclaimed and credited.  \<open>Reserve_Table\<close> (\<open>reserve.rs\<close>): the
    accounts with their protected floors, debt and pressure.  \<open>Metabolism_Policy\<close> (\<open>setpoint.rs\<close>,
    \<open>surplus.rs\<close>, \<open>portion.rs\<close>, \<open>salvage.rs\<close>, \<open>baseline.rs\<close>, \<open>energy.rs\<close>, \<open>energy_measurement.rs\<close>): the
    decisions.  \<open>Metabolism_Control\<close> (\<open>clock.rs\<close>, \<open>controller.rs\<close>, \<open>snapshot.rs\<close>, \<open>trace.rs\<close> and
    \<open>har-decode-control/src/metabolism.rs\<close>): both clocks, the controller that owns the parts, trace
    replay, and the gate the decode loop calls.  The theorems say that totals are the sums of the
    entries, that an identity is credited once, that floors are kept, what observations change, and
    exactly when optional work is admitted.

  How code becomes definitions.  A struct is a record, an enum a datatype, both with the source's
  names up to a prefix that keeps selectors apart.  A method that takes \<open>&mut self\<close> and returns a
  \<open>Result\<close> is a function from the state to a pair of result and new state; where it returns early after
  a change, the model does too, so that partial effects of failed calls are visible.  Error texts are
  kept.  Counters that can wrap or saturate in a release build are naturals with the wrap written
  out, or words; the exceptions, counters that would need 2^64 calls, are named in their theories.
  A \<open>HashMap\<close> is an association list with distinct keys where its iteration order can matter, then
  the order is a parameter, and a map where it cannot.  A \<open>BTreeMap\<close> is a sorted list or a map.

  Interfaces.  What one component relies on another for is stated as a locale: \<open>map_adt\<close>, the laws of the
  maps in which the managers keep their tables; \<open>page_store\<close>, the store the scheduler reads from;
  \<open>kv_codec\<close>, the codec trait.  Each is interpreted on the model of the component that provides it,
  in that component's theory.

  Loops.  Loops over data are structural recursion or have a measure.  The depth-first search of
  \<open>Operation_Table\<close> carries fuel: one more than the number of operations is enough, because the path of
  a search has distinct operations, and \<open>operation_validate_exact\<close> shows that the search always returns.
  The rollback ladder of \<open>Elastic_Budget\<close> and the walks to the root of \<open>Kv_Graph\<close> may run for ever on
  their own and are partial functions; that they return is proved, for every budget with a valid
  policy and for every graph that calls can build.  So are the parser's loops, which would not return on
  tokens without an end of file; \<open>compile_source_answers\<close> shows that the compiler returns on every source.

  Parameters.  SHA-256 is a function argument of the scheduler, as are clock readings and the page
  source; the prefix graph takes its digest as an argument, and its theorems assume that the digest does
  not confuse two of the identities offered, which is what the code relies on.  The serving scheduler
  takes the language model as a record of the functions of its trait; its theorems assume the contract
  of the trait, that a row's outcome depends on its hidden state and token alone (\<open>plain_model\<close>), and that
  the model does not speculate.  The speculative wrapper takes two such models, and the probability it
  reads off the draft's logits is a function argument.

  The theorems.  Invariants and refinements of single components come first: they say that whatever
  sequence of calls is made, the state stays what it stands for (slots and claims, free blocks and
  handles, nodes and token sequences, bytes and counters).  Functional specifications say what a call
  does on every branch.  Round trips say that what one routine undoes or reads is what another did or
  wrote.  Some theorems record behaviour that its authors may not have meant: a refreshed cache entry
  that is evicted, a failed read that strands its page, an oversized request that wraps, a lease that
  cannot be given back twice, credit without a reclaim, debt that
  grows beyond the floor.  Sample runs in which a prompt inside a prefill chunk makes the serving scheduler
  panic, in which pins survive the end of a sequence, and in which a memory budget wraps, are lemmas of
  \<open>Serve_Runs\<close> and \<open>Lang_Compile\<close>.

  Not modelled.  Vulkan bindings, sockets and the HTTP server, process and file access, JSON and
  GGUF reading, telemetry output and measurement harnesses are input and output around this core and
  have no definition here.  Numeric kernels (quantisation, \<open>f16\<close> conversion, attention) are left out; comparisons of floats
  that decide about certificates are modelled on bit patterns (\<open>Kv_Pages\<close>), the arithmetic of the language and
  the decode plan on exact values with rounding (\<open>Float64\<close>).  Of the language, the older control lowering
  (\<open>har-lang-semantics/src/lib.rs\<close>, \<open>har-lang-compiler/src/lib.rs\<close>), the JSON text of compiled programs and the
  operation bundles are left out; of \<open>har-serve\<close> the HTTP server, the tokenizer and the numeric models behind
  the trait.  Context folding, the execution engine, the model compiler and the package tools, the runtime
  assembly, the R4KV quantizers and the repository's tools and benchmarks are left out too.
\<close>

end
